(* ===== verification/Prelude.thy ===== *)
theory Prelude
  imports
    Main
    "HOL-Library.Word"
    "HOL-Library.Char_ord"
    "HOL-Library.List_Lexorder"
    "HOL-Library.AList"
begin

text \<open>
  Shared vocabulary of the development. A C++ \<^verbatim>\<open>std::string\<close> is a list of bytes and is modelled as
  an Isabelle \<open>string\<close> (a list of 8-bit characters); its \<open>operator<\<close> compares unsigned bytes
  lexicographically, which is the order of \<^verbatim>\<open>Char_ord\<close> and \<^verbatim>\<open>List_Lexorder\<close>. Machine integers
  are HOL integers with the conversion to their width written out (\<open>to_i32\<close>, \<open>to_i64\<close>, \<open>to_u64\<close>)
  or words. This theory holds the collections the proofs share, decimal rendering
  (\<^verbatim>\<open>std::to_string\<close>) and parsing (\<^verbatim>\<open>std::strtoll\<close> with the checks of \<^verbatim>\<open>ParseI64\<close>), and list
  lemmas.
\<close>

named_theorems io_simps \<open>equations of the file-system calls\<close>
named_theorems path_simps \<open>facts about joined path names\<close>
named_theorems through_intros \<open>rules that show a predicate holds at every durable state\<close>

subsection \<open>Fixed-width integers\<close>

definition to_i32 :: "int \<Rightarrow> int" where
  "to_i32 x = (x + 2 ^ 31) mod 2 ^ 32 - 2 ^ 31"

definition to_i64 :: "int \<Rightarrow> int" where
  "to_i64 x = (x + 2 ^ 63) mod 2 ^ 64 - 2 ^ 63"

definition to_u64 :: "nat \<Rightarrow> nat" where
  "to_u64 n = n mod 2 ^ 64"

definition is_i32 :: "int \<Rightarrow> bool" where
  "is_i32 x \<longleftrightarrow> - (2 ^ 31) \<le> x \<and> x < 2 ^ 31"

definition is_i64 :: "int \<Rightarrow> bool" where
  "is_i64 x \<longleftrightarrow> - (2 ^ 63) \<le> x \<and> x < 2 ^ 63"

lemma to_i32_id [simp]: "is_i32 x \<Longrightarrow> to_i32 x = x"
  by (simp add: is_i32_def to_i32_def)

lemma to_i64_id [simp]: "is_i64 x \<Longrightarrow> to_i64 x = x"
  by (simp add: is_i64_def to_i64_def)

lemma is_i32_to_i32 [simp]: "is_i32 (to_i32 x)"
proof -
  have "(x + 2 ^ 31) mod 2 ^ 32 < 2 ^ 32" "0 \<le> (x + 2 ^ 31) mod 2 ^ 32"
    by (rule pos_mod_bound pos_mod_sign, simp)+
  then show ?thesis unfolding is_i32_def to_i32_def by simp
qed

lemma is_i64_of_i32: "is_i32 x \<Longrightarrow> is_i64 x"
  by (simp add: is_i32_def is_i64_def)

lemma to_u64_id [simp]: "n < 2 ^ 64 \<Longrightarrow> to_u64 n = n"
  by (simp add: to_u64_def)

subsection \<open>Bytes and characters\<close>

definition newline :: char where "newline = CHR 0x0A"
definition cr :: char where "cr = CHR 0x0D"
definition backslash :: char where "backslash = CHR 0x5C"
definition slash :: char where "slash = CHR ''/''"

definition u8 :: "char \<Rightarrow> 8 word" where
  "u8 c = of_char c"

definition chr8 :: "'a::len word \<Rightarrow> char" where
  "chr8 w = char_of (unat w)"

lemma of_char_word: "(of_char c :: 'a::len word) = word_of_nat (of_char c)"
  by (simp add: of_nat_of_char)

lemma unat_u8: "unat (u8 c) = of_char c"
  by (simp add: u8_def of_char_word unat_of_nat take_bit_eq_mod [symmetric])

lemma chr8_u8 [simp]: "chr8 (u8 c) = c"
  by (simp add: chr8_def unat_u8)

lemma u8_chr8: "u8 (chr8 w) = ucast w"
proof -
  have "unat (u8 (chr8 w)) = unat w mod 2 ^ 8"
    by (simp add: unat_u8 chr8_def of_char_of)
  also have "\<dots> = unat (ucast w :: 8 word)"
    by (simp add: unsigned_ucast_eq take_bit_eq_mod)
  finally show ?thesis by (rule word_unat_eq_iff [THEN iffD2])
qed

lemma u8_inject [simp]: "u8 a = u8 b \<longleftrightarrow> a = b"
  by (metis chr8_u8)

subsection \<open>Decimal rendering and parsing\<close>

definition is_digit :: "char \<Rightarrow> bool" where
  "is_digit c \<longleftrightarrow> CHR ''0'' \<le> c \<and> c \<le> CHR ''9''"

definition digit_val :: "char \<Rightarrow> nat" where
  "digit_val c = of_char c - 48"

definition digit_chr :: "nat \<Rightarrow> char" where
  "digit_chr n = char_of (48 + n)"

fun dec :: "nat \<Rightarrow> string" where
  "dec n = (if n < 10 then [digit_chr n] else dec (n div 10) @ [digit_chr (n mod 10)])"

declare dec.simps [simp del]

definition dec_int :: "int \<Rightarrow> string" where
  "dec_int i = (if i < 0 then CHR ''-'' # dec (nat (- i)) else dec (nat i))"

definition digits_val :: "string \<Rightarrow> nat" where
  "digits_val ds = foldl (\<lambda>v c. v * 10 + digit_val c) 0 ds"

lemma less_eq_char_iff_of_char: "c \<le> d \<longleftrightarrow> (of_char c :: nat) \<le> of_char d"
  by (simp add: less_eq_char_def)

lemma is_digit_iff: "is_digit c \<longleftrightarrow> 48 \<le> (of_char c :: nat) \<and> (of_char c :: nat) \<le> 57"
  by (simp add: is_digit_def less_eq_char_iff_of_char)

lemma of_char_digit_chr: "n < 10 \<Longrightarrow> (of_char (digit_chr n) :: nat) = 48 + n"
  by (simp add: digit_chr_def of_char_of)

lemma digit_chr_digit [simp]: "n < 10 \<Longrightarrow> is_digit (digit_chr n)"
  by (simp add: is_digit_iff of_char_digit_chr)

lemma digit_val_chr [simp]: "n < 10 \<Longrightarrow> digit_val (digit_chr n) = n"
  by (simp add: digit_val_def of_char_digit_chr)

lemma dec_nonempty [simp]: "dec n \<noteq> []"
  by (subst dec.simps) simp

lemma dec_digits: "c \<in> set (dec n) \<Longrightarrow> is_digit c"
proof (induction n rule: dec.induct)
  case (1 n)
  then show ?case by (subst (asm) dec.simps) (auto split: if_splits)
qed

lemma list_all_dec [simp]: "list_all is_digit (dec n)"
  by (auto simp: list_all_iff dest: dec_digits)

lemma digits_val_append: "digits_val (a @ [c]) = digits_val a * 10 + digit_val c"
  by (simp add: digits_val_def)

lemma digits_val_dec [simp]: "digits_val (dec n) = n"
proof (induction n rule: dec.induct)
  case (1 n)
  show ?case
  proof (cases "n < 10")
    case True
    then show ?thesis by (subst dec.simps) (simp add: digits_val_def)
  next
    case False
    with 1 show ?thesis by (subst dec.simps) (simp add: digits_val_append)
  qed
qed

lemma dec_inject [simp]: "dec m = dec n \<longleftrightarrow> m = n"
  by (metis digits_val_dec)

lemma length_dec_le: "n < 10 ^ k \<Longrightarrow> 0 < k \<Longrightarrow> length (dec n) \<le> k"
proof (induction k arbitrary: n)
  case (Suc k)
  show ?case
  proof (cases "n < 10")
    case True
    then show ?thesis by (subst dec.simps) simp
  next
    case False
    then have "0 < k" using Suc.prems by (cases k) auto
    moreover have "n div 10 < 10 ^ k" using Suc.prems by (simp add: div_less_iff_less_mult)
    ultimately have "length (dec (n div 10)) \<le> k" by (intro Suc.IH)
    with False show ?thesis by (subst dec.simps) simp
  qed
qed simp

text \<open>
  \<^verbatim>\<open>ParseI64\<close> of \<^verbatim>\<open>fsutil.cpp\<close>: \<^verbatim>\<open>strtoll\<close> reads the C string, that is the bytes before the first
  NUL, skips leading white space, takes one optional sign, and the caller rejects an empty
  number, trailing bytes and a value out of range.
\<close>

definition c_str :: "string \<Rightarrow> string" where
  "c_str s = takeWhile (\<lambda>c. c \<noteq> CHR 0x00) s"

definition is_c_space :: "char \<Rightarrow> bool" where
  "is_c_space c \<longleftrightarrow> c \<in> {CHR '' '', CHR 0x09, CHR 0x0A, CHR 0x0B, CHR 0x0C, CHR 0x0D}"

definition strip_sign :: "string \<Rightarrow> bool \<times> string" where
  "strip_sign t = (case t of
      [] \<Rightarrow> (False, [])
    | c # r \<Rightarrow> if c = CHR ''-'' then (True, r) else if c = CHR ''+'' then (False, r) else (False, t))"

definition parse_i64 :: "string \<Rightarrow> int option" where
  "parse_i64 s =
     (if s = [] then None
      else let (neg, t) = strip_sign (dropWhile is_c_space (c_str s));
               ds = takeWhile is_digit t;
               rest = dropWhile is_digit t;
               v = (if neg then - int (digits_val ds) else int (digits_val ds))
           in if ds = [] \<or> rest \<noteq> [] \<or> \<not> is_i64 v then None else Some v)"

lemma digit_not_space: "is_digit c \<Longrightarrow> \<not> is_c_space c"
  by (auto simp: is_digit_iff is_c_space_def)

lemma digit_not_nul: "is_digit c \<Longrightarrow> c \<noteq> CHR 0x00"
  by (auto simp: is_digit_iff)

lemma digit_not_sign: "is_digit c \<Longrightarrow> c \<noteq> CHR ''-'' \<and> c \<noteq> CHR ''+''"
  by (auto simp: is_digit_iff)

lemma takeWhile_all: "list_all P xs \<Longrightarrow> takeWhile P xs = xs"
  by (induction xs) auto

lemma dropWhile_all: "list_all P xs \<Longrightarrow> dropWhile P xs = []"
  by (induction xs) auto

lemma c_str_digits: "list_all is_digit ds \<Longrightarrow> c_str ds = ds"
  unfolding c_str_def by (rule takeWhile_all) (auto simp: list_all_iff digit_not_nul)

lemma strip_sign_digits: "list_all is_digit ds \<Longrightarrow> strip_sign ds = (False, ds)"
  by (cases ds) (auto simp: strip_sign_def digit_not_sign)

lemma dropWhile_space_digits: "list_all is_digit ds \<Longrightarrow> dropWhile is_c_space ds = ds"
  by (cases ds) (auto simp: digit_not_space)

lemma parse_i64_digits:
  assumes "list_all is_digit ds" "ds \<noteq> []" "int (digits_val ds) < 2 ^ 63"
  shows "parse_i64 ds = Some (int (digits_val ds))"
  using assms
  by (simp add: parse_i64_def c_str_digits strip_sign_digits dropWhile_space_digits
      takeWhile_all dropWhile_all is_i64_def list_all_iff)

lemma parse_i64_dec: "int n < 2 ^ 63 \<Longrightarrow> parse_i64 (dec n) = Some (int n)"
  by (simp add: parse_i64_digits)

lemma parse_i64_minus:
  assumes "list_all is_digit ds" "ds \<noteq> []" "int (digits_val ds) \<le> 2 ^ 63"
  shows "parse_i64 (CHR ''-'' # ds) = Some (- int (digits_val ds))"
proof -
  have "c_str (CHR ''-'' # ds) = CHR ''-'' # ds"
    using c_str_digits [OF assms(1)] by (simp add: c_str_def)
  then show ?thesis
    using assms
    by (simp add: parse_i64_def is_c_space_def strip_sign_def takeWhile_all dropWhile_all
        is_i64_def list_all_iff)
qed

lemma parse_i64_dec_int:
  assumes "is_i64 i"
  shows "parse_i64 (dec_int i) = Some i"
proof (cases "i < 0")
  case True
  with assms have "int (digits_val (dec (nat (- i)))) \<le> 2 ^ 63"
    by (simp add: is_i64_def)
  with True show ?thesis
    by (simp add: dec_int_def parse_i64_minus)
next
  case False
  with assms have "int (nat i) < 2 ^ 63" by (simp add: is_i64_def)
  from parse_i64_dec [OF this] False show ?thesis
    by (simp add: dec_int_def)
qed

lemma dec_no_newline: "newline \<notin> set (dec n)"
  by (auto simp: newline_def is_digit_iff dest!: dec_digits)

subsection \<open>Association lists and lists\<close>

lemma map_of_update [simp]: "map_of (AList.update k v al) = (map_of al)(k \<mapsto> v)"
  by (simp add: update_conv')

lemma map_of_delete [simp]: "map_of (AList.delete k al) = (map_of al)(k := None)"
  by (simp add: delete_conv')

lemma set_takeWhile_iff: "x \<in> set (takeWhile P xs) \<Longrightarrow> P x"
  by (induction xs) (auto split: if_splits)

lemma takeWhile_neq_append: "x \<notin> set a \<Longrightarrow> takeWhile (\<lambda>c. c \<noteq> x) (a @ x # b) = a"
  by (induction a) auto

lemma dropWhile_neq_append: "x \<notin> set a \<Longrightarrow> dropWhile (\<lambda>c. c \<noteq> x) (a @ x # b) = x # b"
  by (induction a) auto

lemma dropWhile_member: "x \<in> set t \<Longrightarrow> \<exists>r. dropWhile (\<lambda>c. c \<noteq> x) t = x # r"
  by (induction t) auto

lemma distinct_map_filter: "distinct (map f xs) \<Longrightarrow> distinct (map f (filter P xs))"
  by (induction xs) auto

end
