(* ===== verification/Fsutil.thy ===== *)
theory Fsutil
  imports Prelude
begin

text \<open>
  The write discipline of \<^verbatim>\<open>components/store/fsutil.cpp\<close>: atomic file replacement, durable line
  append, the key/value record format and the name filter, over a model of the POSIX calls they
  use.

  A file is its content and the length of its prefix that has reached the medium; \<^verbatim>\<open>fsync\<close> makes
  the whole content durable, and a power cut keeps the durable prefix and an arbitrary part of the
  rest (\<open>crash\<close>). Directory operations (create, rename, unlink) take effect in order. The state
  \<open>io\<close> of the file system holds the files, the \<open>trail\<close> of every earlier state (the points at which
  the power may go) and the \<open>script\<close> of the results the environment gives the coming calls, so every
  theorem about all scripts is a theorem about every pattern of failures.
\<close>

subsection \<open>The file system\<close>

record inode =
  content :: string
  durable :: nat

type_synonym fs = "(string \<times> inode) list"

text \<open>The environment's answer to one call: success, or failure after \<open>k\<close> bytes of a write.\<close>

datatype sysres = SysOk | SysFail nat

record io =
  files :: fs
  trail :: "fs list"
  script :: "sysres list"

definition lookup :: "fs \<Rightarrow> string \<Rightarrow> inode option" where
  "lookup fs p = map_of fs p"

definition pop :: "io \<Rightarrow> sysres \<times> io" where
  "pop d = (case script d of [] \<Rightarrow> (SysOk, d) | r # rs \<Rightarrow> (r, d\<lparr>script := rs\<rparr>))"

definition commit :: "fs \<Rightarrow> io \<Rightarrow> io" where
  "commit fs d = d\<lparr>files := fs, trail := files d # trail d\<rparr>"

definition put_inode :: "string \<Rightarrow> inode \<Rightarrow> io \<Rightarrow> io" where
  "put_inode p f d = commit (AList.update p f (files d)) d"

definition sys_open_trunc :: "string \<Rightarrow> io \<Rightarrow> bool \<times> io" where
  "sys_open_trunc p d = (case pop d of
      (SysFail _, d) \<Rightarrow> (False, d)
    | (SysOk, d) \<Rightarrow> (True, put_inode p \<lparr>content = [], durable = 0\<rparr> d))"

definition sys_open_append :: "string \<Rightarrow> io \<Rightarrow> bool \<times> io" where
  "sys_open_append p d = (case pop d of
      (SysFail _, d) \<Rightarrow> (False, d)
    | (SysOk, d) \<Rightarrow> (True, case lookup (files d) p of
          Some _ \<Rightarrow> d
        | None \<Rightarrow> put_inode p \<lparr>content = [], durable = 0\<rparr> d))"

text \<open>
  \<^verbatim>\<open>WriteAll\<close> loops over \<^verbatim>\<open>write\<close> until the data is out or a call fails; its effect on the file is a
  prefix of the data.
\<close>

definition write_all :: "string \<Rightarrow> string \<Rightarrow> io \<Rightarrow> bool \<times> io" where
  "write_all p data d = (case lookup (files d) p of
      None \<Rightarrow> (False, d)
    | Some f \<Rightarrow> if data = [] then (True, d) else (case pop d of
          (SysOk, d) \<Rightarrow> (True, put_inode p (f\<lparr>content := content f @ data\<rparr>) d)
        | (SysFail k, d) \<Rightarrow> (False, put_inode p (f\<lparr>content := content f @ take k data\<rparr>) d)))"

definition sys_fsync :: "string \<Rightarrow> io \<Rightarrow> bool \<times> io" where
  "sys_fsync p d = (case lookup (files d) p of
      None \<Rightarrow> (False, d)
    | Some f \<Rightarrow> (case pop d of
          (SysFail _, d) \<Rightarrow> (False, d)
        | (SysOk, d) \<Rightarrow> (True, put_inode p (f\<lparr>durable := length (content f)\<rparr>) d)))"

definition sys_close :: "io \<Rightarrow> bool \<times> io" where
  "sys_close d = (case pop d of (SysOk, d) \<Rightarrow> (True, d) | (SysFail _, d) \<Rightarrow> (False, d))"

definition sys_rename :: "string \<Rightarrow> string \<Rightarrow> io \<Rightarrow> bool \<times> io" where
  "sys_rename src dst d = (case lookup (files d) src of
      None \<Rightarrow> (False, d)
    | Some f \<Rightarrow> (case pop d of
          (SysFail _, d) \<Rightarrow> (False, d)
        | (SysOk, d) \<Rightarrow> (True, commit (AList.delete src (AList.update dst f (files d))) d)))"

datatype unlink_res = UnlinkOk | UnlinkNoEnt | UnlinkErr

definition sys_unlink :: "string \<Rightarrow> io \<Rightarrow> unlink_res \<times> io" where
  "sys_unlink p d = (case pop d of
      (SysFail _, d) \<Rightarrow> (UnlinkErr, d)
    | (SysOk, d) \<Rightarrow> (case lookup (files d) p of
          None \<Rightarrow> (UnlinkNoEnt, d)
        | Some _ \<Rightarrow> (UnlinkOk, commit (AList.delete p (files d)) d)))"

definition sync_dir :: "io \<Rightarrow> bool \<times> io" where
  "sync_dir d = (case pop d of (SysOk, d) \<Rightarrow> (True, d) | (SysFail _, d) \<Rightarrow> (False, d))"

text \<open>A power cut, and the file system the next boot finds.\<close>

definition crash_inode :: "nat \<Rightarrow> inode \<Rightarrow> inode" where
  "crash_inode k f = (let c = take (max (durable f) k) (content f)
                     in \<lparr>content = c, durable = length c\<rparr>)"

definition crash :: "(string \<Rightarrow> nat) \<Rightarrow> fs \<Rightarrow> fs" where
  "crash keep fs = map (\<lambda>(p, f). (p, crash_inode (keep p) f)) fs"

definition boot_io :: "fs \<Rightarrow> sysres list \<Rightarrow> io" where
  "boot_io fs rs = \<lparr>files = fs, trail = [], script = rs\<rparr>"

subsection \<open>Paths\<close>

definition k_temp_prefix :: string where
  "k_temp_prefix = ''.tmp.''"

definition join :: "string \<Rightarrow> string \<Rightarrow> string" where
  "join dir name =
     (if dir = [] then name
      else if last dir = slash then dir @ name
      else dir @ slash # name)"

definition dir_of :: "string \<Rightarrow> string" where
  "dir_of p =
     (if slash \<notin> set p then ''.''
      else let d = rev (tl (dropWhile (\<lambda>c. c \<noteq> slash) (rev p)))
           in if d = [] then [slash] else d)"

definition base_of :: "string \<Rightarrow> string" where
  "base_of p = rev (takeWhile (\<lambda>c. c \<noteq> slash) (rev p))"

definition tmp_of :: "string \<Rightarrow> string" where
  "tmp_of p = join (dir_of p) (k_temp_prefix @ base_of p)"

definition name_char_ok :: "char \<Rightarrow> bool" where
  "name_char_ok c \<longleftrightarrow>
     (CHR ''a'' \<le> c \<and> c \<le> CHR ''z'') \<or> (CHR ''A'' \<le> c \<and> c \<le> CHR ''Z'') \<or>
     (CHR ''0'' \<le> c \<and> c \<le> CHR ''9'') \<or> c = CHR ''-'' \<or> c = CHR ''_'' \<or> c = CHR ''.''"

definition name_is_safe :: "string \<Rightarrow> bool" where
  "name_is_safe name \<longleftrightarrow>
     name \<noteq> [] \<and> length name \<le> 64 \<and> hd name \<noteq> CHR ''.'' \<and> list_all name_char_ok name"

subsection \<open>Whole-file operations\<close>

definition unlink_ignored :: "string \<Rightarrow> io \<Rightarrow> io" where
  "unlink_ignored p d = snd (sys_unlink p d)"

definition write_atomic :: "string \<Rightarrow> string \<Rightarrow> io \<Rightarrow> bool \<times> io" where
  "write_atomic path data d =
     (let tmp = tmp_of path;
          (opened, d) = sys_open_trunc tmp d
      in if \<not> opened then (False, d) else
      let (written, d) = write_all tmp data d;
          (synced, d) = (if written then sys_fsync tmp d else (False, d))
      in if \<not> synced then (False, unlink_ignored tmp (snd (sys_close d))) else
      let (closed, d) = sys_close d
      in if \<not> closed then (False, unlink_ignored tmp d) else
      let (renamed, d) = sys_rename tmp path d
      in if \<not> renamed then (False, unlink_ignored tmp d) else
      sync_dir d)"

definition append_line :: "string \<Rightarrow> string \<Rightarrow> io \<Rightarrow> bool \<times> io" where
  "append_line path line d =
     (let (opened, d) = sys_open_append path d
      in if \<not> opened then (False, d) else
      let (written, d) = write_all path (line @ [newline]) d;
          (ok, d) = (if written then sys_fsync path d else (False, d))
      in (ok, snd (sys_close d)))"

definition read_all :: "string \<Rightarrow> io \<Rightarrow> string option \<times> io" where
  "read_all path d =
     (let (r, d) = pop d
      in case lookup (files d) path of
           None \<Rightarrow> (None, d)
         | Some f \<Rightarrow> (case r of
               SysFail _ \<Rightarrow> (None, d)
             | SysOk \<Rightarrow> (case pop d of
                   (SysOk, d) \<Rightarrow> (Some (content f), d)
                 | (SysFail _, d) \<Rightarrow> (None, d))))"

definition remove_file :: "string \<Rightarrow> io \<Rightarrow> bool \<times> io" where
  "remove_file path d = (case sys_unlink path d of
      (UnlinkErr, d) \<Rightarrow> (False, d)
    | (UnlinkNoEnt, d) \<Rightarrow> (True, d)
    | (UnlinkOk, d) \<Rightarrow> sync_dir d)"

definition exists_file :: "string \<Rightarrow> io \<Rightarrow> bool \<times> io" where
  "exists_file path d = (case pop d of
      (SysOk, d) \<Rightarrow> (lookup (files d) path \<noteq> None, d)
    | (SysFail _, d) \<Rightarrow> (False, d))"

definition list_names :: "string \<Rightarrow> io \<Rightarrow> string list option \<times> io" where
  "list_names dir d = (case pop d of
      (SysFail _, d) \<Rightarrow> (None, d)
    | (SysOk, d) \<Rightarrow>
        (Some (filter (\<lambda>n. n \<noteq> [] \<and> hd n \<noteq> CHR ''.'')
                 (map (\<lambda>(p, f). base_of p) (filter (\<lambda>(p, f). dir_of p = dir) (files d)))), d))"

subsection \<open>Records\<close>

type_synonym kv_record = "(string \<times> string) list"

definition escape_char :: "char \<Rightarrow> string" where
  "escape_char c =
     (if c = backslash then [backslash, backslash]
      else if c = newline then [backslash, CHR ''n'']
      else if c = cr then [backslash, CHR ''r'']
      else [c])"

definition escape :: "string \<Rightarrow> string" where
  "escape v = concat (map escape_char v)"

fun unescape :: "string \<Rightarrow> string" where
  "unescape [] = []"
| "unescape [c] = [c]"
| "unescape (c # e # cs) =
     (if c \<noteq> backslash then c # unescape (e # cs)
      else if e = CHR ''n'' then newline # unescape cs
      else if e = CHR ''r'' then cr # unescape cs
      else if e = backslash then backslash # unescape cs
      else e # unescape cs)"

definition encode_pair :: "string \<times> string \<Rightarrow> string" where
  "encode_pair kv = fst kv @ CHR ''='' # escape (snd kv) @ [newline]"

definition encode_record :: "kv_record \<Rightarrow> string" where
  "encode_record r = concat (map encode_pair r)"

function split_complete_lines :: "string \<Rightarrow> string list" where
  "split_complete_lines t =
     (if newline \<in> set t
      then takeWhile (\<lambda>c. c \<noteq> newline) t
             # split_complete_lines (tl (dropWhile (\<lambda>c. c \<noteq> newline) t))
      else [])"
  by pat_completeness auto
termination
proof (relation "measure length", simp)
  fix t :: string
  assume "newline \<in> set t"
  then have "t \<noteq> []" by auto
  moreover have "length (dropWhile (\<lambda>c. c \<noteq> newline) t) \<le> length t"
    by (rule length_dropWhile_le)
  ultimately show "(tl (dropWhile (\<lambda>c. c \<noteq> newline) t), t) \<in> measure length"
    by (cases t) auto
qed

declare split_complete_lines.simps [simp del]

definition decode_line :: "string \<Rightarrow> (string \<times> string) option" where
  "decode_line line =
     (if CHR ''='' \<in> set line
      then Some (takeWhile (\<lambda>c. c \<noteq> CHR ''='') line,
                 unescape (tl (dropWhile (\<lambda>c. c \<noteq> CHR ''='') line)))
      else None)"

definition decode_record :: "string \<Rightarrow> kv_record" where
  "decode_record text = List.map_filter decode_line (split_complete_lines text)"

definition find_key :: "kv_record \<Rightarrow> string \<Rightarrow> string option" where
  "find_key r k = map_of r k"

definition read_i64 :: "kv_record \<Rightarrow> string \<Rightarrow> int option" where
  "read_i64 r k = (case find_key r k of None \<Rightarrow> None | Some s \<Rightarrow> parse_i64 s)"

definition read_int :: "kv_record \<Rightarrow> string \<Rightarrow> int option" where
  "read_int r k = (case read_i64 r k of None \<Rightarrow> None | Some v \<Rightarrow> Some (to_i32 v))"

definition read_u64 :: "kv_record \<Rightarrow> string \<Rightarrow> nat option" where
  "read_u64 r k =
     (case read_i64 r k of None \<Rightarrow> None | Some v \<Rightarrow> if v < 0 then None else Some (nat v))"

definition read_bool :: "kv_record \<Rightarrow> string \<Rightarrow> bool option" where
  "read_bool r k = (case find_key r k of
      None \<Rightarrow> None
    | Some s \<Rightarrow> if s = ''1'' then Some True else if s = ''0'' then Some False else None)"

subsection \<open>Every durable state on the way\<close>

text \<open>
  \<open>through P d d'\<close> says that the run from \<open>d\<close> to \<open>d'\<close> passed only through file systems that
  satisfy \<open>P\<close>: whatever the moment of a power cut, the medium held one of them.
\<close>

definition through :: "(fs \<Rightarrow> bool) \<Rightarrow> io \<Rightarrow> io \<Rightarrow> bool" where
  "through P d d' \<longleftrightarrow> (\<exists>new. trail d' = new @ trail d \<and> (\<forall>fs \<in> set (files d' # new). P fs))"

lemma throughI [intro]: "trail d' = new @ trail d \<Longrightarrow> (\<And>fs. fs \<in> set (files d' # new) \<Longrightarrow> P fs) \<Longrightarrow> through P d d'"
  unfolding through_def by blast

lemma through_files: "through P d d' \<Longrightarrow> P (files d')"
  by (auto simp: through_def)

lemma through_refl [through_intros]: "P (files d) \<Longrightarrow> through P d d"
  by (rule throughI [of _ "[]"]) auto

lemma through_trans: "through P d e \<Longrightarrow> through P e f \<Longrightarrow> through P d f"
  unfolding through_def
proof (elim exE conjE)
  fix a b
  assume "trail e = a @ trail d" "\<forall>fs\<in>set (files e # a). P fs"
    "trail f = b @ trail e" "\<forall>fs\<in>set (files f # b). P fs"
  then show "\<exists>new. trail f = new @ trail d \<and> (\<forall>fs\<in>set (files f # new). P fs)"
    by (intro exI [of _ "b @ a"]) auto
qed

lemma through_mono: "through P d e \<Longrightarrow> (\<And>fs. P fs \<Longrightarrow> Q fs) \<Longrightarrow> through Q d e"
  unfolding through_def by blast

lemma through_conj: "through P d e \<Longrightarrow> through Q d e \<Longrightarrow> through (\<lambda>fs. P fs \<and> Q fs) d e"
  unfolding through_def by auto

lemma through_commit [through_intros]:
  "P (files d) \<Longrightarrow> P fs \<Longrightarrow> through P d (commit fs d)"
  by (rule throughI [of _ "[files d]"]) (auto simp: commit_def)

lemma through_put_inode [through_intros]:
  "P (files d) \<Longrightarrow> P (AList.update p f (files d)) \<Longrightarrow> through P d (put_inode p f d)"
  unfolding put_inode_def by (rule through_commit)

lemma files_pop [io_simps]: "files (snd (pop d)) = files d"
  by (auto simp: pop_def split: list.splits)

lemma trail_pop [io_simps]: "trail (snd (pop d)) = trail d"
  by (auto simp: pop_def split: list.splits)

lemma pop_files: "pop d = (r, d') \<Longrightarrow> files d' = files d \<and> trail d' = trail d"
  using files_pop [of d] trail_pop [of d] by simp

lemma through_pop: "pop d = (r, e) \<Longrightarrow> through P e d' \<Longrightarrow> through P d d'"
  by (auto simp: through_def dest: pop_files)

lemma through_pop_refl: "pop d = (r, e) \<Longrightarrow> P (files d) \<Longrightarrow> through P d e"
  using through_pop [of d r e P e] through_refl [of P e] pop_files [of d r e] by simp

lemma pop_cases [case_names pop]:
  assumes "\<And>r e. pop d = (r, e) \<Longrightarrow> files e = files d \<Longrightarrow> trail e = trail d \<Longrightarrow> Q"
  shows Q
  using assms pop_files [of d] by (cases "pop d") blast

text \<open>The call consumes one answer and then passes only through states that satisfy \<open>P\<close>.\<close>

lemma through_after_pop:
  assumes "\<And>r e. pop d = (r, e) \<Longrightarrow> files e = files d \<Longrightarrow> through P e d'"
  shows "through P d d'"
  using assms by (cases d rule: pop_cases) (blast intro: through_pop)

lemma files_put_inode [io_simps]: "files (put_inode p f d) = AList.update p f (files d)"
  by (simp add: put_inode_def commit_def)

lemma files_commit [io_simps]: "files (commit fs d) = fs"
  by (simp add: commit_def)

lemma lookup_update [simp]: "lookup (AList.update p f fs) q = (if q = p then Some f else lookup fs q)"
  by (simp add: lookup_def)

lemma lookup_delete [simp]: "lookup (AList.delete p fs) q = (if q = p then None else lookup fs q)"
  by (simp add: lookup_def)

lemma lookup_crash: "lookup (crash keep fs) p = map_option (crash_inode (keep p)) (lookup fs p)"
  by (induction fs) (auto simp: lookup_def crash_def)

subsection \<open>Calls that touch one file\<close>

text \<open>
  \<open>same_but p fs fs'\<close>: only \<open>p\<close> may differ. Each call below passes only through states that agree
  with its start everywhere but on the file it names.
\<close>

definition same_but :: "string set \<Rightarrow> fs \<Rightarrow> fs \<Rightarrow> bool" where
  "same_but ps fs fs' \<longleftrightarrow> (\<forall>q. q \<notin> ps \<longrightarrow> lookup fs' q = lookup fs q)"

lemma same_but_refl [simp]: "same_but ps fs fs"
  by (simp add: same_but_def)

lemma same_but_update [simp]: "p \<in> ps \<Longrightarrow> same_but ps fs (AList.update p f fs') \<longleftrightarrow> same_but ps fs fs'"
  by (auto simp: same_but_def)

lemma same_but_delete [simp]: "p \<in> ps \<Longrightarrow> same_but ps fs (AList.delete p fs') \<longleftrightarrow> same_but ps fs fs'"
  by (auto simp: same_but_def)

lemma same_but_trans: "same_but ps a b \<Longrightarrow> same_but ps b c \<Longrightarrow> same_but ps a c"
  by (simp add: same_but_def)

lemma same_but_lookup: "same_but ps a b \<Longrightarrow> q \<notin> ps \<Longrightarrow> lookup b q = lookup a q"
  by (simp add: same_but_def)

text \<open>
  A file-system predicate that ignores \<open>p\<close> is kept by every call on \<open>p\<close>.
\<close>

definition ignores :: "string \<Rightarrow> (fs \<Rightarrow> bool) \<Rightarrow> bool" where
  "ignores p P \<longleftrightarrow> (\<forall>fs f. P fs \<longrightarrow> P (AList.update p f fs) \<and> P (AList.delete p fs))"

lemma ignores_update: "ignores p P \<Longrightarrow> P fs \<Longrightarrow> P (AList.update p f fs)"
  by (simp add: ignores_def)

lemma ignores_delete: "ignores p P \<Longrightarrow> P fs \<Longrightarrow> P (AList.delete p fs)"
  by (simp add: ignores_def)

lemma through_open_trunc:
  "ignores p P \<Longrightarrow> P (files d) \<Longrightarrow> sys_open_trunc p d = (ok, e) \<Longrightarrow> through P d e"
  by (rule through_after_pop)
    (auto simp: sys_open_trunc_def split: sysres.splits
      intro!: through_put_inode through_refl ignores_update [of p P])

lemma through_open_append:
  "ignores p P \<Longrightarrow> P (files d) \<Longrightarrow> sys_open_append p d = (ok, e) \<Longrightarrow> through P d e"
  by (rule through_after_pop)
    (auto simp: sys_open_append_def split: sysres.splits option.splits
      intro!: through_put_inode through_refl ignores_update [of p P])

lemma through_write_all:
  assumes "ignores p P" "P (files d)" "write_all p data d = (ok, e)"
  shows "through P d e"
proof (cases "lookup (files d) p = None \<or> data = []")
  case True
  with assms show ?thesis
    by (auto simp: write_all_def intro!: through_refl split: option.splits)
next
  case False
  with assms show ?thesis
    by - (rule through_after_pop, auto simp: write_all_def split: sysres.splits
        intro!: through_put_inode ignores_update [of p P])
qed

lemma through_fsync:
  assumes "ignores p P" "P (files d)" "sys_fsync p d = (ok, e)"
  shows "through P d e"
proof (cases "lookup (files d) p")
  case None
  with assms show ?thesis by (auto simp: sys_fsync_def intro!: through_refl)
next
  case (Some f)
  with assms show ?thesis
    by - (rule through_after_pop, auto simp: sys_fsync_def split: sysres.splits
        intro!: through_put_inode through_refl ignores_update [of p P])
qed

lemma through_unlink:
  "ignores p P \<Longrightarrow> P (files d) \<Longrightarrow> sys_unlink p d = (r, e) \<Longrightarrow> through P d e"
  by (rule through_after_pop)
    (auto simp: sys_unlink_def split: sysres.splits option.splits
      intro!: through_commit through_refl ignores_delete [of p P])

lemma through_unlink_ignored:
  "ignores p P \<Longrightarrow> P (files d) \<Longrightarrow> through P d (unlink_ignored p d)"
  unfolding unlink_ignored_def by (cases "sys_unlink p d") (simp add: through_unlink)

lemma through_close: "P (files d) \<Longrightarrow> sys_close d = (ok, e) \<Longrightarrow> through P d e"
  by (auto simp: sys_close_def split: prod.splits sysres.splits intro: through_pop_refl)

lemma through_sync_dir: "P (files d) \<Longrightarrow> sync_dir d = (ok, e) \<Longrightarrow> through P d e"
  by (auto simp: sync_dir_def split: prod.splits sysres.splits intro: through_pop_refl)

lemma files_close: "sys_close d = (ok, e) \<Longrightarrow> files e = files d"
  by (auto simp: sys_close_def dest: pop_files split: prod.splits sysres.splits)

lemma files_sync_dir: "sync_dir d = (ok, e) \<Longrightarrow> files e = files d"
  by (auto simp: sync_dir_def dest: pop_files split: prod.splits sysres.splits)

lemma open_trunc_ok:
  "sys_open_trunc p d = (True, e) \<Longrightarrow> lookup (files e) p = Some \<lparr>content = [], durable = 0\<rparr>"
  by (auto simp: sys_open_trunc_def io_simps split: prod.splits sysres.splits)

lemma write_all_ok:
  "write_all p data d = (True, e) \<Longrightarrow> lookup (files d) p = Some f \<Longrightarrow>
   lookup (files e) p = Some (f\<lparr>content := content f @ data\<rparr>)"
  by (auto simp: write_all_def io_simps split: prod.splits sysres.splits if_splits)

lemma fsync_ok:
  "sys_fsync p d = (True, e) \<Longrightarrow> lookup (files d) p = Some f \<Longrightarrow>
   lookup (files e) p = Some (f\<lparr>durable := length (content f)\<rparr>)"
  by (auto simp: sys_fsync_def io_simps split: prod.splits sysres.splits)

lemma rename_cases:
  assumes "sys_rename src dst d = (ok, e)"
  obtains "\<not> ok" "files e = files d" "\<And>P. P (files d) \<Longrightarrow> through P d e"
  | f where "ok" "lookup (files d) src = Some f"
      "files e = AList.delete src (AList.update dst f (files d))"
      "\<And>P. P (files d) \<Longrightarrow> P (files e) \<Longrightarrow> through P d e"
proof (cases "lookup (files d) src")
  case None
  with assms that(1) show ?thesis by (auto simp: sys_rename_def intro: through_refl)
next
  case (Some f)
  obtain r d1 where pop: "pop d = (r, d1)" by fastforce
  note same = pop_files [OF pop]
  show ?thesis
  proof (cases r)
    case SysOk
    let ?fs = "AList.delete src (AList.update dst f (files d))"
    from assms Some pop SysOk same have e: "ok" "e = commit ?fs d1"
      by (auto simp: sys_rename_def)
    have "through P d e" if "P (files d)" "P (files e)" for P
      using that same e by (intro through_pop [OF pop]) (simp add: through_commit io_simps)
    with that(2) Some e show ?thesis by (simp add: io_simps)
  next
    case (SysFail k)
    with assms Some pop have "\<not> ok" "e = d1" by (auto simp: sys_rename_def)
    with that(1) same show ?thesis using through_pop_refl [OF pop] by auto
  qed
qed

subsection \<open>Names of temporary files\<close>

lemma base_of_join [path_simps]: "slash \<notin> set n \<Longrightarrow> base_of (join d n) = n"
proof -
  assume n: "slash \<notin> set n"
  have "takeWhile (\<lambda>c. c \<noteq> slash) (rev n @ slash # rest) = rev n" for rest
    using n by (intro takeWhile_neq_append) auto
  moreover have "rev (takeWhile (\<lambda>c. c \<noteq> slash) (rev n)) = n"
    using n by (subst takeWhile_all) (auto simp: list_all_iff)
  ultimately show ?thesis
    by (cases d rule: rev_cases) (simp_all add: join_def base_of_def)
qed

lemma base_of_no_slash: "slash \<notin> set (base_of p)"
  by (auto simp: base_of_def dest: set_takeWhile_iff)

lemma slash_not_prefix: "slash \<notin> set k_temp_prefix"
  by (auto simp: slash_def k_temp_prefix_def)

lemma base_of_tmp: "base_of (tmp_of p) = k_temp_prefix @ base_of p"
  unfolding tmp_of_def by (rule base_of_join) (simp add: slash_not_prefix base_of_no_slash)

lemma tmp_of_neq [simp]: "tmp_of p \<noteq> p"
proof
  assume "tmp_of p = p"
  with base_of_tmp [of p] have "base_of p = k_temp_prefix @ base_of p" by simp
  then show False by (simp add: k_temp_prefix_def)
qed

lemmas tmp_of_neq' [simp] = tmp_of_neq [symmetric]

subsection \<open>Atomic replacement\<close>

text \<open>
  What the medium may hold while \<open>write_atomic path data\<close> runs from \<open>fs0\<close>: everything but the target
  and its temporary file as before, and the target either as before or holding exactly the new data,
  all of it durable.
\<close>

definition whole :: "string \<Rightarrow> inode" where
  "whole data = \<lparr>content = data, durable = length data\<rparr>"

definition atomic_states :: "string \<Rightarrow> string \<Rightarrow> fs \<Rightarrow> fs \<Rightarrow> bool" where
  "atomic_states path data fs0 fs \<longleftrightarrow>
     same_but {path, tmp_of path} fs0 fs \<and>
     (lookup fs path = lookup fs0 path \<or> lookup fs path = Some (whole data))"

lemma atomic_states_refl [simp]: "atomic_states path data fs fs"
  by (simp add: atomic_states_def)

lemma ignores_atomic_states: "ignores (tmp_of path) (atomic_states path data fs0)"
  by (auto simp: ignores_def atomic_states_def)

lemma write_atomic_spec:
  assumes "write_atomic path data d = (ok, e)"
  shows "through (atomic_states path data (files d)) d e"
    and "ok \<Longrightarrow> lookup (files e) path = Some (whole data)"
proof -
  let ?P = "atomic_states path data (files d)"
  let ?t = "tmp_of path"
  note ign = ignores_atomic_states [of path data "files d"]
  obtain o1 d1 where s1: "sys_open_trunc ?t d = (o1, d1)" by fastforce
  obtain o2 d2 where s2: "write_all ?t data d1 = (o2, d2)" by fastforce
  obtain o3 d3 where s3: "(if o2 then sys_fsync ?t d2 else (False, d2)) = (o3, d3)" by fastforce
  obtain o4 d4 where s4: "sys_close d3 = (o4, d4)" by fastforce
  obtain o5 d5 where s5: "sys_rename ?t path d4 = (o5, d5)" by fastforce
  obtain o6 d6 where s6: "sync_dir d5 = (o6, d6)" by fastforce
  have t1: "through ?P d d1" by (rule through_open_trunc [OF ign _ s1]) simp
  have t2: "through ?P d1 d2" by (rule through_write_all [OF ign through_files [OF t1] s2])
  have t3: "through ?P d2 d3"
    using s3 through_fsync [OF ign through_files [OF t2]] through_refl [of ?P, OF through_files [OF t2]]
    by (auto split: if_splits)
  have t4: "through ?P d3 d4" using through_close [of ?P d3 o4 d4] through_files [OF t3] s4 by simp
  note t14 = through_trans [OF t1 through_trans [OF t2 through_trans [OF t3 t4]]]
  have unl: "through ?P d (unlink_ignored ?t x)" if "through ?P d x" for x
    by (rule through_trans [OF that through_unlink_ignored [OF ign through_files [OF that]]])
  have full: "lookup (files d4) ?t = Some (whole data)" if "o1" "o3"
  proof -
    from that s1 have "lookup (files d1) ?t = Some \<lparr>content = [], durable = 0\<rparr>"
      by (auto dest: open_trunc_ok)
    moreover from that s3 have "o2" "sys_fsync ?t d2 = (True, d3)" by (auto split: if_splits)
    ultimately show ?thesis
      using write_all_ok [of ?t data d1 d2] s2 fsync_ok [of ?t d2 d3] files_close [OF s4]
      by (simp add: whole_def)
  qed
  have t5: "through ?P d d5 \<and> (o5 \<longrightarrow> lookup (files d5) path = Some (whole data))" if "o1" "o3"
    using s5
  proof (cases rule: rename_cases)
    case 1
    then show ?thesis using through_trans [OF t14] through_files [OF t14] by auto
  next
    case (2 f)
    with full [OF that] have f: "f = whole data" by simp
    from through_files [OF t14] have "?P (files d5)"
      by (simp add: 2(3) f atomic_states_def)
    with 2(4) [of ?P] through_files [OF t14] have "through ?P d4 d5" by simp
    with t14 have "through ?P d d5" by (rule through_trans)
    with 2(3) f show ?thesis by simp
  qed
  have t6: "through ?P d d6 \<and> (o5 \<longrightarrow> lookup (files d6) path = Some (whole data))" if "o1" "o3"
    using t5 [OF that] through_sync_dir [of ?P d5 o6 d6] s6 files_sync_dir [OF s6]
    by (auto intro: through_trans dest: through_files)
  have res: "(ok, e) =
    (if \<not> o1 then (False, d1) else if \<not> o3 then (False, unlink_ignored ?t d4)
     else if \<not> o4 then (False, unlink_ignored ?t d4)
     else if \<not> o5 then (False, unlink_ignored ?t d5) else (o6, d6))"
  proof (cases o2)
    case True
    with s3 have "sys_fsync ?t d2 = (o3, d3)" by simp
    with True assms show ?thesis
      by (cases o1; cases o3; cases o4; cases o5) (simp_all add: write_atomic_def Let_def s1 s2 s4 s5 s6)
  next
    case False
    with s3 have "\<not> o3" "d3 = d2" by auto
    with False assms s4 show ?thesis by (cases o1) (simp_all add: write_atomic_def Let_def s1 s2)
  qed
  show "through ?P d e"
    using res t1 unl [OF t14] unl [of d5] t5 t6 by (auto split: if_splits)
  show "lookup (files e) path = Some (whole data)" if ok
    using res that t6 by (auto split: if_splits)
qed

lemma crash_whole [simp]: "crash_inode k (whole data) = whole data"
  by (simp add: crash_inode_def whole_def)

text \<open>
  The interface the stores rely on: a writer that replaces a file as a whole. The clients' facts are
  proved once from the two laws.
\<close>

locale atomic_replace =
  fixes wr :: "string \<Rightarrow> string \<Rightarrow> io \<Rightarrow> bool \<times> io"
  assumes wr_through: "wr path data d = (ok, e) \<Longrightarrow> through (atomic_states path data (files d)) d e"
    and wr_ok: "wr path data d = (True, e) \<Longrightarrow> lookup (files e) path = Some (whole data)"
begin

lemma wr_kept:
  assumes "wr path data d = (ok, e)" "\<And>fs. atomic_states path data (files d) fs \<Longrightarrow> P fs"
  shows "through P d e"
  using wr_through [OF assms(1)] assms(2) by (rule through_mono)

lemma wr_target:
  assumes "wr path data d = (ok, e)"
  shows "lookup (files e) path = lookup (files d) path \<or> lookup (files e) path = Some (whole data)"
  using through_files [OF wr_through [OF assms]] by (simp add: atomic_states_def)

lemma wr_others:
  assumes "wr path data d = (ok, e)" "q \<noteq> path" "q \<noteq> tmp_of path"
  shows "lookup (files e) q = lookup (files d) q"
  using through_files [OF wr_through [OF assms(1)]] assms(2,3)
  by (simp add: atomic_states_def same_but_def)

text \<open>Whatever instant the power goes, the next boot reads the old file or the new one.\<close>

lemma wr_crash:
  assumes "wr path data d = (ok, e)"
    and "lookup (files d) path = Some (whole old) \<or> lookup (files d) path = None"
  shows "through (\<lambda>fs. lookup (crash keep fs) path = lookup (files d) path \<or>
                       lookup (crash keep fs) path = Some (whole data)) d e"
proof (rule wr_kept [OF assms(1)])
  fix fs
  assume "atomic_states path data (files d) fs"
  then show "lookup (crash keep fs) path = lookup (files d) path \<or>
             lookup (crash keep fs) path = Some (whole data)"
    using assms(2) by (auto simp: atomic_states_def lookup_crash)
qed

end

interpretation wa: atomic_replace write_atomic
  by unfold_locales (auto dest: write_atomic_spec)

text \<open>With no failing call the writer succeeds.\<close>

lemma pop_no_faults: "script d = [] \<Longrightarrow> pop d = (SysOk, d)"
  by (simp add: pop_def)

lemma write_atomic_no_faults:
  assumes "script d = []"
  shows "\<exists>e. write_atomic path data d = (True, e) \<and> script e = []"
proof -
  let ?t = "tmp_of path"
  obtain d1 where s1: "sys_open_trunc ?t d = (True, d1)" "script d1 = []"
    using assms by (simp add: sys_open_trunc_def pop_no_faults put_inode_def commit_def)
  then have l1: "lookup (files d1) ?t = Some \<lparr>content = [], durable = 0\<rparr>" by (simp add: open_trunc_ok)
  obtain d2 where s2: "write_all ?t data d1 = (True, d2)" "script d2 = []"
    using s1(2) l1 by (cases "data = []") (auto simp: write_all_def pop_no_faults put_inode_def commit_def)
  with l1 have l2: "lookup (files d2) ?t = Some \<lparr>content = data, durable = 0\<rparr>"
    using write_all_ok [of ?t data d1 d2] by simp
  obtain d3 where s3: "sys_fsync ?t d2 = (True, d3)" "script d3 = []"
    using s2(2) l2 by (auto simp: sys_fsync_def pop_no_faults put_inode_def commit_def)
  with l2 have l3: "lookup (files d3) ?t = Some (whole data)"
    using fsync_ok [of ?t d2 d3] by (simp add: whole_def)
  have s4: "sys_close d3 = (True, d3)" using s3(2) by (simp add: sys_close_def pop_no_faults)
  obtain d5 where s5: "sys_rename ?t path d3 = (True, d5)" "script d5 = []"
    using s3(2) l3 by (auto simp: sys_rename_def pop_no_faults commit_def)
  have s6: "sync_dir d5 = (True, d5)" using s5(2) by (simp add: sync_dir_def pop_no_faults)
  show ?thesis using s5(2) by (simp add: write_atomic_def Let_def s1 s2 s3 s4 s5 s6)
qed

subsection \<open>Appending a line\<close>

definition old_content :: "inode option \<Rightarrow> string" where
  "old_content f = (case f of None \<Rightarrow> [] | Some f \<Rightarrow> content f)"

definition old_durable :: "inode option \<Rightarrow> nat" where
  "old_durable f = (case f of None \<Rightarrow> 0 | Some f \<Rightarrow> durable f)"

definition append_states :: "string \<Rightarrow> string \<Rightarrow> fs \<Rightarrow> fs \<Rightarrow> bool" where
  "append_states path line fs0 fs \<longleftrightarrow>
     same_but {path} fs0 fs \<and>
     (lookup fs path = lookup fs0 path \<or>
      (\<exists>f k. lookup fs path = Some f \<and>
             content f = old_content (lookup fs0 path) @ take k (line @ [newline]) \<and>
             (durable f = old_durable (lookup fs0 path) \<or> durable f = length (content f))))"

lemma through_write_all_prefix:
  assumes "write_all p data d = (ok, e)" "lookup (files d) p = Some f" "P (files d)"
    and "\<And>k. P (AList.update p (f\<lparr>content := content f @ take k data\<rparr>) (files d))"
  shows "through P d e"
proof (cases "data = []")
  case True
  with assms(1-3) show ?thesis by (auto simp: write_all_def intro!: through_refl)
next
  case False
  from assms(4) [of "length data"]
  have all: "P (AList.update p (f\<lparr>content := content f @ data\<rparr>) (files d))" by simp
  show ?thesis
    using assms False all
    by - (rule through_after_pop, auto simp: write_all_def split: sysres.splits
        intro!: through_put_inode)
qed

lemma append_line_spec:
  assumes "append_line path line d = (ok, e)"
  shows "through (append_states path line (files d)) d e"
    and "ok \<Longrightarrow> lookup (files e) path =
      Some (whole (old_content (lookup (files d) path) @ line @ [newline]))"
proof -
  let ?P = "append_states path line (files d)" and ?l = "line @ [newline]"
  let ?old = "lookup (files d) path"
  obtain o1 d1 where s1: "sys_open_append path d = (o1, d1)" by fastforce
  obtain o2 d2 where s2: "write_all path ?l d1 = (o2, d2)" by fastforce
  obtain o3 d3 where s3: "(if o2 then sys_fsync path d2 else (False, d2)) = (o3, d3)" by fastforce
  obtain o4 d4 where s4: "sys_close d3 = (o4, d4)" by fastforce
  have P0: "?P (files d)" by (simp add: append_states_def)
  have Pu: "?P (AList.update path f fs)"
    if "same_but {path} (files d) fs" "content f = old_content ?old @ take k ?l"
      "durable f = old_durable ?old \<or> durable f = length (content f)" for f fs k
    using that by (auto simp: append_states_def)
  have t1: "through ?P d d1"
    using s1 Pu [of _ _ 0]
    by - (rule through_after_pop, auto simp: sys_open_append_def P0 old_content_def
        old_durable_def split: sysres.splits option.splits intro!: through_put_inode through_refl)
  have f1: "\<exists>f. lookup (files d1) path = Some f \<and> content f = old_content ?old \<and>
      old_durable ?old = durable f" if "o1"
    using s1 that
    by (cases d rule: pop_cases) (auto simp: sys_open_append_def io_simps old_content_def
        old_durable_def split: sysres.splits option.splits)
  have sb1: "same_but {path} (files d) (files d1)"
    using through_files [OF t1] by (simp add: append_states_def)
  have res: "(ok, e) = (if \<not> o1 then (False, d1) else (o3, d4))"
    using assms s3 by (cases o1; cases o2) (simp_all add: append_line_def Let_def s1 s2 s4)
  have main: "through ?P d d4 \<and> (o3 \<longrightarrow> lookup (files d4) path = Some (whole (old_content ?old @ ?l)))"
    if "o1"
  proof -
    from f1 [OF that] obtain f where f: "lookup (files d1) path = Some f"
      "content f = old_content ?old" "old_durable ?old = durable f" by blast
    have t2: "through ?P d1 d2"
      using f sb1 through_files [OF t1]
      by (intro through_write_all_prefix [OF s2 f(1)]) (auto intro!: Pu)
    have t3: "through ?P d2 d3 \<and> (o3 \<longrightarrow> lookup (files d3) path = Some (whole (old_content ?old @ ?l)))"
    proof (cases o2)
      case True
      with s2 f have l2: "lookup (files d2) path = Some (f\<lparr>content := content f @ ?l\<rparr>)"
        using write_all_ok [of path ?l d1 d2 f] by simp
      from True s3 have s: "sys_fsync path d2 = (o3, d3)" by simp
      have sb2: "same_but {path} (files d) (files d2)"
        using through_files [OF t2] by (simp add: append_states_def)
      let ?g = "f\<lparr>content := content f @ ?l, durable := length (content f @ ?l)\<rparr>"
      have Pg: "?P (AList.update path ?g (files d2))"
        using through_files [OF t2] f by (intro Pu [of _ _ "length ?l"] sb2) auto
      have "through ?P d2 d3"
        using s l2 Pg through_files [OF t2]
        by - (rule through_after_pop, auto simp: sys_fsync_def
            split: sysres.splits intro!: through_put_inode through_refl)
      then show ?thesis
        using fsync_ok [OF _ l2] s f by (auto simp: whole_def)
    next
      case False
      with s3 through_files [OF t2] show ?thesis by (auto intro: through_refl)
    qed
    then have t4: "through ?P d3 d4"
      using through_close [of ?P d3 o4 d4] s4 through_files [of ?P d2 d3] by simp
    from t1 t2 t3 t4 files_close [OF s4] show ?thesis
      by (auto intro: through_trans [of ?P])
  qed
  show "through ?P d e" using res t1 main by (auto split: if_splits)
  show "lookup (files e) path = Some (whole (old_content ?old @ ?l))" if ok
    using res that main by (auto split: if_splits)
qed

subsection \<open>Reading and removing\<close>

lemma read_all_state: "read_all path d = (r, e) \<Longrightarrow> files e = files d \<and> trail e = trail d"
  by (auto simp: read_all_def dest!: pop_files split: prod.splits option.splits sysres.splits)

lemma read_all_Some: "read_all path d = (Some c, e) \<Longrightarrow> \<exists>f. lookup (files d) path = Some f \<and> content f = c"
  by (auto simp: read_all_def dest!: pop_files split: prod.splits option.splits sysres.splits)

lemma read_all_no_faults:
  "script d = [] \<Longrightarrow> read_all path d = (map_option content (lookup (files d) path), d)"
  by (auto simp: read_all_def pop_no_faults split: option.splits)

lemma through_read_all [through_intros]: "P (files d) \<Longrightarrow> read_all path d = (r, e) \<Longrightarrow> through P d e"
  by (rule throughI [of _ "[]"]) (auto dest: read_all_state)

lemma remove_file_spec:
  assumes "remove_file path d = (ok, e)"
  shows "(files e = files d \<or> files e = AList.delete path (files d)) \<and> (ok \<longrightarrow> lookup (files e) path = None)"
    and "P (files d) \<Longrightarrow> P (AList.delete path (files d)) \<Longrightarrow> through P d e"
proof -
  obtain r d1 where s: "sys_unlink path d = (r, d1)" by fastforce
  have u: "r = UnlinkOk \<and> files d1 = AList.delete path (files d) \<or>
      r = UnlinkNoEnt \<and> files d1 = files d \<and> lookup (files d) path = None \<or>
      r = UnlinkErr \<and> files d1 = files d"
    using s by (cases d rule: pop_cases)
      (auto simp: sys_unlink_def io_simps split: sysres.splits option.splits)
  have res: "remove_file path d = (case r of UnlinkErr \<Rightarrow> (False, d1) | UnlinkNoEnt \<Rightarrow> (True, d1)
      | UnlinkOk \<Rightarrow> sync_dir d1)"
    by (simp add: remove_file_def s split: unlink_res.splits)
  obtain o2 d2 where s2: "sync_dir d1 = (o2, d2)" by fastforce
  note f2 = files_sync_dir [OF s2]
  show "(files e = files d \<or> files e = AList.delete path (files d)) \<and> (ok \<longrightarrow> lookup (files e) path = None)"
    using u res assms s2 f2 by auto
  assume P: "P (files d)" "P (AList.delete path (files d))"
  have t1: "through P d d1"
    using s P by - (rule through_after_pop, auto simp: sys_unlink_def
        split: sysres.splits option.splits intro!: through_commit through_refl)
  then have "through P d d2"
    using through_sync_dir [of P d1 o2 d2] s2 through_files [OF t1] by (blast intro: through_trans)
  with t1 show "through P d e" using res assms s2 by (auto split: unlink_res.splits)
qed

lemma list_names_state: "list_names dir d = (r, e) \<Longrightarrow> files e = files d \<and> trail e = trail d"
  by (auto simp: list_names_def dest: pop_files split: prod.splits sysres.splits)

lemma through_list_names [through_intros]: "P (files d) \<Longrightarrow> list_names dir d = (r, e) \<Longrightarrow> through P d e"
  by (rule throughI [of _ "[]"]) (auto dest: list_names_state)

lemma list_names_Some:
  assumes "list_names dir d = (Some ns, e)"
  shows "ns = filter (\<lambda>n. n \<noteq> [] \<and> hd n \<noteq> CHR ''.'')
    (map (\<lambda>(p, f). base_of p) (filter (\<lambda>(p, f). dir_of p = dir) (files d)))"
  using assms by (cases d rule: pop_cases) (auto simp: list_names_def split: sysres.splits)

lemma list_names_mem:
  assumes "list_names dir d = (Some ns, e)"
  shows "n \<in> set ns \<longleftrightarrow> n \<noteq> [] \<and> hd n \<noteq> CHR ''.'' \<and>
    (\<exists>p f. (p, f) \<in> set (files d) \<and> dir_of p = dir \<and> base_of p = n)"
  unfolding list_names_Some [OF assms] by auto

subsection \<open>Names and directories\<close>

definition dir_ok :: "string \<Rightarrow> bool" where
  "dir_ok d \<longleftrightarrow> slash \<in> set d \<and> last d \<noteq> slash"

lemma join_ok: "dir_ok d \<Longrightarrow> join d n = d @ slash # n"
  by (auto simp: dir_ok_def join_def)

lemma dir_of_join [path_simps]:
  assumes "dir_ok d" "slash \<notin> set n"
  shows "dir_of (join d n) = d"
proof -
  have "dropWhile (\<lambda>c. c \<noteq> slash) (rev n @ slash # rev d) = slash # rev d"
    using assms(2) by (intro dropWhile_neq_append) auto
  with assms show ?thesis by (auto simp: join_ok dir_of_def dir_ok_def)
qed

lemma join_dir_base:
  assumes "slash \<in> set p" "dir_of p = d" "dir_ok d"
  shows "p = join d (base_of p)"
proof -
  let ?b = "takeWhile (\<lambda>c. c \<noteq> slash) (rev p)" and ?r = "dropWhile (\<lambda>c. c \<noteq> slash) (rev p)"
  from assms(1) obtain r where r: "?r = slash # r" using dropWhile_member [of slash "rev p"] by auto
  have d: "dir_of p = (if r = [] then [slash] else rev r)"
    using assms(1) by (simp add: dir_of_def r)
  have "d = rev r" using assms(2,3) unfolding d dir_ok_def by (cases "r = []") auto
  moreover have "rev p = ?b @ slash # r" using r takeWhile_dropWhile_id [of "\<lambda>c. c \<noteq> slash" "rev p"] by simp
  then have "p = rev r @ slash # rev ?b" by (metis append_Cons append_Nil append_assoc rev.simps(2) rev_append rev_rev_ident)
  ultimately show ?thesis using assms(3) by (simp add: join_ok base_of_def)
qed

lemma dir_of_slash: "dir_ok (dir_of p) \<Longrightarrow> slash \<in> set p"
  by (auto simp: dir_of_def dir_ok_def slash_def split: if_splits)

lemma join_eq_iff [path_simps]:
  assumes "dir_ok d" "dir_ok e" "slash \<notin> set m" "slash \<notin> set n"
  shows "join d m = join e n \<longleftrightarrow> d = e \<and> m = n"
  using assms base_of_join dir_of_join by metis

lemma tmp_of_join [path_simps]:
  "dir_ok d \<Longrightarrow> slash \<notin> set n \<Longrightarrow> tmp_of (join d n) = join d (k_temp_prefix @ n)"
  by (simp add: tmp_of_def dir_of_join base_of_join)

lemma dir_ok_join [path_simps]: "dir_ok d \<Longrightarrow> n \<noteq> [] \<Longrightarrow> last n \<noteq> slash \<Longrightarrow> dir_ok (join d n)"
  by (simp add: join_ok) (simp add: dir_ok_def)

text \<open>The names in a store's directory name its files, each once.\<close>

lemma list_names_lookup:
  assumes "list_names dir d = (Some ns, e)" "dir_ok dir"
  shows "n \<in> set ns \<longleftrightarrow> n \<noteq> [] \<and> hd n \<noteq> CHR ''.'' \<and> slash \<notin> set n \<and> lookup (files d) (join dir n) \<noteq> None"
proof -
  have "(\<exists>p f. (p, f) \<in> set (files d) \<and> dir_of p = dir \<and> base_of p = n) \<longleftrightarrow>
      slash \<notin> set n \<and> (\<exists>f. (join dir n, f) \<in> set (files d))"
    using assms(2) join_dir_base dir_of_slash dir_of_join base_of_join base_of_no_slash by metis
  moreover have "(\<exists>f. (q, f) \<in> set (files d)) \<longleftrightarrow> lookup (files d) q \<noteq> None" for q
    by (force simp: lookup_def map_of_eq_None_iff image_iff)
  ultimately show ?thesis using list_names_mem [OF assms(1)] by auto
qed

lemma list_names_distinct:
  assumes "list_names dir d = (Some ns, e)" "dir_ok dir" "distinct (map fst (files d))"
  shows "distinct ns"
proof -
  let ?fs = "filter (\<lambda>(p, f). dir_of p = dir) (files d)"
  have "inj_on base_of (fst ` set ?fs)"
    by (rule inj_onI) (use assms(2) join_dir_base dir_of_slash in \<open>auto, metis\<close>)
  moreover have "distinct (map fst ?fs)"
    using assms(3) by (rule distinct_map_filter)
  ultimately have "distinct (map base_of (map fst ?fs))"
    unfolding distinct_map [of base_of] by simp
  then have "distinct (map (\<lambda>(p, f). base_of p) ?fs)"
    by (simp add: o_def case_prod_unfold)
  then show ?thesis unfolding list_names_Some [OF assms(1)] by (rule distinct_filter)
qed

lemma safe_no_slash [path_simps]: "name_is_safe n \<Longrightarrow> slash \<notin> set n"
  by (auto simp: name_is_safe_def list_all_iff name_char_ok_def slash_def less_eq_char_def)

lemma safe_not_temp [path_simps]: "name_is_safe n \<Longrightarrow> n \<noteq> k_temp_prefix @ m"
  by (auto simp: name_is_safe_def k_temp_prefix_def)

subsection \<open>Records: lines and escapes\<close>

lemma newline_neq_backslash [simp]: "newline \<noteq> backslash" "backslash \<noteq> newline"
  by (simp_all add: newline_def backslash_def)

lemma cr_neq [simp]: "cr \<noteq> backslash" "cr \<noteq> newline" "backslash \<noteq> cr" "newline \<noteq> cr"
  by (simp_all add: newline_def backslash_def cr_def)

lemma escape_letters [simp]: "newline \<noteq> CHR ''n''" "newline \<noteq> CHR ''r''" "backslash \<noteq> CHR ''n''"
    "backslash \<noteq> CHR ''r''" "newline \<noteq> CHR ''=''"
  by (simp_all add: newline_def backslash_def)

lemma unescape_plain: "c \<noteq> backslash \<Longrightarrow> unescape (c # s) = c # unescape s"
  by (cases s) auto

lemma unescape_escape [simp]: "unescape (escape v) = v"
  by (induction v) (auto simp: escape_def escape_char_def unescape_plain)

lemma newline_notin_escape [simp]: "newline \<notin> set (escape v)"
  by (induction v) (auto simp: escape_def escape_char_def)

lemma split_complete_lines_cons:
  "newline \<notin> set a \<Longrightarrow> split_complete_lines (a @ newline # b) = a # split_complete_lines b"
  by (subst split_complete_lines.simps) (simp add: takeWhile_neq_append dropWhile_neq_append)

lemma split_complete_lines_tail: "newline \<notin> set a \<Longrightarrow> split_complete_lines a = []"
  by (subst split_complete_lines.simps) simp

text \<open>A file of complete lines gives back its lines; whatever follows the last newline is dropped.\<close>

definition as_lines :: "string list \<Rightarrow> string" where
  "as_lines ls = concat (map (\<lambda>l. l @ [newline]) ls)"

lemma as_lines_append: "as_lines (a @ b) = as_lines a @ as_lines b"
  by (simp add: as_lines_def)

lemma split_as_lines:
  "(\<And>l. l \<in> set ls \<Longrightarrow> newline \<notin> set l) \<Longrightarrow>
   split_complete_lines (as_lines ls @ rest) = ls @ split_complete_lines rest"
  by (induction ls) (auto simp: as_lines_def split_complete_lines_cons)

lemma decode_line_pair:
  "CHR ''='' \<notin> set k \<Longrightarrow> decode_line (k @ CHR ''='' # escape v) = Some (k, v)"
  by (simp add: decode_line_def takeWhile_neq_append dropWhile_neq_append)

definition key_ok :: "string \<Rightarrow> bool" where
  "key_ok k \<longleftrightarrow> CHR ''='' \<notin> set k \<and> newline \<notin> set k"

lemma encode_record_lines:
  "encode_record r = as_lines (map (\<lambda>(k, v). k @ CHR ''='' # escape v) r)"
  by (induction r) (auto simp: encode_record_def encode_pair_def as_lines_def)

lemma map_filter_Some: "(\<And>x. x \<in> set xs \<Longrightarrow> f x = Some (g x)) \<Longrightarrow> List.map_filter f xs = map g xs"
  by (induction xs) (simp_all add: List.map_filter_simps)

lemma decode_encode_append:
  assumes "\<And>k v. (k, v) \<in> set r \<Longrightarrow> key_ok k" "newline \<notin> set torn"
  shows "decode_record (encode_record r @ torn) = r"
proof -
  let ?ls = "map (\<lambda>(k, v). k @ CHR ''='' # escape v) r"
  have "split_complete_lines (encode_record r @ torn) = ?ls"
    unfolding encode_record_lines
    by (subst split_as_lines) (use assms in \<open>auto simp: key_ok_def split_complete_lines_tail\<close>)
  then have "decode_record (encode_record r @ torn) = List.map_filter decode_line ?ls"
    by (simp add: decode_record_def)
  also have "\<dots> = map (\<lambda>l. the (decode_line l)) ?ls"
    by (rule map_filter_Some) (use assms(1) in \<open>auto simp: key_ok_def decode_line_pair\<close>)
  also have "\<dots> = r"
    by (simp, rule map_idI) (use assms(1) in \<open>fastforce simp: key_ok_def decode_line_pair\<close>)
  finally show ?thesis .
qed

lemma decode_encode_record:
  "(\<And>k v. (k, v) \<in> set r \<Longrightarrow> key_ok k) \<Longrightarrow> decode_record (encode_record r) = r"
  using decode_encode_append [of r "[]"] by simp

subsection \<open>Properties\<close>

text \<open>
  C5: Atomic replacement. Whatever calls fail and wherever the power goes during \<^verbatim>\<open>WriteAtomic\<close>, the
  next boot reads the target as it was or as exactly the new data, and no other file but the
  temporary one is touched; once it has returned true every boot reads the new data.
\<close>

theorem write_atomic_crash_safe:
  assumes "write_atomic path data d = (ok, e)"
  shows "through (\<lambda>fs. same_but {path, tmp_of path} (files d) fs \<and>
           (\<forall>keep. lookup (crash keep fs) path = lookup (crash keep (files d)) path \<or>
                   lookup (crash keep fs) path = Some (whole data))) d e \<and>
         (ok \<longrightarrow> (\<forall>keep. lookup (crash keep (files e)) path = Some (whole data)))"
proof (intro conjI impI)
  show "through (\<lambda>fs. same_but {path, tmp_of path} (files d) fs \<and>
      (\<forall>keep. lookup (crash keep fs) path = lookup (crash keep (files d)) path \<or>
              lookup (crash keep fs) path = Some (whole data))) d e"
    by (rule wa.wr_kept [OF assms]) (auto simp: atomic_states_def lookup_crash)
  show "\<forall>keep. lookup (crash keep (files e)) path = Some (whole data)" if ok
    using wa.wr_ok [of path data d e] assms that by (simp add: lookup_crash)
qed

lemma write_atomic_crash_safe_witness:
  "fst (write_atomic ''/c/state'' ''new'' (boot_io [(''/c/state'', whole ''old'')] [])) \<and>
   lookup (crash (\<lambda>_. 0) (files (snd (write_atomic ''/c/state'' ''new'' (boot_io [(''/c/state'', whole ''old'')] [])))))
     ''/c/state'' = Some (whole ''new'')"
proof -
  have "fst (write_atomic ''/c/state'' ''new'' (boot_io [(''/c/state'', whole ''old'')] []))" by code_simp
  with write_atomic_crash_safe [of "''/c/state''" "''new''" "boot_io [(''/c/state'', whole ''old'')] []"]
  show ?thesis by (cases "write_atomic ''/c/state'' ''new'' (boot_io [(''/c/state'', whole ''old'')] [])") simp
qed

text \<open>
  Durable append. Wherever the power goes during \<^verbatim>\<open>AppendLine\<close> no other file changes and what had
  reached the medium of the file is still there, followed by a prefix of the rest of the file and
  the new line; once it has returned true the file holds the old content and the whole line.
\<close>

theorem append_line_keeps_durable:
  assumes "append_line path line d = (ok, e)" "lookup (files d) path = Some f" "durable f \<le> length (content f)"
  shows "through (\<lambda>fs. same_but {path} (files d) fs \<and> (\<forall>keep. \<exists>n. durable f \<le> n \<and>
           map_option content (lookup (crash keep fs) path) = Some (take n (content f @ line @ [newline])))) d e \<and>
         (ok \<longrightarrow> (\<forall>keep. lookup (crash keep (files e)) path = Some (whole (content f @ line @ [newline]))))"
proof (intro conjI impI)
  let ?new = "content f @ line @ [newline]"
  have g: "\<exists>n. durable f \<le> n \<and> content (crash_inode k g) = take n ?new"
    if "content g = content f @ take j (line @ [newline])" "durable g = durable f \<or> durable g = length (content g)"
    for g j k
  proof -
    have "take (length (content f) + j) ?new = content g" using that(1) by simp
    then have "content (crash_inode k g) = take (min (max (durable g) k) (length (content f) + j)) ?new"
      by (simp add: crash_inode_def Let_def take_take [symmetric] del: take_append)
    moreover have "durable f \<le> min (max (durable g) k) (length (content f) + j)"
      using that assms(3) by auto
    ultimately show ?thesis by blast
  qed
  show "through (\<lambda>fs. same_but {path} (files d) fs \<and> (\<forall>keep. \<exists>n. durable f \<le> n \<and>
           map_option content (lookup (crash keep fs) path) = Some (take n ?new))) d e"
  proof (rule through_mono [OF append_line_spec(1) [OF assms(1)]])
    fix fs assume st: "append_states path line (files d) fs"
    have "\<exists>n. durable f \<le> n \<and> map_option content (lookup (crash keep fs) path) = Some (take n ?new)" for keep
    proof (cases "lookup fs path = lookup (files d) path")
      case True
      then show ?thesis using g [of f 0] assms(2) by (simp add: lookup_crash)
    next
      case False
      with st obtain g' j where "lookup fs path = Some g'"
        "content g' = content f @ take j (line @ [newline])" "durable g' = durable f \<or> durable g' = length (content g')"
        using assms(2) by (auto simp: append_states_def old_content_def old_durable_def)
      then show ?thesis using g [of g' j] by (simp add: lookup_crash)
    qed
    with st show "same_but {path} (files d) fs \<and> (\<forall>keep. \<exists>n. durable f \<le> n \<and>
        map_option content (lookup (crash keep fs) path) = Some (take n ?new))"
      by (simp add: append_states_def)
  qed
  show "\<forall>keep. lookup (crash keep (files e)) path = Some (whole ?new)" if ok
    using append_line_spec(2) [OF assms(1) that] assms(2) by (simp add: lookup_crash old_content_def)
qed

lemma append_line_keeps_durable_witness:
  "lookup (crash (\<lambda>_. 0) (files (snd (append_line ''/c/seen'' ''b'' (boot_io [(''/c/seen'', whole (''a'' @ [newline]))] [])))))
     ''/c/seen'' = Some (whole (''a'' @ [newline] @ ''b'' @ [newline]))"
proof -
  let ?d = "boot_io [(''/c/seen'', whole (''a'' @ [newline]))] []"
  have l: "lookup (files ?d) ''/c/seen'' = Some (whole (''a'' @ [newline]))"
    by (simp add: boot_io_def lookup_def)
  have "fst (append_line ''/c/seen'' ''b'' ?d)" by code_simp
  then show ?thesis
    using append_line_keeps_durable [of "''/c/seen''" "''b''" ?d True _ "whole (''a'' @ [newline])"] l
    by (cases "append_line ''/c/seen'' ''b'' ?d") (simp add: whole_def)
qed

text \<open>
  C21: Records round-trip. Decoding the encoding of any record with key names as the code uses them (no
  \<^verbatim>\<open>=\<close> or newline) gives the record back, values with newlines, carriage returns and backslashes
  included, and an unterminated tail after it, what a power cut leaves, is dropped.
\<close>

theorem record_round_trip:
  assumes "\<And>k v. (k, v) \<in> set r \<Longrightarrow> key_ok k" "newline \<notin> set torn"
  shows "decode_record (encode_record r @ torn) = r"
  using assms by (rule decode_encode_append)

lemma record_round_trip_witness:
  "decode_record (encode_record [(''body'', ''a'' @ [newline, backslash, cr] @ ''b''), (''body'', [])] @ ''curs'') =
     [(''body'', ''a'' @ [newline, backslash, cr] @ ''b''), (''body'', [])]"
  by (rule record_round_trip) (auto simp: key_ok_def newline_def)

end
