(* ===== verification/Wire.thy ===== *)
theory Wire
  imports Prelude "HOL-Library.Log_Nat"
begin

text \<open>
  The device's mirror of the sync wire, \<^verbatim>\<open>components/wire\<close>: the request and response types, the
  acknowledgement statuses, the encoder from a request to a JSON tree and the tolerant decoder from a
  JSON tree to a response. The JSON library itself (cJSON: parser and printer) is not part of the
  sources; its parser and printer are parameters, and its tree is the datatype \<open>json\<close>: a number
  carries the two readings cJSON gives it, the saturated \<^verbatim>\<open>valueint\<close> and \<^verbatim>\<open>valuedouble\<close>.

  A C++ conversion of a double that does not fit the integer type is undefined behaviour. The readers
  return \<open>None\<close> there, so the decoder's result distinguishes undefined behaviour (\<open>None\<close>), rejection
  (\<open>Some None\<close>) and acceptance (\<open>Some (Some r)\<close>).
\<close>

subsection \<open>Types\<close>

datatype ack_status =
    kSent
  | kRejectedInactive
  | kRejectedUnknownContact
  | kInvalid
  | kRejectedUndeliverable
  | kUnknown

definition ack_is_reject :: "ack_status \<Rightarrow> bool" where
  "ack_is_reject s \<longleftrightarrow> s \<noteq> kSent"

definition parse_ack_status :: "string \<Rightarrow> ack_status" where
  "parse_ack_status s =
     (if s = ''sent'' then kSent
      else if s = ''rejected_inactive'' then kRejectedInactive
      else if s = ''rejected_unknown_contact'' then kRejectedUnknownContact
      else if s = ''invalid'' then kInvalid
      else if s = ''rejected_undeliverable'' then kRejectedUndeliverable
      else kUnknown)"

record ack =
  ack_local_id :: string
  ack_stat :: ack_status

record letter =
  l_id :: string
  l_contact_id :: string
  l_subject :: string
  l_date :: int
  l_body :: string
  l_trimmed :: bool
  l_truncated :: bool
  l_degraded :: bool

record wire_contact =
  wc_id :: string
  wc_name :: string
  wc_active :: bool
  wc_pinned :: bool
  wc_order :: int
  wc_portrait :: string

record wire_ayllu =
  wa_version :: int
  wa_contacts :: "wire_contact list"

record device_config =
  dc_max_letter_chars :: "int option"
  dc_sync_interval_s :: "int option"
  dc_rat :: "string option"
  dc_cover :: "string option"

definition k_default_max_letter_chars :: int where
  "k_default_max_letter_chars = 500"

definition k_default_sync_interval_s :: int where
  "k_default_sync_interval_s = 21600"

record outbound =
  ob_local_id :: string
  ob_contact_id :: string
  ob_subject :: string
  ob_body :: string

record kipu_block =
  k_battery_pct :: int
  k_charging :: bool
  k_rat :: string
  k_rssi :: int
  k_queue_depth :: int
  k_fw :: string

record request =
  rq_cursor :: string
  rq_ayllu_version :: int
  rq_pututu_counter_seen :: nat
  rq_kipu :: "kipu_block option"
  rq_outbound :: "outbound list"

record response =
  rs_server_time :: int
  rs_cursor :: string
  rs_pututu_counter :: nat
  rs_acks :: "ack list"
  rs_letters :: "letter list"
  rs_more :: bool
  rs_ayllu :: "wire_ayllu option"
  rs_config :: "device_config option"

definition k_max_kipu_bytes :: nat where
  "k_max_kipu_bytes = 512"

definition k_sys_contact_id :: string where
  "k_sys_contact_id = ''c_sys''"

subsection \<open>JSON trees\<close>

datatype json =
    JNull
  | JBool bool
  | JNum int rat
  | JStr string
  | JArr "json list"
  | JObj "(string \<times> json) list"

definition get_item :: "json \<Rightarrow> string \<Rightarrow> json option" where
  "get_item o' key = (case o' of JObj kvs \<Rightarrow> map_of kvs key | _ \<Rightarrow> None)"

definition saturate_i32 :: "int \<Rightarrow> int" where
  "saturate_i32 x = max (- (2 ^ 31)) (min (2 ^ 31 - 1) x)"

text \<open>A C++ conversion of a double to an integer drops the fraction.\<close>

definition trunc_rat :: "rat \<Rightarrow> int" where
  "trunc_rat q = (if q < 0 then - \<lfloor>- q\<rfloor> else \<lfloor>q\<rfloor>)"

definition j_num :: "rat \<Rightarrow> json" where
  "j_num q = JNum (saturate_i32 (trunc_rat q)) q"

definition j_int :: "int \<Rightarrow> json" where
  "j_int i = j_num (of_int i)"

text \<open>A 64-bit counter as a double: exact below \<open>2 ^ 53\<close>, round to nearest even above.\<close>

definition double_of_u64 :: "nat \<Rightarrow> nat" where
  "double_of_u64 n =
     (let s = floorlog 2 n - 53
      in if s = 0 then n
         else let q = n div 2 ^ s; r = n mod 2 ^ s; half = 2 ^ (s - 1)
              in (if half < r \<or> (r = half \<and> odd q) then q + 1 else q) * 2 ^ s)"

subsection \<open>Field readers\<close>

definition string_or :: "json \<Rightarrow> string \<Rightarrow> string \<Rightarrow> string" where
  "string_or o' key d = (case get_item o' key of Some (JStr s) \<Rightarrow> s | _ \<Rightarrow> d)"

definition int64_or :: "json \<Rightarrow> string \<Rightarrow> int \<Rightarrow> int option" where
  "int64_or o' key d = (case get_item o' key of
      Some (JNum _ q) \<Rightarrow> if is_i64 (trunc_rat q) then Some (trunc_rat q) else None
    | _ \<Rightarrow> Some d)"

definition int_or :: "json \<Rightarrow> string \<Rightarrow> int \<Rightarrow> int option" where
  "int_or o' key d = map_option to_i32 (int64_or o' key d)"

definition uint64_or :: "json \<Rightarrow> string \<Rightarrow> nat \<Rightarrow> nat option" where
  "uint64_or o' key d = (case get_item o' key of
      Some (JNum _ q) \<Rightarrow>
        if q < 0 then Some d
        else if trunc_rat q < 2 ^ 64 then Some (nat (trunc_rat q)) else None
    | _ \<Rightarrow> Some d)"

definition bool_or :: "json \<Rightarrow> string \<Rightarrow> bool \<Rightarrow> bool" where
  "bool_or o' key d = (case get_item o' key of Some (JBool b) \<Rightarrow> b | _ \<Rightarrow> d)"

definition required_string :: "json \<Rightarrow> string \<Rightarrow> string option" where
  "required_string o' key = (case get_item o' key of Some (JStr s) \<Rightarrow> Some s | _ \<Rightarrow> None)"

subsection \<open>Decoding a response\<close>

definition is_object :: "json \<Rightarrow> bool" where
  "is_object j = (case j of JObj _ \<Rightarrow> True | _ \<Rightarrow> False)"

definition decode_ack :: "json \<Rightarrow> ack option" where
  "decode_ack j = (case required_string j ''local_id'' of
      None \<Rightarrow> None
    | Some lid \<Rightarrow> if lid = [] then None
        else (case required_string j ''status'' of
            None \<Rightarrow> None
          | Some st \<Rightarrow> Some \<lparr>ack_local_id = lid, ack_stat = parse_ack_status st\<rparr>))"

definition decode_letter :: "json \<Rightarrow> letter option option" where
  "decode_letter j = (case required_string j ''id'' of
      None \<Rightarrow> Some None
    | Some i \<Rightarrow> if i = [] then Some None
        else map_option (\<lambda>date. Some \<lparr>l_id = i,
               l_contact_id = string_or j ''contact_id'' [],
               l_subject = string_or j ''subject'' [],
               l_date = date,
               l_body = string_or j ''body'' [],
               l_trimmed = bool_or j ''trimmed'' False,
               l_truncated = bool_or j ''truncated'' False,
               l_degraded = bool_or j ''degraded'' False\<rparr>)
             (int64_or j ''date'' 0))"

definition decode_contact :: "json \<Rightarrow> wire_contact option option" where
  "decode_contact j = (case required_string j ''id'' of
      None \<Rightarrow> Some None
    | Some i \<Rightarrow> if i = [] then Some None
        else map_option (\<lambda>ord. Some \<lparr>wc_id = i,
               wc_name = string_or j ''name'' [],
               wc_active = bool_or j ''active'' False,
               wc_pinned = bool_or j ''pinned'' False,
               wc_order = ord,
               wc_portrait = string_or j ''portrait'' []\<rparr>)
             (int_or j ''order'' 0))"

text \<open>
  The loop over an array: every element must be an object that decodes; the first that does not
  rejects the response, the first undefined conversion makes the run undefined.
\<close>

fun decode_each :: "(json \<Rightarrow> 'a option option) \<Rightarrow> json list \<Rightarrow> 'a list option option" where
  "decode_each f [] = Some (Some [])"
| "decode_each f (j # js) =
     (if \<not> is_object j then Some None
      else case f j of
          None \<Rightarrow> None
        | Some None \<Rightarrow> Some None
        | Some (Some x) \<Rightarrow> map_option (map_option ((#) x)) (decode_each f js))"

definition decode_array :: "(json \<Rightarrow> 'a option option) \<Rightarrow> json \<Rightarrow> string \<Rightarrow> 'a list option option" where
  "decode_array f o' key = (case get_item o' key of
      Some (JArr js) \<Rightarrow> decode_each f js
    | _ \<Rightarrow> Some (Some []))"

definition opt_int :: "json \<Rightarrow> string \<Rightarrow> int option" where
  "opt_int o' key = (case get_item o' key of Some (JNum i _) \<Rightarrow> Some i | _ \<Rightarrow> None)"

definition decode_config :: "json \<Rightarrow> device_config" where
  "decode_config j = \<lparr>dc_max_letter_chars = opt_int j ''max_letter_chars'',
     dc_sync_interval_s = opt_int j ''sync_interval_s'',
     dc_rat = required_string j ''rat'',
     dc_cover = required_string j ''cover''\<rparr>"

definition decode_ayllu :: "json \<Rightarrow> wire_ayllu option option option" where
  "decode_ayllu tree = (case get_item tree ''ayllu'' of
      Some (JObj kvs) \<Rightarrow> (case int_or (JObj kvs) ''version'' 0 of
          None \<Rightarrow> None
        | Some v \<Rightarrow> map_option (map_option (\<lambda>cs. Some \<lparr>wa_version = v, wa_contacts = cs\<rparr>))
                      (decode_array decode_contact (JObj kvs) ''contacts''))
    | _ \<Rightarrow> Some (Some None))"

definition decode_config_item :: "json \<Rightarrow> device_config option" where
  "decode_config_item tree = (case get_item tree ''config'' of
      Some (JObj kvs) \<Rightarrow> Some (decode_config (JObj kvs))
    | _ \<Rightarrow> None)"

definition decode_tree :: "json \<Rightarrow> response option option" where
  "decode_tree tree =
     (if \<not> is_object tree then Some None else
      case required_string tree ''cursor'' of None \<Rightarrow> Some None | Some cursor \<Rightarrow>
      case int64_or tree ''server_time'' 0 of None \<Rightarrow> None | Some t \<Rightarrow>
      case uint64_or tree ''pututu_counter'' 0 of None \<Rightarrow> None | Some pc \<Rightarrow>
      case decode_array (\<lambda>j. Some (decode_ack j)) tree ''acks'' of
        None \<Rightarrow> None | Some None \<Rightarrow> Some None | Some (Some acks) \<Rightarrow>
      case decode_array decode_letter tree ''letters'' of
        None \<Rightarrow> None | Some None \<Rightarrow> Some None | Some (Some letters) \<Rightarrow>
      case decode_ayllu tree of
        None \<Rightarrow> None | Some None \<Rightarrow> Some None | Some (Some ayllu) \<Rightarrow>
      Some (Some \<lparr>rs_server_time = t, rs_cursor = cursor, rs_pututu_counter = pc,
        rs_acks = acks, rs_letters = letters, rs_more = bool_or tree ''more'' False,
        rs_ayllu = ayllu, rs_config = decode_config_item tree\<rparr>))"

definition decode_response :: "(string \<Rightarrow> json option) \<Rightarrow> string \<Rightarrow> response option option" where
  "decode_response parse body = (case parse body of None \<Rightarrow> Some None | Some tree \<Rightarrow> decode_tree tree)"

subsection \<open>Encoding a request\<close>

definition encode_kipu :: "kipu_block \<Rightarrow> json" where
  "encode_kipu k = JObj [(''battery_pct'', j_int (k_battery_pct k)),
     (''charging'', JBool (k_charging k)),
     (''fw'', JStr (c_str (k_fw k))),
     (''queue_depth'', j_int (k_queue_depth k)),
     (''rat'', JStr (c_str (k_rat k))),
     (''rssi'', j_int (k_rssi k))]"

definition kipu_fits :: "(json \<Rightarrow> string) \<Rightarrow> json \<Rightarrow> bool" where
  "kipu_fits print block \<longleftrightarrow> length (print block) \<le> k_max_kipu_bytes"

definition encode_outbound :: "outbound \<Rightarrow> json" where
  "encode_outbound b = JObj ([(''local_id'', JStr (c_str (ob_local_id b))),
     (''contact_id'', JStr (c_str (ob_contact_id b)))]
     @ (if ob_subject b = [] then [] else [(''subject'', JStr (c_str (ob_subject b)))])
     @ [(''body'', JStr (c_str (ob_body b)))])"

definition encode_kipu_item :: "(json \<Rightarrow> string) \<Rightarrow> kipu_block option \<Rightarrow> (string \<times> json) list" where
  "encode_kipu_item print ko = (case ko of
      None \<Rightarrow> []
    | Some k \<Rightarrow> if kipu_fits print (encode_kipu k) then [(''kipu'', encode_kipu k)] else [])"

definition encode_tree :: "(json \<Rightarrow> string) \<Rightarrow> request \<Rightarrow> json" where
  "encode_tree print r = JObj ([(''cursor'', JStr (c_str (rq_cursor r))),
     (''ayllu_version'', j_int (rq_ayllu_version r))]
     @ (if rq_pututu_counter_seen r \<noteq> 0
        then [(''pututu_counter_seen'', j_num (of_nat (double_of_u64 (rq_pututu_counter_seen r))))] else [])
     @ encode_kipu_item print (rq_kipu r)
     @ (if rq_outbound r \<noteq> [] then [(''outbound'', JArr (map encode_outbound (rq_outbound r)))] else []))"

definition encode_request :: "(json \<Rightarrow> string) \<Rightarrow> request \<Rightarrow> string" where
  "encode_request print r = print (encode_tree print r)"

subsection \<open>What the decoder reads\<close>

definition response_keys :: "string list" where
  "response_keys = [''cursor'', ''server_time'', ''pututu_counter'', ''acks'', ''letters'', ''ayllu'',
     ''config'', ''more'']"

lemmas reader_defs = string_or_def int64_or_def int_or_def uint64_or_def bool_or_def
  required_string_def decode_array_def opt_int_def decode_ayllu_def decode_config_item_def

lemma get_item_cong:
  "map_of kvs k = map_of kvs' k \<Longrightarrow> get_item (JObj kvs) k = get_item (JObj kvs') k"
  by (simp add: get_item_def)

lemma readers_cong:
  assumes "get_item a k = get_item b k"
  shows "int64_or a k d = int64_or b k d" "uint64_or a k n = uint64_or b k n"
    "bool_or a k c = bool_or b k c" "required_string a k = required_string b k"
    "decode_array f a k = decode_array f b k"
  using assms by (simp_all add: reader_defs)

lemma decode_tree_cong:
  assumes "\<And>k. k \<in> set response_keys \<Longrightarrow> map_of kvs k = map_of kvs' k"
  shows "decode_tree (JObj kvs) = decode_tree (JObj kvs')"
proof -
  have g: "get_item (JObj kvs) k = get_item (JObj kvs') k" if "k \<in> set response_keys" for k
    using assms [OF that] by (rule get_item_cong)
  have "decode_ayllu (JObj kvs) = decode_ayllu (JObj kvs')"
    using g [of "''ayllu''"] by (simp add: decode_ayllu_def response_keys_def)
  moreover have "decode_config_item (JObj kvs) = decode_config_item (JObj kvs')"
    using g [of "''config''"] by (simp add: decode_config_item_def response_keys_def)
  moreover have "int64_or (JObj kvs) ''server_time'' 0 = int64_or (JObj kvs') ''server_time'' 0"
    "required_string (JObj kvs) ''cursor'' = required_string (JObj kvs') ''cursor''"
    "uint64_or (JObj kvs) ''pututu_counter'' 0 = uint64_or (JObj kvs') ''pututu_counter'' 0"
    "bool_or (JObj kvs) ''more'' False = bool_or (JObj kvs') ''more'' False"
    "decode_array (\<lambda>j. Some (decode_ack j)) (JObj kvs) ''acks'' =
     decode_array (\<lambda>j. Some (decode_ack j)) (JObj kvs') ''acks''"
    "decode_array decode_letter (JObj kvs) ''letters'' = decode_array decode_letter (JObj kvs') ''letters''"
    by (intro conjI readers_cong g; simp add: response_keys_def)+
  moreover have "is_object (JObj kvs) = is_object (JObj kvs')"
    by (simp add: is_object_def)
  ultimately show ?thesis unfolding decode_tree_def by presburger
qed

text \<open>A well-formed response: everything the device must be able to address has a name.\<close>

definition response_ok :: "response \<Rightarrow> bool" where
  "response_ok r \<longleftrightarrow>
     is_i64 (rs_server_time r) \<and> rs_pututu_counter r < 2 ^ 64 \<and>
     (\<forall>a \<in> set (rs_acks r). ack_local_id a \<noteq> []) \<and>
     (\<forall>l \<in> set (rs_letters r). l_id l \<noteq> [] \<and> is_i64 (l_date l)) \<and>
     (case rs_ayllu r of None \<Rightarrow> True
      | Some a \<Rightarrow> is_i32 (wa_version a) \<and>
          (\<forall>c \<in> set (wa_contacts a). wc_id c \<noteq> [] \<and> is_i32 (wc_order c)))"

lemma decode_each_all:
  assumes "decode_each f js = Some (Some xs)"
    and "\<And>j x. f j = Some (Some x) \<Longrightarrow> P x"
  shows "\<forall>x \<in> set xs. P x"
  using assms(1)
proof (induction js arbitrary: xs)
  case (Cons j js)
  from Cons.prems obtain x ys where "f j = Some (Some x)" "decode_each f js = Some (Some ys)" "xs = x # ys"
    by (auto split: if_splits option.splits)
  with Cons.IH assms(2) show ?case by auto
qed simp

lemma decode_array_all:
  assumes "decode_array f t k = Some (Some xs)" "\<And>j x. f j = Some (Some x) \<Longrightarrow> P x"
  shows "\<forall>x \<in> set xs. P x"
  using assms(1) decode_each_all [of f _ xs P, OF _ assms(2)]
  by (auto simp: decode_array_def split: option.splits json.splits)

lemma decode_ack_ok: "decode_ack j = Some a \<Longrightarrow> ack_local_id a \<noteq> []"
  by (auto simp: decode_ack_def split: option.splits if_splits)

lemma int64_or_range: "int64_or t k 0 = Some v \<Longrightarrow> is_i64 v"
  by (auto simp: int64_or_def is_i64_def split: option.splits json.splits if_splits)

lemma int_or_range: "int_or t k 0 = Some v \<Longrightarrow> is_i32 v"
  by (auto simp: int_or_def)

lemma decode_letter_ok: "decode_letter j = Some (Some l) \<Longrightarrow> l_id l \<noteq> [] \<and> is_i64 (l_date l)"
  by (auto simp: decode_letter_def dest: int64_or_range split: option.splits if_splits)

lemma decode_contact_ok: "decode_contact j = Some (Some c) \<Longrightarrow> wc_id c \<noteq> [] \<and> is_i32 (wc_order c)"
  by (auto simp: decode_contact_def dest: int_or_range split: option.splits if_splits)

lemma uint64_or_range: "uint64_or t k 0 = Some v \<Longrightarrow> v < 2 ^ 64"
proof -
  assume a: "uint64_or t k 0 = Some v"
  have nat_less: "nat z < 2 ^ 64" if "z < 2 ^ 64" for z :: int
    using that by (simp add: nat_less_iff)
  show ?thesis
    using a by (auto simp: uint64_or_def simp del: of_nat_power intro: nat_less
        split: option.splits json.splits if_splits)
qed

lemma decode_ayllu_ok:
  assumes "decode_ayllu t = Some (Some (Some a))"
  shows "is_i32 (wa_version a) \<and> (\<forall>c \<in> set (wa_contacts a). wc_id c \<noteq> [] \<and> is_i32 (wc_order c))"
proof -
  from assms obtain kvs v cs where "int_or (JObj kvs) ''version'' 0 = Some v"
    "decode_array decode_contact (JObj kvs) ''contacts'' = Some (Some cs)"
    "a = \<lparr>wa_version = v, wa_contacts = cs\<rparr>"
    by (auto simp: decode_ayllu_def split: option.splits json.splits)
  then show ?thesis
    using decode_array_all [of decode_contact "JObj kvs" "''contacts''" cs
        "\<lambda>c. wc_id c \<noteq> [] \<and> is_i32 (wc_order c)"] decode_contact_ok int_or_range
    by simp
qed

lemma decode_tree_ok:
  assumes "decode_tree t = Some (Some r)"
  shows "response_ok r \<and> required_string t ''cursor'' = Some (rs_cursor r)"
proof -
  from assms obtain tm pc acks ls ay where d:
    "required_string t ''cursor'' = Some (rs_cursor r)"
    "int64_or t ''server_time'' 0 = Some tm" "uint64_or t ''pututu_counter'' 0 = Some pc"
    "decode_array (\<lambda>j. Some (decode_ack j)) t ''acks'' = Some (Some acks)"
    "decode_array decode_letter t ''letters'' = Some (Some ls)"
    "decode_ayllu t = Some (Some ay)"
    "rs_server_time r = tm" "rs_pututu_counter r = pc" "rs_acks r = acks" "rs_letters r = ls"
    "rs_ayllu r = ay"
    by (auto simp: decode_tree_def split: if_splits option.splits)
  have "\<forall>a \<in> set acks. ack_local_id a \<noteq> []"
    by (rule decode_array_all [OF d(4)]) (auto dest: decode_ack_ok)
  moreover have "\<forall>l \<in> set ls. l_id l \<noteq> [] \<and> is_i64 (l_date l)"
    by (rule decode_array_all [OF d(5) decode_letter_ok])
  ultimately show ?thesis
    using d decode_ayllu_ok [of t] int64_or_range [OF d(2)] uint64_or_range [OF d(3)]
    by (auto simp: response_ok_def split: option.splits)
qed

subsection \<open>The server's reading of a request\<close>

text \<open>
  What a server that follows the Go types (an absent field is its zero value) reads from the encoded
  tree. It is the specification of the encoder: nothing the device puts in a request is lost or
  changed, and nothing else is sent.
\<close>

definition read_outbound :: "json \<Rightarrow> outbound" where
  "read_outbound j = \<lparr>ob_local_id = string_or j ''local_id'' [], ob_contact_id = string_or j ''contact_id'' [],
     ob_subject = string_or j ''subject'' [], ob_body = string_or j ''body'' []\<rparr>"

definition num_or_0 :: "json \<Rightarrow> string \<Rightarrow> int" where
  "num_or_0 j k = (case opt_int j k of None \<Rightarrow> 0 | Some i \<Rightarrow> i)"

definition read_kipu :: "json \<Rightarrow> kipu_block" where
  "read_kipu j = \<lparr>k_battery_pct = num_or_0 j ''battery_pct'', k_charging = bool_or j ''charging'' False,
     k_rat = string_or j ''rat'' [], k_rssi = num_or_0 j ''rssi'', k_queue_depth = num_or_0 j ''queue_depth'',
     k_fw = string_or j ''fw'' []\<rparr>"

definition read_request :: "json \<Rightarrow> request" where
  "read_request j = \<lparr>rq_cursor = string_or j ''cursor'' [],
     rq_ayllu_version = num_or_0 j ''ayllu_version'',
     rq_pututu_counter_seen = (case uint64_or j ''pututu_counter_seen'' 0 of None \<Rightarrow> 0 | Some n \<Rightarrow> n),
     rq_kipu = map_option read_kipu (get_item j ''kipu''),
     rq_outbound = (case get_item j ''outbound'' of Some (JArr js) \<Rightarrow> map read_outbound js | _ \<Rightarrow> [])\<rparr>"

definition c_string :: "string \<Rightarrow> bool" where
  "c_string s \<longleftrightarrow> CHR 0x00 \<notin> set s"

definition outbound_ok :: "outbound \<Rightarrow> bool" where
  "outbound_ok b \<longleftrightarrow> c_string (ob_local_id b) \<and> c_string (ob_contact_id b) \<and>
     c_string (ob_subject b) \<and> c_string (ob_body b)"

definition kipu_ok :: "kipu_block \<Rightarrow> bool" where
  "kipu_ok k \<longleftrightarrow> is_i32 (k_battery_pct k) \<and> is_i32 (k_rssi k) \<and> is_i32 (k_queue_depth k) \<and>
     c_string (k_rat k) \<and> c_string (k_fw k)"

definition request_ok :: "request \<Rightarrow> bool" where
  "request_ok r \<longleftrightarrow> c_string (rq_cursor r) \<and> is_i32 (rq_ayllu_version r) \<and>
     rq_pututu_counter_seen r < 2 ^ 53 \<and> (\<forall>k. rq_kipu r = Some k \<longrightarrow> kipu_ok k) \<and>
     (\<forall>b \<in> set (rq_outbound r). outbound_ok b)"

lemma c_str_id [simp]: "c_string s \<Longrightarrow> c_str s = s"
  by (induction s) (auto simp: c_str_def c_string_def)

lemma trunc_rat_int [simp]: "trunc_rat (of_int i) = i"
proof (cases "i < 0")
  case True
  have "(- of_int i :: rat) = of_int (- i)" by simp
  with True show ?thesis unfolding trunc_rat_def by (simp del: of_int_minus)
qed (simp add: trunc_rat_def)

lemma trunc_rat_nat [simp]: "trunc_rat (of_nat n) = int n"
  by (simp add: trunc_rat_def)

lemma saturate_i32_id [simp]: "is_i32 i \<Longrightarrow> saturate_i32 i = i"
  by (auto simp: saturate_i32_def is_i32_def)

lemma j_int_value [simp]: "is_i32 i \<Longrightarrow> j_int i = JNum i (of_int i)"
  by (simp add: j_int_def j_num_def)

lemma double_of_u64_exact: "n < 2 ^ 53 \<Longrightarrow> double_of_u64 n = n"
proof -
  assume "n < 2 ^ 53"
  then have "floorlog 2 n \<le> 53" by (simp add: floorlog_le_iff)
  then show ?thesis by (simp add: double_of_u64_def Let_def)
qed

lemma get_item_simps [simp]:
  "get_item (JObj []) k = None"
  "get_item (JObj ((k', v) # kvs)) k = (if k = k' then Some v else get_item (JObj kvs) k)"
  by (simp_all add: get_item_def)

lemma get_item_append:
  "get_item (JObj (a @ b)) k = (case get_item (JObj a) k of None \<Rightarrow> get_item (JObj b) k | Some v \<Rightarrow> Some v)"
  by (auto simp: get_item_def map_add_def split: option.splits)

lemma read_outbound_encode [simp]: "outbound_ok b \<Longrightarrow> read_outbound (encode_outbound b) = b"
  by (cases "ob_subject b = []")
    (simp_all add: read_outbound_def encode_outbound_def string_or_def outbound_ok_def)

lemma read_kipu_encode [simp]: "kipu_ok k \<Longrightarrow> read_kipu (encode_kipu k) = k"
  by (simp add: read_kipu_def encode_kipu_def string_or_def bool_or_def num_or_0_def opt_int_def kipu_ok_def)

definition sent_kipu :: "(json \<Rightarrow> string) \<Rightarrow> request \<Rightarrow> kipu_block option" where
  "sent_kipu print r = (case rq_kipu r of None \<Rightarrow> None
     | Some k \<Rightarrow> if kipu_fits print (encode_kipu k) then Some k else None)"

lemma encode_tree_items:
  "get_item (encode_tree print r) ''cursor'' = Some (JStr (c_str (rq_cursor r)))"
  "get_item (encode_tree print r) ''ayllu_version'' = Some (j_int (rq_ayllu_version r))"
  "get_item (encode_tree print r) ''pututu_counter_seen'' =
     (if rq_pututu_counter_seen r = 0 then None
      else Some (j_num (of_nat (double_of_u64 (rq_pututu_counter_seen r)))))"
  "get_item (encode_tree print r) ''kipu'' = map_option encode_kipu (sent_kipu print r)"
  "get_item (encode_tree print r) ''outbound'' =
     (if rq_outbound r = [] then None else Some (JArr (map encode_outbound (rq_outbound r))))"
  by (auto simp: encode_tree_def get_item_append encode_kipu_item_def sent_kipu_def split: option.splits)

lemma read_encode_request:
  assumes "request_ok r"
  shows "read_request (encode_tree print r) = r\<lparr>rq_kipu := sent_kipu print r\<rparr>"
proof -
  have n: "nat (int (rq_pututu_counter_seen r)) = rq_pututu_counter_seen r" by simp
  have b: "map (read_outbound \<circ> encode_outbound) (rq_outbound r) = rq_outbound r"
    using assms by (intro map_idI) (simp add: request_ok_def)
  have k: "map_option read_kipu (map_option encode_kipu (sent_kipu print r)) = sent_kipu print r"
    using assms by (auto simp: request_ok_def sent_kipu_def split: option.splits)
  have u: "(case uint64_or (encode_tree print r) ''pututu_counter_seen'' 0 of None \<Rightarrow> 0 | Some n \<Rightarrow> n) =
      rq_pututu_counter_seen r"
    using assms
    by (simp add: uint64_or_def encode_tree_items request_ok_def double_of_u64_exact j_num_def)
  show ?thesis
    using assms u k b
    by (cases "rq_outbound r = []")
      (simp_all add: read_request_def string_or_def num_or_0_def opt_int_def encode_tree_items request_ok_def)
qed

text \<open>A number outside the range of the target integer makes the decoder's conversion undefined.\<close>

lemma decode_huge_number:
  "decode_tree (JObj [(''cursor'', JStr []), (''server_time'', JNum 2147483647 (10 ^ 300))]) = None"
  by (simp add: decode_tree_def is_object_def required_string_def int64_or_def trunc_rat_def is_i64_def)

subsection \<open>Properties\<close>

text \<open>
  C22: The request round trip. A server that reads an absent field as its zero value reads from the
  request exactly what the device put in it, the health block being left out when it would not fit
  the wire's cap; nothing else is lost, changed or added.
\<close>

theorem request_round_trip:
  assumes "request_ok r"
  shows "read_request (encode_tree print r) = r\<lparr>rq_kipu := sent_kipu print r\<rparr>"
  using assms by (rule read_encode_request)

definition demo_request :: request where
  "demo_request = \<lparr>rq_cursor = ''c9'', rq_ayllu_version = 3, rq_pututu_counter_seen = 41,
     rq_kipu = Some \<lparr>k_battery_pct = 80, k_charging = True, k_rat = ''lte'', k_rssi = -90,
       k_queue_depth = 1, k_fw = ''v1''\<rparr>,
     rq_outbound = [\<lparr>ob_local_id = ''01'', ob_contact_id = ''nina'', ob_subject = [], ob_body = ''hola''\<rparr>]\<rparr>"

lemma request_round_trip_witness:
  "read_request (encode_tree (\<lambda>_. []) demo_request) = demo_request\<lparr>rq_kipu := sent_kipu (\<lambda>_. []) demo_request\<rparr>"
  by (rule request_round_trip)
    (simp add: request_ok_def demo_request_def kipu_ok_def outbound_ok_def c_string_def is_i32_def)

text \<open>
  C23: What the decoder accepts is usable. A response the decoder returns has the cursor the server sent
  and names every ack, letter and contact in it, with its numbers in range; and it does not depend
  on any field of the object but the eight it knows, so a server that adds fields changes nothing.
\<close>

theorem decode_response_well_formed:
  assumes "parse body = Some (JObj kvs)" "decode_response parse body = Some (Some r)"
  shows "response_ok r \<and> required_string (JObj kvs) ''cursor'' = Some (rs_cursor r) \<and>
    (\<forall>kvs'. (\<forall>k \<in> set response_keys. map_of kvs' k = map_of kvs k) \<longrightarrow>
       decode_tree (JObj kvs') = Some (Some r))"
proof -
  have d: "decode_tree (JObj kvs) = Some (Some r)" using assms by (simp add: decode_response_def)
  moreover have "decode_tree (JObj kvs') = Some (Some r)"
    if "\<forall>k \<in> set response_keys. map_of kvs' k = map_of kvs k" for kvs'
    using decode_tree_cong [of kvs' kvs] that d by simp
  ultimately show ?thesis using decode_tree_ok by blast
qed

definition demo_response_tree :: "(string \<times> json) list" where
  "demo_response_tree = [(''cursor'', JStr ''c1''), (''server_time'', JNum 7 7),
     (''acks'', JArr [JObj [(''local_id'', JStr ''1''), (''status'', JStr ''sent'')]])]"

definition demo_response :: response where
  "demo_response = \<lparr>rs_server_time = 7, rs_cursor = ''c1'', rs_pututu_counter = 0,
     rs_acks = [\<lparr>ack_local_id = ''1'', ack_stat = kSent\<rparr>], rs_letters = [], rs_more = False,
     rs_ayllu = None, rs_config = None\<rparr>"

lemma decode_response_well_formed_witness:
  "response_ok demo_response \<and> decode_tree (JObj ((''new'', JNull) # demo_response_tree)) = Some (Some demo_response)"
proof -
  have "decode_response (\<lambda>_. Some (JObj demo_response_tree)) [] = Some (Some demo_response)"
    by (simp add: decode_response_def decode_tree_def demo_response_tree_def demo_response_def
        is_object_def reader_defs trunc_rat_def is_i64_def decode_ack_def parse_ack_status_def)
  from decode_response_well_formed [OF refl this]
  show ?thesis by (auto simp: response_keys_def)
qed

text \<open>
  A number the target integer cannot hold makes the decoder's conversion undefined: a
  \<^verbatim>\<open>server_time\<close> of \<open>10 ^ 300\<close> reaches the cast of \<^verbatim>\<open>Int64Or\<close> out of range.
\<close>

theorem decode_out_of_range_undefined:
  "decode_tree (JObj [(''cursor'', JStr []), (''server_time'', JNum 2147483647 (10 ^ 300))]) = None"
  by (rule decode_huge_number)

end
