(* ===== verification/Record_Dir.thy ===== *)
theory Record_Dir
  imports Fsutil
begin

text \<open>
  A directory that holds one record file per key: the layout the letter store and the outbox share.
  \<open>records_on decode key dir fs\<close> is the map such a directory represents, given the decoder of one file
  and the key it stores; a file whose record disagrees with its name is not in it. The lemmas say how
  atomic replacement, deletion, a power cut and a directory scan act on the map.
\<close>

definition records_on :: "(string \<Rightarrow> 'a option) \<Rightarrow> ('a \<Rightarrow> string) \<Rightarrow> string \<Rightarrow> fs \<Rightarrow> string \<Rightarrow> 'a option" where
  "records_on decode key dir fs i =
     (if name_is_safe i
      then case lookup fs (join dir i) of
             None \<Rightarrow> None
           | Some f \<Rightarrow> (case decode (content f) of
               None \<Rightarrow> None
             | Some x \<Rightarrow> if key x = i then Some x else None)
      else None)"

lemma records_on_cong:
  "(\<And>i. name_is_safe i \<Longrightarrow> lookup fs (join dir i) = lookup fs' (join dir i)) \<Longrightarrow>
   records_on decode key dir fs = records_on decode key dir fs'"
  by (auto simp: records_on_def fun_eq_iff)

lemma records_on_safe: "records_on decode key dir fs i = Some sl \<Longrightarrow> name_is_safe i \<and> key sl = i"
  by (auto simp: records_on_def split: if_splits option.splits)

lemma record_path_distinct:
  assumes "dir_ok dir" "name_is_safe i" "name_is_safe j"
  shows "join dir j = join dir i \<longleftrightarrow> j = i" "join dir j \<noteq> tmp_of (join dir i)"
  using assms by (simp_all add: path_simps slash_not_prefix)

lemma atomic_states_records:
  assumes "atomic_states (join dir i) data fs0 fs" "dir_ok dir" "name_is_safe i"
    and "decode data = Some sl" "key sl = i"
  shows "records_on decode key dir fs = records_on decode key dir fs0 \<or> records_on decode key dir fs = (records_on decode key dir fs0)(i \<mapsto> sl)"
proof -
  have other: "records_on decode key dir fs j = records_on decode key dir fs0 j" if "j \<noteq> i" for j
    using assms(1) record_path_distinct [OF assms(2,3), of j] that
    by (auto simp: records_on_def atomic_states_def same_but_def)
  from assms(1) consider "lookup fs (join dir i) = lookup fs0 (join dir i)"
    | "lookup fs (join dir i) = Some (whole data)"
    by (auto simp: atomic_states_def)
  then show ?thesis
  proof cases
    case 1
    then have "records_on decode key dir fs i = records_on decode key dir fs0 i" by (simp add: records_on_def)
    with other have "records_on decode key dir fs = records_on decode key dir fs0" by (intro ext) metis
    then show ?thesis ..
  next
    case 2
    with assms(3-5) have "records_on decode key dir fs i = Some sl" by (simp add: records_on_def whole_def)
    with other show ?thesis by (auto simp: fun_eq_iff)
  qed
qed

text \<open>Record files are only ever replaced as a whole, so a power cut leaves them as they are.\<close>

definition durable_dir :: "string \<Rightarrow> fs \<Rightarrow> bool" where
  "durable_dir dir fs \<longleftrightarrow>
     (\<forall>i f. name_is_safe i \<longrightarrow> lookup fs (join dir i) = Some f \<longrightarrow> durable f = length (content f))"

lemma crash_durable: "durable f = length (content f) \<Longrightarrow> crash_inode k f = f"
  by (cases f) (simp add: crash_inode_def Let_def)

lemma records_on_crash: "durable_dir dir fs \<Longrightarrow> records_on decode key dir (crash keep fs) = records_on decode key dir fs"
  by (rule records_on_cong) (auto simp: lookup_crash durable_dir_def crash_durable map_option_case
      split: option.splits)

lemma atomic_states_durable:
  assumes "atomic_states (join dir i) data fs0 fs" "dir_ok dir" "name_is_safe i" "durable_dir dir fs0"
  shows "durable_dir dir fs"
  unfolding durable_dir_def
proof (intro allI impI)
  fix j f
  assume j: "name_is_safe j" "lookup fs (join dir j) = Some f"
  show "durable f = length (content f)"
  proof (cases "j = i")
    case True
    with assms j show ?thesis by (auto simp: atomic_states_def durable_dir_def whole_def)
  next
    case False
    with assms(1) record_path_distinct [OF assms(2,3) j(1)]
    have "lookup fs (join dir j) = lookup fs0 (join dir j)"
      by (auto simp: atomic_states_def same_but_def)
    with assms(4) j show ?thesis by (auto simp: durable_dir_def)
  qed
qed

lemma records_on_delete:
  assumes "dir_ok dir" "name_is_safe i"
  shows "records_on decode key dir (AList.delete (join dir i) fs) = (records_on decode key dir fs)(i := None)"
proof (rule ext)
  fix j
  show "records_on decode key dir (AList.delete (join dir i) fs) j = ((records_on decode key dir fs)(i := None)) j"
    using record_path_distinct(1) [OF assms, of j]
    by (auto simp: records_on_def lookup_def delete_conv' split: option.splits)
qed

subsection \<open>Scanning a directory into an index\<close>

lemma find_map_filter:
  assumes "distinct ns" "\<And>n y. g n = Some y \<Longrightarrow> k y = n"
  shows "List.find (\<lambda>m. k m = i) (List.map_filter g ns) = (if i \<in> set ns then g i else None)"
  using assms(1)
proof (induction ns)
  case (Cons n ns)
  with assms(2) [of n] show ?case
    by (cases "g n") (auto simp: List.map_filter_simps split: option.splits)
qed (simp add: List.map_filter_simps)

lemma ids_map_filter:
  "distinct ns \<Longrightarrow> (\<And>n y. g n = Some y \<Longrightarrow> k y = n) \<Longrightarrow>
   distinct (map k (List.map_filter g ns)) \<and> k ` set (List.map_filter g ns) \<subseteq> set ns"
proof (induction ns)
  case (Cons n ns)
  then have "distinct (map k (List.map_filter g ns))" "k ` set (List.map_filter g ns) \<subseteq> set ns"
    by simp_all
  with Cons.prems(1) Cons.prems(2) [of n] show ?case
    by (auto simp: List.map_filter_simps split: option.splits)
qed (simp add: List.map_filter_simps)

lemma records_on_unlisted:
  assumes "list_names dir d = (Some ns, e)" "dir_ok dir" "i \<notin> set ns"
  shows "records_on decode key dir (files d) i = None"
proof (cases "name_is_safe i")
  case True
  then have "i \<noteq> []" "hd i \<noteq> CHR ''.''" "slash \<notin> set i"
    by (auto simp: name_is_safe_def safe_no_slash)
  with assms(3) list_names_lookup [OF assms(1,2), of i] show ?thesis by (simp add: records_on_def)
qed (simp add: records_on_def)

end
