(* ===== verification/Letter_Store.thy ===== *)
theory Letter_Store
  imports Record_Dir Wire "HOL-Library.Product_Lexorder" "HOL-Library.Multiset"
begin

text \<open>
  The bounded window of delivered letters, \<^verbatim>\<open>FileLetterStore\<close> of \<^verbatim>\<open>components/store/store.cpp\<close>: one
  file per letter under the letters directory and an index of everything but the bodies. The
  abstraction \<open>letters_on\<close> reads the letters a file system holds; the store's operations refine maps
  over it, and every durable state on the way holds the old letters or the new ones.
\<close>

subsection \<open>Letters on disk\<close>

record stored_letter =
  sl_letter :: letter
  sl_unread :: bool

definition bit_str :: "bool \<Rightarrow> string" where
  "bit_str b = (if b then ''1'' else ''0'')"

definition letter_record :: "letter \<Rightarrow> bool \<Rightarrow> kv_record" where
  "letter_record l unread =
     [(''id'', l_id l),
      (''contact_id'', l_contact_id l),
      (''subject'', l_subject l),
      (''date'', dec_int (l_date l)),
      (''trimmed'', bit_str (l_trimmed l)),
      (''truncated'', bit_str (l_truncated l)),
      (''degraded'', bit_str (l_degraded l)),
      (''unread'', bit_str unread),
      (''body'', l_body l)]"

definition encode_letter :: "letter \<Rightarrow> bool \<Rightarrow> string" where
  "encode_letter l unread = encode_record (letter_record l unread)"

definition or_default :: "'a option \<Rightarrow> 'a \<Rightarrow> 'a" where
  "or_default x d = (case x of None \<Rightarrow> d | Some v \<Rightarrow> v)"

definition decode_stored :: "string \<Rightarrow> stored_letter option" where
  "decode_stored text =
     (let r = decode_record text in
      case find_key r ''id'' of
        None \<Rightarrow> None
      | Some i \<Rightarrow> if i = [] then None
          else Some \<lparr>sl_letter = \<lparr>l_id = i,
                 l_contact_id = or_default (find_key r ''contact_id'') [],
                 l_subject = or_default (find_key r ''subject'') [],
                 l_date = or_default (read_i64 r ''date'') 0,
                 l_body = or_default (find_key r ''body'') [],
                 l_trimmed = or_default (read_bool r ''trimmed'') False,
                 l_truncated = or_default (read_bool r ''truncated'') False,
                 l_degraded = or_default (read_bool r ''degraded'') False\<rparr>,
               sl_unread = or_default (read_bool r ''unread'') True\<rparr>)"

subsection \<open>The store\<close>

record meta =
  m_id :: string
  m_date :: int
  m_unread :: bool

record letter_store =
  ls_dir :: string
  ls_index :: "meta list"

definition k_default_letters_keep :: nat where
  "k_default_letters_keep = 200"

definition meta_of :: "letter \<Rightarrow> bool \<Rightarrow> meta" where
  "meta_of l unread = \<lparr>m_id = l_id l, m_date = l_date l, m_unread = unread\<rparr>"

definition find_meta :: "letter_store \<Rightarrow> string \<Rightarrow> meta option" where
  "find_meta s i = List.find (\<lambda>m. m_id m = i) (ls_index s)"

fun index_put :: "meta \<Rightarrow> meta list \<Rightarrow> meta list" where
  "index_put m [] = [m]"
| "index_put m (x # xs) = (if m_id x = m_id m then m # xs else x # index_put m xs)"

definition load_letter :: "letter_store \<Rightarrow> string \<Rightarrow> io \<Rightarrow> stored_letter option \<times> io" where
  "load_letter s i d = (case read_all (join (ls_dir s) i) d of
      (None, d) \<Rightarrow> (None, d)
    | (Some text, d) \<Rightarrow> (decode_stored text, d))"

definition ls_put :: "letter \<Rightarrow> letter_store \<Rightarrow> io \<Rightarrow> bool \<times> letter_store \<times> io" where
  "ls_put l s d =
     (if \<not> name_is_safe (l_id l) then (False, s, d)
      else let unread = (case find_meta s (l_id l) of None \<Rightarrow> True | Some m \<Rightarrow> m_unread m);
               (ok, d) = write_atomic (join (ls_dir s) (l_id l)) (encode_letter l unread) d
           in if \<not> ok then (False, s, d)
              else (True, s\<lparr>ls_index := index_put (meta_of l unread) (ls_index s)\<rparr>, d))"

definition ls_get :: "string \<Rightarrow> letter_store \<Rightarrow> io \<Rightarrow> stored_letter option \<times> io" where
  "ls_get i s d = (case find_meta s i of None \<Rightarrow> (None, d) | Some _ \<Rightarrow> load_letter s i d)"

text \<open>Newest first, ties broken by the greater id: the comparator of \<^verbatim>\<open>Ordered\<close>, a total order on distinct ids.\<close>

definition ordered :: "letter_store \<Rightarrow> meta list" where
  "ordered s = rev (sort_key (\<lambda>m. (m_date m, m_id m)) (ls_index s))"

fun list_loop :: "letter_store \<Rightarrow> nat \<Rightarrow> stored_letter list \<Rightarrow> meta list \<Rightarrow> io \<Rightarrow> stored_letter list \<times> io" where
  "list_loop s limit out [] d = (out, d)"
| "list_loop s limit out (m # ms) d =
     (if limit \<le> length out then (out, d)
      else case load_letter s (m_id m) d of
          (None, d) \<Rightarrow> list_loop s limit out ms d
        | (Some sl, d) \<Rightarrow> list_loop s limit (out @ [sl]) ms d)"

definition list_newest_first :: "nat \<Rightarrow> letter_store \<Rightarrow> io \<Rightarrow> stored_letter list \<times> io" where
  "list_newest_first limit s d = list_loop s limit [] (ordered s) d"

fun set_read :: "string \<Rightarrow> meta list \<Rightarrow> meta list" where
  "set_read i [] = []"
| "set_read i (x # xs) = (if m_id x = i then x\<lparr>m_unread := False\<rparr> # xs else x # set_read i xs)"

definition mark_read :: "string \<Rightarrow> letter_store \<Rightarrow> io \<Rightarrow> bool \<times> letter_store \<times> io" where
  "mark_read i s d = (case find_meta s i of
      None \<Rightarrow> (False, s, d)
    | Some m \<Rightarrow> if \<not> m_unread m then (True, s, d)
        else (case load_letter s i d of
            (None, d) \<Rightarrow> (False, s, d)
          | (Some sl, d) \<Rightarrow>
              let (ok, d) = write_atomic (join (ls_dir s) i) (encode_letter (sl_letter sl) False) d
              in if \<not> ok then (False, s, d)
                 else (True, s\<lparr>ls_index := set_read i (ls_index s)\<rparr>, d)))"

definition unread_count :: "letter_store \<Rightarrow> nat" where
  "unread_count s = length (filter m_unread (ls_index s))"

definition ls_count :: "letter_store \<Rightarrow> nat" where
  "ls_count s = length (ls_index s)"

fun evict_loop :: "string list \<Rightarrow> nat \<Rightarrow> letter_store \<Rightarrow> io \<Rightarrow> nat \<times> letter_store \<times> io" where
  "evict_loop [] removed s d = (removed, s, d)"
| "evict_loop (i # is) removed s d =
     (let (ok, d) = remove_file (join (ls_dir s) i) d
      in if \<not> ok then evict_loop is removed s d
         else evict_loop is (removed + 1) (s\<lparr>ls_index := filter (\<lambda>m. m_id m \<noteq> i) (ls_index s)\<rparr>) d)"

definition evict_beyond :: "nat \<Rightarrow> letter_store \<Rightarrow> io \<Rightarrow> nat \<times> letter_store \<times> io" where
  "evict_beyond keep s d =
     (let keep = (if keep = 0 then k_default_letters_keep else keep);
          ord = ordered s
      in if length ord \<le> keep then (0, s, d)
         else evict_loop (map m_id (drop keep ord)) 0 s d)"

fun scan_letters :: "string list \<Rightarrow> letter_store \<Rightarrow> io \<Rightarrow> letter_store \<times> io" where
  "scan_letters [] s d = (s, d)"
| "scan_letters (n # ns) s d =
     (if \<not> name_is_safe n then scan_letters ns s d
      else case load_letter s n d of
          (None, d) \<Rightarrow> scan_letters ns s d
        | (Some sl, d) \<Rightarrow>
            if l_id (sl_letter sl) \<noteq> n then scan_letters ns s d
            else scan_letters ns
                   (s\<lparr>ls_index := ls_index s @ [meta_of (sl_letter sl) (sl_unread sl)]\<rparr>) d)"

definition k_letters_dir :: string where
  "k_letters_dir = ''letters''"

definition open_letter_store :: "string \<Rightarrow> io \<Rightarrow> letter_store \<times> io" where
  "open_letter_store base d =
     (let s = \<lparr>ls_dir = join base k_letters_dir, ls_index = []\<rparr>
      in case list_names (ls_dir s) d of
           (None, d) \<Rightarrow> (s, d)
         | (Some ns, d) \<Rightarrow> scan_letters ns s d)"

subsection \<open>The letters a file system holds\<close>

definition letters_on :: "string \<Rightarrow> fs \<Rightarrow> string \<Rightarrow> stored_letter option" where
  "letters_on = records_on decode_stored (\<lambda>sl. l_id (sl_letter sl))"

lemmas letters_on_unfold = letters_on_def records_on_def

lemmas letters_on_safe = records_on_safe [where decode = decode_stored and key = "\<lambda>sl. l_id (sl_letter sl)", folded letters_on_def]
  and atomic_states_letters =
    atomic_states_records [where decode = decode_stored and key = "\<lambda>sl. l_id (sl_letter sl)", folded letters_on_def]
  and letters_on_crash = records_on_crash [where decode = decode_stored and key = "\<lambda>sl. l_id (sl_letter sl)", folded letters_on_def]
  and letters_on_delete = records_on_delete [where decode = decode_stored and key = "\<lambda>sl. l_id (sl_letter sl)", folded letters_on_def]

definition meta_of_stored :: "stored_letter \<Rightarrow> meta" where
  "meta_of_stored sl = meta_of (sl_letter sl) (sl_unread sl)"

text \<open>The index agrees with the disk.\<close>

definition ls_agrees :: "letter_store \<Rightarrow> fs \<Rightarrow> bool" where
  "ls_agrees s fs \<longleftrightarrow> dir_ok (ls_dir s) \<and> distinct (map m_id (ls_index s)) \<and>
     (\<forall>i. find_meta s i = map_option meta_of_stored (letters_on (ls_dir s) fs i))"

lemma letter_keys: "(k, v) \<in> set (letter_record l u) \<Longrightarrow> key_ok k"
  by (auto simp: letter_record_def key_ok_def newline_def)

lemma bit_str_read: "(if bit_str b = ''1'' then Some True else if bit_str b = ''0'' then Some False else None) = Some b"
  by (simp add: bit_str_def)

lemma decode_encode_letter:
  assumes "l_id l \<noteq> []" "is_i64 (l_date l)"
  shows "decode_stored (encode_letter l u) = Some \<lparr>sl_letter = l, sl_unread = u\<rparr>"
proof -
  have d: "decode_record (encode_letter l u) = letter_record l u"
    unfolding encode_letter_def by (rule decode_encode_record) (rule letter_keys)
  show ?thesis
    using assms
    by (simp add: decode_stored_def d letter_record_def find_key_def read_i64_def read_bool_def
        or_default_def parse_i64_dec_int bit_str_read)
qed

lemma encode_letter_id:
  "l_id l \<noteq> [] \<Longrightarrow> is_i64 (l_date l) \<Longrightarrow> decode_stored (content (whole (encode_letter l u))) =
     Some \<lparr>sl_letter = l, sl_unread = u\<rparr>"
  by (simp add: whole_def decode_encode_letter)

subsection \<open>Index lemmas\<close>

lemma find_index_put:
  "List.find (\<lambda>x. m_id x = j) (index_put m xs) =
     (if j = m_id m then Some m else List.find (\<lambda>x. m_id x = j) xs)"
  by (induction m xs rule: index_put.induct) auto

lemma ids_index_put:
  "map m_id (index_put m xs) =
     (if m_id m \<in> m_id ` set xs then map m_id xs else map m_id xs @ [m_id m])"
  by (induction m xs rule: index_put.induct) auto

lemma find_set_read:
  "List.find (\<lambda>x. m_id x = j) (set_read i xs) =
     (if j = i then map_option (\<lambda>m. m\<lparr>m_unread := False\<rparr>) (List.find (\<lambda>x. m_id x = j) xs)
      else List.find (\<lambda>x. m_id x = j) xs)"
  by (induction i xs rule: set_read.induct) auto

lemma ids_set_read: "map m_id (set_read i xs) = map m_id xs"
  by (induction i xs rule: set_read.induct) auto

lemma find_meta_id: "find_meta s i = Some m \<Longrightarrow> m_id m = i \<and> m \<in> set (ls_index s)"
  by (auto simp: find_meta_def find_Some_iff)

lemma find_meta_mem:
  "distinct (map m_id (ls_index s)) \<Longrightarrow> m \<in> set (ls_index s) \<Longrightarrow> find_meta s (m_id m) = Some m"
proof -
  have "distinct (map m_id xs) \<Longrightarrow> m \<in> set xs \<Longrightarrow> List.find (\<lambda>x. m_id x = m_id m) xs = Some m" for xs
    by (induction xs) (auto simp: image_iff)
  then show "distinct (map m_id (ls_index s)) \<Longrightarrow> m \<in> set (ls_index s) \<Longrightarrow> find_meta s (m_id m) = Some m"
    by (simp add: find_meta_def)
qed

subsection \<open>Storing a letter\<close>

definition put_unread :: "(string \<Rightarrow> stored_letter option) \<Rightarrow> letter \<Rightarrow> bool" where
  "put_unread m l = (case m (l_id l) of None \<Rightarrow> True | Some sl \<Rightarrow> sl_unread sl)"

definition put_spec :: "(string \<Rightarrow> stored_letter option) \<Rightarrow> letter \<Rightarrow> string \<Rightarrow> stored_letter option" where
  "put_spec m l = m(l_id l \<mapsto> \<lparr>sl_letter = l, sl_unread = put_unread m l\<rparr>)"

lemma ls_put_spec:
  assumes "ls_put l s d = (ok, s', e)" "ls_agrees s (files d)" "is_i64 (l_date l)"
  shows "through (\<lambda>fs. letters_on (ls_dir s) fs = letters_on (ls_dir s) (files d) \<or>
                       letters_on (ls_dir s) fs = put_spec (letters_on (ls_dir s) (files d)) l) d e"
    and "ok \<Longrightarrow> ls_agrees s' (files e) \<and>
           letters_on (ls_dir s) (files e) = put_spec (letters_on (ls_dir s) (files d)) l"
    and "\<not> ok \<Longrightarrow> s' = s"
    and "ls_dir s' = ls_dir s"
proof -
  let ?dir = "ls_dir s" and ?i = "l_id l"
  let ?m = "letters_on ?dir (files d)"
  let ?u = "put_unread ?m l"
  note agr = assms(2) [unfolded ls_agrees_def]
  have u: "(case find_meta s ?i of None \<Rightarrow> True | Some m \<Rightarrow> m_unread m) = ?u"
    using agr by (auto simp: put_unread_def meta_of_stored_def meta_of_def split: option.splits)
  obtain o1 e1 where w: "write_atomic (join ?dir ?i) (encode_letter l ?u) d = (o1, e1)" by fastforce
  have res: "(ok, s', e) = (if \<not> name_is_safe ?i then (False, s, d) else if \<not> o1 then (False, s, e1)
      else (True, s\<lparr>ls_index := index_put (meta_of l ?u) (ls_index s)\<rparr>, e1))"
    using assms(1) by (cases "name_is_safe ?i"; cases o1) (simp_all add: ls_put_def u w)
  show "\<not> ok \<Longrightarrow> s' = s" "ls_dir s' = ls_dir s" using res by (auto split: if_splits)
  have dec: "decode_stored (encode_letter l ?u) = Some \<lparr>sl_letter = l, sl_unread = ?u\<rparr>"
    if "name_is_safe ?i"
    using that assms(3) by (intro decode_encode_letter) (auto simp: name_is_safe_def)
  show "through (\<lambda>fs. letters_on ?dir fs = ?m \<or> letters_on ?dir fs = put_spec ?m l) d e"
  proof (cases "name_is_safe ?i")
    case True
    have "through (\<lambda>fs. letters_on ?dir fs = ?m \<or> letters_on ?dir fs = put_spec ?m l) d e1"
      by (rule wa.wr_kept [OF w])
        (use True agr atomic_states_letters [OF _ _ True dec [OF True]] in \<open>simp add: put_spec_def\<close>)
    moreover have "e = e1" using res True by (auto split: if_splits)
    ultimately show ?thesis by simp
  qed (use res in \<open>auto intro: through_refl\<close>)
  assume ok
  with res have safe: "name_is_safe ?i" and o1 and s': "s' = s\<lparr>ls_index := index_put (meta_of l ?u) (ls_index s)\<rparr>"
    and e: "e = e1"
    by (auto split: if_splits)
  have "letters_on ?dir (files e) ?i = Some \<lparr>sl_letter = l, sl_unread = ?u\<rparr>"
    using wa.wr_ok [of "join ?dir ?i" "encode_letter l ?u" d e1] w \<open>o1\<close> e safe dec
    by (simp add: letters_on_unfold whole_def)
  moreover have "letters_on ?dir (files e) = ?m \<or> letters_on ?dir (files e) = put_spec ?m l"
    using atomic_states_letters [OF through_files [OF wa.wr_through [OF w]] _ safe dec [OF safe]] agr e
    by (simp add: put_spec_def)
  ultimately have letters: "letters_on ?dir (files e) = put_spec ?m l"
    by (auto simp: put_spec_def fun_upd_idem)
  moreover have "ls_agrees s' (files e)"
    using agr letters
    by (auto simp: ls_agrees_def s' find_meta_def find_index_put ids_index_put put_spec_def
        meta_of_stored_def meta_of_def)
  ultimately show "ls_agrees s' (files e) \<and> letters_on ?dir (files e) = put_spec ?m l" by simp
qed

lemma ls_put_durable:
  assumes "ls_put l s d = (ok, s', e)" "durable_dir (ls_dir s) (files d)" "dir_ok (ls_dir s)"
  shows "through (durable_dir (ls_dir s)) d e"
proof (cases "name_is_safe (l_id l)")
  case True
  let ?u = "case find_meta s (l_id l) of None \<Rightarrow> True | Some m \<Rightarrow> m_unread m"
  obtain o1 e1 where w: "write_atomic (join (ls_dir s) (l_id l)) (encode_letter l ?u) d = (o1, e1)"
    by fastforce
  have "e = e1" using assms(1) True by (cases o1) (simp_all add: ls_put_def w)
  with wa.wr_kept [OF w, of "durable_dir (ls_dir s)"] atomic_states_durable [OF _ assms(3) True assms(2)]
  show ?thesis by (simp add: assms(2))
next
  case False
  with assms(1,2) show ?thesis by (auto simp: ls_put_def intro: through_refl)
qed

subsection \<open>Marking a letter read\<close>

definition read_spec :: "(string \<Rightarrow> stored_letter option) \<Rightarrow> string \<Rightarrow> string \<Rightarrow> stored_letter option" where
  "read_spec m i = m(i := map_option (\<lambda>sl. sl\<lparr>sl_unread := False\<rparr>) (m i))"

lemma load_letter_Some:
  assumes "load_letter s i d = (Some sl, e)" "name_is_safe i" "letters_on (ls_dir s) (files d) i = Some sl'"
  shows "sl = sl' \<and> files e = files d \<and> trail e = trail d"
proof -
  obtain r e' where r: "read_all (join (ls_dir s) i) d = (r, e')" by fastforce
  with assms(1) obtain c where c: "r = Some c" "e' = e" "decode_stored c = Some sl"
    by (auto simp: load_letter_def split: option.splits)
  with read_all_Some [of "join (ls_dir s) i" d c e] r assms(2,3) have "sl = sl'"
    by (auto simp: letters_on_unfold split: if_splits option.splits)
  with read_all_state [OF r] c show ?thesis by simp
qed

lemma load_letter_state: "load_letter s i d = (r, e) \<Longrightarrow> files e = files d \<and> trail e = trail d"
  by (auto simp: load_letter_def split: prod.splits option.splits dest!: read_all_state)

lemma mark_read_spec:
  assumes "mark_read i s d = (ok, s', e)" "ls_agrees s (files d)"
    and "\<And>sl. letters_on (ls_dir s) (files d) i = Some sl \<Longrightarrow> is_i64 (l_date (sl_letter sl))"
  shows "through (\<lambda>fs. letters_on (ls_dir s) fs = letters_on (ls_dir s) (files d) \<or>
                       letters_on (ls_dir s) fs = read_spec (letters_on (ls_dir s) (files d)) i) d e"
    and "ok \<Longrightarrow> ls_agrees s' (files e) \<and> letters_on (ls_dir s) (files e) i \<noteq> None \<and>
           letters_on (ls_dir s) (files e) = read_spec (letters_on (ls_dir s) (files d)) i"
proof -
  let ?dir = "ls_dir s" and ?m = "letters_on (ls_dir s) (files d)"
  let ?Q = "\<lambda>fs. letters_on ?dir fs = ?m \<or> letters_on ?dir fs = read_spec ?m i"
  note agr = assms(2) [unfolded ls_agrees_def]
  have "through ?Q d e \<and> (ok \<longrightarrow> ls_agrees s' (files e) \<and> letters_on ?dir (files e) i \<noteq> None \<and>
      letters_on ?dir (files e) = read_spec ?m i)"
  proof (cases "?m i")
    case None
    then have "mark_read i s d = (False, s, d)" using agr by (simp add: mark_read_def)
    with assms(1) show ?thesis by (auto intro: through_refl)
  next
    case (Some sl)
    then have safe: "name_is_safe i" "l_id (sl_letter sl) = i" using letters_on_safe by blast+
    have fm: "find_meta s i = Some (meta_of_stored sl)" using agr Some by simp
    show ?thesis
    proof (cases "sl_unread sl")
      case False
      then have "mark_read i s d = (True, s, d)"
        by (simp add: mark_read_def fm meta_of_stored_def meta_of_def)
      moreover have "read_spec ?m i = ?m" using Some False by (auto simp: read_spec_def)
      ultimately show ?thesis using assms(1,2) Some by (auto intro: through_refl)
    next
      case True
      then have unread: "m_unread (meta_of_stored sl)" by (simp add: meta_of_stored_def meta_of_def)
      obtain r d1 where ld: "load_letter s i d = (r, d1)" by fastforce
      note d1 = load_letter_state [OF ld]
      show ?thesis
      proof (cases r)
        case None
        then have "mark_read i s d = (False, s, d1)" by (simp add: mark_read_def fm unread ld)
        with assms(1) d1 show ?thesis by (auto intro: throughI [of _ "[]"])
      next
        case (Some sl')
        then have [simp]: "sl' = sl" using load_letter_Some [of s i d sl' d1 sl] ld safe \<open>?m i = Some sl\<close> by simp
        let ?data = "encode_letter (sl_letter sl) False"
        let ?new = "\<lparr>sl_letter = sl_letter sl, sl_unread = False\<rparr>"
        obtain o1 d2 where w: "write_atomic (join ?dir i) ?data d1 = (o1, d2)" by fastforce
        have res: "(ok, s', e) = (if \<not> o1 then (False, s, d2)
            else (True, s\<lparr>ls_index := set_read i (ls_index s)\<rparr>, d2))"
          using assms(1) by (cases o1) (simp_all add: mark_read_def fm unread ld Some w)
        have dec: "decode_stored ?data = Some ?new"
          using safe assms(3) [OF \<open>?m i = Some sl\<close>]
          by (intro decode_encode_letter) (auto simp: name_is_safe_def)
        have upd: "?m(i \<mapsto> ?new) = read_spec ?m i"
          using \<open>?m i = Some sl\<close> by (cases sl) (simp add: read_spec_def)
        have step: "?Q fs" if "atomic_states (join ?dir i) ?data (files d1) fs" for fs
          using atomic_states_letters [OF that _ safe(1) dec] agr safe d1 upd by simp
        have "through ?Q d1 d2" by (rule wa.wr_kept [OF w]) (rule step)
        moreover have "through ?Q d d1" using d1 by (auto intro: throughI [of _ "[]"])
        ultimately have t: "through ?Q d d2" by (blast intro: through_trans)
        have "ls_agrees s' (files e) \<and> letters_on ?dir (files e) i \<noteq> None \<and>
            letters_on ?dir (files e) = read_spec ?m i" if ok
        proof -
          from that res have o1 and e: "e = d2" and s': "s' = s\<lparr>ls_index := set_read i (ls_index s)\<rparr>"
            by (auto split: if_splits)
          have i: "letters_on ?dir (files e) i = Some ?new"
            using wa.wr_ok [of "join ?dir i" ?data d1 d2] w \<open>o1\<close> e safe dec
            by (simp add: letters_on_unfold whole_def)
          moreover have "?Q (files e)" using through_files [OF t] e by simp
          ultimately have l: "letters_on ?dir (files e) = read_spec ?m i"
            using upd by (metis fun_upd_triv)
          have "ls_agrees s' (files e)"
            using agr l fm \<open>?m i = Some sl\<close>
            by (auto simp: ls_agrees_def s' find_meta_def find_set_read ids_set_read read_spec_def
                meta_of_stored_def meta_of_def)
          with i l show ?thesis by simp
        qed
        with t res show ?thesis by (auto split: if_splits)
      qed
    qed
  qed
  then show "through ?Q d e" "ok \<Longrightarrow> ls_agrees s' (files e) \<and> letters_on ?dir (files e) i \<noteq> None \<and>
      letters_on ?dir (files e) = read_spec ?m i" by auto
qed

subsection \<open>The inbox list\<close>

lemma set_ordered [simp]: "set (ordered s) = set (ls_index s)"
  by (simp add: ordered_def)

lemma length_ordered [simp]: "length (ordered s) = length (ls_index s)"
  by (simp add: ordered_def)

lemma distinct_ordered: "distinct (map m_id (ls_index s)) \<Longrightarrow> distinct (map m_id (ordered s))"
  by (simp add: distinct_map ordered_def)

definition newer_eq :: "meta \<Rightarrow> meta \<Rightarrow> bool" where
  "newer_eq a b \<longleftrightarrow> m_date b < m_date a \<or> m_date a = m_date b \<and> m_id b \<le> m_id a"

lemma ordered_sorted: "sorted_wrt newer_eq (ordered s)"
proof -
  have "sorted_wrt (\<lambda>a b. (m_date a, m_id a) \<le> (m_date b, m_id b)) (sort_key (\<lambda>m. (m_date m, m_id m)) (ls_index s))"
    using sorted_sort_key [of "\<lambda>m. (m_date m, m_id m)" "ls_index s"] by (simp add: sorted_map)
  then show ?thesis
    by (simp add: ordered_def sorted_wrt_rev newer_eq_def less_eq_prod_def le_less conj_commute disj_commute)
      (auto elim!: sorted_wrt_mono_rel [rotated])
qed

lemma load_no_faults:
  "script d = [] \<Longrightarrow> load_letter s i d =
     (case lookup (files d) (join (ls_dir s) i) of None \<Rightarrow> None | Some f \<Rightarrow> decode_stored (content f), d)"
  by (auto simp: load_letter_def read_all_no_faults split: option.splits)

lemma load_on:
  "script d = [] \<Longrightarrow> letters_on (ls_dir s) (files d) i = Some sl \<Longrightarrow> load_letter s i d = (Some sl, d)"
  by (auto simp: load_no_faults letters_on_unfold split: option.splits if_splits)

lemma list_loop_eq:
  assumes "script d = []" "\<And>m. m \<in> set ms \<Longrightarrow> letters_on (ls_dir s) (files d) (m_id m) = Some (g m)"
  shows "list_loop s limit out ms d = (out @ take (limit - length out) (map g ms), d)"
  using assms(2)
proof (induction ms arbitrary: out)
  case (Cons m ms)
  from Cons.prems have "load_letter s (m_id m) d = (Some (g m), d)" by (intro load_on assms(1)) auto
  moreover have "limit - length out = Suc (limit - Suc (length out))" if "\<not> limit \<le> length out"
    using that by simp
  ultimately show ?case using Cons by simp
qed simp

definition stored_of :: "letter_store \<Rightarrow> fs \<Rightarrow> meta \<Rightarrow> stored_letter" where
  "stored_of s fs m = the (letters_on (ls_dir s) fs (m_id m))"

lemma agrees_on: "ls_agrees s fs \<Longrightarrow> m \<in> set (ls_index s) \<Longrightarrow>
    letters_on (ls_dir s) fs (m_id m) = Some (stored_of s fs m) \<and> meta_of_stored (stored_of s fs m) = m"
  using find_meta_mem [of s m] by (auto simp: ls_agrees_def stored_of_def)

lemma list_newest_eq:
  assumes "ls_agrees s (files d)" "script d = []"
  shows "list_newest_first limit s d = (map (stored_of s (files d)) (take limit (ordered s)), d)"
  unfolding list_newest_first_def
  by (subst list_loop_eq [OF assms(2)]) (use agrees_on [OF assms(1)] in \<open>auto simp: take_map\<close>)

subsection \<open>Opening the store\<close>

lemma scan_no_faults:
  assumes "script d = []"
  shows "scan_letters ns s d = (s\<lparr>ls_index := ls_index s @
     List.map_filter (\<lambda>n. map_option meta_of_stored (letters_on (ls_dir s) (files d) n)) ns\<rparr>, d)"
proof (induction ns arbitrary: s)
  case (Cons n ns)
  have "scan_letters (n # ns) s d = (case letters_on (ls_dir s) (files d) n of
      None \<Rightarrow> scan_letters ns s d
    | Some sl \<Rightarrow> scan_letters ns (s\<lparr>ls_index := ls_index s @ [meta_of_stored sl]\<rparr>) d)"
    using assms by (auto simp: load_no_faults letters_on_unfold meta_of_stored_def split: option.splits)
  then show ?case using Cons.IH by (simp add: List.map_filter_simps split: option.splits)
qed (simp add: List.map_filter_simps)

lemma meta_of_stored_id [simp]: "m_id (meta_of_stored sl) = l_id (sl_letter sl)"
  by (simp add: meta_of_stored_def meta_of_def)

lemma open_agrees:
  assumes "open_letter_store base d = (s, e)" "script d = []" "distinct (map fst (files d))"
    and "dir_ok base"
  shows "ls_agrees s (files d)" "ls_dir s = join base k_letters_dir" "e = d"
proof -
  let ?dir = "join base k_letters_dir"
  have dir: "dir_ok ?dir"
    using assms(4) by (rule dir_ok_join) (simp_all add: k_letters_dir_def slash_def)
  let ?g = "\<lambda>n. map_option meta_of_stored (letters_on ?dir (files d) n)"
  obtain ns where ns: "list_names ?dir d = (Some ns, d)"
    using assms(2) by (simp add: list_names_def pop_no_faults)
  have s: "s = \<lparr>ls_dir = ?dir, ls_index = List.map_filter ?g ns\<rparr>" "e = d"
    using assms(1) by (auto simp: open_letter_store_def Let_def ns scan_no_faults [OF assms(2)])
  have g: "m_id y = n" if "?g n = Some y" for n y
    using that letters_on_safe by auto
  have dn: "distinct ns" by (rule list_names_distinct [OF ns dir assms(3)])
  have out: "?g i = None" if "i \<notin> set ns" for i
    using records_on_unlisted [OF ns dir that] by (simp add: letters_on_def)
  have "distinct (map m_id (List.map_filter ?g ns))" using ids_map_filter [of ns ?g m_id] dn g by blast
  moreover have "List.find (\<lambda>m. m_id m = i) (List.map_filter ?g ns) = ?g i" for i
    using find_map_filter [of ns ?g m_id i, OF dn g] out [of i] by presburger
  ultimately have "ls_agrees s (files d)"
    using dir by (simp add: ls_agrees_def s find_meta_def)
  with s show "ls_agrees s (files d)" "ls_dir s = join base k_letters_dir" "e = d" by simp_all
qed

subsection \<open>Eviction\<close>

definition evict_states :: "string \<Rightarrow> string set \<Rightarrow> (string \<Rightarrow> stored_letter option) \<Rightarrow> fs \<Rightarrow> bool" where
  "evict_states dir doomed m fs \<longleftrightarrow>
     (\<forall>j. letters_on dir fs j = m j \<or> j \<in> doomed \<and> letters_on dir fs j = None)"

lemma evict_loop_states:
  assumes "evict_loop is n s d = (n', s', e)" "dir_ok (ls_dir s)" "\<And>i. i \<in> set is \<Longrightarrow> name_is_safe i"
    and "evict_states (ls_dir s) (set is) m (files d)"
  shows "through (evict_states (ls_dir s) (set is) m) d e \<and> n' \<le> n + length is \<and> ls_dir s' = ls_dir s \<and>
    set (ls_index s') \<subseteq> set (ls_index s) \<and> (n' = n + length is \<longrightarrow>
      letters_on (ls_dir s) (files e) = (\<lambda>j. if j \<in> set is then None else letters_on (ls_dir s) (files d) j) \<and>
      ls_index s' = filter (\<lambda>x. m_id x \<notin> set is) (ls_index s))"
proof -
  have "through (evict_states (ls_dir s) D m) d e \<and> n' \<le> n + length is \<and> ls_dir s' = ls_dir s \<and>
    set (ls_index s') \<subseteq> set (ls_index s) \<and> (n' = n + length is \<longrightarrow>
      letters_on (ls_dir s) (files e) = (\<lambda>j. if j \<in> set is then None else letters_on (ls_dir s) (files d) j) \<and>
      ls_index s' = filter (\<lambda>x. m_id x \<notin> set is) (ls_index s))"
    if "set is \<subseteq> D" "evict_states (ls_dir s) D m (files d)" for D
    using assms(1,3) that assms(2)
  proof (induction "is" n s d rule: evict_loop.induct)
    case (1 n s d)
    then show ?case by (auto intro: through_refl)
  next
    case (2 i js n s d)
    obtain o1 d1 where r: "remove_file (join (ls_dir s) i) d = (o1, d1)" by fastforce
    note rs = remove_file_spec [OF r]
    note del = letters_on_delete [OF \<open>dir_ok (ls_dir s)\<close>, of i]
    have P: "evict_states (ls_dir s) D m (AList.delete (join (ls_dir s) i) (files d))"
      using "2.prems" by (auto simp: evict_states_def del)
    have t: "through (evict_states (ls_dir s) D m) d d1"
      by (rule rs(2)) (use "2.prems" P in auto)
    let ?s1 = "if o1 then s\<lparr>ls_index := filter (\<lambda>m. m_id m \<noteq> i) (ls_index s)\<rparr> else s"
    let ?n1 = "if o1 then n + 1 else n"
    have e: "evict_loop js ?n1 ?s1 d1 = (n', s', e)"
      using "2.prems"(1) by (cases o1) (simp_all add: r)
    have IH: "through (evict_states (ls_dir s) D m) d1 e \<and> n' \<le> ?n1 + length js \<and> ls_dir s' = ls_dir s \<and>
      set (ls_index s') \<subseteq> set (ls_index ?s1) \<and> (n' = ?n1 + length js \<longrightarrow>
      letters_on (ls_dir s) (files e) = (\<lambda>j. if j \<in> set js then None else letters_on (ls_dir s) (files d1) j) \<and>
      ls_index s' = filter (\<lambda>x. m_id x \<notin> set js) (ls_index ?s1))"
      using "2.IH" [OF r [symmetric] refl] "2.prems" e through_files [OF t]
      by (cases o1) (simp_all cong: if_cong)
    have l1: "letters_on (ls_dir s) (files d1) = (letters_on (ls_dir s) (files d))(i := None)" if o1
    proof -
      have "letters_on (ls_dir s) (files d1) i = None"
        using rs(1) that by (simp add: letters_on_unfold)
      moreover from rs(1) have "letters_on (ls_dir s) (files d1) = letters_on (ls_dir s) (files d) \<or>
          letters_on (ls_dir s) (files d1) = (letters_on (ls_dir s) (files d))(i := None)"
        using del "2.prems" by auto
      ultimately show ?thesis by (metis fun_upd_triv)
    qed
    show ?case
      using IH t l1 by (cases o1) (auto intro: through_trans simp: fun_eq_iff)
  qed
  from this [of "set is"] assms(4) show ?thesis by simp
qed

lemma doomed_safe:
  assumes "ls_agrees s fs" "m \<in> set (ls_index s)"
  shows "name_is_safe (m_id m)"
  using agrees_on [OF assms] letters_on_safe by blast

definition evict_keep :: "nat \<Rightarrow> nat" where
  "evict_keep keep = (if keep = 0 then k_default_letters_keep else keep)"

definition doomed :: "letter_store \<Rightarrow> nat \<Rightarrow> string set" where
  "doomed s keep = m_id ` set (drop (evict_keep keep) (ordered s))"

lemma kept_not_doomed:
  assumes "distinct (map m_id (ls_index s))" "m \<in> set (take (evict_keep keep) (ordered s))"
  shows "m_id m \<notin> doomed s keep"
proof
  let ?k = "evict_keep keep" and ?ids = "map m_id (ordered s)"
  assume "m_id m \<in> doomed s keep"
  then have "m_id m \<in> set (drop ?k ?ids)" by (auto simp: doomed_def drop_map)
  moreover have "m_id m \<in> set (take ?k ?ids)" using assms(2) by (auto simp: take_map)
  moreover have "distinct (take ?k ?ids @ drop ?k ?ids)"
    using distinct_ordered [OF assms(1)] by simp
  ultimately show False by (simp only: distinct_append) blast
qed

lemma evict_beyond_states:
  assumes "evict_beyond keep s d = (n, s', e)" "ls_agrees s (files d)"
  shows "through (evict_states (ls_dir s) (doomed s keep) (letters_on (ls_dir s) (files d))) d e"
    and "n \<le> ls_count s - evict_keep keep"
    and "n = ls_count s - evict_keep keep \<Longrightarrow> ls_agrees s' (files e) \<and> ls_count s' \<le> evict_keep keep \<and>
      letters_on (ls_dir s) (files e) =
        (\<lambda>j. if j \<in> doomed s keep then None else letters_on (ls_dir s) (files d) j)"
proof -
  let ?k = "evict_keep keep" and ?m = "letters_on (ls_dir s) (files d)"
  let ?is = "map m_id (drop ?k (ordered s))"
  note agr = assms(2) [unfolded ls_agrees_def]
  have sis: "set ?is = doomed s keep" by (simp add: doomed_def)
  have st0: "evict_states (ls_dir s) D ?m (files d)" for D by (simp add: evict_states_def)
  have safe: "name_is_safe i" if "i \<in> set ?is" for i
    using that doomed_safe [OF assms(2)] by (auto dest!: in_set_dropD)
  have run: "evict_loop ?is 0 s d = (n, s', e) \<or>
      (length (ordered s) \<le> ?k \<and> n = 0 \<and> s' = s \<and> e = d)"
    using assms(1) by (auto simp: evict_beyond_def evict_keep_def Let_def split: if_splits)
  have run: "evict_loop ?is 0 s d = (n, s', e)"
    using run by (elim disjE) (simp_all)
  note L = evict_loop_states [OF run _ safe st0]
  show "through (evict_states (ls_dir s) (doomed s keep) ?m) d e"
    using L agr by (simp add: doomed_def)
  show "n \<le> ls_count s - ?k" using L agr by (simp add: ls_count_def)
  assume n: "n = ls_count s - ?k"
  have ix: "ls_index s' = filter (\<lambda>x. m_id x \<notin> doomed s keep) (ls_index s)"
    and le: "letters_on (ls_dir s) (files e) = (\<lambda>j. if j \<in> doomed s keep then None else ?m j)"
    and dir: "ls_dir s' = ls_dir s"
    using L agr n by (simp_all add: doomed_def ls_count_def)
  have fnd: "List.find (\<lambda>x. m_id x = i) (filter (\<lambda>x. m_id x \<notin> D) xs) =
      (if i \<in> D then None else List.find (\<lambda>x. m_id x = i) xs)" for D i xs
    by (induction xs) auto
  have "ls_agrees s' (files e)"
    using agr by (auto simp: ls_agrees_def dir ix find_meta_def le fnd distinct_map_filter)
  moreover have "length (ls_index s') \<le> ?k"
  proof -
    have "mset (filter P (ls_index s)) = mset (filter P (ordered s))" for P
      by (simp add: ordered_def rev_filter [symmetric] filter_sort)
    then have "length (ls_index s') = length (filter (\<lambda>x. m_id x \<notin> doomed s keep) (ordered s))"
      unfolding ix by (metis size_mset)
    also have "\<dots> = length (filter (\<lambda>x. m_id x \<notin> doomed s keep) (take ?k (ordered s) @ drop ?k (ordered s)))"
      by simp
    also have "\<dots> \<le> ?k" unfolding filter_append
      by (simp add: doomed_def filter_empty_conv [THEN iffD2])
        (metis (no_types, lifting) length_filter_le length_take min.cobounded2 order_trans)
    finally show ?thesis .
  qed
  ultimately show "ls_agrees s' (files e) \<and> ls_count s' \<le> ?k \<and>
      letters_on (ls_dir s) (files e) = (\<lambda>j. if j \<in> doomed s keep then None else ?m j)"
    using le by (simp add: ls_count_def)
qed

subsection \<open>Properties\<close>

text \<open>
  C10: Storing a letter is atomic. Whatever calls fail and wherever the power goes during \<^verbatim>\<open>Put\<close>, the
  letters a reboot finds are the old ones or the old ones with this letter; when \<^verbatim>\<open>Put\<close> returns true
  the letter is there, with the unread flag of the copy already held (a re-delivery never makes a
  read letter unread), and the index agrees with the disk; when it returns false the index is
  unchanged.
\<close>

theorem letter_put_atomic:
  assumes "ls_put l s d = (ok, s', e)" "ls_agrees s (files d)" "durable_dir (ls_dir s) (files d)"
    and "is_i64 (l_date l)"
  shows "through (\<lambda>fs. \<forall>keep. letters_on (ls_dir s) (crash keep fs) = letters_on (ls_dir s) (files d) \<or>
            letters_on (ls_dir s) (crash keep fs) = put_spec (letters_on (ls_dir s) (files d)) l) d e \<and>
         (if ok then ls_agrees s' (files e) \<and>
            letters_on (ls_dir s) (files e) = put_spec (letters_on (ls_dir s) (files d)) l
          else s' = s)"
proof -
  note spec = ls_put_spec [OF assms(1,2,4)]
  have dir: "dir_ok (ls_dir s)" using assms(2) by (simp add: ls_agrees_def)
  note ls_put_durable [OF assms(1,3) dir]
  from through_conj [OF spec(1) this]
  have "through (\<lambda>fs. \<forall>keep. letters_on (ls_dir s) (crash keep fs) = letters_on (ls_dir s) (files d) \<or>
            letters_on (ls_dir s) (crash keep fs) = put_spec (letters_on (ls_dir s) (files d)) l) d e"
    by (rule through_mono) (simp add: letters_on_crash)
  with spec show ?thesis by auto
qed

definition demo_letter :: letter where
  "demo_letter = \<lparr>l_id = ''n7'', l_contact_id = ''nina'', l_subject = ''hi'', l_date = 7,
     l_body = ''a'' @ [newline] @ ''b'', l_trimmed = False, l_truncated = True, l_degraded = False\<rparr>"

definition demo_ls :: letter_store where
  "demo_ls = \<lparr>ls_dir = ''/c/letters'', ls_index = []\<rparr>"

lemma letter_put_atomic_witness:
  "fst (ls_put demo_letter demo_ls (boot_io [] [])) \<and>
   letters_on ''/c/letters'' (files (snd (snd (ls_put demo_letter demo_ls (boot_io [] []))))) ''n7'' =
     Some \<lparr>sl_letter = demo_letter, sl_unread = True\<rparr>"
proof -
  let ?d = "boot_io [] []"
  have agr: "ls_agrees demo_ls (files ?d)"
    by (simp add: ls_agrees_def demo_ls_def boot_io_def dir_ok_def slash_def find_meta_def
        letters_on_unfold lookup_def)
  have dd: "durable_dir (ls_dir demo_ls) (files ?d)"
    by (simp add: durable_dir_def boot_io_def lookup_def)
  have date: "is_i64 (l_date demo_letter)" by (simp add: demo_letter_def is_i64_def)
  obtain ok s' e where p: "ls_put demo_letter demo_ls ?d = (ok, s', e)"
    using prod_cases3 by blast
  have "fst (ls_put demo_letter demo_ls ?d)" by code_simp
  then have "ok" using p by simp
  with letter_put_atomic [OF p agr dd date]
  have "letters_on (ls_dir demo_ls) (files e) = put_spec (letters_on (ls_dir demo_ls) (files ?d)) demo_letter"
    by simp
  moreover have "l_id demo_letter = ''n7''" "ls_dir demo_ls = ''/c/letters''"
    by (simp_all add: demo_letter_def demo_ls_def)
  ultimately show ?thesis
    using p \<open>ok\<close> by (simp add: put_spec_def put_unread_def boot_io_def letters_on_unfold lookup_def)
qed

text \<open>
  The inbox list. On a store whose index agrees with the disk \<^verbatim>\<open>ListNewestFirst\<close> returns
  \<^verbatim>\<open>min(limit, Count())\<close> distinct letters, each as it is on disk, newest first with ties broken by
  the id, and no letter it leaves out is newer than one it returns.
\<close>

theorem list_newest_first_sorted:
  assumes "ls_agrees s (files d)" "script d = []"
  shows "\<exists>out. list_newest_first limit s d = (out, d) \<and> length out = min limit (ls_count s) \<and>
     distinct (map (\<lambda>x. l_id (sl_letter x)) out) \<and>
     (\<forall>x \<in> set out. letters_on (ls_dir s) (files d) (l_id (sl_letter x)) = Some x) \<and>
     sorted_wrt newer_eq (map meta_of_stored out) \<and>
     (\<forall>i y. letters_on (ls_dir s) (files d) i = Some y \<longrightarrow> y \<notin> set out \<longrightarrow>
        (\<forall>x \<in> set out. newer_eq (meta_of_stored x) (meta_of_stored y)))"
proof -
  let ?g = "stored_of s (files d)" and ?o = "ordered s"
  let ?out = "map ?g (take limit ?o)"
  note on = agrees_on [OF assms(1)]
  have metas: "map meta_of_stored (map ?g ms) = ms" if "set ms \<subseteq> set (ls_index s)" for ms
    using that on by (induction ms) auto
  have sub: "set (take limit ?o) \<subseteq> set (ls_index s)" using set_take_subset [of limit ?o] by simp
  have mo: "map meta_of_stored ?out = take limit ?o" using metas [OF sub] by simp
  have ids: "map (\<lambda>x. l_id (sl_letter x)) ?out = map m_id (take limit ?o)"
    using mo by (metis (no_types, lifting) list.map_comp map_eq_conv meta_of_stored_id o_apply)
  have "distinct (map m_id (take limit ?o))"
    using distinct_ordered [of s] assms(1) by (simp add: ls_agrees_def take_map [symmetric])
  moreover have "letters_on (ls_dir s) (files d) (l_id (sl_letter x)) = Some x" if "x \<in> set ?out" for x
  proof -
    from that sub obtain m where m: "m \<in> set (ls_index s)" "x = ?g m" by auto
    with on [OF m(1)] letters_on_safe show ?thesis by metis
  qed
  moreover have "sorted_wrt newer_eq (take limit ?o)"
    using ordered_sorted by (rule sorted_wrt_take)
  moreover have "newer_eq (meta_of_stored x) (meta_of_stored y)"
    if y: "letters_on (ls_dir s) (files d) i = Some y" "y \<notin> set ?out" and x: "x \<in> set ?out" for i x y
  proof -
    have "find_meta s i = Some (meta_of_stored y)" using assms(1) y by (simp add: ls_agrees_def)
    then have my: "meta_of_stored y \<in> set ?o" "m_id (meta_of_stored y) = i" using find_meta_id by fastforce+
    have "?g (meta_of_stored y) = y" using y my(2) by (simp add: stored_of_def)
    then have "meta_of_stored y \<notin> set (take limit ?o)" using y(2) by force
    with my(1) have "meta_of_stored y \<in> set (drop limit ?o)"
      using append_take_drop_id [of limit ?o] by (metis Un_iff set_append)
    moreover have "meta_of_stored x \<in> set (take limit ?o)" using x mo by (metis image_eqI list.set_map)
    ultimately show ?thesis
      using ordered_sorted [of s] append_take_drop_id [of limit ?o] by (metis sorted_wrt_append)
  qed
  moreover have "length ?out = min limit (ls_count s)" by (simp add: ls_count_def)
  moreover note list_newest_eq [OF assms, of limit]
  ultimately show ?thesis
    by (intro exI [of _ ?out] conjI ballI allI impI) (assumption | simp only: ids mo | blast)+
qed

definition two_letters :: io where
  "two_letters = boot_io [(''/c/letters/n7'', whole (encode_letter demo_letter True)),
     (''/c/letters/n8'', whole (encode_letter (demo_letter\<lparr>l_id := ''n8''\<rparr>) False))] []"

lemma list_newest_first_sorted_witness:
  "\<exists>out. list_newest_first 5 (fst (open_letter_store ''/c'' two_letters)) two_letters = (out, two_letters) \<and>
     length out = 2"
proof -
  obtain s e where o: "open_letter_store ''/c'' two_letters = (s, e)" by fastforce
  have agr: "ls_agrees s (files two_letters)"
  proof -
    have "distinct (map fst (files two_letters))" "script two_letters = []"
      by (simp_all add: two_letters_def boot_io_def)
    then show ?thesis using open_agrees [OF o] by (simp add: dir_ok_def slash_def)
  qed
  have "ls_count (fst (open_letter_store ''/c'' two_letters)) = 2" by code_simp
  with o list_newest_first_sorted [OF agr, of 5] show ?thesis
    by (auto simp: two_letters_def boot_io_def)
qed



text \<open>
  A reboot finds the store again. Opening the letter store on any file system, in particular on
  what a power cut left, builds an index that agrees with it: \<^verbatim>\<open>Get\<close> then returns exactly the letters
  on disk, and the unread count is the number of unread ones among them.
\<close>

theorem open_letter_store_agrees:
  assumes "open_letter_store base (boot_io (crash cut_at fs) []) = (s, e)"
    and "distinct (map fst fs)" "dir_ok base"
  shows "ls_agrees s (files e) \<and> e = boot_io (crash cut_at fs) [] \<and>
    (\<forall>i. ls_get i s e = (letters_on (join base k_letters_dir) (crash cut_at fs) i, e)) \<and>
    ls_count s = card (dom (letters_on (join base k_letters_dir) (crash cut_at fs))) \<and>
    unread_count s = card {i. \<exists>x. letters_on (join base k_letters_dir) (crash cut_at fs) i = Some x \<and> sl_unread x}"
proof -
  let ?d = "boot_io (crash cut_at fs) []" and ?m = "letters_on (join base k_letters_dir) (crash cut_at fs)"
  have "map fst (crash cut_at fs) = map fst fs" by (simp add: crash_def o_def case_prod_unfold)
  then have o: "ls_agrees s (files e)" "ls_dir s = join base k_letters_dir" "e = ?d"
    using open_agrees [OF assms(1)] assms(2,3) by (simp_all add: boot_io_def)
  from o(3) have f: "files e = crash cut_at fs" "script e = []" by (simp_all add: boot_io_def)
  have agr: "distinct (map m_id (ls_index s))" "\<And>i. find_meta s i = map_option meta_of_stored (?m i)"
    using o(1,2) f by (simp_all add: ls_agrees_def)
  have get: "ls_get i s e = (?m i, e)" for i
  proof (cases "?m i")
    case None
    then show ?thesis using agr(2) [of i] by (simp add: ls_get_def)
  next
    case (Some x)
    then have "load_letter s i e = (Some x, e)" using load_on [of e s i x] f o(2) by simp
    then show ?thesis using agr(2) [of i] Some by (simp add: ls_get_def)
  qed
  have inj: "inj_on m_id (set (ls_index s))" "distinct (ls_index s)"
    using agr(1) by (simp_all add: distinct_map)
  have mem: "m \<in> set (ls_index s) \<longleftrightarrow> (\<exists>x. ?m (m_id m) = Some x \<and> m = meta_of_stored x)" for m
    using agr find_meta_mem [of s m] find_meta_id [of s "m_id m" m] by auto
  have ids: "dom ?m = m_id ` set (ls_index s)"
  proof (intro set_eqI iffI)
    fix i assume "i \<in> dom ?m"
    then obtain x where x: "?m i = Some x" by auto
    then have "m_id (meta_of_stored x) = i" using letters_on_safe by simp
    with x mem [of "meta_of_stored x"] show "i \<in> m_id ` set (ls_index s)" by force
  qed (use mem in auto)
  have count: "ls_count s = card (dom ?m)"
    using ids inj by (simp add: ls_count_def card_image distinct_card)
  have "{i. \<exists>x. ?m i = Some x \<and> sl_unread x} = m_id ` set (filter m_unread (ls_index s))"
  proof (intro set_eqI iffI)
    fix i assume "i \<in> {i. \<exists>x. ?m i = Some x \<and> sl_unread x}"
    then obtain x where x: "?m i = Some x" "sl_unread x" by auto
    then have "m_id (meta_of_stored x) = i" "m_unread (meta_of_stored x)"
      using letters_on_safe by (simp_all add: meta_of_stored_def meta_of_def)
    with x mem [of "meta_of_stored x"] show "i \<in> m_id ` set (filter m_unread (ls_index s))" by force
  next
    fix i assume "i \<in> m_id ` set (filter m_unread (ls_index s))"
    then obtain m where m: "m \<in> set (ls_index s)" "m_unread m" "i = m_id m" by auto
    with mem [of m] show "i \<in> {i. \<exists>x. ?m i = Some x \<and> sl_unread x}"
      by (auto simp: meta_of_stored_def meta_of_def)
  qed
  moreover have "card (m_id ` set (filter m_unread (ls_index s))) = unread_count s"
    using inj distinct_card [of "filter m_unread (ls_index s)"]
    by (subst card_image) (auto intro: inj_on_subset simp: unread_count_def)
  ultimately show ?thesis using o get count by simp
qed

lemma open_letter_store_agrees_witness:
  "ls_count (fst (open_letter_store ''/c'' (boot_io (crash (\<lambda>_. 0) (files two_letters)) []))) =
     card (dom (letters_on (join ''/c'' k_letters_dir) (crash (\<lambda>_. 0) (files two_letters))))"
proof -
  obtain s e where o: "open_letter_store ''/c'' (boot_io (crash (\<lambda>_. 0) (files two_letters)) []) = (s, e)"
    by fastforce
  have "distinct (map fst (files two_letters))" by (simp add: two_letters_def boot_io_def)
  from open_letter_store_agrees [OF o this] show ?thesis
    by (simp add: o dir_ok_def slash_def)
qed

end
