(* ===== verification/Outbox.thy ===== *)
theory Outbox
  imports Record_Dir Wire "HOL-Library.Multiset"
begin

text \<open>
  The letters waiting for the runner, \<^verbatim>\<open>FileOutbox\<close> of \<^verbatim>\<open>components/store/store.cpp\<close>: one file per
  entry and the local-id counter, which reaches the medium before the entry that uses it. The
  abstraction \<open>outbox_on\<close> reads the entries a file system holds and \<open>counter_on\<close> its counter; a step
  relation with power cuts and reboots carries the invariant that makes local ids unique for ever.
\<close>

subsection \<open>Entries\<close>

record outbox_entry =
  oe_local_id :: string
  oe_contact_id :: string
  oe_subject :: string
  oe_body :: string
  oe_composed_at :: int
  oe_rejected :: bool
  oe_reject_status :: ack_status

definition k_local_id_digits :: nat where
  "k_local_id_digits = 16"

definition k_outbox_cap :: nat where
  "k_outbox_cap = 12"

definition format_local_id :: "nat \<Rightarrow> string" where
  "format_local_id n =
     (let s = dec n
      in if k_local_id_digits \<le> length s then s
         else replicate (k_local_id_digits - length s) CHR ''0'' @ s)"

definition parse_counter :: "string \<Rightarrow> nat option" where
  "parse_counter text = read_u64 [(''n'', takeWhile (\<lambda>c. c \<noteq> newline) text)] ''n''"

definition status_code :: "ack_status \<Rightarrow> nat" where
  "status_code s = (case s of kSent \<Rightarrow> 0 | kRejectedInactive \<Rightarrow> 1 | kRejectedUnknownContact \<Rightarrow> 2
     | kInvalid \<Rightarrow> 3 | kRejectedUndeliverable \<Rightarrow> 4 | kUnknown \<Rightarrow> 5)"

definition status_of_code :: "int \<Rightarrow> ack_status option" where
  "status_of_code i = (if i = 0 then Some kSent else if i = 1 then Some kRejectedInactive
     else if i = 2 then Some kRejectedUnknownContact else if i = 3 then Some kInvalid
     else if i = 4 then Some kRejectedUndeliverable else if i = 5 then Some kUnknown else None)"

definition entry_record :: "outbox_entry \<Rightarrow> kv_record" where
  "entry_record e =
     [(''local_id'', oe_local_id e),
      (''contact_id'', oe_contact_id e),
      (''subject'', oe_subject e),
      (''body'', oe_body e),
      (''composed_at'', dec_int (oe_composed_at e)),
      (''rejected'', if oe_rejected e then ''1'' else ''0''),
      (''reject_status'', dec (status_code (oe_reject_status e)))]"

definition encode_entry :: "outbox_entry \<Rightarrow> string" where
  "encode_entry e = encode_record (entry_record e)"

definition or_else :: "'a option \<Rightarrow> 'a \<Rightarrow> 'a" where
  "or_else x d = (case x of None \<Rightarrow> d | Some v \<Rightarrow> v)"

definition decode_entry :: "string \<Rightarrow> outbox_entry option" where
  "decode_entry text =
     (let r = decode_record text in
      case find_key r ''local_id'' of
        None \<Rightarrow> None
      | Some i \<Rightarrow> if i = [] then None
          else Some \<lparr>oe_local_id = i,
             oe_contact_id = or_else (find_key r ''contact_id'') [],
             oe_subject = or_else (find_key r ''subject'') [],
             oe_body = or_else (find_key r ''body'') [],
             oe_composed_at = or_else (read_i64 r ''composed_at'') 0,
             oe_rejected = or_else (read_bool r ''rejected'') False,
             oe_reject_status = (case read_int r ''reject_status'' of
                 None \<Rightarrow> kUnknown
               | Some v \<Rightarrow> or_else (status_of_code v) kUnknown)\<rparr>)"

subsection \<open>The outbox\<close>

record outbox =
  ox_dir :: string
  ox_counter_path :: string
  ox_high_water :: nat
  ox_entries :: "outbox_entry list"

definition ox_path :: "outbox \<Rightarrow> string \<Rightarrow> string" where
  "ox_path s i = join (ox_dir s) i"

definition sendable_count :: "outbox \<Rightarrow> nat" where
  "sendable_count s = length (filter (\<lambda>e. \<not> oe_rejected e) (ox_entries s))"

definition ox_ordered :: "outbox \<Rightarrow> outbox_entry list" where
  "ox_ordered s = sort_key oe_local_id (ox_entries s)"

definition sendable :: "outbox \<Rightarrow> outbox_entry list" where
  "sendable s = filter (\<lambda>e. \<not> oe_rejected e) (ox_ordered s)"

definition ox_all :: "outbox \<Rightarrow> outbox_entry list" where
  "ox_all s = ox_ordered s"

definition ox_find :: "outbox \<Rightarrow> string \<Rightarrow> outbox_entry option" where
  "ox_find s i = List.find (\<lambda>e. oe_local_id e = i) (ox_entries s)"

definition new_entry :: "nat \<Rightarrow> string \<Rightarrow> string \<Rightarrow> string \<Rightarrow> int \<Rightarrow> outbox_entry" where
  "new_entry n contact subject body composed_at =
     \<lparr>oe_local_id = format_local_id n, oe_contact_id = contact, oe_subject = subject, oe_body = body,
      oe_composed_at = composed_at, oe_rejected = False, oe_reject_status = kUnknown\<rparr>"

definition outbox_add ::
  "string \<Rightarrow> string \<Rightarrow> string \<Rightarrow> int \<Rightarrow> outbox \<Rightarrow> io \<Rightarrow> string option \<times> outbox \<times> io" where
  "outbox_add contact subject body composed_at s d =
     (if k_outbox_cap \<le> sendable_count s then (None, s, d)
      else let nxt = to_u64 (ox_high_water s + 1);
               (ok, d) = write_atomic (ox_counter_path s) (dec nxt @ [newline]) d
           in if \<not> ok then (None, s, d)
      else let s = s\<lparr>ox_high_water := nxt\<rparr>;
               e = new_entry nxt contact subject body composed_at;
               (ok, d) = write_atomic (ox_path s (oe_local_id e)) (encode_entry e) d
           in if \<not> ok then (None, s, d)
      else (Some (oe_local_id e), s\<lparr>ox_entries := ox_entries s @ [e]\<rparr>, d))"

definition ox_erase :: "string \<Rightarrow> outbox \<Rightarrow> io \<Rightarrow> bool \<times> outbox \<times> io" where
  "ox_erase i s d =
     (let (ok, d) = remove_file (ox_path s i) d
      in if \<not> ok then (False, s, d)
         else (True, s\<lparr>ox_entries := filter (\<lambda>e. oe_local_id e \<noteq> i) (ox_entries s)\<rparr>, d))"

fun reject_entry :: "string \<Rightarrow> ack_status \<Rightarrow> outbox_entry list \<Rightarrow> outbox_entry list" where
  "reject_entry i st [] = []"
| "reject_entry i st (e # es) =
     (if oe_local_id e = i then e\<lparr>oe_rejected := True, oe_reject_status := st\<rparr> # es
      else e # reject_entry i st es)"

definition outbox_resolve :: "string \<Rightarrow> ack_status \<Rightarrow> outbox \<Rightarrow> io \<Rightarrow> bool \<times> outbox \<times> io" where
  "outbox_resolve i st s d = (case ox_find s i of
      None \<Rightarrow> (True, s, d)
    | Some e \<Rightarrow> if st = kSent then ox_erase i s d
        else let s = s\<lparr>ox_entries := reject_entry i st (ox_entries s)\<rparr>;
                 (ok, d) = write_atomic (ox_path s i)
                   (encode_entry (e\<lparr>oe_rejected := True, oe_reject_status := st\<rparr>)) d
             in (ok, s, d))"

definition outbox_discard :: "string \<Rightarrow> outbox \<Rightarrow> io \<Rightarrow> bool \<times> outbox \<times> io" where
  "outbox_discard i s d = (case ox_find s i of None \<Rightarrow> (False, s, d) | Some _ \<Rightarrow> ox_erase i s d)"

definition load_counter :: "outbox \<Rightarrow> io \<Rightarrow> outbox \<times> io" where
  "load_counter s d = (case read_all (ox_counter_path s) d of
      (None, d) \<Rightarrow> (s, d)
    | (Some text, d) \<Rightarrow> (case parse_counter text of
          None \<Rightarrow> (s, d)
        | Some n \<Rightarrow> (s\<lparr>ox_high_water := n\<rparr>, d)))"

fun scan_outbox :: "string list \<Rightarrow> outbox \<Rightarrow> io \<Rightarrow> outbox \<times> io" where
  "scan_outbox [] s d = (s, d)"
| "scan_outbox (n # ns) s d =
     (if \<not> name_is_safe n then scan_outbox ns s d
      else case read_all (join (ox_dir s) n) d of
          (None, d) \<Rightarrow> scan_outbox ns s d
        | (Some text, d) \<Rightarrow> (case decode_entry text of
              None \<Rightarrow> scan_outbox ns s d
            | Some e \<Rightarrow> if oe_local_id e \<noteq> n then scan_outbox ns s d
                else scan_outbox ns (s\<lparr>ox_entries := ox_entries s @ [e]\<rparr>) d))"

definition k_outbox_dir :: string where "k_outbox_dir = ''outbox''"
definition k_local_id_file :: string where "k_local_id_file = ''local_id''"

definition empty_outbox :: "string \<Rightarrow> outbox" where
  "empty_outbox base = \<lparr>ox_dir = join base k_outbox_dir, ox_counter_path = join base k_local_id_file,
     ox_high_water = 0, ox_entries = []\<rparr>"

definition open_outbox :: "string \<Rightarrow> io \<Rightarrow> outbox \<times> io" where
  "open_outbox base d =
     (let (s, d) = load_counter (empty_outbox base) d
      in case list_names (ox_dir s) d of
           (None, d) \<Rightarrow> (s, d)
         | (Some ns, d) \<Rightarrow> scan_outbox ns s d)"

subsection \<open>What a file system holds\<close>

definition outbox_on :: "string \<Rightarrow> fs \<Rightarrow> string \<Rightarrow> outbox_entry option" where
  "outbox_on = records_on decode_entry oe_local_id"

lemmas outbox_on_unfold = outbox_on_def records_on_def

lemmas outbox_on_safe = records_on_safe [where decode = decode_entry and key = oe_local_id, folded outbox_on_def]
  and atomic_states_outbox =
    atomic_states_records [where decode = decode_entry and key = oe_local_id, folded outbox_on_def]
  and outbox_on_crash = records_on_crash [where decode = decode_entry and key = oe_local_id, folded outbox_on_def]
  and outbox_on_delete = records_on_delete [where decode = decode_entry and key = oe_local_id, folded outbox_on_def]
  and outbox_on_cong = records_on_cong [where decode = decode_entry and key = oe_local_id, folded outbox_on_def]

definition counter_on :: "string \<Rightarrow> fs \<Rightarrow> nat" where
  "counter_on path fs = (case lookup fs path of
      None \<Rightarrow> 0
    | Some f \<Rightarrow> or_else (parse_counter (content f)) 0)"

subsection \<open>Local ids\<close>

lemma format_digits: "list_all is_digit (format_local_id n)"
  by (auto simp: format_local_id_def Let_def list_all_iff is_digit_def dest: dec_digits)

lemma digits_val_zeros: "digits_val (replicate k CHR ''0'' @ s) = digits_val s"
proof -
  have "foldl (\<lambda>v c. v * 10 + digit_val c) 0 (replicate k CHR ''0'') = (0 :: nat)"
    by (induction k) (auto simp: digit_val_def)
  then show ?thesis by (simp add: digits_val_def)
qed

lemma digits_val_format [simp]: "digits_val (format_local_id n) = n"
  by (simp add: format_local_id_def Let_def digits_val_zeros)

lemma format_inject [simp]: "format_local_id m = format_local_id n \<longleftrightarrow> m = n"
  by (metis digits_val_format)

lemma length_format: "n < 10 ^ 16 \<Longrightarrow> length (format_local_id n) = 16"
  using length_dec_le [of n 16] by (auto simp: format_local_id_def k_local_id_digits_def Let_def)

lemma format_safe: "n < 10 ^ 20 \<Longrightarrow> name_is_safe (format_local_id n)"
proof -
  assume n: "n < 10 ^ 20"
  let ?s = "format_local_id n"
  have d: "list_all is_digit ?s" by (rule format_digits)
  have "?s \<noteq> []" by (simp add: format_local_id_def Let_def)
  moreover have "length ?s \<le> 64"
    using length_dec_le [OF n] by (auto simp: format_local_id_def k_local_id_digits_def Let_def)
  moreover have "list_all name_char_ok ?s"
    using d by (auto simp: list_all_iff is_digit_def name_char_ok_def)
  moreover have "hd ?s \<noteq> CHR ''.''"
    using d \<open>?s \<noteq> []\<close> by (cases ?s) (auto simp: is_digit_iff)
  ultimately show ?thesis by (simp add: name_is_safe_def)
qed

lemma digit_val_lt: "is_digit c \<Longrightarrow> digit_val c < 10"
  unfolding digit_val_def is_digit_iff by linarith

lemma digits_val_lt: "list_all is_digit s \<Longrightarrow> digits_val s < 10 ^ length s"
proof (induction s rule: rev_induct)
  case (snoc c s)
  then have "digits_val s < 10 ^ length s" "digit_val c < 10"
    by (simp_all add: digit_val_lt)
  then show ?case by (simp add: digits_val_append)
qed (simp add: digits_val_def)

text \<open>Among digit strings of one length, the lexical order is the numeric order.\<close>

lemma digits_val_cons: "digits_val (c # s) = digit_val c * 10 ^ length s + digits_val s"
proof (induction s rule: rev_induct)
  case (snoc x s)
  have "digits_val ((c # s) @ [x]) = digits_val (c # s) * 10 + digit_val x"
    by (rule digits_val_append)
  with snoc show ?case by (simp add: digits_val_append algebra_simps)
qed (simp add: digits_val_def)

lemma digits_less_iff:
  "list_all is_digit a \<Longrightarrow> list_all is_digit b \<Longrightarrow> length a = length b \<Longrightarrow> a < b \<longleftrightarrow> digits_val a < digits_val b"
proof (induction a b rule: list_induct2')
  case (4 x xs y ys)
  then have lt: "digits_val xs < 10 ^ length xs" "digits_val ys < 10 ^ length xs"
    using digits_val_lt [of xs] digits_val_lt [of ys] by simp_all
  have dv: "x < y \<longleftrightarrow> digit_val x < digit_val y" "x = y \<longleftrightarrow> digit_val x = digit_val y"
    using 4 by (auto simp: less_char_def digit_val_def is_digit_iff)
      (metis char_of_eq_iff diff_add_inverse2 le_add_diff_inverse2 of_char_eq_iff)+
  have aux: "a * k + u < b * k + v" if "a < b" "u < k" for a b u v k :: nat
  proof -
    from that have "a * k + u < (a + 1) * k" by simp
    also have "\<dots> \<le> b * k" using that by (intro mult_right_mono) auto
    finally show ?thesis by simp
  qed
  consider "digit_val x < digit_val y" | "digit_val x = digit_val y" | "digit_val y < digit_val x" by linarith
  then show ?case
  proof cases
    case 1
    with aux [OF 1 lt(1)] 4 dv show ?thesis by (simp add: digits_val_cons)
  next
    case 2
    with 4 dv show ?thesis by (simp add: digits_val_cons)
  next
    case 3
    with less_not_sym [OF aux [OF 3 lt(2), of "digits_val xs"]] 4 dv show ?thesis by (simp add: digits_val_cons)
  qed
qed auto

lemma format_less_iff:
  "m < 10 ^ 16 \<Longrightarrow> n < 10 ^ 16 \<Longrightarrow> format_local_id m < format_local_id n \<longleftrightarrow> m < n"
  by (subst digits_less_iff) (simp_all add: format_digits length_format)

subsection \<open>The counter file\<close>

definition ox_rooted :: "string \<Rightarrow> outbox \<Rightarrow> bool" where
  "ox_rooted base s \<longleftrightarrow> dir_ok base \<and> ox_dir s = join base k_outbox_dir \<and>
     ox_counter_path s = join base k_local_id_file"

lemma outbox_dir_ok: "dir_ok base \<Longrightarrow> dir_ok (join base k_outbox_dir)"
  by (rule dir_ok_join) (simp_all add: k_outbox_dir_def slash_def)

lemma counter_apart:
  assumes "dir_ok base" "slash \<notin> set n"
  shows "join (join base k_outbox_dir) n \<noteq> join base k_local_id_file"
    and "join (join base k_outbox_dir) n \<noteq> tmp_of (join base k_local_id_file)"
proof -
  have "join base k_outbox_dir \<noteq> base" using assms(1) by (simp add: join_ok)
  moreover have "slash \<notin> set k_local_id_file" "slash \<notin> set (k_temp_prefix @ k_local_id_file)"
    by (simp_all add: k_local_id_file_def k_temp_prefix_def slash_def)
  ultimately show "join (join base k_outbox_dir) n \<noteq> join base k_local_id_file"
    "join (join base k_outbox_dir) n \<noteq> tmp_of (join base k_local_id_file)"
    using assms by (simp_all add: outbox_dir_ok join_eq_iff tmp_of_join)
qed

lemma entry_tmp: "dir_ok base \<Longrightarrow> name_is_safe n \<Longrightarrow>
    tmp_of (join (join base k_outbox_dir) n) = join (join base k_outbox_dir) (k_temp_prefix @ n) \<and>
    slash \<notin> set (k_temp_prefix @ n)"
  by (simp add: tmp_of_join outbox_dir_ok safe_no_slash slash_not_prefix)

lemma atomic_states_counter:
  assumes "atomic_states (join base k_local_id_file) data fs0 fs" "dir_ok base"
  shows "outbox_on (join base k_outbox_dir) fs = outbox_on (join base k_outbox_dir) fs0"
    and "durable_dir (join base k_outbox_dir) fs0 \<Longrightarrow> durable_dir (join base k_outbox_dir) fs"
proof -
  have "lookup fs (join (join base k_outbox_dir) i) = lookup fs0 (join (join base k_outbox_dir) i)"
    if "name_is_safe i" for i
    using assms counter_apart [OF assms(2), of i] safe_no_slash [OF that]
    by (auto simp: atomic_states_def same_but_def)
  then show "outbox_on (join base k_outbox_dir) fs = outbox_on (join base k_outbox_dir) fs0"
    "durable_dir (join base k_outbox_dir) fs0 \<Longrightarrow> durable_dir (join base k_outbox_dir) fs"
    by (auto intro: outbox_on_cong simp: durable_dir_def)
qed

lemma counter_on_cong: "lookup fs p = lookup fs' p \<Longrightarrow> counter_on p fs = counter_on p fs'"
  by (simp add: counter_on_def)

lemma atomic_states_entry_counter:
  assumes "atomic_states (join (join base k_outbox_dir) n) data fs0 fs" "dir_ok base" "name_is_safe n"
  shows "lookup fs (join base k_local_id_file) = lookup fs0 (join base k_local_id_file)"
  using assms(1) counter_apart [OF assms(2), of n] counter_apart [OF assms(2), of "k_temp_prefix @ n"]
    entry_tmp [OF assms(2,3)] safe_no_slash [OF assms(3)]
  by (auto simp: atomic_states_def same_but_def)

lemma counter_on_written: "lookup fs p = Some (whole (dec n @ [newline])) \<Longrightarrow> n < 2 ^ 63 \<Longrightarrow> counter_on p fs = n"
proof -
  assume a: "lookup fs p = Some (whole (dec n @ [newline]))" "n < 2 ^ 63"
  have "newline \<notin> set (dec n)" by (rule dec_no_newline)
  then have t: "takeWhile (\<lambda>c. c \<noteq> newline) (dec n @ [newline]) = dec n"
    using takeWhile_neq_append [of newline "dec n" "[]"] by simp
  have "int n < 2 ^ 63" using a(2) by (metis of_nat_less_iff of_nat_numeral of_nat_power)
  with a t show ?thesis
    by (simp add: counter_on_def whole_def parse_counter_def read_u64_def read_i64_def find_key_def
        parse_i64_dec or_else_def)
qed

lemma read_i64_range: "read_i64 r k = Some v \<Longrightarrow> v < 2 ^ 63"
  by (auto simp: read_i64_def parse_i64_def Let_def is_i64_def split: option.splits if_splits prod.splits)

lemma counter_on_lt: "counter_on p fs < 2 ^ 63"
proof -
  have "n < 2 ^ 63" if "parse_counter t = Some n" for t n
  proof -
    from that obtain v where v: "read_i64 [(''n'', takeWhile (\<lambda>c. c \<noteq> newline) t)] ''n'' = Some v"
      "0 \<le> v" "n = nat v"
      by (auto simp: parse_counter_def read_u64_def split: option.splits if_splits)
    with read_i64_range [OF v(1)] have "int n < int (2 ^ 63)" by simp
    then show ?thesis by (simp only: of_nat_less_iff)
  qed
  then show ?thesis by (auto simp: counter_on_def or_else_def split: option.splits)
qed

subsection \<open>Entries written and read back\<close>

lemma entry_keys: "(k, v) \<in> set (entry_record e) \<Longrightarrow> key_ok k"
  by (auto simp: entry_record_def key_ok_def newline_def)

lemma status_round_trip: "status_of_code (int (status_code st)) = Some st"
  by (cases st) (simp_all add: status_code_def status_of_code_def)

lemma status_code_lt: "status_code st < 6"
  by (cases st) (simp_all add: status_code_def)

lemma decode_encode_entry:
  assumes "oe_local_id e \<noteq> []" "is_i64 (oe_composed_at e)"
  shows "decode_entry (encode_entry e) = Some e"
proof -
  have d: "decode_record (encode_entry e) = entry_record e"
    unfolding encode_entry_def by (rule decode_encode_record) (rule entry_keys)
  have "int (status_code (oe_reject_status e)) < 6"
    using status_code_lt [of "oe_reject_status e"] by linarith
  then have "parse_i64 (dec (status_code (oe_reject_status e))) = Some (int (status_code (oe_reject_status e)))"
    "is_i32 (int (status_code (oe_reject_status e)))"
    by (auto intro!: parse_i64_dec simp: is_i32_def)
  with assms show ?thesis
    by (simp add: decode_entry_def d entry_record_def find_key_def read_i64_def read_bool_def
        read_int_def or_else_def parse_i64_dec_int status_round_trip)
qed

subsection \<open>Agreement with the disk\<close>

definition ox_agrees :: "outbox \<Rightarrow> fs \<Rightarrow> bool" where
  "ox_agrees s fs \<longleftrightarrow> distinct (map oe_local_id (ox_entries s)) \<and>
     (\<forall>i. ox_find s i = outbox_on (ox_dir s) fs i)"

lemma find_reject_entry:
  "List.find (\<lambda>e. oe_local_id e = j) (reject_entry i st es) =
     (if j = i then map_option (\<lambda>e. e\<lparr>oe_rejected := True, oe_reject_status := st\<rparr>) (List.find (\<lambda>e. oe_local_id e = j) es)
      else List.find (\<lambda>e. oe_local_id e = j) es)"
  by (induction i st es rule: reject_entry.induct) auto

lemma ids_reject_entry: "map oe_local_id (reject_entry i st es) = map oe_local_id es"
  by (induction i st es rule: reject_entry.induct) auto

lemma ox_find_id: "ox_find s i = Some e \<Longrightarrow> oe_local_id e = i \<and> e \<in> set (ox_entries s)"
  by (auto simp: ox_find_def find_Some_iff)

subsection \<open>The invariant of the medium and of the memory\<close>

text \<open>
  \<open>fs_inv base n\<close>: the medium's counter is at least \<open>n\<close> and every entry file is named by an id the
  counter has passed. \<open>ids_below n\<close>: ids of counter values up to \<open>n\<close>.
\<close>

definition ids_below :: "nat \<Rightarrow> string set" where
  "ids_below n = format_local_id ` {..n}"

definition ox_on :: "string \<Rightarrow> fs \<Rightarrow> string \<Rightarrow> outbox_entry option" where
  "ox_on base = outbox_on (join base k_outbox_dir)"

definition ox_counter :: "string \<Rightarrow> fs \<Rightarrow> nat" where
  "ox_counter base = counter_on (join base k_local_id_file)"

definition ox_durable :: "string \<Rightarrow> fs \<Rightarrow> bool" where
  "ox_durable base fs \<longleftrightarrow> durable_dir (join base k_outbox_dir) fs \<and>
     (\<forall>f. lookup fs (join base k_local_id_file) = Some f \<longrightarrow> durable f = length (content f))"

definition fs_inv :: "string \<Rightarrow> nat \<Rightarrow> fs \<Rightarrow> bool" where
  "fs_inv base n fs \<longleftrightarrow> n \<le> ox_counter base fs \<and> ox_durable base fs \<and>
     dom (ox_on base fs) \<subseteq> ids_below (ox_counter base fs)"

definition mem_inv :: "string \<Rightarrow> outbox \<Rightarrow> fs \<Rightarrow> bool" where
  "mem_inv base s fs \<longleftrightarrow> ox_rooted base s \<and> fs_inv base (ox_high_water s) fs \<and>
     dom (ox_on base fs) \<subseteq> ids_below (ox_high_water s) \<and>
     oe_local_id ` set (ox_entries s) \<subseteq> ids_below (ox_high_water s)"

lemma ids_below_mono: "m \<le> n \<Longrightarrow> ids_below m \<subseteq> ids_below n"
  by (auto simp: ids_below_def)

lemma ids_below_safe: "i \<in> ids_below n \<Longrightarrow> n < 2 ^ 63 \<Longrightarrow> name_is_safe i"
  by (auto simp: ids_below_def intro!: format_safe)

lemma ox_counter_crash: "ox_durable base fs \<Longrightarrow> ox_counter base (crash keep fs) = ox_counter base fs"
  by (auto simp: ox_counter_def counter_on_def lookup_crash ox_durable_def crash_durable split: option.splits)

lemma ox_on_crash: "ox_durable base fs \<Longrightarrow> ox_on base (crash keep fs) = ox_on base fs"
  by (simp add: ox_on_def ox_durable_def outbox_on_crash)

lemma ox_durable_crash: "ox_durable base (crash keep fs)"
  by (auto simp: ox_durable_def durable_dir_def lookup_crash crash_inode_def Let_def)

lemma fs_inv_crash: "fs_inv base n fs \<Longrightarrow> fs_inv base n (crash keep fs)"
  by (simp add: fs_inv_def ox_counter_crash ox_on_crash ox_durable_crash)

lemma counter_step:
  assumes "atomic_states (join base k_local_id_file) (dec n @ [newline]) fs0 fs" "dir_ok base" "n < 2 ^ 63"
    and "ox_durable base fs0"
  shows "ox_on base fs = ox_on base fs0" "ox_durable base fs"
    "ox_counter base fs = ox_counter base fs0 \<or> ox_counter base fs = n"
proof -
  note A = atomic_states_counter [OF assms(1,2)]
  show "ox_on base fs = ox_on base fs0" by (simp add: ox_on_def A)
  show "ox_durable base fs"
    using A(2) assms(1,4) by (auto simp: ox_durable_def atomic_states_def whole_def)
  from assms(1) consider "lookup fs (join base k_local_id_file) = lookup fs0 (join base k_local_id_file)"
    | "lookup fs (join base k_local_id_file) = Some (whole (dec n @ [newline]))"
    by (auto simp: atomic_states_def)
  then show "ox_counter base fs = ox_counter base fs0 \<or> ox_counter base fs = n"
  proof cases
    case 1
    then show ?thesis unfolding ox_counter_def by (intro disjI1 counter_on_cong)
  next
    case 2
    then show ?thesis unfolding ox_counter_def by (intro disjI2 counter_on_written assms(3))
  qed
qed

lemma entry_step:
  assumes "atomic_states (join (join base k_outbox_dir) (oe_local_id e)) (encode_entry e) fs0 fs" "dir_ok base"
    and "name_is_safe (oe_local_id e)" "is_i64 (oe_composed_at e)" "ox_durable base fs0"
  shows "ox_on base fs = ox_on base fs0 \<or> ox_on base fs = (ox_on base fs0)(oe_local_id e \<mapsto> e)"
    "ox_durable base fs" "ox_counter base fs = ox_counter base fs0"
proof -
  note c = atomic_states_entry_counter [OF assms(1-3)]
  have dec: "decode_entry (encode_entry e) = Some e"
    using assms(3,4) by (intro decode_encode_entry) (auto simp: name_is_safe_def)
  show "ox_on base fs = ox_on base fs0 \<or> ox_on base fs = (ox_on base fs0)(oe_local_id e \<mapsto> e)"
    using atomic_states_outbox [OF assms(1) outbox_dir_ok [OF assms(2)] assms(3) dec refl]
    by (simp add: ox_on_def)
  show "ox_durable base fs"
    using atomic_states_durable [OF assms(1) outbox_dir_ok [OF assms(2)] assms(3)] assms(5) c
    by (simp add: ox_durable_def)
  show "ox_counter base fs = ox_counter base fs0" unfolding ox_counter_def by (rule counter_on_cong [OF c])
qed

lemma erase_step:
  assumes "fs = AList.delete (join (join base k_outbox_dir) i) fs0" "dir_ok base" "name_is_safe i"
  shows "ox_on base fs = (ox_on base fs0)(i := None)" "ox_durable base fs0 \<Longrightarrow> ox_durable base fs"
    "ox_counter base fs = ox_counter base fs0"
proof -
  have c: "lookup fs (join base k_local_id_file) = lookup fs0 (join base k_local_id_file)"
    using counter_apart [OF assms(2) safe_no_slash [OF assms(3)]] by (simp add: assms(1))
  show "ox_on base fs = (ox_on base fs0)(i := None)"
    using outbox_on_delete [OF outbox_dir_ok [OF assms(2)] assms(3)] by (simp add: ox_on_def assms(1))
  show "ox_durable base fs0 \<Longrightarrow> ox_durable base fs"
    using c by (auto simp: ox_durable_def durable_dir_def assms(1) split: if_splits)
  show "ox_counter base fs = ox_counter base fs0" unfolding ox_counter_def by (rule counter_on_cong [OF c])
qed

subsection \<open>Every operation keeps the invariant\<close>

lemma mem_inv_dir: "mem_inv base s fs \<Longrightarrow> dir_ok base \<and> ox_dir s = join base k_outbox_dir \<and>
    ox_counter_path s = join base k_local_id_file \<and> fs_inv base (ox_high_water s) fs"
  by (simp add: mem_inv_def ox_rooted_def)

lemma counter_write:
  assumes "write_atomic (ox_counter_path s) (dec (ox_high_water s + 1) @ [newline]) d = (ok, e)"
    and "mem_inv base s (files d)" "ox_high_water s + 1 < 2 ^ 63"
  shows "through (\<lambda>fs. fs_inv base (ox_high_water s) fs \<and> ox_on base fs = ox_on base (files d)) d e"
    and "ok \<Longrightarrow> mem_inv base (s\<lparr>ox_high_water := ox_high_water s + 1\<rparr>) (files e)"
    and "\<not> ok \<Longrightarrow> mem_inv base s (files e)"
proof -
  let ?n = "ox_high_water s + 1"
  note m = mem_inv_dir [OF assms(2)]
  note w = assms(1) [unfolded m [THEN conjunct2, THEN conjunct2, THEN conjunct1]]
  have dur: "ox_durable base (files d)" and c0: "ox_high_water s \<le> ox_counter base (files d)"
    using m by (simp_all add: fs_inv_def)
  have below: "dom (ox_on base (files d)) \<subseteq> ids_below (ox_high_water s)" using assms(2) by (simp add: mem_inv_def)
  show t: "through (\<lambda>fs. fs_inv base (ox_high_water s) fs \<and> ox_on base fs = ox_on base (files d)) d e"
  proof (rule wa.wr_kept [OF w])
    fix fs
    assume "atomic_states (join base k_local_id_file) (dec ?n @ [newline]) (files d) fs"
    from counter_step [OF this _ assms(3) dur] m
    have st: "ox_on base fs = ox_on base (files d)" "ox_durable base fs"
      "ox_counter base fs = ox_counter base (files d) \<or> ox_counter base fs = ?n" by auto
    then have le: "ox_high_water s \<le> ox_counter base fs" using c0 by auto
    with below ids_below_mono [OF le] st show "fs_inv base (ox_high_water s) fs \<and> ox_on base fs = ox_on base (files d)"
      by (auto simp: fs_inv_def)
  qed
  from through_files [OF t] have fe: "fs_inv base (ox_high_water s) (files e)" "ox_on base (files e) = ox_on base (files d)"
    by auto
  show "mem_inv base s (files e)" if "\<not> ok"
    using assms(2) fe below by (simp add: mem_inv_def)
  show "mem_inv base (s\<lparr>ox_high_water := ?n\<rparr>) (files e)" if ok
  proof -
    have "ox_counter base (files e) = ?n"
      unfolding ox_counter_def by (rule counter_on_written [OF _ assms(3)]) (use wa.wr_ok w that in auto)
    then show ?thesis
      using assms(2) fe below ids_below_mono [of "ox_high_water s" ?n]
      by (auto simp: mem_inv_def ox_rooted_def fs_inv_def)
  qed
qed

lemma entry_write:
  assumes "write_atomic (ox_path s (oe_local_id x)) (encode_entry x) d = (ok, e)"
    and "mem_inv base s (files d)" "oe_local_id x \<in> ids_below (ox_high_water s)" "is_i64 (oe_composed_at x)"
  shows "through (\<lambda>fs. fs_inv base (ox_high_water s) fs \<and> (ox_on base fs = ox_on base (files d) \<or>
            ox_on base fs = (ox_on base (files d))(oe_local_id x \<mapsto> x))) d e"
    and "ok \<Longrightarrow> ox_on base (files e) = (ox_on base (files d))(oe_local_id x \<mapsto> x)"
    and "mem_inv base s (files e)"
proof -
  note m = mem_inv_dir [OF assms(2)]
  have w: "write_atomic (join (join base k_outbox_dir) (oe_local_id x)) (encode_entry x) d = (ok, e)"
    using assms(1) m by (simp add: ox_path_def)
  have dur: "ox_durable base (files d)" and c0: "ox_high_water s \<le> ox_counter base (files d)"
    using m by (simp_all add: fs_inv_def)
  have "ox_high_water s < 2 ^ 63" using c0 counter_on_lt [of "join base k_local_id_file" "files d"]
    by (simp add: ox_counter_def)
  then have safe: "name_is_safe (oe_local_id x)" using assms(3) by (rule ids_below_safe [rotated])
  have below: "dom (ox_on base (files d)) \<subseteq> ids_below (ox_high_water s)" using assms(2) by (simp add: mem_inv_def)
  have step: "fs_inv base (ox_high_water s) fs \<and> dom (ox_on base fs) \<subseteq> ids_below (ox_high_water s) \<and>
      (ox_on base fs = ox_on base (files d) \<or> ox_on base fs = (ox_on base (files d))(oe_local_id x \<mapsto> x))"
    if "atomic_states (join (join base k_outbox_dir) (oe_local_id x)) (encode_entry x) (files d) fs" for fs
  proof -
    from entry_step [OF that _ safe assms(4) dur] m
    have st: "ox_on base fs = ox_on base (files d) \<or> ox_on base fs = (ox_on base (files d))(oe_local_id x \<mapsto> x)"
      "ox_durable base fs" "ox_counter base fs = ox_counter base (files d)" by auto
    moreover from st(1) below assms(3) have "dom (ox_on base fs) \<subseteq> ids_below (ox_high_water s)"
      by (elim disjE) simp_all
    moreover have "\<dots> \<subseteq> ids_below (ox_counter base fs)" using st(3) c0 by (intro ids_below_mono) simp
    ultimately show ?thesis using c0 by (auto simp: fs_inv_def)
  qed
  show "through (\<lambda>fs. fs_inv base (ox_high_water s) fs \<and> (ox_on base fs = ox_on base (files d) \<or>
            ox_on base fs = (ox_on base (files d))(oe_local_id x \<mapsto> x))) d e"
    by (rule wa.wr_kept [OF w]) (use step in blast)
  note fin = step [OF through_files [OF wa.wr_through [OF w]]]
  then show "mem_inv base s (files e)" using assms(2) by (simp add: mem_inv_def)
  show "ox_on base (files e) = (ox_on base (files d))(oe_local_id x \<mapsto> x)" if ok
  proof -
    have "decode_entry (encode_entry x) = Some x"
      using safe assms(4) by (intro decode_encode_entry) (auto simp: name_is_safe_def)
    then have "ox_on base (files e) (oe_local_id x) = Some x"
      using wa.wr_ok w that safe by (simp add: ox_on_def outbox_on_unfold whole_def)
    with fin show ?thesis by (metis fun_upd_triv)
  qed
qed

lemma fs_inv_mono: "fs_inv base n fs \<Longrightarrow> m \<le> n \<Longrightarrow> fs_inv base m fs"
  by (auto simp: fs_inv_def)

lemma add_inv:
  assumes "outbox_add contact subject body t s d = (r, s', e)" "mem_inv base s (files d)"
    and "ox_high_water s + 1 < 2 ^ 63" "is_i64 t"
  shows "through (fs_inv base (ox_high_water s)) d e \<and> mem_inv base s' (files e) \<and>
    ox_high_water s \<le> ox_high_water s' \<and>
    (\<forall>i. r = Some i \<longrightarrow> i = format_local_id (ox_high_water s + 1) \<and> ox_high_water s' = ox_high_water s + 1 \<and>
       ox_on base (files e) = (ox_on base (files d))(i \<mapsto> new_entry (ox_high_water s + 1) contact subject body t) \<and>
       ox_entries s' = ox_entries s @ [new_entry (ox_high_water s + 1) contact subject body t])"
proof (cases "k_outbox_cap \<le> sendable_count s")
  case True
  with assms show ?thesis by (auto simp: outbox_add_def mem_inv_def intro: through_refl)
next
  case False
  let ?n = "ox_high_water s + 1"
  let ?x = "new_entry ?n contact subject body t"
  let ?s1 = "s\<lparr>ox_high_water := ?n\<rparr>"
  have nn: "to_u64 ?n = ?n" using assms(3) by simp
  obtain o1 d1 where w1: "write_atomic (ox_counter_path s) (dec ?n @ [newline]) d = (o1, d1)" by fastforce
  obtain o2 d2 where w2: "write_atomic (ox_path ?s1 (oe_local_id ?x)) (encode_entry ?x) d1 = (o2, d2)" by fastforce
  note C = counter_write [OF w1 assms(2,3)]
  have t1: "through (fs_inv base (ox_high_water s)) d d1" by (rule through_mono [OF C(1)]) simp
  have on1: "ox_on base (files d1) = ox_on base (files d)" using through_files [OF C(1)] by simp
  have res: "(r, s', e) = (if \<not> o1 then (None, s, d1) else if \<not> o2 then (None, ?s1, d2)
      else (Some (oe_local_id ?x), ?s1\<lparr>ox_entries := ox_entries s @ [?x]\<rparr>, d2))"
    using assms(1) False by (cases o1; cases o2) (simp_all add: outbox_add_def Let_def nn w1 w2 del: One_nat_def)
  show ?thesis
  proof (cases o1)
    case False
    with res t1 C(3) show ?thesis by simp
  next
    case True
    have x: "oe_local_id ?x \<in> ids_below (ox_high_water ?s1)" "is_i64 (oe_composed_at ?x)"
      using assms(4) by (simp_all add: new_entry_def ids_below_def)
    note E = entry_write [OF w2 C(2) [OF True] x]
    have "through (fs_inv base (ox_high_water s)) d1 d2"
      by (rule through_mono [OF E(1)]) (auto intro: fs_inv_mono)
    with t1 have t: "through (fs_inv base (ox_high_water s)) d d2" by (rule through_trans)
    have "mem_inv base (?s1\<lparr>ox_entries := ox_entries s @ [?x]\<rparr>) (files d2)"
      using E(3) x by (auto simp: mem_inv_def ox_rooted_def)
    with True res t E on1 show ?thesis
      by (cases o2) (simp_all add: new_entry_def)
  qed
qed

lemma dom_delete_subset: "dom (m(i := None)) \<subseteq> dom m"
  by (auto split: if_splits)

lemma erase_inv:
  assumes "ox_erase i s d = (ok, s', e)" "mem_inv base s (files d)" "ox_find s i = Some x"
  shows "through (\<lambda>fs. fs_inv base (ox_high_water s) fs \<and> (ox_on base fs = ox_on base (files d) \<or>
      ox_on base fs = (ox_on base (files d))(i := None))) d e \<and> mem_inv base s' (files e) \<and>
    ox_high_water s' = ox_high_water s \<and> (\<not> ok \<longrightarrow> s' = s) \<and>
    (ok \<longrightarrow> ox_on base (files e) = (ox_on base (files d))(i := None) \<and>
       ox_entries s' = filter (\<lambda>e. oe_local_id e \<noteq> i) (ox_entries s))"
proof -
  note m = mem_inv_dir [OF assms(2)]
  obtain o1 d1 where r: "remove_file (ox_path s i) d = (o1, d1)" by fastforce
  have r': "remove_file (join (join base k_outbox_dir) i) d = (o1, d1)" using r m by (simp add: ox_path_def)
  have "i \<in> ids_below (ox_high_water s)" using ox_find_id [OF assms(3)] assms(2) by (auto simp: mem_inv_def)
  moreover have "ox_high_water s < 2 ^ 63"
    using m counter_on_lt [of "join base k_local_id_file" "files d"] by (simp add: fs_inv_def ox_counter_def)
  ultimately have safe: "name_is_safe i" by (rule ids_below_safe)
  note del = erase_step [OF refl _ safe, of base "files d"]
  have P: "fs_inv base (ox_high_water s) (AList.delete (join (join base k_outbox_dir) i) (files d))"
    using m del by (auto simp: fs_inv_def)
  have t: "through (\<lambda>fs. fs_inv base (ox_high_water s) fs \<and> (ox_on base fs = ox_on base (files d) \<or>
      ox_on base fs = (ox_on base (files d))(i := None))) d d1"
    by (rule remove_file_spec(2) [OF r']) (use m P del(1) in simp_all)
  have on: "ox_on base (files d1) = ox_on base (files d) \<or> ox_on base (files d1) = (ox_on base (files d))(i := None)"
    using remove_file_spec(1) [OF r'] del(1) m by auto
  moreover have "ox_on base (files d1) i = None" if o1
    using remove_file_spec(1) [OF r'] that by (simp add: ox_on_def outbox_on_unfold)
  ultimately have gone: "ox_on base (files d1) = (ox_on base (files d))(i := None)" if o1
    using that by (metis fun_upd_triv)
  have mem: "mem_inv base s (files d1)"
    using on dom_delete_subset assms(2) through_files [OF t] unfolding mem_inv_def by (metis order_trans)
  have "(ok, s', e) = (if \<not> o1 then (False, s, d1)
      else (True, s\<lparr>ox_entries := filter (\<lambda>e. oe_local_id e \<noteq> i) (ox_entries s)\<rparr>, d1))"
    using assms(1) by (cases o1) (simp_all add: ox_erase_def r)
  moreover have "mem_inv base (s\<lparr>ox_entries := filter (\<lambda>e. oe_local_id e \<noteq> i) (ox_entries s)\<rparr>) (files d1)"
    using mem by (auto simp: mem_inv_def ox_rooted_def)
  ultimately show ?thesis using t mem gone by (cases o1) simp_all
qed

lemma resolve_inv:
  assumes "outbox_resolve i st s d = (ok, s', e)" "mem_inv base s (files d)"
    and "\<And>x. x \<in> set (ox_entries s) \<Longrightarrow> is_i64 (oe_composed_at x)"
  shows "through (fs_inv base (ox_high_water s)) d e \<and> mem_inv base s' (files e) \<and>
    ox_high_water s' = ox_high_water s"
proof (cases "ox_find s i")
  case None
  with assms show ?thesis by (auto simp: outbox_resolve_def mem_inv_def intro: through_refl)
next
  case (Some x)
  note x = ox_find_id [OF Some]
  show ?thesis
  proof (cases "st = kSent")
    case True
    with assms(1) Some have "ox_erase i s d = (ok, s', e)" by (simp add: outbox_resolve_def)
    note E = erase_inv [OF this assms(2) Some]
    have "through (fs_inv base (ox_high_water s)) d e" by (rule through_mono [OF E [THEN conjunct1]]) simp
    with E show ?thesis by simp
  next
    case False
    let ?y = "x\<lparr>oe_rejected := True, oe_reject_status := st\<rparr>"
    let ?s1 = "s\<lparr>ox_entries := reject_entry i st (ox_entries s)\<rparr>"
    have "oe_local_id ` set (reject_entry i st (ox_entries s)) = oe_local_id ` set (ox_entries s)"
      using ids_reject_entry [of i st "ox_entries s"] by (metis set_map)
    then have m1: "mem_inv base ?s1 (files d)" using assms(2) by (simp add: mem_inv_def ox_rooted_def)
    obtain o1 d1 where w: "write_atomic (ox_path ?s1 (oe_local_id ?y)) (encode_entry ?y) d = (o1, d1)" by fastforce
    have y: "oe_local_id ?y \<in> ids_below (ox_high_water ?s1)" "is_i64 (oe_composed_at ?y)"
      using x assms(2,3) by (auto simp: mem_inv_def)
    note E = entry_write [OF w m1 y]
    have "(ok, s', e) = (o1, ?s1, d1)"
      using assms(1) Some False w x by (simp add: outbox_resolve_def)
    moreover have "through (fs_inv base (ox_high_water s)) d d1"
      by (rule through_mono [OF E(1)]) simp
    ultimately show ?thesis using E(3) by simp
  qed
qed

lemma discard_inv:
  assumes "outbox_discard i s d = (ok, s', e)" "mem_inv base s (files d)"
  shows "through (fs_inv base (ox_high_water s)) d e \<and> mem_inv base s' (files e) \<and>
    ox_high_water s' = ox_high_water s"
proof (cases "ox_find s i")
  case None
  with assms show ?thesis by (auto simp: outbox_discard_def mem_inv_def intro: through_refl)
next
  case (Some x)
  with assms(1) have "ox_erase i s d = (ok, s', e)" by (simp add: outbox_discard_def)
  note E = erase_inv [OF this assms(2) Some]
  have "through (fs_inv base (ox_high_water s)) d e" by (rule through_mono [OF E [THEN conjunct1]]) simp
  with E show ?thesis by simp
qed

subsection \<open>Opening the outbox\<close>

lemma scan_outbox_no_faults:
  assumes "script d = []"
  shows "scan_outbox ns s d =
    (s\<lparr>ox_entries := ox_entries s @ List.map_filter (outbox_on (ox_dir s) (files d)) ns\<rparr>, d)"
proof (induction ns arbitrary: s)
  case (Cons n ns)
  have "scan_outbox (n # ns) s d = (case outbox_on (ox_dir s) (files d) n of
      None \<Rightarrow> scan_outbox ns s d
    | Some e \<Rightarrow> scan_outbox ns (s\<lparr>ox_entries := ox_entries s @ [e]\<rparr>) d)"
    using assms by (auto simp: read_all_no_faults outbox_on_unfold split: option.splits)
  then show ?case using Cons.IH by (simp add: List.map_filter_simps split: option.splits)
qed (simp add: List.map_filter_simps)

lemma open_outbox_spec:
  assumes "open_outbox base d = (s, e)" "script d = []" "dir_ok base" "distinct (map fst (files d))"
  shows "e = d" "ox_rooted base s" "ox_high_water s = ox_counter base (files d)" "ox_agrees s (files d)"
    "\<And>x. x \<in> set (ox_entries s) \<Longrightarrow> ox_on base (files d) (oe_local_id x) = Some x"
proof -
  let ?g = "outbox_on (join base k_outbox_dir) (files d)"
  obtain ns where ns: "list_names (join base k_outbox_dir) d = (Some ns, d)"
    using assms(2) by (simp add: list_names_def pop_no_faults)
  have "load_counter (empty_outbox base) d =
      ((empty_outbox base)\<lparr>ox_high_water := ox_counter base (files d)\<rparr>, d)"
    using assms(2) by (auto simp: load_counter_def read_all_no_faults ox_counter_def counter_on_def
        empty_outbox_def or_else_def split: option.splits)
  then have s: "s = (empty_outbox base)\<lparr>ox_high_water := ox_counter base (files d),
      ox_entries := List.map_filter ?g ns\<rparr>" "e = d"
    using assms(1) ns by (auto simp: open_outbox_def scan_outbox_no_faults [OF assms(2)] empty_outbox_def)
  have g: "oe_local_id y = n" if "?g n = Some y" for n y using that outbox_on_safe by auto
  have dn: "distinct ns" by (rule list_names_distinct [OF ns outbox_dir_ok [OF assms(3)] assms(4)])
  have out: "?g i = None" if "i \<notin> set ns" for i
    using records_on_unlisted [OF ns outbox_dir_ok [OF assms(3)] that] by (simp add: outbox_on_def)
  have "distinct (map oe_local_id (List.map_filter ?g ns))" using ids_map_filter [of ns ?g oe_local_id] dn g by blast
  moreover have fnd: "List.find (\<lambda>m. oe_local_id m = i) (List.map_filter ?g ns) = ?g i" for i
    using find_map_filter [of ns ?g oe_local_id i, OF dn g] out [of i] by presburger
  ultimately show "ox_agrees s (files d)"
    by (simp add: ox_agrees_def s empty_outbox_def ox_find_def)
  show "e = d" "ox_rooted base s" "ox_high_water s = ox_counter base (files d)"
    using s assms(3) by (simp_all add: ox_rooted_def empty_outbox_def)
  show "ox_on base (files d) (oe_local_id x) = Some x" if "x \<in> set (ox_entries s)" for x
  proof -
    from that have "x \<in> set (List.map_filter ?g ns)" by (simp add: s)
    then obtain n where "?g n = Some x" by (auto simp: List.map_filter_def)
    with g show ?thesis by (simp add: ox_on_def)
  qed
qed

lemma open_outbox_inv:
  assumes "open_outbox base (boot_io fs []) = (s, e)" "dir_ok base" "distinct (map fst fs)" "fs_inv base n fs"
  shows "mem_inv base s fs" "n \<le> ox_high_water s"
  using open_outbox_spec [OF assms(1) _ assms(2)] assms(3,4)
  by (auto simp: mem_inv_def boot_io_def fs_inv_def)

subsection \<open>Runs with power cuts\<close>

text \<open>
  One operation, whatever the file system answers: it may be handed a new id. A run of the outbox is
  a sequence of operations, of changes other components make elsewhere on the file system, and of
  power cuts at any durable state of an operation followed by a reboot whose reads succeed. The ids
  handed out are collected.
\<close>

inductive ox_op :: "outbox \<Rightarrow> io \<Rightarrow> string set \<Rightarrow> outbox \<Rightarrow> io \<Rightarrow> bool" where
  add: "outbox_add contact subject body t s d = (r, s', e) \<Longrightarrow> is_i64 t \<Longrightarrow>
    ox_high_water s + 1 < 2 ^ 63 \<Longrightarrow> ox_op s d (set_option r) s' e"
| resolve: "outbox_resolve i st s d = (ok, s', e) \<Longrightarrow>
    (\<And>x. x \<in> set (ox_entries s) \<Longrightarrow> is_i64 (oe_composed_at x)) \<Longrightarrow> ox_op s d {} s' e"
| discard: "outbox_discard i s d = (ok, s', e) \<Longrightarrow> ox_op s d {} s' e"
| idle: "ox_op s d {} s d"

inductive_cases ox_op_cases: "ox_op s d new s' e"

inductive ox_run :: "string \<Rightarrow> fs \<Rightarrow> outbox \<Rightarrow> string set \<Rightarrow> bool" for base where
  factory: "ox_run base [] (empty_outbox base) {}"
| op: "ox_run base fs s used \<Longrightarrow> ox_op s (boot_io fs answers) new s' e \<Longrightarrow>
    ox_run base (files e) s' (used \<union> new)"
| elsewhere: "ox_run base fs s used \<Longrightarrow>
    (\<And>p. p = join base k_local_id_file \<or> (\<exists>n. p = join (join base k_outbox_dir) n) \<Longrightarrow> lookup fs' p = lookup fs p) \<Longrightarrow>
    ox_run base fs' s used"
| power_cut: "ox_run base fs s used \<Longrightarrow> ox_op s (boot_io fs answers) new s1 e \<Longrightarrow>
    fs' \<in> set (files e # trail e) \<Longrightarrow> distinct (map fst fs') \<Longrightarrow>
    open_outbox base (boot_io (crash keep fs') []) = (s', e') \<Longrightarrow>
    ox_run base (crash keep fs') s' used"

lemma ox_op_inv:
  assumes "ox_op s d new s' e" "mem_inv base s (files d)"
  shows "through (fs_inv base (ox_high_water s)) d e \<and> mem_inv base s' (files e) \<and>
    ox_high_water s \<le> ox_high_water s' \<and> new \<subseteq> ids_below (ox_high_water s')"
  using assms(1)
proof (rule ox_op_cases)
  fix contact subject body t r
  assume a: "outbox_add contact subject body t s d = (r, s', e)" "is_i64 t" "ox_high_water s < 9223372036854775807"
    and r: "new = set_option r"
  from a(3) have "ox_high_water s + 1 < 2 ^ 63" by simp
  from add_inv [OF a(1) assms(2) this a(2)] r show ?thesis by (cases r) (auto simp: ids_below_def)
next
  fix i st ok
  assume a: "outbox_resolve i st s d = (ok, s', e)" "new = {}"
    "\<And>x. x \<in> set (ox_entries s) \<Longrightarrow> is_i64 (oe_composed_at x)"
  from resolve_inv [OF a(1) assms(2) a(3)] a(2) show ?thesis by simp
next
  fix i ok
  assume a: "outbox_discard i s d = (ok, s', e)" "new = {}"
  from discard_inv [OF a(1) assms(2)] a(2) show ?thesis by simp
next
  assume "new = {}" "s' = s" "e = d"
  with assms(2) show ?thesis by (auto simp: mem_inv_def intro: through_refl)
qed

lemma ox_run_inv:
  assumes "ox_run base fs s used" "dir_ok base"
  shows "mem_inv base s fs \<and> used \<subseteq> ids_below (ox_high_water s)"
  using assms(1)
proof (induction rule: ox_run.induct)
  case factory
  have "ox_on base [] = Map.empty" "ox_counter base [] = 0"
    by (simp_all add: ox_on_def outbox_on_unfold lookup_def ox_counter_def counter_on_def fun_eq_iff)
  with assms(2) show ?case
    by (simp add: mem_inv_def fs_inv_def empty_outbox_def ox_rooted_def ox_durable_def durable_dir_def lookup_def)
next
  case (op fs s used answers new s' e)
  then have "mem_inv base s (files (boot_io fs answers))" by (simp add: boot_io_def)
  from ox_op_inv [OF op.hyps(2) this] op.IH ids_below_mono [of "ox_high_water s" "ox_high_water s'"]
  show ?case by auto
next
  case (elsewhere fs s used fs')
  have l: "lookup fs' (join base k_local_id_file) = lookup fs (join base k_local_id_file)"
    "\<And>n. lookup fs' (join (join base k_outbox_dir) n) = lookup fs (join (join base k_outbox_dir) n)"
    using elsewhere.hyps(2) by blast+
  then have "ox_on base fs' = ox_on base fs" "ox_counter base fs' = ox_counter base fs"
    "ox_durable base fs' = ox_durable base fs"
    by (auto simp: ox_on_def ox_counter_def ox_durable_def durable_dir_def intro!: outbox_on_cong counter_on_cong)
  with elsewhere.IH show ?case by (simp add: mem_inv_def fs_inv_def)
next
  case (power_cut fs s used answers new s1 e fs' keep s' e')
  then have "mem_inv base s (files (boot_io fs answers))" by (simp add: boot_io_def)
  from ox_op_inv [OF power_cut.hyps(2) this]
  have "through (fs_inv base (ox_high_water s)) (boot_io fs answers) e" by simp
  then have "fs_inv base (ox_high_water s) fs'"
    using power_cut.hyps(3) by (auto simp: through_def boot_io_def)
  then have "fs_inv base (ox_high_water s) (crash keep fs')" by (rule fs_inv_crash)
  moreover have "distinct (map fst (crash keep fs'))"
    using power_cut.hyps(4) by (simp add: crash_def o_def case_prod_unfold)
  ultimately have "mem_inv base s' (crash keep fs')" "ox_high_water s \<le> ox_high_water s'"
    using open_outbox_inv [OF power_cut.hyps(5) assms(2)] by auto
  with power_cut.IH ids_below_mono [of "ox_high_water s" "ox_high_water s'"] show ?case by auto
qed

lemma outbox_add_succeeds:
  assumes "script d = []" "sendable_count s < k_outbox_cap" "ox_high_water s + 1 < 2 ^ 63"
  shows "\<exists>s' e. outbox_add contact subject body t s d = (Some (format_local_id (ox_high_water s + 1)), s', e)"
proof -
  let ?n = "ox_high_water s + 1"
  let ?x = "new_entry ?n contact subject body t"
  have nn: "to_u64 ?n = ?n" using assms(3) by simp
  obtain d1 where w1: "write_atomic (ox_counter_path s) (dec ?n @ [newline]) d = (True, d1)" "script d1 = []"
    using write_atomic_no_faults [OF assms(1)] by blast
  obtain d2 where w2: "write_atomic (ox_path (s\<lparr>ox_high_water := ?n\<rparr>) (oe_local_id ?x)) (encode_entry ?x) d1 = (True, d2)"
    using write_atomic_no_faults [OF w1(2)] by blast
  show ?thesis
    using assms(2) w2 by (simp add: outbox_add_def Let_def nn w1(1) new_entry_def del: One_nat_def)
qed

lemma find_snoc: "List.find P (xs @ [x]) = (case List.find P xs of None \<Rightarrow> if P x then Some x else None | Some y \<Rightarrow> Some y)"
  by (induction xs) auto

lemma outbox_add_result:
  assumes "outbox_add contact subject body t s d = (r, s', e)" "mem_inv base s (files d)"
    and "ox_agrees s (files d)" "ox_high_water s + 1 < 2 ^ 63" "is_i64 t" and r: "r = Some i"
  shows "sendable_count s' = sendable_count s + 1 \<and> sendable_count s' \<le> k_outbox_cap \<and>
    ox_agrees s' (files e) \<and> (\<forall>keep. ox_on base (crash keep (files e)) =
      (ox_on base (files d))(i \<mapsto> new_entry (ox_high_water s + 1) contact subject body t))"
proof -
  let ?n = "ox_high_water s + 1"
  let ?x = "new_entry ?n contact subject body t"
  note A = add_inv [OF assms(1,2,4,5)]
  from A r have a: "i = format_local_id ?n" "ox_entries s' = ox_entries s @ [?x]"
    "ox_on base (files e) = (ox_on base (files d))(i \<mapsto> ?x)" "mem_inv base s' (files e)" by auto
  have room: "sendable_count s < k_outbox_cap"
    using assms(1) r by (auto simp: outbox_add_def not_le split: if_splits)
  have i: "oe_local_id ?x = i" "\<not> oe_rejected ?x" using a(1) by (simp_all add: new_entry_def)
  have new: "i \<notin> oe_local_id ` set (ox_entries s)"
    using assms(2) a(1) by (auto simp: mem_inv_def ids_below_def)
  have none: "List.find (\<lambda>e. oe_local_id e = i) (ox_entries s) = None"
    using new by (auto simp: find_None_iff)
  have "ox_find s' j = (if j = i then Some ?x else ox_find s j)" for j
    using none i(1) unfolding ox_find_def a(2) find_snoc by (auto split: option.splits)
  moreover have "ox_dir s' = ox_dir s" "outbox_on (ox_dir s) = ox_on base"
    using mem_inv_dir [OF assms(2)] mem_inv_dir [OF a(4)] by (simp_all add: ox_on_def)
  ultimately have "ox_agrees s' (files e)"
    using assms(3) new i by (auto simp: ox_agrees_def a(2,3))
  moreover have "ox_durable base (files e)" using mem_inv_dir [OF a(4)] by (simp add: fs_inv_def)
  ultimately show ?thesis
    using room i a(2,3) by (simp add: sendable_count_def ox_on_crash)
  qed

lemma demo_add:
  "\<exists>s' e. outbox_add ''nina'' [] ''hola'' 7 (empty_outbox ''/c'') (boot_io [] []) = (Some (format_local_id 1), s', e)"
  using outbox_add_succeeds [of "boot_io [] []" "empty_outbox ''/c''" "''nina''" "[]" "''hola''" 7]
  by (simp add: boot_io_def empty_outbox_def sendable_count_def k_outbox_cap_def)

lemma resolve_result:
  assumes "outbox_resolve i st s d = (ok, s', e)" "mem_inv base s (files d)" "ox_agrees s (files d)"
    and "\<And>x. x \<in> set (ox_entries s) \<Longrightarrow> is_i64 (oe_composed_at x)"
  shows "through (\<lambda>fs. (\<forall>j. j \<noteq> i \<longrightarrow> ox_on base fs j = ox_on base (files d) j) \<and>
      (st \<noteq> kSent \<longrightarrow> map_option oe_body (ox_on base fs i) = map_option oe_body (ox_on base (files d) i))) d e \<and>
    (ox_find s i = None \<longrightarrow> ok \<and> s' = s \<and> e = d) \<and>
    (ok \<longrightarrow> ox_agrees s' (files e) \<and> ox_find s' i = (if st = kSent then None
       else map_option (\<lambda>x. x\<lparr>oe_rejected := True, oe_reject_status := st\<rparr>) (ox_find s i)))"
proof -
  have on: "outbox_on (ox_dir s) = ox_on base" using mem_inv_dir [OF assms(2)] by (simp add: ox_on_def)
  have agr: "distinct (map oe_local_id (ox_entries s))" "\<And>j. ox_find s j = ox_on base (files d) j"
    using assms(3) by (simp_all add: ox_agrees_def on)
  show ?thesis
  proof (cases "ox_find s i")
    case None
    with assms(1,3) show ?thesis by (auto simp: outbox_resolve_def intro: through_refl)
  next
    case (Some x)
    note x = ox_find_id [OF Some]
    show ?thesis
    proof (cases "st = kSent")
      case True
      with assms(1) Some have er: "ox_erase i s d = (ok, s', e)" by (simp add: outbox_resolve_def)
      note E = erase_inv [OF er assms(2) Some]
      have "ox_agrees s' (files e) \<and> ox_find s' i = None" if ok
      proof -
        have fnd: "List.find (\<lambda>e. oe_local_id e = j) (filter (\<lambda>e. oe_local_id e \<noteq> i) es) =
            (if j = i then None else List.find (\<lambda>e. oe_local_id e = j) es)" for j es
          by (induction es) auto
        have "ox_entries s' = filter (\<lambda>e. oe_local_id e \<noteq> i) (ox_entries s)" using E that by simp
        then have "ox_find s' j = (if j = i then None else ox_find s j)" for j
          unfolding ox_find_def by (simp only: fnd)
        moreover have "ox_dir s' = ox_dir s" using E mem_inv_dir [of base s'] mem_inv_dir [OF assms(2)] by metis
        ultimately show ?thesis
          using E that agr by (auto simp: ox_agrees_def on distinct_map_filter)
      qed
      moreover have "through (\<lambda>fs. \<forall>j. j \<noteq> i \<longrightarrow> ox_on base fs j = ox_on base (files d) j) d e"
        by (rule through_mono [OF E [THEN conjunct1]]) auto
      ultimately show ?thesis using True Some by simp
    next
      case False
      let ?y = "x\<lparr>oe_rejected := True, oe_reject_status := st\<rparr>"
      let ?s1 = "s\<lparr>ox_entries := reject_entry i st (ox_entries s)\<rparr>"
      have "oe_local_id ` set (reject_entry i st (ox_entries s)) = oe_local_id ` set (ox_entries s)"
        using ids_reject_entry [of i st "ox_entries s"] by (metis set_map)
      then have m1: "mem_inv base ?s1 (files d)" using assms(2) by (simp add: mem_inv_def ox_rooted_def)
      obtain o1 d1 where w: "write_atomic (ox_path ?s1 (oe_local_id ?y)) (encode_entry ?y) d = (o1, d1)" by fastforce
      have y: "oe_local_id ?y \<in> ids_below (ox_high_water ?s1)" "is_i64 (oe_composed_at ?y)"
        using x assms(2,4) by (auto simp: mem_inv_def)
      note E = entry_write [OF w m1 y]
      have res: "ok = o1" "s' = ?s1" "e = d1"
        using assms(1) Some False w x by (auto simp: outbox_resolve_def)
      have old: "ox_on base (files d) i = Some x" using agr(2) [of i] Some by simp
      have "through (\<lambda>fs. (\<forall>j. j \<noteq> i \<longrightarrow> ox_on base fs j = ox_on base (files d) j) \<and>
          map_option oe_body (ox_on base fs i) = map_option oe_body (ox_on base (files d) i)) d e"
        unfolding res(3) by (rule through_mono [OF E(1)]) (use x old in auto)
      moreover have "ox_find s' j = (if j = i then Some ?y else ox_find s j)" for j
        using Some by (auto simp: res(2) ox_find_def find_reject_entry)
      moreover have "ox_agrees s' (files e)" if ok
        using E(2) that res agr x old by (auto simp: ox_agrees_def on ids_reject_entry ox_find_def find_reject_entry)
      ultimately show ?thesis using False Some by simp
    qed
  qed
qed

subsection \<open>Properties\<close>



text \<open>
  C24: Queueing a letter. The cap counts only entries still to be sent: at twelve of them \<^verbatim>\<open>Add\<close> refuses
  and touches nothing, so rejected letters never lock the child out. When \<^verbatim>\<open>Add\<close> hands out an id, the
  letter is on the medium, survives a power cut, and the memory agrees with the medium; with no
  failing call and room in the bag it always does.
\<close>

theorem outbox_add_durable:
  assumes "outbox_add contact subject body t s d = (r, s', e)" "mem_inv base s (files d)"
    and "ox_agrees s (files d)" "ox_high_water s + 1 < 2 ^ 63" "is_i64 t"
  shows "(k_outbox_cap \<le> sendable_count s \<longrightarrow> r = None \<and> s' = s \<and> e = d) \<and>
    (sendable_count s < k_outbox_cap \<longrightarrow> script d = [] \<longrightarrow> r \<noteq> None) \<and>
    (\<forall>i. r = Some i \<longrightarrow> sendable_count s' = sendable_count s + 1 \<and> sendable_count s' \<le> k_outbox_cap \<and>
       ox_agrees s' (files e) \<and> (\<forall>keep. ox_on base (crash keep (files e)) =
         (ox_on base (files d))(i \<mapsto> new_entry (ox_high_water s + 1) contact subject body t)))"
proof -
  let ?n = "ox_high_water s + 1"
  have "r \<noteq> None" if "sendable_count s < k_outbox_cap" "script d = []"
    using outbox_add_succeeds [OF that(2,1) assms(4), of contact subject body t] assms(1) by auto
  moreover note outbox_add_result [OF assms]
  moreover have "r = None \<and> s' = s \<and> e = d" if "k_outbox_cap \<le> sendable_count s"
    using assms(1) that by (simp add: outbox_add_def)
  ultimately show ?thesis by blast
qed

lemma demo_outbox:
  "mem_inv ''/c'' (empty_outbox ''/c'') (files (boot_io [] []))" "ox_agrees (empty_outbox ''/c'') (files (boot_io [] []))"
  using ox_run_inv [OF ox_run.factory [of "''/c''"]]
  by (simp_all add: dir_ok_def slash_def boot_io_def ox_agrees_def empty_outbox_def ox_find_def
      outbox_on_unfold lookup_def)

lemma outbox_add_durable_witness:
  "\<exists>s' e. outbox_add ''nina'' [] ''hola'' 7 (empty_outbox ''/c'') (boot_io [] []) = (Some (format_local_id 1), s', e) \<and>
     ox_agrees s' (files e) \<and> sendable_count s' = 1"
proof -
  obtain s' e where a: "outbox_add ''nina'' [] ''hola'' 7 (empty_outbox ''/c'') (boot_io [] []) = (Some (format_local_id 1), s', e)"
    using demo_add by blast
  have "is_i64 7" "ox_high_water (empty_outbox ''/c'') + 1 < 2 ^ 63" "sendable_count (empty_outbox ''/c'') = 0"
    by (simp_all add: is_i64_def empty_outbox_def sendable_count_def)
  with outbox_add_durable [OF a demo_outbox] a show ?thesis by auto
qed

text \<open>
  Every ack is terminal. \<^verbatim>\<open>Resolve\<close> touches no other entry at any durable state; \<^verbatim>\<open>kSent\<close> removes the
  entry, any other status keeps the child's text at every durable state and marks it rejected, and an
  ack for an entry that is gone is a success that changes nothing. When it returns true memory and
  medium agree.
\<close>

theorem outbox_resolve_terminal:
  assumes "outbox_resolve i st s d = (ok, s', e)" "mem_inv base s (files d)" "ox_agrees s (files d)"
    and "\<And>x. x \<in> set (ox_entries s) \<Longrightarrow> is_i64 (oe_composed_at x)"
  shows "through (\<lambda>fs. (\<forall>j. j \<noteq> i \<longrightarrow> ox_on base fs j = ox_on base (files d) j) \<and>
      (st \<noteq> kSent \<longrightarrow> map_option oe_body (ox_on base fs i) = map_option oe_body (ox_on base (files d) i))) d e \<and>
    (ox_find s i = None \<longrightarrow> ok \<and> s' = s \<and> e = d) \<and>
    (ok \<longrightarrow> ox_agrees s' (files e) \<and> ox_find s' i = (if st = kSent then None
       else map_option (\<lambda>x. x\<lparr>oe_rejected := True, oe_reject_status := st\<rparr>) (ox_find s i)))"
  using assms by (rule resolve_result)

lemma outbox_resolve_terminal_witness:
  "\<exists>s e ok s' f. ox_find s (format_local_id 1) \<noteq> None \<and>
     outbox_resolve (format_local_id 1) kInvalid s e = (ok, s', f) \<and>
     map_option oe_body (ox_on ''/c'' (files f) (format_local_id 1)) = Some ''hola''"
proof -
  obtain s e where a: "outbox_add ''nina'' [] ''hola'' 7 (empty_outbox ''/c'') (boot_io [] []) = (Some (format_local_id 1), s, e)"
    using demo_add by blast
  have h: "is_i64 7" "ox_high_water (empty_outbox ''/c'') + 1 < 2 ^ 63" "ox_high_water (empty_outbox ''/c'') = 0"
    by (simp_all add: is_i64_def empty_outbox_def)
  let ?x = "new_entry 1 ''nina'' [] ''hola'' 7"
  from add_inv [OF a demo_outbox(1) h(2,1)] h(3)
  have m: "mem_inv ''/c'' s (files e)" and x: "ox_entries s = [?x]"
    and on: "ox_on ''/c'' (files e) (format_local_id 1) = Some ?x" by (simp_all add: empty_outbox_def)
  from outbox_add_result [OF a demo_outbox h(2,1) refl] have agr: "ox_agrees s (files e)" by simp
  obtain ok s' f where r: "outbox_resolve (format_local_id 1) kInvalid s e = (ok, s', f)" using prod_cases3 by blast
  have i: "is_i64 (oe_composed_at y)" if "y \<in> set (ox_entries s)" for y
    using that by (simp add: x new_entry_def is_i64_def)
  note T = outbox_resolve_terminal [OF r m agr i, THEN conjunct1]
  from through_files [OF T] have "map_option oe_body (ox_on ''/c'' (files f) (format_local_id 1)) = Some ''hola''"
    by (simp add: on del: One_nat_def) (simp add: new_entry_def)
  moreover have "ox_find s (format_local_id 1) \<noteq> None" by (simp add: x ox_find_def new_entry_def)
  ultimately show ?thesis using r by blast
qed

end
