(* ===== verification/Seen_Ring.thy ===== *)
theory Seen_Ring
  imports Fsutil
begin

text \<open>
  The ids of letters already delivered, \<^verbatim>\<open>FileSeenRing\<close> of \<^verbatim>\<open>components/store/store.cpp\<close>: a bounded ring
  in memory over an append-only file that is compacted when it has drifted past the ring by more
  than the slack.
\<close>

record seen_ring =
  sr_path :: string
  sr_capacity :: nat
  sr_lines :: nat
  sr_ring :: "string list"

definition k_min_seen_ids :: nat where "k_min_seen_ids = 1000"
definition k_seen_file :: string where "k_seen_file = ''seen''"

definition seen_contains :: "seen_ring \<Rightarrow> string \<Rightarrow> bool" where
  "seen_contains s i \<longleftrightarrow> i \<in> set (sr_ring s)"

definition seen_slack :: "seen_ring \<Rightarrow> nat" where
  "seen_slack s = sr_capacity s div 8"

definition seen_compact :: "seen_ring \<Rightarrow> io \<Rightarrow> bool \<times> seen_ring \<times> io" where
  "seen_compact s d =
     (let (ok, d) = write_atomic (sr_path s) (concat (map (\<lambda>i. i @ [newline]) (sr_ring s))) d
      in if \<not> ok then (False, s, d) else (True, s\<lparr>sr_lines := length (sr_ring s)\<rparr>, d))"

definition push_bounded :: "nat \<Rightarrow> string \<Rightarrow> string list \<Rightarrow> string list" where
  "push_bounded cap i ring = (let ring = ring @ [i] in if cap < length ring then tl ring else ring)"

definition seen_add :: "string \<Rightarrow> seen_ring \<Rightarrow> io \<Rightarrow> bool \<times> seen_ring \<times> io" where
  "seen_add i s d =
     (if \<not> name_is_safe i then (False, s, d)
      else if seen_contains s i then (True, s, d)
      else let s = s\<lparr>sr_ring := push_bounded (sr_capacity s) i (sr_ring s)\<rparr>
           in if sr_capacity s + seen_slack s < sr_lines s + 1 then seen_compact s d
              else let (ok, d) = append_line (sr_path s) i d
                   in if \<not> ok then (False, s, d) else (True, s\<lparr>sr_lines := sr_lines s + 1\<rparr>, d))"

fun load_ring :: "string list \<Rightarrow> string list \<Rightarrow> string list" where
  "load_ring ring [] = ring"
| "load_ring ring (l # ls) = (if l = [] \<or> l \<in> set ring then load_ring ring ls else load_ring (ring @ [l]) ls)"

definition seen_load :: "seen_ring \<Rightarrow> io \<Rightarrow> seen_ring \<times> io" where
  "seen_load s d = (case read_all (sr_path s) d of
      (None, d) \<Rightarrow> (s, d)
    | (Some text, d) \<Rightarrow>
        let lines = split_complete_lines text;
            start = (if sr_capacity s < length lines then length lines - sr_capacity s else 0);
            s = s\<lparr>sr_lines := length lines, sr_ring := load_ring (sr_ring s) (drop start lines)\<rparr>
        in if sr_capacity s + seen_slack s < sr_lines s
           then let (_, s, d) = seen_compact s d in (s, d)
           else (s, d))"

definition open_seen_ring :: "string \<Rightarrow> nat \<Rightarrow> io \<Rightarrow> seen_ring \<times> io" where
  "open_seen_ring base cap d =
     seen_load \<lparr>sr_path = join base k_seen_file, sr_capacity = max cap k_min_seen_ids, sr_lines = 0,
                sr_ring = []\<rparr> d"

subsection \<open>What the file says\<close>

definition seen_lines :: "string \<Rightarrow> fs \<Rightarrow> string list" where
  "seen_lines path fs = (case lookup fs path of None \<Rightarrow> [] | Some f \<Rightarrow> split_complete_lines (content f))"

definition last_lines :: "nat \<Rightarrow> string list \<Rightarrow> string list" where
  "last_lines cap ls = drop (length ls - cap) ls"

definition seen_on :: "string \<Rightarrow> nat \<Rightarrow> fs \<Rightarrow> string list" where
  "seen_on path cap fs = load_ring [] (last_lines cap (seen_lines path fs))"

text \<open>
  The ring agrees with the file: whole lines, all durable, the newest \<open>capacity\<close> of them the ring.
\<close>

definition seen_agrees :: "seen_ring \<Rightarrow> fs \<Rightarrow> bool" where
  "seen_agrees s fs \<longleftrightarrow> 0 < sr_capacity s \<and>
     (\<exists>ls. (lookup fs (sr_path s) = Some (whole (as_lines ls)) \<or> lookup fs (sr_path s) = None \<and> ls = []) \<and>
       (\<forall>l \<in> set ls. newline \<notin> set l \<and> l \<noteq> []) \<and> sr_lines s = length ls \<and>
       sr_ring s = last_lines (sr_capacity s) ls \<and> distinct (sr_ring s))"

lemma split_whole: "(\<And>l. l \<in> set ls \<Longrightarrow> newline \<notin> set l) \<Longrightarrow> split_complete_lines (as_lines ls) = ls"
  using split_as_lines [of ls "[]"] by (simp add: split_complete_lines_tail)

lemma load_ring_distinct: "distinct (ring @ ls) \<Longrightarrow> [] \<notin> set ls \<Longrightarrow> load_ring ring ls = ring @ ls"
  by (induction ring ls rule: load_ring.induct) auto

lemma last_lines_short: "length ls \<le> cap \<Longrightarrow> last_lines cap ls = ls"
  by (simp add: last_lines_def)

lemma length_last_lines: "length (last_lines cap ls) = min cap (length ls)"
  by (simp add: last_lines_def)

lemma last_lines_snoc: "0 < cap \<Longrightarrow> last_lines cap (ls @ [i]) = push_bounded cap i (last_lines cap ls)"
  by (auto simp: last_lines_def push_bounded_def Let_def drop_Suc tl_drop Suc_diff_le)

lemma set_last_lines: "set (last_lines cap ls) \<subseteq> set ls"
  by (simp add: last_lines_def set_drop_subset)

lemma set_push: "0 < cap \<Longrightarrow> i \<in> set (push_bounded cap i ring)"
  by (cases ring) (auto simp: push_bounded_def Let_def)

lemma set_push_subset: "set (push_bounded cap i ring) \<subseteq> insert i (set ring)"
  by (cases ring) (auto simp: push_bounded_def Let_def)

lemma distinct_push: "distinct ring \<Longrightarrow> i \<notin> set ring \<Longrightarrow> distinct (push_bounded cap i ring)"
  by (cases ring) (auto simp: push_bounded_def Let_def)

lemma length_push: "0 < cap \<Longrightarrow> length ring \<le> cap \<Longrightarrow> length (push_bounded cap i ring) \<le> cap"
  by (auto simp: push_bounded_def Let_def)

lemma safe_no_newline: "name_is_safe i \<Longrightarrow> newline \<notin> set i \<and> i \<noteq> []"
  by (auto simp: name_is_safe_def list_all_iff name_char_ok_def newline_def less_eq_char_def)

lemma seen_agrees_on: "seen_agrees s fs \<Longrightarrow> seen_on (sr_path s) (sr_capacity s) fs = sr_ring s"
proof -
  assume "seen_agrees s fs"
  then obtain ls where ls: "lookup fs (sr_path s) = Some (whole (as_lines ls)) \<or> lookup fs (sr_path s) = None \<and> ls = []"
    "\<forall>l \<in> set ls. newline \<notin> set l \<and> l \<noteq> []" "sr_ring s = last_lines (sr_capacity s) ls" "distinct (sr_ring s)"
    by (auto simp: seen_agrees_def)
  have "seen_lines (sr_path s) fs = ls"
    using ls(1,2) by (auto simp: seen_lines_def split_whole whole_def)
  moreover have "[] \<notin> set (last_lines (sr_capacity s) ls)" using ls(2) set_last_lines by blast
  ultimately show ?thesis using ls(3,4) load_ring_distinct [of "[]"] by (simp add: seen_on_def)
qed

text \<open>A file cut inside its last line reads as the lines before it.\<close>

lemma split_cut:
  assumes "\<And>l. l \<in> set ls \<Longrightarrow> newline \<notin> set l" "newline \<notin> set i"
  shows "split_complete_lines (as_lines ls @ take k (i @ [newline])) = (if length i < k then ls @ [i] else ls)"
proof (cases "length i < k")
  case True
  then have "as_lines ls @ take k (i @ [newline]) = as_lines (ls @ [i])" by (simp add: as_lines_def)
  moreover have "split_complete_lines (as_lines (ls @ [i])) = ls @ [i]"
    by (rule split_whole) (use assms in auto)
  ultimately show ?thesis using True by simp
next
  case False
  then have "newline \<notin> set (take k (i @ [newline]))" using assms(2) by (auto dest: in_set_takeD)
  with False split_as_lines [OF assms(1)] show ?thesis by (simp add: split_complete_lines_tail)
qed

subsection \<open>Adding an id\<close>

definition after_add :: "string \<Rightarrow> seen_ring \<Rightarrow> string list" where
  "after_add i s = (if i \<in> set (sr_ring s) then sr_ring s else push_bounded (sr_capacity s) i (sr_ring s))"

definition seen_states :: "string \<Rightarrow> seen_ring \<Rightarrow> fs \<Rightarrow> bool" where
  "seen_states i s fs \<longleftrightarrow>
     (\<forall>keep. seen_on (sr_path s) (sr_capacity s) (crash keep fs) \<in> {sr_ring s, after_add i s})"

lemma seen_on_whole:
  assumes "lookup fs path = Some (whole (as_lines ls))" "\<forall>l \<in> set ls. newline \<notin> set l \<and> l \<noteq> []"
    "distinct (last_lines cap ls)"
  shows "seen_on path cap (crash keep fs) = last_lines cap ls"
proof -
  have "seen_lines path (crash keep fs) = ls"
    using assms(1,2) by (simp add: seen_lines_def lookup_crash split_whole) (simp add: whole_def split_whole)
  moreover have "[] \<notin> set (last_lines cap ls)" using assms(2) set_last_lines by blast
  ultimately show ?thesis using assms(3) load_ring_distinct [of "[]"] by (simp add: seen_on_def)
qed

lemma append_states_seen:
  assumes ls: "lookup fs0 (sr_path s) = Some (whole (as_lines ls)) \<or> lookup fs0 (sr_path s) = None \<and> ls = []"
    and ok: "\<forall>l \<in> set ls. newline \<notin> set l \<and> l \<noteq> []" and ring: "sr_ring s = last_lines (sr_capacity s) ls"
    and d: "distinct (sr_ring s)" and i: "newline \<notin> set i" "i \<noteq> []" "i \<notin> set (sr_ring s)"
    and cap: "0 < sr_capacity s" and st: "append_states (sr_path s) i fs0 fs"
  shows "seen_states i s fs"
  unfolding seen_states_def
proof
  fix keep
  let ?p = "sr_path s"
  have "\<exists>k. seen_lines ?p (crash keep fs) = split_complete_lines (as_lines ls @ take k (i @ [newline]))"
  proof (cases "lookup fs ?p = lookup fs0 ?p")
    case True
    have "seen_lines ?p (crash keep fs) = split_complete_lines (as_lines ls @ take 0 (i @ [newline]))"
      using True ls
      by (auto simp: seen_lines_def lookup_crash as_lines_def split_complete_lines_tail) (simp add: whole_def)
    then show ?thesis ..
  next
    case False
    with st obtain f j where f: "lookup fs ?p = Some f"
      "content f = old_content (lookup fs0 ?p) @ take j (i @ [newline])"
      "durable f = old_durable (lookup fs0 ?p) \<or> durable f = length (content f)"
      by (auto simp: append_states_def)
    have old: "old_content (lookup fs0 ?p) = as_lines ls" "old_durable (lookup fs0 ?p) = length (as_lines ls)"
      using ls by (auto simp: old_content_def old_durable_def whole_def as_lines_def)
    have "length (as_lines ls) \<le> max (durable f) (keep ?p)" using f(2,3) old by auto
    then have "take (max (durable f) (keep ?p)) (as_lines ls @ y) =
        as_lines ls @ take (max (durable f) (keep ?p) - length (as_lines ls)) y" for y by simp
    from this [of "take j (i @ [newline])"] have "content (crash_inode (keep ?p) f) =
        as_lines ls @ take (min (max (durable f) (keep ?p) - length (as_lines ls)) j) (i @ [newline])"
      unfolding crash_inode_def Let_def inode.simps f(2) old(1) by (simp only: take_take)
    then show ?thesis using f(1) by (auto simp: seen_lines_def lookup_crash)
  qed
  then obtain k where "seen_lines ?p (crash keep fs) = (if length i < k then ls @ [i] else ls)"
    using split_cut [of ls i] ok i(1) by auto
  then consider "seen_lines ?p (crash keep fs) = ls" | "seen_lines ?p (crash keep fs) = ls @ [i]"
    by (auto split: if_splits)
  then show "seen_on ?p (sr_capacity s) (crash keep fs) \<in> {sr_ring s, after_add i s}"
  proof cases
    case 1
    moreover have "[] \<notin> set (last_lines (sr_capacity s) ls)" using ok set_last_lines by blast
    ultimately show ?thesis using d ring load_ring_distinct [of "[]"] by (simp add: seen_on_def)
  next
    case 2
    have l: "last_lines (sr_capacity s) (ls @ [i]) = push_bounded (sr_capacity s) i (sr_ring s)"
      using cap ring by (simp add: last_lines_snoc)
    moreover have "[] \<notin> set (push_bounded (sr_capacity s) i (sr_ring s))"
      using ok i(2) ring set_last_lines set_push_subset by (metis insertE subsetD)
    ultimately show ?thesis
      using 2 load_ring_distinct [of "[]"] distinct_push [OF d i(3)] i(3) by (simp add: seen_on_def after_add_def)
  qed
qed

lemma seen_add_spec:
  assumes "seen_add i s d = (ok, s', e)" "seen_agrees s (files d)"
  shows "through (seen_states i s) d e"
    and "ok \<Longrightarrow> seen_agrees s' (files e) \<and> sr_ring s' = after_add i s \<and> seen_contains s' i"
    and "name_is_safe i \<Longrightarrow> seen_contains s' i"
proof -
  let ?p = "sr_path s"
  obtain ls where ls: "lookup (files d) ?p = Some (whole (as_lines ls)) \<or> lookup (files d) ?p = None \<and> ls = []"
    and lok: "\<forall>l \<in> set ls. newline \<notin> set l \<and> l \<noteq> []" and n: "sr_lines s = length ls"
    and ring: "sr_ring s = last_lines (sr_capacity s) ls" and dist: "distinct (sr_ring s)"
    and cap: "0 < sr_capacity s"
    using assms(2) by (auto simp: seen_agrees_def)
  have stay: "seen_states i s (files d)"
    using ls append_states_seen [OF ls lok ring dist _ _ _ cap, of i "files d"]
    unfolding seen_states_def
    by (auto simp: seen_on_whole lok dist [unfolded ring] ring)
      (simp add: seen_on_def seen_lines_def lookup_crash last_lines_def ring)
  have "through (seen_states i s) d e \<and>
    (ok \<longrightarrow> seen_agrees s' (files e) \<and> sr_ring s' = after_add i s \<and> seen_contains s' i) \<and>
    (name_is_safe i \<longrightarrow> seen_contains s' i)"
  proof (cases "name_is_safe i \<and> i \<notin> set (sr_ring s)")
    case False
    with assms stay show ?thesis
      by (cases "name_is_safe i") (auto simp: seen_add_def seen_contains_def after_add_def intro: through_refl)
  next
    case True
    then have i: "newline \<notin> set i" "i \<noteq> []" "i \<notin> set (sr_ring s)" and safe: "name_is_safe i"
      using safe_no_newline by auto
    let ?s = "s\<lparr>sr_ring := push_bounded (sr_capacity s) i (sr_ring s)\<rparr>"
    have aft: "after_add i s = sr_ring ?s" using i by (simp add: after_add_def)
    have con: "i \<in> set (sr_ring ?s)" using cap by (simp add: set_push)
    show ?thesis
    proof (cases "sr_capacity s + seen_slack ?s < sr_lines s + 1")
      case True
      let ?data = "as_lines (sr_ring ?s)"
      obtain o1 e1 where w: "write_atomic ?p ?data d = (o1, e1)" by fastforce
      have res: "(ok, s', e) = (if \<not> o1 then (False, ?s, e1) else (True, ?s\<lparr>sr_lines := length (sr_ring ?s)\<rparr>, e1))"
        using assms(1) True safe i w
        by (cases o1) (simp_all add: seen_add_def seen_contains_def seen_compact_def as_lines_def)
      have short: "last_lines (sr_capacity s) (sr_ring ?s) = sr_ring ?s"
        using cap ring by (intro last_lines_short) (simp add: length_push length_last_lines)
      have rok: "\<forall>l \<in> set (sr_ring ?s). newline \<notin> set l \<and> l \<noteq> []"
        using lok i ring set_last_lines [of "sr_capacity s" ls] set_push_subset [of "sr_capacity s" i "sr_ring s"]
        by auto
      have dr: "distinct (sr_ring ?s)" using dist i by (simp add: distinct_push)
      have "through (seen_states i s) d e1"
      proof (rule wa.wr_kept [OF w])
        fix fs assume "atomic_states ?p ?data (files d) fs"
        then consider "lookup fs ?p = lookup (files d) ?p" | "lookup fs ?p = Some (whole ?data)"
          by (auto simp: atomic_states_def)
        then show "seen_states i s fs"
        proof cases
          case 1
          then have "seen_on ?p c (crash k fs) = seen_on ?p c (crash k (files d))" for c k
            by (simp add: seen_on_def seen_lines_def lookup_crash)
          with stay show ?thesis by (simp add: seen_states_def)
        next
          case 2
          from seen_on_whole [OF 2 rok] dr short show ?thesis by (simp add: seen_states_def aft)
        qed
      qed
      moreover have "seen_agrees (?s\<lparr>sr_lines := length (sr_ring ?s)\<rparr>) (files e1)" if o1
        using wa.wr_ok [of ?p ?data d e1] w that rok dr short cap
        by (simp add: seen_agrees_def) (metis short)
      ultimately show ?thesis using res aft con by (auto simp: seen_contains_def split: if_splits)
    next
      case False
      obtain o1 e1 where w: "append_line ?p i d = (o1, e1)" by fastforce
      have res: "(ok, s', e) = (if \<not> o1 then (False, ?s, e1) else (True, ?s\<lparr>sr_lines := sr_lines s + 1\<rparr>, e1))"
        using assms(1) False safe i w by (cases o1) (simp_all add: seen_add_def seen_contains_def)
      have "through (seen_states i s) d e1"
        by (rule through_mono [OF append_line_spec(1) [OF w]])
          (rule append_states_seen [OF ls lok ring dist i cap])
      moreover have "seen_agrees (?s\<lparr>sr_lines := sr_lines s + 1\<rparr>) (files e1)" if o1
      proof -
        have "old_content (lookup (files d) ?p) = as_lines ls"
          using ls by (auto simp: old_content_def whole_def as_lines_def)
        then have "lookup (files e1) ?p = Some (whole (as_lines (ls @ [i])))"
          using append_line_spec(2) [OF w that] by (simp add: as_lines_def)
        moreover have "sr_ring ?s = last_lines (sr_capacity s) (ls @ [i])"
          using cap ring by (simp add: last_lines_snoc)
        moreover have "distinct (sr_ring ?s)" using dist i by (simp add: distinct_push)
        ultimately show ?thesis
          using lok i cap n unfolding seen_agrees_def by (intro conjI exI [of _ "ls @ [i]"]) auto
      qed
      ultimately show ?thesis using res aft con by (auto simp: seen_contains_def split: if_splits)
    qed
  qed
  then show "through (seen_states i s) d e"
    "ok \<Longrightarrow> seen_agrees s' (files e) \<and> sr_ring s' = after_add i s \<and> seen_contains s' i"
    "name_is_safe i \<Longrightarrow> seen_contains s' i" by auto
qed

lemma sr_path_add: "seen_add i s d = (ok, s', e) \<Longrightarrow> sr_capacity s' = sr_capacity s \<and> sr_path s' = sr_path s"
  by (auto simp: seen_add_def seen_compact_def Let_def split: if_splits prod.splits)

lemma ring_add: "seen_add i s d = (ok, s', e) \<Longrightarrow> sr_ring s' = sr_ring s \<or> sr_ring s' = after_add i s"
  by (auto simp: seen_add_def seen_compact_def Let_def after_add_def seen_contains_def split: if_splits prod.splits)

subsection \<open>Properties\<close>

text \<open>
  No seen id but the oldest is ever forgotten. From a ring that agrees with its file, whatever fails
  in \<^verbatim>\<open>Add\<close> and whenever the power goes, a reboot loads the old ring or the old ring with the id at
  its end (less the oldest id when the ring was full); the ring stays within its capacity, an id with
  a safe name is remembered until the reboot even when the write fails, and after true it is on the
  medium too.
\<close>

theorem seen_add_remembers:
  assumes "seen_add i s d = (ok, s', e)" "seen_agrees s (files d)"
  shows "through (\<lambda>fs. \<forall>keep. seen_on (sr_path s) (sr_capacity s) (crash keep fs) \<in> {sr_ring s, after_add i s}) d e \<and>
    (ok \<longrightarrow> seen_agrees s' (files e) \<and> seen_on (sr_path s) (sr_capacity s) (files e) = sr_ring s') \<and>
    (name_is_safe i \<longrightarrow> seen_contains s' i) \<and>
    length (sr_ring s') \<le> sr_capacity s \<and> set (tl (sr_ring s)) \<subseteq> set (sr_ring s')"
proof -
  note S = seen_add_spec [OF assms]
  have len: "length (sr_ring s) \<le> sr_capacity s" "0 < sr_capacity s"
    using assms(2) by (auto simp: seen_agrees_def length_last_lines)
  have "length (after_add i s) \<le> sr_capacity s" using len by (simp add: after_add_def length_push)
  moreover have "set (tl (sr_ring s)) \<subseteq> set (after_add i s)"
    by (cases "sr_ring s") (auto simp: after_add_def push_bounded_def Let_def)
  moreover have "set (tl (sr_ring s)) \<subseteq> set (sr_ring s)" by (cases "sr_ring s") auto
  ultimately have "length (sr_ring s') \<le> sr_capacity s \<and> set (tl (sr_ring s)) \<subseteq> set (sr_ring s')"
    using ring_add [OF assms(1)] len by auto
  moreover have "seen_on (sr_path s) (sr_capacity s) (files e) = sr_ring s'" if ok
    using seen_agrees_on [of s' "files e"] S(2) [OF that] sr_path_add [OF assms(1)] by simp
  moreover have "through (\<lambda>fs. \<forall>keep. seen_on (sr_path s) (sr_capacity s) (crash keep fs) \<in> {sr_ring s, after_add i s}) d e"
    by (rule through_mono [OF S(1)]) (simp add: seen_states_def)
  ultimately show ?thesis using S by simp
qed

definition demo_ring :: seen_ring where
  "demo_ring = \<lparr>sr_path = ''/c/seen'', sr_capacity = 1000, sr_lines = 1, sr_ring = [''n1'']\<rparr>"

lemma seen_add_remembers_witness:
  "\<exists>ok s' e. seen_add ''n2'' demo_ring (boot_io [(''/c/seen'', whole (as_lines [''n1'']))] []) = (ok, s', e) \<and>
     seen_contains s' ''n2'' \<and> length (sr_ring s') \<le> 1000"
proof -
  let ?d = "boot_io [(''/c/seen'', whole (as_lines [''n1'']))] []"
  obtain ok s' e where r: "seen_add ''n2'' demo_ring ?d = (ok, s', e)" using prod_cases3 by blast
  have agr: "seen_agrees demo_ring (files ?d)"
    unfolding seen_agrees_def
    by (intro conjI exI [of _ "[''n1'']"])
      (simp_all add: demo_ring_def boot_io_def lookup_def last_lines_def newline_def)
  have "name_is_safe ''n2''" by (simp add: name_is_safe_def name_char_ok_def)
  with seen_add_remembers [OF r agr] r show ?thesis by (simp add: demo_ring_def)
qed

text \<open>
  A torn append damages the next id too. When the file ends in the piece a power cut left of an
  append, the id the next successful \<^verbatim>\<open>Add\<close> appends is joined to that piece: the file then holds one
  junk line in its place, and a reboot does not find the id although \<^verbatim>\<open>Add\<close> returned true.
\<close>

theorem torn_append_swallows_next:
  assumes "seen_add i s d = (True, s', e)" "\<not> seen_contains s i" "sr_lines s + 1 \<le> sr_capacity s + seen_slack s"
    and "lookup (files d) (sr_path s) = Some (whole (as_lines ls @ torn))"
    and "\<And>l. l \<in> set ls \<Longrightarrow> newline \<notin> set l" "newline \<notin> set torn" "torn \<noteq> []" "i \<notin> set ls"
  shows "seen_lines (sr_path s) (files e) = ls @ [torn @ i] \<and> seen_contains s' i \<and>
    i \<notin> set (seen_lines (sr_path s) (files e))"
proof -
  have safe: "name_is_safe i" using assms(1) by (auto simp: seen_add_def split: if_splits)
  obtain o1 e1 where w: "append_line (sr_path s) i d = (o1, e1)" by fastforce
  let ?s = "s\<lparr>sr_ring := push_bounded (sr_capacity s) i (sr_ring s)\<rparr>"
  have "\<not> sr_capacity ?s + seen_slack ?s < sr_lines ?s + 1" using assms(3) by (simp add: seen_slack_def)
  then have r: "o1" "e1 = e" "s' = ?s\<lparr>sr_lines := sr_lines s + 1\<rparr>"
    using assms(1,2) safe w by (cases o1; simp add: seen_add_def)+
  have "lookup (files e) (sr_path s) = Some (whole (as_lines ls @ torn @ i @ [newline]))"
    using append_line_spec(2) [OF w r(1)] r(2) assms(4) by (simp add: old_content_def whole_def)
  moreover have "as_lines ls @ torn @ i @ [newline] = as_lines (ls @ [torn @ i])" by (simp add: as_lines_def)
  moreover have "split_complete_lines (as_lines (ls @ [torn @ i])) = ls @ [torn @ i]"
    by (rule split_whole) (use assms(5,6) safe_no_newline [OF safe] in auto)
  ultimately have ls: "seen_lines (sr_path s) (files e) = ls @ [torn @ i]"
    by (simp add: seen_lines_def whole_def)
  moreover have "seen_contains s' i"
  proof (cases "sr_capacity s")
    case 0
    then show ?thesis using assms(3) by (simp add: seen_slack_def)
  next
    case (Suc c)
    then show ?thesis by (simp add: r(3) seen_contains_def set_push)
  qed
  ultimately show ?thesis using assms(7,8) by auto
qed

lemma torn_append_swallows_next_witness:
  "\<exists>s' e. seen_add ''n2'' demo_ring (boot_io [(''/c/seen'', whole (as_lines [''n1''] @ ''n''))] []) = (True, s', e) \<and>
     seen_lines ''/c/seen'' (files e) = [''n1'', ''nn2'']"
proof -
  let ?d = "boot_io [(''/c/seen'', whole (as_lines [''n1''] @ ''n''))] []"
  have l: "lookup (files ?d) (sr_path demo_ring) = Some (whole (as_lines [''n1''] @ ''n''))"
    by (simp add: boot_io_def demo_ring_def lookup_def)
  obtain o1 e1 where w: "append_line ''/c/seen'' ''n2'' ?d = (o1, e1)" by fastforce
  have "fst (append_line ''/c/seen'' ''n2'' ?d)" by code_simp
  with w have o1 by simp
  have "name_is_safe ''n2''" by (simp add: name_is_safe_def name_char_ok_def)
  then obtain s' e where r: "seen_add ''n2'' demo_ring ?d = (True, s', e)"
    using w \<open>o1\<close> by (simp add: seen_add_def demo_ring_def seen_contains_def seen_slack_def)
  have h: "\<not> seen_contains demo_ring ''n2''" "sr_lines demo_ring + 1 \<le> sr_capacity demo_ring + seen_slack demo_ring"
    by (simp_all add: demo_ring_def seen_contains_def seen_slack_def)
  have "seen_lines (sr_path demo_ring) (files e) = [''n1''] @ [''n'' @ ''n2'']"
    by (rule torn_append_swallows_next [OF r h l, THEN conjunct1]) (auto simp: newline_def)
  with r show ?thesis by (simp add: demo_ring_def)
qed

end
