(* ===== verification/Record_File.thy ===== *)
theory Record_File
  imports Fsutil
begin

text \<open>
  A store that keeps one value in one file, replaced as a whole: the contract the sync state, the
  draft and the settings share. The interface is an encoder and a decoder with a round trip; what a
  power cut leaves of the file follows from it and from atomic replacement, once for all three.
\<close>

definition slot_on :: "(string \<Rightarrow> 'b) \<Rightarrow> string \<Rightarrow> fs \<Rightarrow> 'b option" where
  "slot_on rd path fs = map_option (\<lambda>f. rd (content f)) (lookup fs path)"

definition durable_file :: "string \<Rightarrow> fs \<Rightarrow> bool" where
  "durable_file path fs \<longleftrightarrow> (\<forall>f. lookup fs path = Some f \<longrightarrow> durable f = length (content f))"

lemma durable_file_crash: "durable_file path (crash keep fs)"
  by (auto simp: durable_file_def lookup_crash crash_inode_def Let_def)

lemma slot_on_crash: "durable_file path fs \<Longrightarrow> slot_on rd path (crash keep fs) = slot_on rd path fs"
proof -
  assume a: "durable_file path fs"
  have "crash_inode k f = f" if "lookup fs path = Some f" for f k
    using a that by (cases f) (simp add: durable_file_def crash_inode_def Let_def)
  then show ?thesis by (cases "lookup fs path") (auto simp: slot_on_def lookup_crash)
qed

lemma read_slot:
  "script d = [] \<Longrightarrow> read_all path d = (map_option content (lookup (files d) path), d)"
  by (rule read_all_no_faults)

text \<open>What a run that replaces the value by \<open>v\<close> may leave, whatever fails and whenever the power goes.\<close>

definition old_or_new :: "(string \<Rightarrow> 'b) \<Rightarrow> string \<Rightarrow> fs \<Rightarrow> 'b \<Rightarrow> fs \<Rightarrow> bool" where
  "old_or_new rd path fs0 v fs \<longleftrightarrow> durable_file path fs \<and>
     (\<forall>keep. slot_on rd path (crash keep fs) = slot_on rd path fs0 \<or>
             slot_on rd path (crash keep fs) = Some v)"

lemma old_or_newD:
  "old_or_new rd path fs0 v fs \<Longrightarrow> slot_on rd path (crash keep fs) \<in> {slot_on rd path fs0, Some v}"
  by (simp add: old_or_new_def)

locale record_file =
  fixes enc :: "'a \<Rightarrow> string" and rd :: "string \<Rightarrow> 'b" and view :: "'a \<Rightarrow> 'b" and valid :: "'a \<Rightarrow> bool"
  assumes round_trip: "valid x \<Longrightarrow> rd (enc x) = view x"
begin

lemma save_through:
  assumes "write_atomic path (enc x) d = (ok, e)" "valid x" "durable_file path (files d)"
  shows "through (old_or_new rd path (files d) (view x)) d e"
proof (rule wa.wr_kept [OF assms(1)])
  fix fs
  assume a: "atomic_states path (enc x) (files d) fs"
  then have dur: "durable_file path fs"
    using assms(3) by (auto simp: atomic_states_def durable_file_def whole_def)
  have "slot_on rd path fs = slot_on rd path (files d) \<or> slot_on rd path fs = Some (view x)"
    using a round_trip [OF assms(2)] by (auto simp: atomic_states_def slot_on_def whole_def)
  with dur show "old_or_new rd path (files d) (view x) fs"
    by (simp add: old_or_new_def slot_on_crash)
qed

lemma save_ok:
  assumes "write_atomic path (enc x) d = (True, e)" "valid x"
  shows "slot_on rd path (crash keep (files e)) = Some (view x)" "durable_file path (files e)"
  using wa.wr_ok [OF assms(1)] round_trip [OF assms(2)]
  by (simp_all add: slot_on_def lookup_crash durable_file_def) (simp_all add: whole_def)

end

end
