(* ===== verification/State_Store.thy ===== *)
theory State_Store
  imports Record_File Outbox
begin

text \<open>
  The machine-owned sync state, \<^verbatim>\<open>FileStateStore\<close> of \<^verbatim>\<open>components/store/store.cpp\<close>: the cursor, the
  contact-list version and the time of the last sync in one record, rewritten whole by every setter,
  and the local-id high-water mark read from the outbox's counter file.
\<close>

record sync_state =
  ss_cursor :: string
  ss_ayllu_version :: int
  ss_local_id_high_water :: nat
  ss_last_sync_at :: int

definition default_state :: sync_state where
  "default_state = \<lparr>ss_cursor = [], ss_ayllu_version = 0, ss_local_id_high_water = 0, ss_last_sync_at = 0\<rparr>"

record state_store =
  st_path :: string
  st_counter_path :: string
  st_state :: sync_state

definition state_record :: "sync_state \<Rightarrow> kv_record" where
  "state_record x =
     [(''cursor'', ss_cursor x),
      (''ayllu_version'', dec_int (ss_ayllu_version x)),
      (''last_sync_at'', dec_int (ss_last_sync_at x))]"

definition encode_state :: "sync_state \<Rightarrow> string" where
  "encode_state x = encode_record (state_record x)"

definition decode_state :: "string \<Rightarrow> sync_state" where
  "decode_state text =
     (let r = decode_record text
      in default_state\<lparr>ss_cursor := or_else (find_key r ''cursor'') [],
           ss_ayllu_version := or_else (read_int r ''ayllu_version'') 0,
           ss_last_sync_at := or_else (read_i64 r ''last_sync_at'') 0\<rparr>)"

definition k_state_file :: string where "k_state_file = ''state''"

definition open_state_store :: "string \<Rightarrow> io \<Rightarrow> state_store \<times> io" where
  "open_state_store base d =
     (let (text, d) = read_all (join base k_state_file) d
      in (\<lparr>st_path = join base k_state_file, st_counter_path = join base k_local_id_file,
           st_state = (case text of None \<Rightarrow> default_state | Some t \<Rightarrow> decode_state t)\<rparr>, d))"

definition st_snapshot :: "state_store \<Rightarrow> io \<Rightarrow> sync_state \<times> io" where
  "st_snapshot s d = (case read_all (st_counter_path s) d of
      (None, d) \<Rightarrow> (st_state s, d)
    | (Some text, d) \<Rightarrow> (case parse_counter text of
          None \<Rightarrow> (st_state s, d)
        | Some n \<Rightarrow> ((st_state s)\<lparr>ss_local_id_high_water := n\<rparr>, d)))"

definition persist :: "state_store \<Rightarrow> io \<Rightarrow> bool \<times> io" where
  "persist s d = write_atomic (st_path s) (encode_state (st_state s)) d"

definition set_cursor :: "string \<Rightarrow> state_store \<Rightarrow> io \<Rightarrow> bool \<times> state_store \<times> io" where
  "set_cursor cursor s d =
     (let s' = s\<lparr>st_state := (st_state s)\<lparr>ss_cursor := cursor\<rparr>\<rparr>;
          (ok, d) = persist s' d
      in if ok then (True, s', d)
         else (False, s'\<lparr>st_state := (st_state s')\<lparr>ss_cursor := ss_cursor (st_state s)\<rparr>\<rparr>, d))"

definition set_ayllu_version :: "int \<Rightarrow> state_store \<Rightarrow> io \<Rightarrow> bool \<times> state_store \<times> io" where
  "set_ayllu_version v s d =
     (let s' = s\<lparr>st_state := (st_state s)\<lparr>ss_ayllu_version := v\<rparr>\<rparr>;
          (ok, d) = persist s' d
      in if ok then (True, s', d)
         else (False, s'\<lparr>st_state := (st_state s')\<lparr>ss_ayllu_version := ss_ayllu_version (st_state s)\<rparr>\<rparr>, d))"

definition set_last_sync_at :: "int \<Rightarrow> state_store \<Rightarrow> io \<Rightarrow> bool \<times> state_store \<times> io" where
  "set_last_sync_at t s d =
     (let s' = s\<lparr>st_state := (st_state s)\<lparr>ss_last_sync_at := t\<rparr>\<rparr>;
          (ok, d) = persist s' d
      in if ok then (True, s', d)
         else (False, s'\<lparr>st_state := (st_state s')\<lparr>ss_last_sync_at := ss_last_sync_at (st_state s)\<rparr>\<rparr>, d))"

subsection \<open>Round trip\<close>

definition state_ok :: "sync_state \<Rightarrow> bool" where
  "state_ok x \<longleftrightarrow> is_i32 (ss_ayllu_version x) \<and> is_i64 (ss_last_sync_at x)"

definition on_flash :: "sync_state \<Rightarrow> sync_state" where
  "on_flash x = x\<lparr>ss_local_id_high_water := 0\<rparr>"

lemma decode_encode_state: "state_ok x \<Longrightarrow> decode_state (encode_state x) = on_flash x"
proof -
  assume ok: "state_ok x"
  have "decode_record (encode_state x) = state_record x"
    unfolding encode_state_def
    by (rule decode_encode_record) (auto simp: state_record_def key_ok_def newline_def)
  with ok show ?thesis
    by (simp add: decode_state_def state_record_def find_key_def read_int_def read_i64_def or_else_def
        parse_i64_dec_int state_ok_def is_i64_of_i32 default_state_def on_flash_def)
qed

interpretation state_file: record_file encode_state decode_state on_flash state_ok
  by unfold_locales (rule decode_encode_state)

text \<open>The three setters are one update of the record; the memory changes only when the write succeeds.\<close>

definition state_set :: "(sync_state \<Rightarrow> sync_state) \<Rightarrow> state_store \<Rightarrow> io \<Rightarrow> bool \<times> state_store \<times> io" where
  "state_set f s d =
     (let (ok, d) = write_atomic (st_path s) (encode_state (f (st_state s))) d
      in (ok, if ok then s\<lparr>st_state := f (st_state s)\<rparr> else s, d))"

lemma setters:
  "set_cursor c = state_set (\<lambda>x. x\<lparr>ss_cursor := c\<rparr>)"
  "set_ayllu_version v = state_set (\<lambda>x. x\<lparr>ss_ayllu_version := v\<rparr>)"
  "set_last_sync_at t = state_set (\<lambda>x. x\<lparr>ss_last_sync_at := t\<rparr>)"
  by (auto simp: fun_eq_iff set_cursor_def set_ayllu_version_def set_last_sync_at_def state_set_def
      persist_def Let_def split: prod.splits)

lemma state_set_spec:
  assumes "state_set f s d = (ok, s', e)" "state_ok (f (st_state s))" "durable_file (st_path s) (files d)"
  shows "through (old_or_new decode_state (st_path s) (files d) (on_flash (f (st_state s)))) d e"
    and "s' = (if ok then s\<lparr>st_state := f (st_state s)\<rparr> else s)"
    and "ok \<Longrightarrow> slot_on decode_state (st_path s) (crash keep (files e)) = Some (on_flash (st_state s'))"
proof -
  obtain o1 e1 where w: "write_atomic (st_path s) (encode_state (f (st_state s))) d = (o1, e1)" by fastforce
  with assms(1) have r: "o1 = ok" "e1 = e" "s' = (if ok then s\<lparr>st_state := f (st_state s)\<rparr> else s)"
    by (auto simp: state_set_def)
  note w = w [unfolded r(1,2)]
  show "through (old_or_new decode_state (st_path s) (files d) (on_flash (f (st_state s)))) d e"
    by (rule state_file.save_through [OF w assms(2,3)])
  show "s' = (if ok then s\<lparr>st_state := f (st_state s)\<rparr> else s)" by (rule r(3))
  show "slot_on decode_state (st_path s) (crash keep (files e)) = Some (on_flash (st_state s'))" if ok
    using state_file.save_ok(1) [OF _ assms(2)] w r(3) that by simp
qed

lemma state_set_no_faults:
  assumes "script d = []"
  shows "\<exists>e. state_set f s d = (True, s\<lparr>st_state := f (st_state s)\<rparr>, e) \<and> script e = []"
proof -
  obtain e where "write_atomic (st_path s) (encode_state (f (st_state s))) d = (True, e)" "script e = []"
    using write_atomic_no_faults [OF assms] by blast
  then show ?thesis by (simp add: state_set_def)
qed

lemma open_state_slot:
  "script d = [] \<Longrightarrow> st_state (fst (open_state_store base d)) =
     or_else (slot_on decode_state (join base k_state_file) (files d)) default_state"
  by (auto simp: open_state_store_def read_slot slot_on_def or_else_def split: option.splits)

subsection \<open>Properties\<close>

text \<open>
  Setting the cursor. At every durable state of \<^verbatim>\<open>SetCursor\<close> a reboot reads the old record or the
  old record with the new cursor, and no other field is touched; true means the reboot reads the new
  cursor, false that the memory still has the old one.
\<close>

theorem set_cursor_atomic:
  assumes "set_cursor c s d = (ok, s', e)" "state_ok (st_state s)" "st_path s = join base k_state_file"
    and "durable_file (st_path s) (files d)"
    and "st_state s = st_state (fst (open_state_store base (boot_io (files d) [])))"
  shows "through (\<lambda>fs. \<forall>keep.
      st_state (fst (open_state_store base (boot_io (crash keep fs) []))) \<in>
        {st_state s, (st_state s)\<lparr>ss_cursor := c, ss_local_id_high_water := 0\<rparr>}) d e \<and>
    (ok \<longrightarrow> st_state s' = (st_state s)\<lparr>ss_cursor := c\<rparr> \<and> (\<forall>keep.
      st_state (fst (open_state_store base (boot_io (crash keep (files e)) []))) =
        (st_state s)\<lparr>ss_cursor := c, ss_local_id_high_water := 0\<rparr>)) \<and>
    (\<not> ok \<longrightarrow> s' = s)"
proof -
  let ?f = "\<lambda>x. x\<lparr>ss_cursor := c\<rparr>"
  let ?slot = "slot_on decode_state (join base k_state_file)"
  have run: "state_set ?f s d = (ok, s', e)" using assms(1) by (simp add: setters)
  have ok: "state_ok (?f (st_state s))" using assms(2) by (simp add: state_ok_def)
  have v: "on_flash (?f (st_state s)) = (st_state s)\<lparr>ss_cursor := c, ss_local_id_high_water := 0\<rparr>"
    by (simp add: on_flash_def)
  have boot: "st_state (fst (open_state_store base (boot_io fs []))) = or_else (?slot fs) default_state" for fs
    by (simp add: open_state_slot boot_io_def)
  note S = state_set_spec [OF run ok assms(4)]
  show ?thesis
  proof (intro conjI impI)
    show "through (\<lambda>fs. \<forall>keep.
      st_state (fst (open_state_store base (boot_io (crash keep fs) []))) \<in>
        {st_state s, (st_state s)\<lparr>ss_cursor := c, ss_local_id_high_water := 0\<rparr>}) d e"
    proof (rule through_mono [OF S(1)], rule allI)
      fix fs keep
      assume "old_or_new decode_state (st_path s) (files d) (on_flash (?f (st_state s))) fs"
      then consider "?slot (crash keep fs) = ?slot (files d)"
        | "?slot (crash keep fs) = Some (on_flash (?f (st_state s)))"
        by (auto simp: old_or_new_def assms(3))
      then show "st_state (fst (open_state_store base (boot_io (crash keep fs) []))) \<in>
          {st_state s, (st_state s)\<lparr>ss_cursor := c, ss_local_id_high_water := 0\<rparr>}"
      proof cases
        case 1
        with assms(5) boot [of "files d"] boot [of "crash keep fs"] show ?thesis by simp
      next
        case 2
        then show ?thesis by (simp add: boot or_else_def v)
      qed
    qed
    show "st_state s' = (st_state s)\<lparr>ss_cursor := c\<rparr>" if ok using S(2) that by simp
    show "\<forall>keep. st_state (fst (open_state_store base (boot_io (crash keep (files e)) []))) =
        (st_state s)\<lparr>ss_cursor := c, ss_local_id_high_water := 0\<rparr>" if ok
      using S(2,3) that by (simp add: boot assms(3) or_else_def on_flash_def)
    show "s' = s" if "\<not> ok" using S(2) that by simp
  qed
qed

lemma set_cursor_atomic_witness:
  "\<exists>s' e. set_cursor ''c9'' (fst (open_state_store ''/c'' (boot_io [] []))) (boot_io [] []) = (True, s', e) \<and>
     ss_cursor (st_state (fst (open_state_store ''/c'' (boot_io (crash (\<lambda>_. 0) (files e)) [])))) = ''c9''"
proof -
  let ?s = "fst (open_state_store ''/c'' (boot_io [] []))"
  have st: "st_state ?s = default_state"
    by (simp add: open_state_slot boot_io_def slot_on_def lookup_def or_else_def)
  have p: "st_path ?s = join ''/c'' k_state_file" by (simp add: open_state_store_def split_beta Let_def)
  obtain s' e where r: "set_cursor ''c9'' ?s (boot_io [] []) = (True, s', e)"
    using state_set_no_faults [of "boot_io [] []" "\<lambda>x. x\<lparr>ss_cursor := ''c9''\<rparr>" ?s]
    unfolding setters by (auto simp: boot_io_def)
  have "state_ok (st_state ?s)" "durable_file (st_path ?s) (files (boot_io [] []))"
    unfolding st by (simp_all add: state_ok_def default_state_def is_i32_def is_i64_def durable_file_def boot_io_def lookup_def)
  from set_cursor_atomic [OF r this(1) p this(2)] r show ?thesis by (simp add: boot_io_def)
qed

end
