(* ===== verification/Draft.thy ===== *)
theory Draft
  imports Record_File Outbox
begin

text \<open>
  The one letter being written, \<^verbatim>\<open>components/store/draft.cpp\<close>: a slot replaced atomically by every
  autosave, which \<^verbatim>\<open>Start\<close> never overwrites while it holds something the child wrote.
\<close>

record draft =
  dr_contact_id :: string
  dr_subject :: string
  dr_body :: string
  dr_updated_at :: int

datatype start_outcome = kStarted | kDraftPending | kWriteFailed

record draft_store =
  ds_path :: string
  ds_pending :: bool

definition k_draft_file :: string where "k_draft_file = ''draft''"

definition k_draft_autosave_interval_ms :: int where "k_draft_autosave_interval_ms = 30000"

definition draft_record :: "draft \<Rightarrow> kv_record" where
  "draft_record x =
     [(''contact_id'', dr_contact_id x),
      (''subject'', dr_subject x),
      (''updated_at'', dec_int (dr_updated_at x)),
      (''body'', dr_body x)]"

definition encode_draft :: "draft \<Rightarrow> string" where
  "encode_draft x = encode_record (draft_record x)"

definition decode_draft :: "string \<Rightarrow> draft option" where
  "decode_draft text =
     (let r = decode_record text;
          x = \<lparr>dr_contact_id = or_else (find_key r ''contact_id'') [],
               dr_subject = or_else (find_key r ''subject'') [],
               dr_body = or_else (find_key r ''body'') [],
               dr_updated_at = or_else (read_i64 r ''updated_at'') 0\<rparr>
      in if dr_body x = [] \<and> dr_subject x = [] then None else Some x)"

definition draft_load :: "draft_store \<Rightarrow> io \<Rightarrow> draft option \<times> io" where
  "draft_load s d = (case read_all (ds_path s) d of
      (None, d) \<Rightarrow> (None, d)
    | (Some text, d) \<Rightarrow> (decode_draft text, d))"

definition draft_save :: "draft \<Rightarrow> draft_store \<Rightarrow> io \<Rightarrow> bool \<times> draft_store \<times> io" where
  "draft_save x s d =
     (let (ok, d) = write_atomic (ds_path s) (encode_draft x) d
      in if \<not> ok then (False, s, d)
         else (True, s\<lparr>ds_pending := dr_body x \<noteq> [] \<or> dr_subject x \<noteq> []\<rparr>, d))"

definition draft_start :: "draft \<Rightarrow> draft_store \<Rightarrow> io \<Rightarrow> start_outcome \<times> draft_store \<times> io" where
  "draft_start x s d =
     (if ds_pending s then (kDraftPending, s, d)
      else let (ok, s, d) = draft_save x s d
           in (if ok then kStarted else kWriteFailed, s, d))"

definition draft_discard :: "draft_store \<Rightarrow> io \<Rightarrow> bool \<times> draft_store \<times> io" where
  "draft_discard s d =
     (let (there, d) = exists_file (ds_path s) d;
          (ok, d) = (if there then remove_file (ds_path s) d else (True, d))
      in if \<not> ok then (False, s, d) else (True, s\<lparr>ds_pending := False\<rparr>, d))"

definition open_draft_store :: "string \<Rightarrow> io \<Rightarrow> draft_store \<times> io" where
  "open_draft_store base d =
     (let s = \<lparr>ds_path = join base k_draft_file, ds_pending = False\<rparr>;
          (x, d) = draft_load s d
      in (s\<lparr>ds_pending := x \<noteq> None\<rparr>, d))"

subsection \<open>Round trip\<close>

definition draft_ok :: "draft \<Rightarrow> bool" where
  "draft_ok x \<longleftrightarrow> is_i64 (dr_updated_at x)"

text \<open>A slot with neither a body nor a subject is nothing to offer.\<close>

definition usable :: "draft \<Rightarrow> draft option" where
  "usable x = (if dr_body x = [] \<and> dr_subject x = [] then None else Some x)"

lemma decode_encode_draft: "draft_ok x \<Longrightarrow> decode_draft (encode_draft x) = usable x"
proof -
  assume ok: "draft_ok x"
  have "decode_record (encode_draft x) = draft_record x"
    unfolding encode_draft_def
    by (rule decode_encode_record) (auto simp: draft_record_def key_ok_def newline_def)
  with ok show ?thesis
    by (simp add: decode_draft_def draft_record_def find_key_def read_i64_def or_else_def
        parse_i64_dec_int draft_ok_def usable_def Let_def)
qed

interpretation draft_file: record_file encode_draft decode_draft usable draft_ok
  by unfold_locales (rule decode_encode_draft)

definition draft_on :: "string \<Rightarrow> fs \<Rightarrow> draft option" where
  "draft_on path fs = or_else (slot_on decode_draft path fs) None"

lemma draft_load_no_faults: "script d = [] \<Longrightarrow> draft_load s d = (draft_on (ds_path s) (files d), d)"
  by (auto simp: draft_load_def read_slot draft_on_def slot_on_def or_else_def split: option.splits)

subsection \<open>Properties\<close>

text \<open>
  The child's words survive. \<^verbatim>\<open>Start\<close> refuses to touch the slot while a draft is pending. Starting or
  saving is atomic: at every durable state a reboot loads the previous draft or the new one, and once
  it has returned success the reboot loads the new one, with \<^verbatim>\<open>Pending\<close> telling whether it holds text.
\<close>

theorem draft_start_save_safe:
  assumes "draft_ok x" "durable_file (ds_path s) (files d)"
  shows "(ds_pending s \<longrightarrow> draft_start x s d = (kDraftPending, s, d)) \<and>
    (\<forall>ok s' e. draft_save x s d = (ok, s', e) \<longrightarrow>
      through (\<lambda>fs. \<forall>keep. draft_on (ds_path s) (crash keep fs) \<in> {draft_on (ds_path s) (files d), usable x}) d e \<and>
      (if ok then (\<forall>keep. draft_load s' (boot_io (crash keep (files e)) []) =
            (usable x, boot_io (crash keep (files e)) [])) \<and> (ds_pending s' \<longleftrightarrow> usable x \<noteq> None)
       else s' = s))"
proof (intro conjI impI allI)
  show "draft_start x s d = (kDraftPending, s, d)" if "ds_pending s"
    using that by (simp add: draft_start_def)
next
  fix ok s' e
  assume sv: "draft_save x s d = (ok, s', e)"
  obtain o1 e1 where w: "write_atomic (ds_path s) (encode_draft x) d = (o1, e1)" by fastforce
  have r: "o1 = ok" "e1 = e"
    "s' = (if ok then s\<lparr>ds_pending := dr_body x \<noteq> [] \<or> dr_subject x \<noteq> []\<rparr> else s)"
    using sv w by (cases o1; auto simp: draft_save_def)+
  note w = w [unfolded r(1,2)]
  show "through (\<lambda>fs. \<forall>keep. draft_on (ds_path s) (crash keep fs) \<in> {draft_on (ds_path s) (files d), usable x}) d e"
  proof (rule through_mono [OF draft_file.save_through [OF w assms]], rule allI)
    fix fs keep
    assume "old_or_new decode_draft (ds_path s) (files d) (usable x) fs"
    from old_or_newD [OF this, of keep]
    show "draft_on (ds_path s) (crash keep fs) \<in> {draft_on (ds_path s) (files d), usable x}"
      by (auto simp: draft_on_def or_else_def)
  qed
  show "if ok then (\<forall>keep. draft_load s' (boot_io (crash keep (files e)) []) =
            (usable x, boot_io (crash keep (files e)) [])) \<and> (ds_pending s' \<longleftrightarrow> usable x \<noteq> None)
       else s' = s"
    using draft_file.save_ok(1) [OF _ assms(1)] w r(3)
    by (auto simp: draft_load_no_faults boot_io_def draft_on_def or_else_def usable_def)
qed

lemma draft_start_save_safe_witness:
  "draft_start \<lparr>dr_contact_id = [], dr_subject = [], dr_body = ''x'', dr_updated_at = 7\<rparr>
     \<lparr>ds_path = ''/c/draft'', ds_pending = True\<rparr> (boot_io [] []) =
   (kDraftPending, \<lparr>ds_path = ''/c/draft'', ds_pending = True\<rparr>, boot_io [] [])"
  using draft_start_save_safe [of "\<lparr>dr_contact_id = [], dr_subject = [], dr_body = ''x'', dr_updated_at = 7\<rparr>"
      "\<lparr>ds_path = ''/c/draft'', ds_pending = True\<rparr>" "boot_io [] []"]
  by (simp add: draft_ok_def is_i64_def durable_file_def boot_io_def lookup_def)

end
