(* ===== verification/Settings.thy ===== *)
theory Settings
  imports Record_File Outbox
begin

text \<open>
  Device settings, \<^verbatim>\<open>components/store/settings.cpp\<close>: a record read field by field with defaults, bounded
  by \<^verbatim>\<open>Sanitise\<close> on the way in and before every write, and the pushed configuration applied field by
  field.
\<close>

record settings =
  se_font_step :: int
  se_frontlight_step :: int
  se_max_letter_chars :: int
  se_sync_interval_s :: int
  se_rat :: string
  se_cover :: string
  se_pin_enabled :: bool

definition default_settings :: settings where
  "default_settings = \<lparr>se_font_step = 0, se_frontlight_step = 0,
     se_max_letter_chars = k_default_max_letter_chars, se_sync_interval_s = k_default_sync_interval_s,
     se_rat = [], se_cover = [], se_pin_enabled = False\<rparr>"

definition k_min_sync_interval_s :: int where "k_min_sync_interval_s = 60"
definition k_font_step_count :: int where "k_font_step_count = 2"
definition k_settings_file :: string where "k_settings_file = ''settings''"

record settings_store =
  sg_path :: string
  sg_settings :: settings

definition settings_record :: "settings \<Rightarrow> kv_record" where
  "settings_record x =
     [(''font_step'', dec_int (se_font_step x)),
      (''frontlight_step'', dec_int (se_frontlight_step x)),
      (''max_letter_chars'', dec_int (se_max_letter_chars x)),
      (''sync_interval_s'', dec_int (se_sync_interval_s x)),
      (''rat'', se_rat x),
      (''cover'', se_cover x),
      (''pin_enabled'', if se_pin_enabled x then ''1'' else ''0'')]"

definition encode_settings :: "settings \<Rightarrow> string" where
  "encode_settings x = encode_record (settings_record x)"

definition decode_settings :: "string \<Rightarrow> settings \<Rightarrow> settings" where
  "decode_settings text x =
     (let r = decode_record text
      in \<lparr>se_font_step = or_else (read_int r ''font_step'') (se_font_step x),
          se_frontlight_step = or_else (read_int r ''frontlight_step'') (se_frontlight_step x),
          se_max_letter_chars = or_else (read_int r ''max_letter_chars'') (se_max_letter_chars x),
          se_sync_interval_s = or_else (read_int r ''sync_interval_s'') (se_sync_interval_s x),
          se_rat = or_else (find_key r ''rat'') (se_rat x),
          se_cover = or_else (find_key r ''cover'') (se_cover x),
          se_pin_enabled = or_else (read_bool r ''pin_enabled'') (se_pin_enabled x)\<rparr>)"

definition sanitise :: "settings \<Rightarrow> settings" where
  "sanitise x =
     (let x = (if se_max_letter_chars x \<le> 0 then x\<lparr>se_max_letter_chars := k_default_max_letter_chars\<rparr> else x);
          x = (if se_sync_interval_s x < k_min_sync_interval_s then x\<lparr>se_sync_interval_s := k_min_sync_interval_s\<rparr> else x);
          x = x\<lparr>se_font_step := min (max (se_font_step x) 0) (k_font_step_count - 1)\<rparr>
      in if se_frontlight_step x < 0 then x\<lparr>se_frontlight_step := 0\<rparr> else x)"

definition settings_commit :: "settings \<Rightarrow> settings_store \<Rightarrow> io \<Rightarrow> bool \<times> settings_store \<times> io" where
  "settings_commit x s d =
     (let x = sanitise x;
          (ok, d) = write_atomic (sg_path s) (encode_settings x) d
      in if \<not> ok then (False, s, d) else (True, s\<lparr>sg_settings := x\<rparr>, d))"

definition set_font_step :: "int \<Rightarrow> settings_store \<Rightarrow> io \<Rightarrow> bool \<times> settings_store \<times> io" where
  "set_font_step v s = settings_commit ((sg_settings s)\<lparr>se_font_step := v\<rparr>) s"

definition set_frontlight_step :: "int \<Rightarrow> settings_store \<Rightarrow> io \<Rightarrow> bool \<times> settings_store \<times> io" where
  "set_frontlight_step v s = settings_commit ((sg_settings s)\<lparr>se_frontlight_step := v\<rparr>) s"

definition set_pin_enabled :: "bool \<Rightarrow> settings_store \<Rightarrow> io \<Rightarrow> bool \<times> settings_store \<times> io" where
  "set_pin_enabled v s = settings_commit ((sg_settings s)\<lparr>se_pin_enabled := v\<rparr>) s"

definition pushed :: "device_config \<Rightarrow> settings \<Rightarrow> settings" where
  "pushed c x = x\<lparr>se_max_letter_chars := or_else (dc_max_letter_chars c) (se_max_letter_chars x),
     se_sync_interval_s := or_else (dc_sync_interval_s c) (se_sync_interval_s x),
     se_rat := or_else (dc_rat c) (se_rat x),
     se_cover := or_else (dc_cover c) (se_cover x)\<rparr>"

definition apply_config :: "device_config \<Rightarrow> settings_store \<Rightarrow> io \<Rightarrow> bool \<times> settings_store \<times> io" where
  "apply_config c s = settings_commit (pushed c (sg_settings s)) s"

definition open_settings_store :: "string \<Rightarrow> io \<Rightarrow> settings_store \<times> io" where
  "open_settings_store base d =
     (let (text, d) = read_all (join base k_settings_file) d;
          x = (case text of None \<Rightarrow> default_settings | Some t \<Rightarrow> decode_settings t default_settings)
      in (\<lparr>sg_path = join base k_settings_file, sg_settings = sanitise x\<rparr>, d))"

subsection \<open>Bounds\<close>

definition settings_bounded :: "settings \<Rightarrow> bool" where
  "settings_bounded x \<longleftrightarrow> 0 < se_max_letter_chars x \<and> k_min_sync_interval_s \<le> se_sync_interval_s x \<and>
     0 \<le> se_font_step x \<and> se_font_step x < k_font_step_count \<and> 0 \<le> se_frontlight_step x"

definition settings_ints :: "settings \<Rightarrow> bool" where
  "settings_ints x \<longleftrightarrow> is_i32 (se_font_step x) \<and> is_i32 (se_frontlight_step x) \<and>
     is_i32 (se_max_letter_chars x) \<and> is_i32 (se_sync_interval_s x)"

lemma sanitise_bounded: "settings_bounded (sanitise x)"
  by (auto simp: sanitise_def Let_def settings_bounded_def k_default_max_letter_chars_def
      k_min_sync_interval_s_def k_font_step_count_def)

lemma sanitise_id: "settings_bounded x \<Longrightarrow> sanitise x = x"
  by (auto simp: sanitise_def Let_def settings_bounded_def k_min_sync_interval_s_def k_font_step_count_def)

lemma sanitise_ints: "settings_ints x \<Longrightarrow> settings_ints (sanitise x)"
  by (auto simp: sanitise_def Let_def settings_ints_def k_default_max_letter_chars_def
      k_min_sync_interval_s_def k_font_step_count_def is_i32_def)

lemma decode_encode_settings:
  assumes "settings_ints x"
  shows "decode_settings (encode_settings x) y = x"
proof -
  have "decode_record (encode_settings x) = settings_record x"
    unfolding encode_settings_def
    by (rule decode_encode_record) (auto simp: settings_record_def key_ok_def newline_def)
  with assms show ?thesis
    by (simp add: decode_settings_def settings_record_def find_key_def read_int_def read_i64_def
        read_bool_def or_else_def parse_i64_dec_int settings_ints_def is_i64_of_i32)
qed

definition read_settings :: "string \<Rightarrow> settings" where
  "read_settings text = sanitise (decode_settings text default_settings)"

interpretation settings_file: record_file encode_settings read_settings sanitise settings_ints
  by unfold_locales (simp add: read_settings_def decode_encode_settings)

lemma commit_spec:
  assumes "settings_commit x s d = (ok, s', e)" "settings_ints x" "durable_file (sg_path s) (files d)"
  shows "through (old_or_new read_settings (sg_path s) (files d) (sanitise x)) d e"
    and "s' = (if ok then s\<lparr>sg_settings := sanitise x\<rparr> else s)"
    and "ok \<Longrightarrow> slot_on read_settings (sg_path s) (crash keep (files e)) = Some (sanitise x)"
proof -
  obtain o1 e1 where w: "write_atomic (sg_path s) (encode_settings (sanitise x)) d = (o1, e1)" by fastforce
  have r: "o1 = ok" "e1 = e" "s' = (if ok then s\<lparr>sg_settings := sanitise x\<rparr> else s)"
    using assms(1) w by (cases o1; auto simp: settings_commit_def Let_def)+
  note w = w [unfolded r(1,2)]
  have ss: "sanitise (sanitise x) = sanitise x" by (rule sanitise_id [OF sanitise_bounded])
  show "through (old_or_new read_settings (sg_path s) (files d) (sanitise x)) d e"
    using settings_file.save_through [OF w sanitise_ints [OF assms(2)] assms(3)] by (simp add: ss)
  show "s' = (if ok then s\<lparr>sg_settings := sanitise x\<rparr> else s)" by (rule r(3))
  show "slot_on read_settings (sg_path s) (crash keep (files e)) = Some (sanitise x)" if ok
    using settings_file.save_ok(1) [OF _ sanitise_ints [OF assms(2)]] w that by (simp add: ss)
qed

lemma open_settings_slot:
  "script d = [] \<Longrightarrow> sg_settings (fst (open_settings_store base d)) =
     or_else (slot_on read_settings (join base k_settings_file) (files d)) (sanitise default_settings)"
  by (auto simp: open_settings_store_def read_slot slot_on_def or_else_def read_settings_def split: option.splits)

subsection \<open>Properties\<close>

text \<open>
  C25: No pushed or stored value can make the device unusable. Whatever the settings file holds, the
  settings the device opens with are within their bounds, and so are they after every setter and
  every pushed configuration; a configuration leaves the fields it does not carry, the font, the
  light and the PIN alone, and a reboot reads either all of it or none.
\<close>

theorem apply_config_bounded:
  assumes "apply_config c s d = (ok, s', e)" "settings_bounded (sg_settings s)"
    and "settings_ints (pushed c (sg_settings s))" "sg_path s = join base k_settings_file"
    and "durable_file (sg_path s) (files d)"
  shows "settings_bounded (sg_settings s') \<and>
    (ok \<longrightarrow> sg_settings s' = sanitise (pushed c (sg_settings s)) \<and>
      se_font_step (sg_settings s') = se_font_step (sg_settings s) \<and>
      se_frontlight_step (sg_settings s') = se_frontlight_step (sg_settings s) \<and>
      se_pin_enabled (sg_settings s') = se_pin_enabled (sg_settings s) \<and>
      (dc_max_letter_chars c = None \<longrightarrow> se_max_letter_chars (sg_settings s') = se_max_letter_chars (sg_settings s)) \<and>
      (dc_sync_interval_s c = None \<longrightarrow> se_sync_interval_s (sg_settings s') = se_sync_interval_s (sg_settings s)) \<and>
      (\<forall>keep. sg_settings (fst (open_settings_store base (boot_io (crash keep (files e)) []))) = sg_settings s')) \<and>
    (\<not> ok \<longrightarrow> s' = s) \<and>
    through (\<lambda>fs. \<forall>keep. sg_settings (fst (open_settings_store base (boot_io (crash keep fs) []))) \<in>
      {sg_settings (fst (open_settings_store base (boot_io (files d) []))), sanitise (pushed c (sg_settings s))}) d e"
proof -
  let ?x = "pushed c (sg_settings s)"
  have run: "settings_commit ?x s d = (ok, s', e)" using assms(1) by (simp add: apply_config_def)
  note S = commit_spec [OF run assms(3,5)]
  have boot: "sg_settings (fst (open_settings_store base (boot_io fs []))) =
      or_else (slot_on read_settings (sg_path s) fs) (sanitise default_settings)" for fs
    by (simp add: open_settings_slot boot_io_def assms(4))
  have kept: "se_font_step (sanitise ?x) = se_font_step (sg_settings s) \<and>
      se_frontlight_step (sanitise ?x) = se_frontlight_step (sg_settings s) \<and>
      se_pin_enabled (sanitise ?x) = se_pin_enabled (sg_settings s) \<and>
      (dc_max_letter_chars c = None \<longrightarrow> se_max_letter_chars (sanitise ?x) = se_max_letter_chars (sg_settings s)) \<and>
      (dc_sync_interval_s c = None \<longrightarrow> se_sync_interval_s (sanitise ?x) = se_sync_interval_s (sg_settings s))"
    using assms(2) by (auto simp: settings_bounded_def sanitise_def Let_def pushed_def or_else_def
        k_min_sync_interval_s_def k_font_step_count_def)
  have "through (\<lambda>fs. \<forall>keep. sg_settings (fst (open_settings_store base (boot_io (crash keep fs) []))) \<in>
      {sg_settings (fst (open_settings_store base (boot_io (files d) []))), sanitise ?x}) d e"
  proof (rule through_mono [OF S(1)], rule allI)
    fix fs keep
    assume "old_or_new read_settings (sg_path s) (files d) (sanitise ?x) fs"
    from old_or_newD [OF this, of keep]
    show "sg_settings (fst (open_settings_store base (boot_io (crash keep fs) []))) \<in>
        {sg_settings (fst (open_settings_store base (boot_io (files d) []))), sanitise ?x}"
      by (auto simp: boot or_else_def)
  qed
  moreover have "sg_settings (fst (open_settings_store base (boot_io (crash keep (files e)) []))) = sg_settings s'"
    if ok for keep using S(2,3) that by (simp add: boot or_else_def)
  moreover have "settings_bounded (sg_settings s')" using S(2) assms(2) sanitise_bounded by simp
  ultimately show ?thesis using S(2) kept by simp
qed

lemma apply_config_bounded_witness:
  "\<exists>ok s' e. apply_config \<lparr>dc_max_letter_chars = Some (-5), dc_sync_interval_s = None, dc_rat = None, dc_cover = None\<rparr>
      \<lparr>sg_path = join ''/c'' k_settings_file, sg_settings = default_settings\<rparr> (boot_io [] []) = (ok, s', e) \<and>
    settings_bounded (sg_settings s')"
proof -
  obtain ok s' e where r: "apply_config \<lparr>dc_max_letter_chars = Some (-5), dc_sync_interval_s = None, dc_rat = None, dc_cover = None\<rparr>
      \<lparr>sg_path = join ''/c'' k_settings_file, sg_settings = default_settings\<rparr> (boot_io [] []) = (ok, s', e)"
    using prod_cases3 by blast
  have "settings_bounded (sg_settings s')"
    using apply_config_bounded [OF r, of "''/c''"]
    by (simp add: default_settings_def settings_bounded_def settings_ints_def pushed_def or_else_def is_i32_def
        k_default_max_letter_chars_def k_default_sync_interval_s_def k_min_sync_interval_s_def
        k_font_step_count_def durable_file_def boot_io_def lookup_def)
  with r show ?thesis by blast
qed

end
