(* ===== verification/Ayllu.thy ===== *)
theory Ayllu
  imports Record_File Outbox "HOL-Library.Product_Lexorder"
begin

text \<open>
  The contact list, \<^verbatim>\<open>components/ayllu/ayllu.cpp\<close>: the server's snapshot and the child's decoration in
  two files that no operation mixes, merged only when read.
\<close>

record overlay =
  ov_nickname :: "string option"
  ov_pinned :: "bool option"
  ov_order :: "int option"
  ov_portrait :: "string option"

record contact =
  ct_id :: string
  ct_name :: string
  ct_server_name :: string
  ct_active :: bool
  ct_pinned :: bool
  ct_order :: int
  ct_portrait :: string

type_synonym overlay_row = "string \<times> overlay"

record ayllu_store =
  ay_snapshot_path :: string
  ay_overlay_path :: string
  ay_snapshot :: wire_ayllu
  ay_overlays :: "overlay_row list"

definition k_snapshot_file :: string where "k_snapshot_file = ''ayllu''"
definition k_overlay_file :: string where "k_overlay_file = ''ayllu_overlay''"

definition ay_bit :: "bool \<Rightarrow> string" where
  "ay_bit b = (if b then ''1'' else ''0'')"

definition parse_bit :: "string \<Rightarrow> bool option" where
  "parse_bit s = (if s \<noteq> ''0'' \<and> s \<noteq> ''1'' then None else Some (s = ''1''))"

definition ay_parse_int :: "string \<Rightarrow> int option" where
  "ay_parse_int s = read_int [(''n'', s)] ''n''"

subsection \<open>The snapshot file\<close>

definition contact_pairs :: "wire_contact \<Rightarrow> kv_record" where
  "contact_pairs c =
     [(''contact.id'', wc_id c),
      (''contact.name'', wc_name c),
      (''contact.active'', ay_bit (wc_active c)),
      (''contact.pinned'', ay_bit (wc_pinned c)),
      (''contact.order'', dec_int (wc_order c)),
      (''contact.portrait'', wc_portrait c)]"

definition encode_snapshot :: "wire_ayllu \<Rightarrow> string" where
  "encode_snapshot a =
     encode_record ((''version'', dec_int (wa_version a)) # concat (map contact_pairs (wa_contacts a)))"

definition change_last :: "('a \<Rightarrow> 'a) \<Rightarrow> 'a list \<Rightarrow> 'a list" where
  "change_last f xs = (if xs = [] then [] else butlast xs @ [f (last xs)])"

definition snapshot_pair :: "wire_contact list \<Rightarrow> string \<times> string \<Rightarrow> wire_contact list" where
  "snapshot_pair cs kv =
     (let (key, v) = kv in
      if key = ''contact.id'' then cs @ [\<lparr>wc_id = v, wc_name = [], wc_active = False, wc_pinned = False,
          wc_order = 0, wc_portrait = []\<rparr>]
      else if cs = [] then cs
      else if key = ''contact.name'' then change_last (\<lambda>c. c\<lparr>wc_name := v\<rparr>) cs
      else if key = ''contact.active'' then change_last (\<lambda>c. c\<lparr>wc_active := or_else (parse_bit v) (wc_active c)\<rparr>) cs
      else if key = ''contact.pinned'' then change_last (\<lambda>c. c\<lparr>wc_pinned := or_else (parse_bit v) (wc_pinned c)\<rparr>) cs
      else if key = ''contact.order'' then change_last (\<lambda>c. c\<lparr>wc_order := or_else (ay_parse_int v) (wc_order c)\<rparr>) cs
      else if key = ''contact.portrait'' then change_last (\<lambda>c. c\<lparr>wc_portrait := v\<rparr>) cs
      else cs)"

definition decode_snapshot :: "string \<Rightarrow> wire_ayllu" where
  "decode_snapshot text =
     (let r = decode_record text
      in \<lparr>wa_version = or_else (read_int r ''version'') 0, wa_contacts = foldl snapshot_pair [] r\<rparr>)"

subsection \<open>The overlay file\<close>

definition opt_pair :: "string \<Rightarrow> ('a \<Rightarrow> string) \<Rightarrow> 'a option \<Rightarrow> kv_record" where
  "opt_pair k f x = (case x of None \<Rightarrow> [] | Some v \<Rightarrow> [(k, f v)])"

definition overlay_pairs :: "overlay_row \<Rightarrow> kv_record" where
  "overlay_pairs row =
     (let (i, ov) = row in
      (''overlay.id'', i) # opt_pair ''overlay.nickname'' (\<lambda>s. s) (ov_nickname ov)
        @ opt_pair ''overlay.pinned'' ay_bit (ov_pinned ov)
        @ opt_pair ''overlay.order'' dec_int (ov_order ov)
        @ opt_pair ''overlay.portrait'' (\<lambda>s. s) (ov_portrait ov))"

definition encode_overlays :: "overlay_row list \<Rightarrow> string" where
  "encode_overlays rows = encode_record (concat (map overlay_pairs rows))"

definition empty_overlay :: overlay where
  "empty_overlay = \<lparr>ov_nickname = None, ov_pinned = None, ov_order = None, ov_portrait = None\<rparr>"

definition overlay_pair :: "overlay_row list \<Rightarrow> string \<times> string \<Rightarrow> overlay_row list" where
  "overlay_pair rows kv =
     (let (key, v) = kv;
          set_last = (\<lambda>f. change_last (\<lambda>(i, ov). (i, f ov)) rows) in
      if key = ''overlay.id'' then rows @ [(v, empty_overlay)]
      else if rows = [] then rows
      else if key = ''overlay.nickname'' then set_last (\<lambda>ov. ov\<lparr>ov_nickname := Some v\<rparr>)
      else if key = ''overlay.pinned'' then
        (case parse_bit v of None \<Rightarrow> rows | Some b \<Rightarrow> set_last (\<lambda>ov. ov\<lparr>ov_pinned := Some b\<rparr>))
      else if key = ''overlay.order'' then
        (case ay_parse_int v of None \<Rightarrow> rows | Some n \<Rightarrow> set_last (\<lambda>ov. ov\<lparr>ov_order := Some n\<rparr>))
      else if key = ''overlay.portrait'' then set_last (\<lambda>ov. ov\<lparr>ov_portrait := Some v\<rparr>)
      else rows)"

definition decode_overlays :: "string \<Rightarrow> overlay_row list" where
  "decode_overlays text = foldl overlay_pair [] (decode_record text)"

subsection \<open>The store\<close>

definition empty_ayllu :: wire_ayllu where
  "empty_ayllu = \<lparr>wa_version = 0, wa_contacts = []\<rparr>"

definition open_ayllu :: "string \<Rightarrow> io \<Rightarrow> ayllu_store \<times> io" where
  "open_ayllu base d =
     (let (snap, d) = read_all (join base k_snapshot_file) d;
          (over, d) = read_all (join base k_overlay_file) d
      in (\<lparr>ay_snapshot_path = join base k_snapshot_file, ay_overlay_path = join base k_overlay_file,
           ay_snapshot = (case snap of None \<Rightarrow> empty_ayllu | Some t \<Rightarrow> decode_snapshot t),
           ay_overlays = (case over of None \<Rightarrow> [] | Some t \<Rightarrow> decode_overlays t)\<rparr>, d))"

definition apply_snapshot :: "wire_ayllu \<Rightarrow> ayllu_store \<Rightarrow> io \<Rightarrow> bool \<times> ayllu_store \<times> io" where
  "apply_snapshot a s d =
     (let (ok, d) = write_atomic (ay_snapshot_path s) (encode_snapshot a) d
      in if \<not> ok then (False, s, d) else (True, s\<lparr>ay_snapshot := a\<rparr>, d))"

definition ay_version :: "ayllu_store \<Rightarrow> int" where
  "ay_version s = wa_version (ay_snapshot s)"

definition overlay_for :: "ayllu_store \<Rightarrow> string \<Rightarrow> overlay option" where
  "overlay_for s i = map_of (ay_overlays s) i"

definition merge_contact :: "ayllu_store \<Rightarrow> wire_contact \<Rightarrow> contact" where
  "merge_contact s c =
     (let m = \<lparr>ct_id = wc_id c, ct_name = wc_name c, ct_server_name = wc_name c, ct_active = wc_active c,
               ct_pinned = wc_pinned c, ct_order = wc_order c, ct_portrait = wc_portrait c\<rparr>
      in case overlay_for s (wc_id c) of
           None \<Rightarrow> m
         | Some ov \<Rightarrow> m\<lparr>ct_name := (case ov_nickname ov of None \<Rightarrow> ct_name m | Some n \<Rightarrow> if n = [] then ct_name m else n),
               ct_pinned := or_else (ov_pinned ov) (ct_pinned m),
               ct_order := or_else (ov_order ov) (ct_order m),
               ct_portrait := or_else (ov_portrait ov) (ct_portrait m)\<rparr>)"

text \<open>\<^verbatim>\<open>ChildOrder\<close> as a key: pinned first, then the order, the name, the id.\<close>

definition child_order :: "contact \<Rightarrow> bool \<times> int \<times> string \<times> string" where
  "child_order c = (\<not> ct_pinned c, ct_order c, ct_name c, ct_id c)"

definition merged :: "ayllu_store \<Rightarrow> contact list" where
  "merged s = sort_key child_order (map (merge_contact s) (wa_contacts (ay_snapshot s)))"

definition composable :: "ayllu_store \<Rightarrow> contact list" where
  "composable s = sort_key child_order (map (merge_contact s)
     (filter (\<lambda>c. \<not> (\<not> wc_active c \<or> wc_id c = k_sys_contact_id)) (wa_contacts (ay_snapshot s))))"

definition ay_lookup :: "ayllu_store \<Rightarrow> string \<Rightarrow> bool \<times> contact" where
  "ay_lookup s i = (case List.find (\<lambda>c. wc_id c = i) (wa_contacts (ay_snapshot s)) of
      Some c \<Rightarrow> (True, merge_contact s c)
    | None \<Rightarrow> (False, \<lparr>ct_id = i, ct_name = [], ct_server_name = [], ct_active = False, ct_pinned = False,
                     ct_order = 0, ct_portrait = []\<rparr>))"

definition ay_persist :: "ayllu_store \<Rightarrow> io \<Rightarrow> bool \<times> io" where
  "ay_persist s d = write_atomic (ay_overlay_path s) (encode_overlays (ay_overlays s)) d"

fun put_row :: "string \<Rightarrow> overlay \<Rightarrow> overlay_row list \<Rightarrow> overlay_row list" where
  "put_row i ov [] = [(i, ov)]"
| "put_row i ov (r # rs) = (if fst r = i then (i, ov) # rs else r # put_row i ov rs)"

definition set_overlay :: "string \<Rightarrow> overlay \<Rightarrow> ayllu_store \<Rightarrow> io \<Rightarrow> bool \<times> ayllu_store \<times> io" where
  "set_overlay i ov s d =
     (if i = [] then (False, s, d)
      else let s' = s\<lparr>ay_overlays := put_row i ov (ay_overlays s)\<rparr>;
               (ok, d) = ay_persist s' d
           in if ok then (True, s', d) else (False, s, d))"

fun drop_row :: "string \<Rightarrow> overlay_row list \<Rightarrow> overlay_row list" where
  "drop_row i [] = []"
| "drop_row i (r # rs) = (if fst r = i then rs else r # drop_row i rs)"

definition clear_overlay :: "string \<Rightarrow> ayllu_store \<Rightarrow> io \<Rightarrow> bool \<times> ayllu_store \<times> io" where
  "clear_overlay i s d = (case overlay_for s i of
      None \<Rightarrow> (True, s, d)
    | Some removed \<Rightarrow>
        let s' = s\<lparr>ay_overlays := drop_row i (ay_overlays s)\<rparr>;
            (ok, d) = ay_persist s' d
        in if ok then (True, s', d)
           else (False, s'\<lparr>ay_overlays := ay_overlays s' @ [(i, removed)]\<rparr>, d))"

definition fallback_label_key :: string where
  "fallback_label_key = ''STR_CONTACT_UNKNOWN''"

subsection \<open>Round trips of the two files\<close>

definition snapshot_ok :: "wire_ayllu \<Rightarrow> bool" where
  "snapshot_ok a \<longleftrightarrow> is_i32 (wa_version a) \<and> (\<forall>c \<in> set (wa_contacts a). is_i32 (wc_order c))"

definition overlays_ok :: "overlay_row list \<Rightarrow> bool" where
  "overlays_ok rows \<longleftrightarrow> (\<forall>(i, ov) \<in> set rows. \<forall>n. ov_order ov = Some n \<longrightarrow> is_i32 n)"

lemma change_last_snoc [simp]: "change_last f (xs @ [x]) = xs @ [f x]"
  by (simp add: change_last_def)

lemma parse_bit_bit [simp]: "parse_bit (ay_bit b) = Some b"
  by (simp add: parse_bit_def ay_bit_def)

lemma parse_int_dec [simp]: "is_i32 n \<Longrightarrow> ay_parse_int (dec_int n) = Some n"
  by (simp add: ay_parse_int_def read_int_def read_i64_def find_key_def parse_i64_dec_int is_i64_of_i32)

lemma or_else_Some [simp]: "or_else (Some v) d = v"
  by (simp add: or_else_def)

lemma fold_contact: "is_i32 (wc_order c) \<Longrightarrow> foldl snapshot_pair cs (contact_pairs c) = cs @ [c]"
  by (simp add: contact_pairs_def snapshot_pair_def)

lemma fold_contacts:
  "(\<forall>c \<in> set xs. is_i32 (wc_order c)) \<Longrightarrow> foldl snapshot_pair cs (concat (map contact_pairs xs)) = cs @ xs"
  by (induction xs arbitrary: cs) (simp_all add: fold_contact)

lemma pairs_keys:
  "(k, v) \<in> set (contact_pairs c) \<Longrightarrow> key_ok k" "(k, v) \<in> set (overlay_pairs row) \<Longrightarrow> key_ok k"
  by (auto simp: contact_pairs_def overlay_pairs_def opt_pair_def key_ok_def newline_def
      split: option.splits prod.splits)

lemma decode_encode_snapshot:
  assumes "snapshot_ok a"
  shows "decode_snapshot (encode_snapshot a) = a"
proof -
  let ?r = "(''version'', dec_int (wa_version a)) # concat (map contact_pairs (wa_contacts a))"
  have r: "decode_record (encode_snapshot a) = ?r"
    unfolding encode_snapshot_def
    by (rule decode_encode_record) (auto simp: key_ok_def newline_def dest: pairs_keys(1) [unfolded key_ok_def newline_def])
  have "foldl snapshot_pair [] ?r = wa_contacts a"
    using assms fold_contacts [of "wa_contacts a" "[]"] by (simp add: snapshot_ok_def snapshot_pair_def)
  moreover have "read_int ?r ''version'' = Some (wa_version a)"
    using assms by (simp add: read_int_def read_i64_def find_key_def parse_i64_dec_int is_i64_of_i32 snapshot_ok_def)
  ultimately show ?thesis by (simp add: decode_snapshot_def r)
qed

lemma fold_overlay:
  assumes "\<forall>n. ov_order ov = Some n \<longrightarrow> is_i32 n"
  shows "foldl overlay_pair rows (overlay_pairs (i, ov)) = rows @ [(i, ov)]"
  using assms
  by (cases ov; cases "ov_nickname ov"; cases "ov_pinned ov"; cases "ov_order ov"; cases "ov_portrait ov")
    (simp_all add: overlay_pairs_def opt_pair_def overlay_pair_def empty_overlay_def)

lemma decode_encode_overlays:
  assumes "overlays_ok rows"
  shows "decode_overlays (encode_overlays rows) = rows"
proof -
  have r: "decode_record (encode_overlays rows) = concat (map overlay_pairs rows)"
    unfolding encode_overlays_def by (rule decode_encode_record) (auto dest: pairs_keys(2))
  have "foldl overlay_pair acc (concat (map overlay_pairs xs)) = acc @ xs" if "overlays_ok xs" for acc xs
    using that by (induction xs arbitrary: acc) (auto simp: fold_overlay overlays_ok_def)
  with assms show ?thesis by (simp add: decode_overlays_def r)
qed

interpretation snapshot_file: record_file encode_snapshot decode_snapshot "\<lambda>a. a" snapshot_ok
  by unfold_locales (rule decode_encode_snapshot)

interpretation overlay_file: record_file encode_overlays decode_overlays "\<lambda>r. r" overlays_ok
  by unfold_locales (rule decode_encode_overlays)

text \<open>The two files never touch each other.\<close>

definition ay_rooted :: "string \<Rightarrow> ayllu_store \<Rightarrow> bool" where
  "ay_rooted base s \<longleftrightarrow> dir_ok base \<and> ay_snapshot_path s = join base k_snapshot_file \<and>
     ay_overlay_path s = join base k_overlay_file"

lemma ay_paths_apart:
  assumes "ay_rooted base s"
  shows "ay_overlay_path s \<noteq> ay_snapshot_path s" "ay_overlay_path s \<noteq> tmp_of (ay_snapshot_path s)"
    "ay_snapshot_path s \<noteq> tmp_of (ay_overlay_path s)"
proof -
  have d: "dir_ok base" using assms by (simp add: ay_rooted_def)
  have n: "slash \<notin> set k_snapshot_file" "slash \<notin> set k_overlay_file"
    "slash \<notin> set (k_temp_prefix @ k_snapshot_file)" "slash \<notin> set (k_temp_prefix @ k_overlay_file)"
    by (simp_all add: k_snapshot_file_def k_overlay_file_def k_temp_prefix_def slash_def)
  have "k_overlay_file \<noteq> k_snapshot_file" "k_overlay_file \<noteq> k_temp_prefix @ k_snapshot_file"
    "k_snapshot_file \<noteq> k_temp_prefix @ k_overlay_file"
    by (simp_all add: k_snapshot_file_def k_overlay_file_def k_temp_prefix_def)
  with assms d n show "ay_overlay_path s \<noteq> ay_snapshot_path s" "ay_overlay_path s \<noteq> tmp_of (ay_snapshot_path s)"
    "ay_snapshot_path s \<noteq> tmp_of (ay_overlay_path s)"
    by (simp_all add: ay_rooted_def join_eq_iff tmp_of_join)
qed

definition ay_durable :: "ayllu_store \<Rightarrow> fs \<Rightarrow> bool" where
  "ay_durable s fs \<longleftrightarrow> durable_file (ay_snapshot_path s) fs \<and> durable_file (ay_overlay_path s) fs"

lemma overlay_write:
  assumes "write_atomic (ay_overlay_path s) (encode_overlays rows) d = (ok, e)" "ay_rooted base s"
    and "ay_durable s (files d)" "overlays_ok rows"
  shows "through (\<lambda>fs. lookup fs (ay_snapshot_path s) = lookup (files d) (ay_snapshot_path s) \<and>
      old_or_new decode_overlays (ay_overlay_path s) (files d) rows fs) d e"
proof -
  have "through (\<lambda>fs. lookup fs (ay_snapshot_path s) = lookup (files d) (ay_snapshot_path s)) d e"
    by (rule wa.wr_kept [OF assms(1)])
      (use ay_paths_apart [OF assms(2)] in \<open>auto simp: atomic_states_def same_but_def\<close>)
  moreover have "through (old_or_new decode_overlays (ay_overlay_path s) (files d) rows) d e"
    using overlay_file.save_through [OF assms(1,4)] assms(3) by (simp add: ay_durable_def)
  ultimately show ?thesis by (rule through_conj)
qed

lemma snapshot_write:
  assumes "write_atomic (ay_snapshot_path s) (encode_snapshot a) d = (ok, e)" "ay_rooted base s"
    and "ay_durable s (files d)" "snapshot_ok a"
  shows "through (\<lambda>fs. lookup fs (ay_overlay_path s) = lookup (files d) (ay_overlay_path s) \<and>
      old_or_new decode_snapshot (ay_snapshot_path s) (files d) a fs) d e"
proof -
  have "through (\<lambda>fs. lookup fs (ay_overlay_path s) = lookup (files d) (ay_overlay_path s)) d e"
    by (rule wa.wr_kept [OF assms(1)])
      (use ay_paths_apart [OF assms(2)] in \<open>auto simp: atomic_states_def same_but_def\<close>)
  moreover have "through (old_or_new decode_snapshot (ay_snapshot_path s) (files d) a) d e"
    using snapshot_file.save_through [OF assms(1,4)] assms(3) by (simp add: ay_durable_def)
  ultimately show ?thesis by (rule through_conj)
qed

lemma drop_row_ok: "overlays_ok rows \<Longrightarrow> overlays_ok (drop_row i rows)"
  by (induction i rows rule: drop_row.induct) (auto simp: overlays_ok_def)

lemma put_row_ok:
  "overlays_ok rows \<Longrightarrow> (\<And>n. ov_order ov = Some n \<Longrightarrow> is_i32 n) \<Longrightarrow> overlays_ok (put_row i ov rows)"
  by (induction i ov rows rule: put_row.induct) (auto simp: overlays_ok_def)

lemma map_of_put_row: "map_of (put_row i ov rows) = (map_of rows)(i \<mapsto> ov)"
  by (induction i ov rows rule: put_row.induct) (auto simp: fun_eq_iff)

lemma composable_filter:
  "composable s = filter (\<lambda>c. ct_active c \<and> ct_id c \<noteq> k_sys_contact_id) (merged s)"
proof -
  have m: "ct_active (merge_contact s c) = wc_active c" "ct_id (merge_contact s c) = wc_id c" for c
    by (auto simp: merge_contact_def Let_def split: option.splits)
  have "filter (\<lambda>c. ct_active c \<and> ct_id c \<noteq> k_sys_contact_id) (map (merge_contact s) cs) =
      map (merge_contact s) (filter (\<lambda>c. \<not> (\<not> wc_active c \<or> wc_id c = k_sys_contact_id)) cs)" for cs
    by (induction cs) (auto simp: m)
  then show ?thesis by (simp add: composable_def merged_def filter_sort)
qed

subsection \<open>Properties\<close>

text \<open>
  A guardian's edit never erases the child's decoration and the child's decoration never touches
  membership. At every durable state of \<^verbatim>\<open>ApplySnapshot\<close> the overlay file is the old one and the
  snapshot file reads as the old snapshot or the new one; the same with the roles exchanged for
  \<^verbatim>\<open>SetOverlay\<close>, whatever fails; and in memory each leaves the other part alone.
\<close>

theorem ayllu_files_separate:
  assumes "ay_rooted base s" "ay_durable s (files d)" "overlays_ok (ay_overlays s)"
    and "\<And>n. ov_order ov = Some n \<Longrightarrow> is_i32 n" "snapshot_ok a"
    and "apply_snapshot a s d = (ok1, s1, e1)" "set_overlay i ov s d = (ok2, s2, e2)"
  shows "ay_overlays s1 = ay_overlays s \<and> (ok1 \<longrightarrow> ay_snapshot s1 = a) \<and> (\<not> ok1 \<longrightarrow> s1 = s) \<and>
    through (\<lambda>fs. lookup fs (ay_overlay_path s) = lookup (files d) (ay_overlay_path s) \<and>
      (\<forall>keep. slot_on decode_snapshot (ay_snapshot_path s) (crash keep fs) \<in>
        {slot_on decode_snapshot (ay_snapshot_path s) (files d), Some a})) d e1 \<and>
    ay_snapshot s2 = ay_snapshot s \<and> (ok2 \<longrightarrow> overlay_for s2 = (overlay_for s)(i \<mapsto> ov)) \<and> (\<not> ok2 \<longrightarrow> s2 = s) \<and>
    through (\<lambda>fs. lookup fs (ay_snapshot_path s) = lookup (files d) (ay_snapshot_path s) \<and>
      (\<forall>keep. slot_on decode_overlays (ay_overlay_path s) (crash keep fs) \<in>
        {slot_on decode_overlays (ay_overlay_path s) (files d), Some (put_row i ov (ay_overlays s))})) d e2"
proof -
  obtain o1 f1 where w1: "write_atomic (ay_snapshot_path s) (encode_snapshot a) d = (o1, f1)" by fastforce
  have r1: "o1 = ok1" "f1 = e1" "s1 = (if ok1 then s\<lparr>ay_snapshot := a\<rparr> else s)"
    using assms(6) w1 by (cases o1; auto simp: apply_snapshot_def)+
  have t1: "through (\<lambda>fs. lookup fs (ay_overlay_path s) = lookup (files d) (ay_overlay_path s) \<and>
      (\<forall>keep. slot_on decode_snapshot (ay_snapshot_path s) (crash keep fs) \<in>
        {slot_on decode_snapshot (ay_snapshot_path s) (files d), Some a})) d e1"
    using snapshot_write [OF w1 assms(1,2,5)] unfolding r1(2)
    by (rule through_mono) (simp add: old_or_new_def)
  let ?rows = "put_row i ov (ay_overlays s)"
  have t2: "through (\<lambda>fs. lookup fs (ay_snapshot_path s) = lookup (files d) (ay_snapshot_path s) \<and>
      (\<forall>keep. slot_on decode_overlays (ay_overlay_path s) (crash keep fs) \<in>
        {slot_on decode_overlays (ay_overlay_path s) (files d), Some ?rows})) d e2 \<and>
    s2 = (if ok2 then s\<lparr>ay_overlays := ?rows\<rparr> else s)"
  proof (cases "i = []")
    case True
    have "slot_on rd p (crash keep (files d)) = slot_on rd p (files d)" if "durable_file p (files d)"
      for rd p keep using that by (rule slot_on_crash)
    with True assms(2,7) show ?thesis by (auto simp: set_overlay_def ay_durable_def intro!: through_refl)
  next
    case False
    obtain o2 f2 where w2: "write_atomic (ay_overlay_path s) (encode_overlays ?rows) d = (o2, f2)" by fastforce
    have r2: "o2 = ok2" "f2 = e2" "s2 = (if ok2 then s\<lparr>ay_overlays := ?rows\<rparr> else s)"
      using assms(7) w2 False by (cases o2; auto simp: set_overlay_def ay_persist_def Let_def)+
    have "overlays_ok ?rows" by (rule put_row_ok [OF assms(3,4)])
    from overlay_write [OF w2 assms(1,2) this] show ?thesis
      unfolding r2(2) by (intro conjI r2(3), elim through_mono) (simp add: old_or_new_def)
  qed
  show ?thesis using t1 t2 r1(3) by (auto simp: overlay_for_def map_of_put_row fun_eq_iff)
qed

definition demo_ayllu :: ayllu_store where
  "demo_ayllu = \<lparr>ay_snapshot_path = join ''/c'' k_snapshot_file, ay_overlay_path = join ''/c'' k_overlay_file,
     ay_snapshot = empty_ayllu, ay_overlays = []\<rparr>"

lemma ayllu_files_separate_witness:
  "\<exists>ok s e. apply_snapshot \<lparr>wa_version = 4, wa_contacts = []\<rparr> demo_ayllu (boot_io [] []) = (ok, s, e) \<and>
     ay_overlays s = []"
proof -
  obtain ok1 s1 e1 where a: "apply_snapshot \<lparr>wa_version = 4, wa_contacts = []\<rparr> demo_ayllu (boot_io [] []) = (ok1, s1, e1)"
    using prod_cases3 by blast
  obtain ok2 s2 e2 where b: "set_overlay ''nina'' empty_overlay demo_ayllu (boot_io [] []) = (ok2, s2, e2)"
    using prod_cases3 by blast
  have h: "ay_rooted ''/c'' demo_ayllu" "ay_durable demo_ayllu (files (boot_io [] []))"
    "overlays_ok (ay_overlays demo_ayllu)" "\<And>n. ov_order empty_overlay = Some n \<Longrightarrow> is_i32 n"
    "snapshot_ok \<lparr>wa_version = 4, wa_contacts = []\<rparr>"
    by (simp_all add: ay_rooted_def demo_ayllu_def dir_ok_def slash_def ay_durable_def durable_file_def
        boot_io_def lookup_def overlays_ok_def empty_overlay_def snapshot_ok_def is_i32_def)
  from ayllu_files_separate [OF h a b] a show ?thesis by (simp add: demo_ayllu_def)
qed

text \<open>
  The compose picker. It shows exactly the contacts of the merged list that are active and are not
  the system contact, in the same order: pinned first, then the child's order, the name and the id.
\<close>

theorem composable_exact:
  "composable s = filter (\<lambda>c. ct_active c \<and> ct_id c \<noteq> k_sys_contact_id) (merged s) \<and>
   sorted (map child_order (merged s)) \<and>
   mset (map ct_id (merged s)) = mset (map wc_id (wa_contacts (ay_snapshot s)))"
proof -
  have "ct_id (merge_contact s c) = wc_id c" for c
    by (auto simp: merge_contact_def Let_def split: option.splits)
  then have "map ct_id (map (merge_contact s) cs) = map wc_id cs" for cs by simp
  then have "mset (map ct_id (merged s)) = mset (map wc_id (wa_contacts (ay_snapshot s)))"
    by (metis merged_def mset_map mset_sort)
  then show ?thesis by (simp add: composable_filter) (simp add: merged_def)
qed

end
