(* ===== verification/Footprint.thy ===== *)
theory Footprint
  imports Letter_Store Outbox Seen_Ring State_Store Settings Ayllu
begin

text \<open>
  Who writes where. Every operation of a store changes files of its own only (\<open>only_in S\<close>: every
  durable state on the way agrees with the start off \<open>S\<close>), and the stores' files under one root are
  apart from each other, so the stores' invariants survive each other's operations.
\<close>

definition only_in :: "string set \<Rightarrow> io \<Rightarrow> io \<Rightarrow> bool" where
  "only_in S d e \<longleftrightarrow> through (same_but S (files d)) d e"

lemma only_in_refl [simp]: "only_in S d d"
  by (simp add: only_in_def through_refl)

lemma only_in_state: "files e = files d \<Longrightarrow> trail e = trail d \<Longrightarrow> only_in S d e"
  unfolding only_in_def by (rule throughI [of _ "[]"]) auto

lemma only_in_files: "only_in S d e \<Longrightarrow> same_but S (files d) (files e)"
  unfolding only_in_def by (rule through_files)

lemma only_in_trans: "only_in S d e \<Longrightarrow> only_in S e f \<Longrightarrow> only_in S d f"
  unfolding only_in_def
  by (rule through_trans, assumption, rule through_mono, assumption)
    (auto dest: through_files intro: same_but_trans)

lemma only_in_mono: "only_in S d e \<Longrightarrow> S \<subseteq> T \<Longrightarrow> only_in T d e"
  unfolding only_in_def by (erule through_mono) (auto simp: same_but_def)

lemma only_in_lookup: "only_in S d e \<Longrightarrow> p \<notin> S \<Longrightarrow> lookup (files e) p = lookup (files d) p"
  by (auto dest: only_in_files simp: same_but_def)

lemma only_in_through:
  assumes "only_in S d e" "\<And>fs. same_but S (files d) fs \<Longrightarrow> P fs"
  shows "through P d e"
  using assms(1) unfolding only_in_def by (rule through_mono) (rule assms(2))

subsection \<open>The calls\<close>

lemma write_atomic_only: "write_atomic path data d = (ok, e) \<Longrightarrow> only_in {path, tmp_of path} d e"
  unfolding only_in_def by (erule wa.wr_kept) (simp add: atomic_states_def)

lemma append_line_only: "append_line path line d = (ok, e) \<Longrightarrow> only_in {path} d e"
  unfolding only_in_def by (rule through_mono [OF append_line_spec(1)]) (auto simp: append_states_def)

lemma remove_file_only: "remove_file path d = (ok, e) \<Longrightarrow> only_in {path} d e"
  unfolding only_in_def by (erule remove_file_spec(2)) simp_all

lemma read_all_only: "read_all path d = (r, e) \<Longrightarrow> only_in S d e"
  by (rule only_in_state) (auto dest: read_all_state)

subsection \<open>The stores' files\<close>

definition in_dir :: "string \<Rightarrow> string \<Rightarrow> string set" where
  "in_dir base sub = {join (join base sub) n | n. slash \<notin> set n}"

definition named :: "string \<Rightarrow> string \<Rightarrow> string set" where
  "named base name = {join base name, join base (k_temp_prefix @ name)}"

definition plain_name :: "string \<Rightarrow> bool" where
  "plain_name n \<longleftrightarrow> n \<noteq> [] \<and> slash \<notin> set n \<and> (\<forall>m. n \<noteq> k_temp_prefix @ m)"

lemma plain_names:
  "plain_name k_letters_dir" "plain_name k_outbox_dir" "plain_name k_local_id_file" "plain_name k_seen_file"
  "plain_name k_state_file" "plain_name k_settings_file" "plain_name k_snapshot_file" "plain_name k_overlay_file"
  by (auto simp: plain_name_def k_letters_dir_def k_outbox_dir_def k_local_id_file_def k_seen_file_def
      k_state_file_def k_settings_file_def k_snapshot_file_def k_overlay_file_def k_temp_prefix_def slash_def)

lemma names_differ:
  "distinct [k_letters_dir, k_outbox_dir, k_local_id_file, k_seen_file, k_state_file, k_settings_file,
     k_snapshot_file, k_overlay_file]"
  by (simp add: k_letters_dir_def k_outbox_dir_def k_local_id_file_def k_seen_file_def
      k_state_file_def k_settings_file_def k_snapshot_file_def k_overlay_file_def)

lemma temp_no_slash: "plain_name n \<Longrightarrow> slash \<notin> set (k_temp_prefix @ n)"
  by (simp add: plain_name_def slash_not_prefix)

lemma sub_dir_ok: "dir_ok base \<Longrightarrow> plain_name sub \<Longrightarrow> dir_ok (join base sub)"
  by (rule dir_ok_join) (auto simp: plain_name_def dest: last_in_set)

lemma named_apart:
  assumes "dir_ok base" "plain_name m" "plain_name n" "m \<noteq> n"
  shows "named base m \<inter> named base n = {}"
  using assms temp_no_slash [OF assms(2)] temp_no_slash [OF assms(3)]
  by (auto simp: named_def join_eq_iff plain_name_def)

lemma in_dir_named_apart:
  assumes "dir_ok base" "plain_name sub" "plain_name n"
  shows "in_dir base sub \<inter> named base n = {}"
proof -
  have "join base sub \<noteq> base" using assms(1,2) by (simp add: join_ok)
  then have apart: "join (join base sub) m \<noteq> join base k" if "slash \<notin> set m" "slash \<notin> set k" for m k
    using join_eq_iff [OF sub_dir_ok [OF assms(1,2)] assms(1) that] by auto
  have n: "slash \<notin> set n" "slash \<notin> set (k_temp_prefix @ n)"
    using assms(3) temp_no_slash by (auto simp: plain_name_def)
  have "p \<notin> named base n" if "p \<in> in_dir base sub" for p
  proof -
    from that obtain m where "p = join (join base sub) m" "slash \<notin> set m" by (auto simp: in_dir_def)
    with apart [of m n] apart [of m "k_temp_prefix @ n"] n show ?thesis by (simp add: named_def)
  qed
  then show ?thesis by blast
qed

lemma in_dirs_apart:
  assumes "dir_ok base" "plain_name m" "plain_name n" "m \<noteq> n"
  shows "in_dir base m \<inter> in_dir base n = {}"
  using assms sub_dir_ok [OF assms(1,2)] sub_dir_ok [OF assms(1,3)]
  by (auto simp: in_dir_def join_eq_iff plain_name_def)

lemma write_in_dir:
  assumes "write_atomic (join (join base sub) n) data d = (ok, e)" "dir_ok base" "plain_name sub" "name_is_safe n"
  shows "only_in (in_dir base sub) d e"
proof (rule only_in_mono [OF write_atomic_only [OF assms(1)]])
  have s: "slash \<notin> set n" "slash \<notin> set (k_temp_prefix @ n)"
    using safe_no_slash [OF assms(4)] slash_not_prefix by simp_all
  have "tmp_of (join (join base sub) n) = join (join base sub) (k_temp_prefix @ n)"
    using sub_dir_ok [OF assms(2,3)] s(1) by (simp add: tmp_of_join)
  with s show "{join (join base sub) n, tmp_of (join (join base sub) n)} \<subseteq> in_dir base sub"
    unfolding in_dir_def by (auto simp del: set_append)
qed

lemma write_named:
  assumes "write_atomic (join base n) data d = (ok, e)" "dir_ok base" "plain_name n"
  shows "only_in (named base n) d e"
  using write_atomic_only [OF assms(1)] assms(2,3)
  by (simp add: named_def tmp_of_join plain_name_def)

subsection \<open>The operations\<close>

lemma ls_put_only:
  assumes "ls_put l s d = (ok, s', e)" "dir_ok base" "ls_dir s = join base k_letters_dir"
  shows "only_in (in_dir base k_letters_dir) d e"
proof (cases "name_is_safe (l_id l)")
  case False
  with assms(1) show ?thesis by (simp add: ls_put_def)
next
  case True
  let ?u = "case find_meta s (l_id l) of None \<Rightarrow> True | Some m \<Rightarrow> m_unread m"
  obtain o1 e1 where w: "write_atomic (join (ls_dir s) (l_id l)) (encode_letter l ?u) d = (o1, e1)" by fastforce
  have "e1 = e" using assms(1) True w by (cases o1) (simp_all add: ls_put_def)
  with write_in_dir [of base k_letters_dir "l_id l" _ d o1 e1] w assms(2,3) True plain_names show ?thesis by simp
qed

lemma evict_loop_only:
  assumes "evict_loop is n s d = (n', s', e)" "ls_dir s = join base k_letters_dir"
    and "\<forall>i \<in> set is. name_is_safe i"
  shows "only_in (in_dir base k_letters_dir) d e"
  using assms
proof (induction "is" n s d rule: evict_loop.induct)
  case (2 i js n s d)
  obtain o1 d1 where r: "remove_file (join (ls_dir s) i) d = (o1, d1)" by fastforce
  let ?s1 = "if o1 then s\<lparr>ls_index := filter (\<lambda>m. m_id m \<noteq> i) (ls_index s)\<rparr> else s"
  have "only_in (in_dir base k_letters_dir) d d1"
    using remove_file_only [OF r] 2(4,5) safe_no_slash [of i]
    by (auto simp: in_dir_def elim!: only_in_mono)
  moreover have "only_in (in_dir base k_letters_dir) d1 e"
    using "2.IH" [OF r [symmetric] refl] "2.prems" r by (cases o1) simp_all
  ultimately show ?case by (rule only_in_trans)
qed simp

lemma evict_beyond_only:
  assumes "evict_beyond keep s d = (n, s', e)" "ls_dir s = join base k_letters_dir"
    and "\<forall>m \<in> set (ls_index s). name_is_safe (m_id m)"
  shows "only_in (in_dir base k_letters_dir) d e"
proof -
  have "\<forall>i \<in> set (map m_id (drop k (ordered s))). name_is_safe i" for k
    using assms(3) by (auto dest: in_set_dropD)
  with evict_loop_only [OF _ assms(2)] assms(1) show ?thesis
    by (auto simp: evict_beyond_def Let_def split: if_splits)
qed

lemma resolve_only:
  assumes "outbox_resolve i st s d = (ok, s', e)" "ox_dir s = join base k_outbox_dir" "dir_ok base"
    and "\<forall>x \<in> set (ox_entries s). name_is_safe (oe_local_id x)"
  shows "only_in (in_dir base k_outbox_dir) d e"
proof (cases "ox_find s i")
  case None
  with assms(1) show ?thesis by (simp add: outbox_resolve_def)
next
  case (Some x)
  then have i: "name_is_safe i" using assms(4) ox_find_id by blast
  show ?thesis
  proof (cases "st = kSent")
    case True
    obtain o1 d1 where r: "remove_file (ox_path s i) d = (o1, d1)" by fastforce
    have "e = d1" using assms(1) Some True r by (cases o1) (simp_all add: outbox_resolve_def ox_erase_def)
    moreover have "{ox_path s i} \<subseteq> in_dir base k_outbox_dir"
      using assms(2) safe_no_slash [OF i] by (auto simp: in_dir_def ox_path_def)
    ultimately show ?thesis using only_in_mono [OF remove_file_only [OF r]] by simp
  next
    case False
    let ?y = "x\<lparr>oe_rejected := True, oe_reject_status := st\<rparr>"
    obtain o1 d1 where w: "write_atomic (join (ox_dir s) i) (encode_entry ?y) d = (o1, d1)" by fastforce
    have "e = d1" using assms(1) Some False w by (simp add: outbox_resolve_def ox_path_def)
    with write_in_dir [OF w [unfolded assms(2)] assms(3) plain_names(2) i] show ?thesis by simp
  qed
qed

lemma seen_add_only:
  assumes "seen_add i s d = (ok, s', e)" "sr_path s = join base k_seen_file" "dir_ok base"
  shows "only_in (named base k_seen_file) d e"
proof -
  let ?s = "s\<lparr>sr_ring := push_bounded (sr_capacity s) i (sr_ring s)\<rparr>"
  obtain o1 d1 where w: "write_atomic (sr_path s) (concat (map (\<lambda>i. i @ [newline]) (sr_ring ?s))) d = (o1, d1)"
    by fastforce
  obtain o2 d2 where a: "append_line (sr_path s) i d = (o2, d2)" by fastforce
  have "e = d \<or> e = d1 \<or> e = d2"
    using assms(1) w a by (auto simp: seen_add_def seen_compact_def Let_def split: if_splits)
  moreover have "only_in (named base k_seen_file) d d1"
    using write_named [OF w [unfolded assms(2)] assms(3) plain_names(4)] .
  moreover have "only_in (named base k_seen_file) d d2"
    using append_line_only [OF a] assms(2) by (auto simp: named_def elim!: only_in_mono)
  ultimately show ?thesis by auto
qed

lemma state_set_only:
  assumes "state_set f s d = (ok, s', e)" "st_path s = join base k_state_file" "dir_ok base"
  shows "only_in (named base k_state_file) d e"
proof -
  obtain o1 d1 where w: "write_atomic (st_path s) (encode_state (f (st_state s))) d = (o1, d1)" by fastforce
  then have "e = d1" using assms(1) by (simp add: state_set_def)
  with write_named [OF w [unfolded assms(2)] assms(3) plain_names(5)] show ?thesis by simp
qed

lemma apply_snapshot_only:
  assumes "apply_snapshot a s d = (ok, s', e)" "ay_snapshot_path s = join base k_snapshot_file" "dir_ok base"
  shows "only_in (named base k_snapshot_file) d e"
proof -
  obtain o1 d1 where w: "write_atomic (ay_snapshot_path s) (encode_snapshot a) d = (o1, d1)" by fastforce
  then have "e = d1" using assms(1) by (cases o1) (simp_all add: apply_snapshot_def)
  with write_named [OF w [unfolded assms(2)] assms(3) plain_names(7)] show ?thesis by simp
qed

lemma settings_commit_only:
  assumes "settings_commit x s d = (ok, s', e)" "sg_path s = join base k_settings_file" "dir_ok base"
  shows "only_in (named base k_settings_file) d e"
proof -
  obtain o1 d1 where w: "write_atomic (sg_path s) (encode_settings (sanitise x)) d = (o1, d1)" by fastforce
  then have "e = d1" using assms(1) by (cases o1) (simp_all add: settings_commit_def)
  with write_named [OF w [unfolded assms(2)] assms(3) plain_names(6)] show ?thesis by simp
qed

subsection \<open>What the stores' invariants look at\<close>

lemma ls_agrees_cong:
  assumes "same_but S fs fs'" "ls_dir s = join base k_letters_dir" "S \<inter> in_dir base k_letters_dir = {}"
  shows "ls_agrees s fs' = ls_agrees s fs" "letters_on (ls_dir s) fs' = letters_on (ls_dir s) fs"
proof -
  have "lookup fs' (join (ls_dir s) i) = lookup fs (join (ls_dir s) i)" if "name_is_safe i" for i
  proof -
    have "join (ls_dir s) i \<in> in_dir base k_letters_dir"
      using assms(2) safe_no_slash [OF that] by (auto simp: in_dir_def)
    with assms show ?thesis by (auto simp: same_but_def)
  qed
  then show "letters_on (ls_dir s) fs' = letters_on (ls_dir s) fs"
    unfolding letters_on_def by (intro records_on_cong) auto
  then show "ls_agrees s fs' = ls_agrees s fs" by (simp add: ls_agrees_def)
qed

lemma seen_agrees_cong:
  assumes "same_but S fs fs'" "sr_path s \<notin> S"
  shows "seen_agrees s fs' = seen_agrees s fs" "seen_on (sr_path s) c fs' = seen_on (sr_path s) c fs"
  using assms by (simp_all add: seen_agrees_def seen_on_def seen_lines_def same_but_def)

lemma slot_on_cong: "same_but S fs fs' \<Longrightarrow> p \<notin> S \<Longrightarrow> slot_on rd p fs' = slot_on rd p fs \<and> durable_file p fs' = durable_file p fs"
  by (simp add: slot_on_def durable_file_def same_but_def)

end
