(* ===== verification/Syncengine.thy ===== *)
theory Syncengine
  imports Footprint
begin

text \<open>
  The sync protocol, \<^verbatim>\<open>components/syncengine/syncengine.cpp\<close>, over the stores it runs on: the request
  built from them, the six steps that apply a response in an order a power cut cannot break, the
  drain loop, the fault mapping and the backoff ladder. The state of the run is the record \<open>world\<close> of
  the stores in memory, the clock and the file system; the network and the JSON text layer are
  arguments.
\<close>

subsection \<open>The transport's answer\<close>

datatype transport_outcome = TrOk | TrTransportFail | TrTlsTrustFail

record transport_result =
  tr_outcome :: transport_outcome
  tr_http_status :: int
  tr_body :: string
  tr_retry_after_s :: int

datatype trigger = kUserKey | kScheduled | kPututu | kOutboundQueued

datatype fault = kNone | kNoSignal | kCantReachHome | kProvisioningFault | kRoadBusy | kServerFault

definition fault_for :: "transport_result \<Rightarrow> fault" where
  "fault_for r = (case tr_outcome r of
      TrTlsTrustFail \<Rightarrow> kCantReachHome
    | TrTransportFail \<Rightarrow> kNoSignal
    | TrOk \<Rightarrow> if tr_http_status r = 200 then kNone
        else if tr_http_status r = 401 then kProvisioningFault
        else if tr_http_status r = 503 then kRoadBusy
        else kServerFault)"

subsection \<open>State\<close>

text \<open>
  \<open>ck_now\<close> is the monotonic reading in milliseconds; the environment advances it.
\<close>

record clock =
  ck_epoch_at_mark :: int
  ck_mono_at_mark :: int
  ck_valid :: bool
  ck_now :: int

definition now_epoch :: "clock \<Rightarrow> int" where
  "now_epoch c = (if \<not> ck_valid c then 0
     else ck_epoch_at_mark c + (ck_now c - ck_mono_at_mark c) div 1000)"

definition set_from_server :: "int \<Rightarrow> clock \<Rightarrow> clock" where
  "set_from_server epoch c = (if epoch \<le> 0 then c
     else c\<lparr>ck_epoch_at_mark := epoch, ck_mono_at_mark := ck_now c, ck_valid := True\<rparr>)"

record world =
  w_letters :: letter_store
  w_outbox :: outbox
  w_seen :: seen_ring
  w_state :: state_store
  w_contacts :: ayllu_store
  w_settings :: settings_store
  w_clock :: clock
  w_io :: io

record outcome =
  oc_fault :: fault
  oc_letters_stored :: nat
  oc_letters_deduped :: nat
  oc_acks_applied :: nat
  oc_more :: bool
  oc_rounds :: nat
  oc_ayllu_updated :: bool
  oc_config_updated :: bool
  oc_apply_incomplete :: bool

definition no_outcome :: outcome where
  "no_outcome = \<lparr>oc_fault = kNone, oc_letters_stored = 0, oc_letters_deduped = 0, oc_acks_applied = 0,
     oc_more = False, oc_rounds = 0, oc_ayllu_updated = False, oc_config_updated = False,
     oc_apply_incomplete = False\<rparr>"

record options =
  op_letters_keep :: nat
  op_max_drain_rounds :: int

record engine =
  en_options :: options
  en_failures :: nat
  en_retry_after_ms :: int
  en_halted :: bool

definition k_backoff_next_scheduled_wake :: int where "k_backoff_next_scheduled_wake = 0"
definition k_backoff_halted :: int where "k_backoff_halted = -1"
definition k_backoff_ladder_ms :: "int list" where "k_backoff_ladder_ms = [30 * 1000, 2 * 60 * 1000, 10 * 60 * 1000]"
definition k_backoff_ladder_steps :: nat where "k_backoff_ladder_steps = 3"
definition k_max_retry_after_s :: int where "k_max_retry_after_s = 24 * 60 * 60"

text \<open>The seams: the health block and the doorbell counter at the time of the request, and the JSON layer.\<close>

record deps =
  dp_wired :: bool
  dp_kipu :: "world \<Rightarrow> kipu_block option"
  dp_counter_seen :: "world \<Rightarrow> nat"
  dp_on_config :: "device_config \<Rightarrow> world \<Rightarrow> world"
  dp_parse :: "string \<Rightarrow> json option"
  dp_print :: "json \<Rightarrow> string"

text \<open>The callback the session wires: the pushed block goes to the settings store, its result unused.\<close>

definition session_on_config :: "device_config \<Rightarrow> world \<Rightarrow> world" where
  "session_on_config c w =
     (let (_, s, d) = apply_config c (w_settings w) (w_io w) in w\<lparr>w_settings := s, w_io := d\<rparr>)"

subsection \<open>The request\<close>

definition to_outbound :: "outbox_entry \<Rightarrow> outbound" where
  "to_outbound e = \<lparr>ob_local_id = oe_local_id e, ob_contact_id = oe_contact_id e,
     ob_subject = oe_subject e, ob_body = oe_body e\<rparr>"

definition empty_request :: request where
  "empty_request = \<lparr>rq_cursor = [], rq_ayllu_version = 0, rq_pututu_counter_seen = 0, rq_kipu = None,
     rq_outbound = []\<rparr>"

definition build_request :: "deps \<Rightarrow> world \<Rightarrow> request \<times> world" where
  "build_request dp w =
     (if \<not> dp_wired dp then (empty_request, w)
      else let (st, d) = st_snapshot (w_state w) (w_io w);
               w = w\<lparr>w_io := d\<rparr>
           in (\<lparr>rq_cursor = ss_cursor st, rq_ayllu_version = ay_version (w_contacts w),
                rq_pututu_counter_seen = dp_counter_seen dp w, rq_kipu = dp_kipu dp w,
                rq_outbound = map to_outbound (sendable (w_outbox w))\<rparr>, w))"

subsection \<open>Applying a response\<close>

fun apply_acks :: "ack list \<Rightarrow> nat \<Rightarrow> outbox \<Rightarrow> io \<Rightarrow> bool \<times> nat \<times> outbox \<times> io" where
  "apply_acks [] n s d = (True, n, s, d)"
| "apply_acks (a # as) n s d =
     (let (ok, s, d) = outbox_resolve (ack_local_id a) (ack_stat a) s d
      in if \<not> ok then (False, n, s, d) else apply_acks as (n + 1) s d)"

fun apply_letters ::
  "letter list \<Rightarrow> nat \<Rightarrow> nat \<Rightarrow> letter_store \<Rightarrow> seen_ring \<Rightarrow> io \<Rightarrow>
   bool \<times> nat \<times> nat \<times> letter_store \<times> seen_ring \<times> io" where
  "apply_letters [] stored dup ls sr d = (True, stored, dup, ls, sr, d)"
| "apply_letters (l # rest) stored dup ls sr d =
     (if seen_contains sr (l_id l) then apply_letters rest stored (dup + 1) ls sr d
      else let (put, ls, d) = ls_put l ls d
           in if \<not> put then (False, stored, dup, ls, sr, d)
      else let (added, sr, d) = seen_add (l_id l) sr d
           in if \<not> added then (False, stored, dup, ls, sr, d)
      else apply_letters rest (stored + 1) dup ls sr d)"

definition apply_ayllu :: "wire_ayllu option \<Rightarrow> world \<Rightarrow> bool \<times> world" where
  "apply_ayllu ay w = (case ay of
      None \<Rightarrow> (True, w)
    | Some a \<Rightarrow>
        let (ok, c, d) = apply_snapshot a (w_contacts w) (w_io w);
            w = w\<lparr>w_contacts := c, w_io := d\<rparr>
        in if \<not> ok then (False, w)
           else let (ok, st, d) = set_ayllu_version (wa_version a) (w_state w) (w_io w)
                in (ok, w\<lparr>w_state := st, w_io := d\<rparr>))"

definition step_clock :: "response \<Rightarrow> world \<Rightarrow> world" where
  "step_clock r w = (if 0 < rs_server_time r
     then w\<lparr>w_clock := set_from_server (rs_server_time r) (w_clock w)\<rparr> else w)"

definition step_acks :: "response \<Rightarrow> outcome \<Rightarrow> world \<Rightarrow> bool \<times> outcome \<times> world" where
  "step_acks r out w =
     (let (ok, n, ox, d) = apply_acks (rs_acks r) 0 (w_outbox w) (w_io w)
      in (ok, out\<lparr>oc_acks_applied := n\<rparr>, w\<lparr>w_outbox := ox, w_io := d\<rparr>))"

definition step_letters :: "nat \<Rightarrow> response \<Rightarrow> outcome \<Rightarrow> world \<Rightarrow> bool \<times> outcome \<times> world" where
  "step_letters keep r out w =
     (let (ok, stored, dup, ls, sr, d) = apply_letters (rs_letters r) 0 0 (w_letters w) (w_seen w) (w_io w);
          out = out\<lparr>oc_letters_stored := stored, oc_letters_deduped := dup\<rparr>;
          w = w\<lparr>w_letters := ls, w_seen := sr, w_io := d\<rparr>
      in if ok \<and> 0 < stored
         then let (_, ls, d) = evict_beyond keep (w_letters w) (w_io w)
              in (ok, out, w\<lparr>w_letters := ls, w_io := d\<rparr>)
         else (ok, out, w))"

definition step_config :: "deps \<Rightarrow> response \<Rightarrow> outcome \<Rightarrow> world \<Rightarrow> outcome \<times> world" where
  "step_config dp r out w = (case rs_config r of
      None \<Rightarrow> (out, w)
    | Some c \<Rightarrow> (out\<lparr>oc_config_updated := True\<rparr>, dp_on_config dp c w))"

text \<open>Steps 1 to 5, and whether the cursor may move.\<close>

definition apply_before_cursor :: "deps \<Rightarrow> engine \<Rightarrow> response \<Rightarrow> world \<Rightarrow> bool \<times> outcome \<times> world" where
  "apply_before_cursor dp en r w =
     (let w = step_clock r w;
          (ok, out, w) = step_acks r no_outcome w
      in if \<not> ok then (False, out, w)
      else let (ok, w) = apply_ayllu (rs_ayllu r) w
      in if \<not> ok then (False, out, w)
      else let out = out\<lparr>oc_ayllu_updated := rs_ayllu r \<noteq> None\<rparr>;
               (ok, out, w) = step_letters (op_letters_keep (en_options en)) r out w
      in if \<not> ok then (False, out, w)
      else let (out, w) = step_config dp r out w in (True, out, w))"

definition apply_response :: "deps \<Rightarrow> engine \<Rightarrow> response \<Rightarrow> world \<Rightarrow> outcome \<times> world" where
  "apply_response dp en r w =
     (if \<not> dp_wired dp then (no_outcome\<lparr>oc_apply_incomplete := True\<rparr>, w)
      else let (ok, out, w) = apply_before_cursor dp en r w
      in if \<not> ok then (out\<lparr>oc_apply_incomplete := True\<rparr>, w)
      else let (ok, st, d) = set_cursor (rs_cursor r) (w_state w) (w_io w);
               w = w\<lparr>w_state := st, w_io := d\<rparr>
           in if \<not> ok then (out\<lparr>oc_apply_incomplete := True\<rparr>, w)
              else (out\<lparr>oc_more := rs_more r\<rparr>, w))"

subsection \<open>One sync\<close>

definition reset_backoff :: "engine \<Rightarrow> engine" where
  "reset_backoff en = en\<lparr>en_failures := 0, en_retry_after_ms := 0, en_halted := False\<rparr>"

definition note_failure :: "fault \<Rightarrow> int \<Rightarrow> engine \<Rightarrow> engine" where
  "note_failure f retry en =
     (if f = kProvisioningFault then en\<lparr>en_halted := True, en_retry_after_ms := 0\<rparr>
      else if f = kRoadBusy \<and> 0 < retry
      then en\<lparr>en_retry_after_ms := (if retry < k_max_retry_after_s then retry else k_max_retry_after_s) * 1000\<rparr>
      else en\<lparr>en_retry_after_ms := 0, en_failures := en_failures en + 1\<rparr>)"

definition next_backoff_ms :: "engine \<Rightarrow> int" where
  "next_backoff_ms en =
     (if en_halted en then k_backoff_halted
      else if 0 < en_retry_after_ms en then en_retry_after_ms en
      else if en_failures en = 0 \<or> k_backoff_ladder_steps < en_failures en then k_backoff_next_scheduled_wake
      else k_backoff_ladder_ms ! (en_failures en - 1))"

type_synonym 'n network = "string \<Rightarrow> int \<Rightarrow> 'n \<Rightarrow> transport_result \<times> int \<times> 'n"

text \<open>
  One round: the network takes the request and the time and gives its answer, the time after the
  exchange and its next state. \<open>None\<close> is the undefined conversion of the response decoder. The flag
  says whether a response was applied, the next whether the loop goes on.
\<close>

definition drain_round ::
  "deps \<Rightarrow> 'n network \<Rightarrow> nat \<Rightarrow> outcome \<Rightarrow> bool \<Rightarrow> engine \<Rightarrow> world \<Rightarrow> 'n \<Rightarrow>
   (bool \<times> outcome \<times> bool \<times> engine \<times> world \<times> 'n) option" where
  "drain_round dp net rnd out applied_any en w n =
     (let (rq, w) = build_request dp w;
          (res, now, n) = net (encode_request (dp_print dp) rq) (ck_now (w_clock w)) n;
          w = w\<lparr>w_clock := (w_clock w)\<lparr>ck_now := now\<rparr>\<rparr>;
          out = out\<lparr>oc_rounds := rnd + 1\<rparr>;
          f = fault_for res
      in if f \<noteq> kNone
         then Some (False, out\<lparr>oc_fault := f\<rparr>, applied_any, note_failure f (tr_retry_after_s res) en, w, n)
      else case decode_response (dp_parse dp) (tr_body res) of
        None \<Rightarrow> None
      | Some None \<Rightarrow>
          Some (False, out\<lparr>oc_fault := kServerFault\<rparr>, applied_any, note_failure kServerFault 0 en, w, n)
      | Some (Some resp) \<Rightarrow>
          let (ap, w) = apply_response dp en resp w;
              out = out\<lparr>oc_letters_stored := oc_letters_stored out + oc_letters_stored ap,
                        oc_letters_deduped := oc_letters_deduped out + oc_letters_deduped ap,
                        oc_acks_applied := oc_acks_applied out + oc_acks_applied ap,
                        oc_ayllu_updated := oc_ayllu_updated out \<or> oc_ayllu_updated ap,
                        oc_config_updated := oc_config_updated out \<or> oc_config_updated ap,
                        oc_more := rs_more resp\<rparr>
          in if oc_apply_incomplete ap
             then Some (False, out\<lparr>oc_apply_incomplete := True\<rparr>, True, en, w, n)
             else Some (rs_more resp, out, True, en, w, n))"

fun drain ::
  "deps \<Rightarrow> 'n network \<Rightarrow> nat \<Rightarrow> nat \<Rightarrow> outcome \<Rightarrow> bool \<Rightarrow> engine \<Rightarrow> world \<Rightarrow> 'n \<Rightarrow>
   (outcome \<times> bool \<times> engine \<times> world \<times> 'n) option" where
  "drain dp net 0 rnd out applied_any en w n = Some (out, applied_any, en, w, n)"
| "drain dp net (Suc left) rnd out applied_any en w n =
     (case drain_round dp net rnd out applied_any en w n of
        None \<Rightarrow> None
      | Some (go_on, out, applied_any, en, w, n) \<Rightarrow>
          if go_on then drain dp net left (rnd + 1) out applied_any en w n
          else Some (out, applied_any, en, w, n))"

definition drain_cap :: "engine \<Rightarrow> nat" where
  "drain_cap en = (if 0 < op_max_drain_rounds (en_options en)
     then nat (op_max_drain_rounds (en_options en)) else 1)"

definition run_once ::
  "deps \<Rightarrow> 'n network \<Rightarrow> trigger \<Rightarrow> engine \<Rightarrow> world \<Rightarrow> 'n \<Rightarrow> (outcome \<times> engine \<times> world \<times> 'n) option" where
  "run_once dp net t en w n =
     (if \<not> dp_wired dp then Some (no_outcome\<lparr>oc_apply_incomplete := True\<rparr>, en, w, n)
      else let en = (if t = kUserKey then reset_backoff en else en)
      in case drain dp net (drain_cap en) 0 no_outcome False en w n of
           None \<Rightarrow> None
         | Some (out, applied_any, en, w, n) \<Rightarrow>
             let en = (if oc_fault out = kNone then reset_backoff en else en)
             in if applied_any \<and> ck_valid (w_clock w)
                then let (_, st, d) = set_last_sync_at (now_epoch (w_clock w)) (w_state w) (w_io w)
                     in Some (out, en, w\<lparr>w_state := st, w_io := d\<rparr>, n)
                else Some (out, en, w, n))"

subsection \<open>Letters are stored before they are recorded as seen\<close>

text \<open>
  Every id the seen ring on the medium holds, beyond the old ones \<open>S0\<close>, has its letter on the medium.
\<close>

definition seen_stored :: "string set \<Rightarrow> string \<Rightarrow> string \<Rightarrow> nat \<Rightarrow> fs \<Rightarrow> bool" where
  "seen_stored S0 ldir spath cap fs \<longleftrightarrow>
     (\<forall>keep. \<forall>i \<in> set (seen_on spath cap (crash keep fs)).
        i \<in> S0 \<or> letters_on ldir (crash keep fs) i \<noteq> None)"

definition letters_ready :: "string \<Rightarrow> letter_store \<Rightarrow> seen_ring \<Rightarrow> fs \<Rightarrow> bool" where
  "letters_ready base ls sr fs \<longleftrightarrow> dir_ok base \<and> ls_dir ls = join base k_letters_dir \<and>
     sr_path sr = join base k_seen_file \<and> ls_agrees ls fs \<and> seen_agrees sr fs \<and> durable_dir (ls_dir ls) fs"

lemma seen_path_not_letter: "dir_ok base \<Longrightarrow> join base k_seen_file \<notin> in_dir base k_letters_dir"
  using in_dir_named_apart [of base k_letters_dir k_seen_file] plain_names by (auto simp: named_def)

lemma letters_not_seen: "dir_ok base \<Longrightarrow> named base k_seen_file \<inter> in_dir base k_letters_dir = {}"
  using in_dir_named_apart [of base k_letters_dir k_seen_file] plain_names by auto

lemma seen_on_same:
  "lookup fs p = lookup fs' p \<Longrightarrow> seen_on p c (crash k fs) = seen_on p c (crash k fs')"
  by (simp add: seen_on_def seen_lines_def lookup_crash)

lemma durable_dir_cong:
  assumes "same_but S fs fs'" "S \<inter> in_dir base sub = {}"
  shows "durable_dir (join base sub) fs' = durable_dir (join base sub) fs"
proof -
  have "lookup fs' (join (join base sub) i) = lookup fs (join (join base sub) i)" if "name_is_safe i" for i
  proof -
    have "join (join base sub) i \<in> in_dir base sub" using safe_no_slash [OF that] by (auto simp: in_dir_def)
    with assms show ?thesis by (auto simp: same_but_def)
  qed
  then show ?thesis by (simp add: durable_dir_def)
qed

lemma put_step:
  assumes "ls_put l ls d = (ok, ls', e)" "letters_ready base ls sr (files d)" "is_i64 (l_date l)"
    and "seen_stored S0 (ls_dir ls) (sr_path sr) c (files d)"
  shows "through (seen_stored S0 (ls_dir ls) (sr_path sr) c) d e" "ls_dir ls' = ls_dir ls"
    and "ok \<Longrightarrow> letters_ready base ls' sr (files e) \<and> letters_on (ls_dir ls) (files e) (l_id l) \<noteq> None"
proof -
  let ?dir = "ls_dir ls" and ?p = "sr_path sr"
  have r: "dir_ok base" "?dir = join base k_letters_dir" "?p = join base k_seen_file" "ls_agrees ls (files d)"
    "seen_agrees sr (files d)" "durable_dir ?dir (files d)"
    using assms(2) by (auto simp: letters_ready_def)
  have d: "dir_ok ?dir" using r(4) by (simp add: ls_agrees_def)
  note S = ls_put_spec [OF assms(1) r(4) assms(3)]
  note D = ls_put_durable [OF assms(1) r(6) d]
  note O = ls_put_only [OF assms(1) r(1,2)]
  have p: "?p \<notin> in_dir base k_letters_dir" using seen_path_not_letter [OF r(1)] r(3) by simp
  have "through (\<lambda>fs. lookup fs ?p = lookup (files d) ?p) d e"
    by (rule only_in_through [OF O]) (use p in \<open>auto simp: same_but_def\<close>)
  from through_conj [OF through_conj [OF this D] S(1)]
  show "through (seen_stored S0 ?dir ?p c) d e"
  proof (rule through_mono)
    fix fs
    assume a: "(lookup fs ?p = lookup (files d) ?p \<and> durable_dir ?dir fs) \<and>
      (letters_on ?dir fs = letters_on ?dir (files d) \<or> letters_on ?dir fs = put_spec (letters_on ?dir (files d)) l)"
    then have "letters_on ?dir fs i \<noteq> None" if "letters_on ?dir (files d) i \<noteq> None" for i
      using that by (auto simp: put_spec_def)
    moreover have "seen_on ?p c (crash k fs) = seen_on ?p c (crash k (files d))" for k
      using a by (intro seen_on_same) simp
    moreover have "i \<in> S0 \<or> letters_on ?dir (files d) i \<noteq> None"
      if "i \<in> set (seen_on ?p c (crash k (files d)))" for i k
      using assms(4) that r(6) by (auto simp: seen_stored_def letters_on_crash)
    moreover have "letters_on ?dir (crash k fs) = letters_on ?dir fs" for k
      using a by (simp add: letters_on_crash)
    ultimately show "seen_stored S0 ?dir ?p c fs"
      unfolding seen_stored_def by metis
  qed
  show "ls_dir ls' = ls_dir ls" by (rule S(4))
  assume ok
  from S(2) [OF this] have "ls_agrees ls' (files e)" "letters_on ?dir (files e) (l_id l) \<noteq> None"
    by (auto simp: put_spec_def)
  moreover have "seen_agrees sr (files e)"
    using seen_agrees_cong [OF only_in_files [OF O] p] r(5) by simp
  ultimately show "letters_ready base ls' sr (files e) \<and> letters_on ?dir (files e) (l_id l) \<noteq> None"
    using r through_files [OF D] S(4) by (simp add: letters_ready_def)
qed

lemma add_step:
  assumes "seen_add i sr d = (ok, sr', e)" "letters_ready base ls sr (files d)"
    and "seen_stored S0 (ls_dir ls) (sr_path sr) (sr_capacity sr) (files d)"
    and "letters_on (ls_dir ls) (files d) i \<noteq> None"
  shows "through (seen_stored S0 (ls_dir ls) (sr_path sr) (sr_capacity sr)) d e"
    "sr_path sr' = sr_path sr \<and> sr_capacity sr' = sr_capacity sr"
    and "ok \<Longrightarrow> letters_ready base ls sr' (files e) \<and> sr_ring sr' = after_add i sr"
proof -
  let ?dir = "ls_dir ls" and ?p = "sr_path sr" and ?c = "sr_capacity sr"
  have r: "dir_ok base" "?dir = join base k_letters_dir" "?p = join base k_seen_file" "ls_agrees ls (files d)"
    "seen_agrees sr (files d)" "durable_dir ?dir (files d)"
    using assms(2) by (auto simp: letters_ready_def)
  note A = seen_add_spec [OF assms(1) r(5)]
  note O = seen_add_only [OF assms(1) r(3,1)]
  have "0 < ?c" using r(5) by (simp add: seen_agrees_def)
  obtain xs where xs: "lookup (files d) ?p = Some (whole (as_lines xs)) \<or> lookup (files d) ?p = None \<and> xs = []"
    "\<forall>l \<in> set xs. newline \<notin> set l \<and> l \<noteq> []" "sr_ring sr = last_lines ?c xs" "distinct (sr_ring sr)"
    using r(5) by (auto simp: seen_agrees_def)
  have ring0: "seen_on ?p ?c (crash k (files d)) = sr_ring sr" for k
  proof (cases "lookup (files d) ?p")
    case None
    then show ?thesis using xs seen_agrees_on [OF r(5)]
      by (simp add: seen_on_def seen_lines_def lookup_crash)
  next
    case (Some f)
    with xs seen_on_whole [of "files d" ?p xs ?c k] show ?thesis by simp
  qed
  have same: "letters_on ?dir fs = letters_on ?dir (files d) \<and> durable_dir ?dir fs"
    if "same_but (named base k_seen_file) (files d) fs" for fs
    using ls_agrees_cong(2) [OF that r(2) letters_not_seen [OF r(1)]]
      durable_dir_cong [OF that letters_not_seen [OF r(1)]] r(2,6) by simp
  have "through (\<lambda>fs. letters_on ?dir fs = letters_on ?dir (files d) \<and> durable_dir ?dir fs) d e"
    by (rule only_in_through [OF O]) (rule same)
  from through_conj [OF this A(1)] show "through (seen_stored S0 ?dir ?p ?c) d e"
  proof (rule through_mono)
    fix fs
    assume a: "(letters_on ?dir fs = letters_on ?dir (files d) \<and> durable_dir ?dir fs) \<and> seen_states i sr fs"
    show "seen_stored S0 ?dir ?p ?c fs"
      unfolding seen_stored_def
    proof (intro allI ballI)
      fix keep j assume j: "j \<in> set (seen_on ?p ?c (crash keep fs))"
      have "set (after_add i sr) \<subseteq> insert i (set (sr_ring sr))"
        using set_push_subset [of ?c i "sr_ring sr"] by (auto simp: after_add_def)
      moreover have "seen_on ?p ?c (crash keep fs) \<in> {sr_ring sr, after_add i sr}"
        using a by (simp add: seen_states_def)
      ultimately have "j = i \<or> j \<in> set (sr_ring sr)" using j by auto
      moreover have "j \<in> S0 \<or> letters_on ?dir (files d) j \<noteq> None" if "j \<in> set (sr_ring sr)"
        using assms(3) that ring0 r(6) by (auto simp: seen_stored_def letters_on_crash)
      ultimately show "j \<in> S0 \<or> letters_on ?dir (crash keep fs) j \<noteq> None"
        using a assms(4) by (auto simp: letters_on_crash)
    qed
  qed
  show "sr_path sr' = sr_path sr \<and> sr_capacity sr' = sr_capacity sr" using sr_path_add [OF assms(1)] by simp
  assume ok
  from A(2) [OF this] have "seen_agrees sr' (files e)" "sr_ring sr' = after_add i sr" by simp_all
  moreover have "ls_agrees ls (files e)"
    using ls_agrees_cong(1) [OF only_in_files [OF O] r(2) letters_not_seen [OF r(1)]] r(4) by simp
  ultimately show "letters_ready base ls sr' (files e) \<and> sr_ring sr' = after_add i sr"
    using r same [OF only_in_files [OF O]] sr_path_add [OF assms(1)] by (simp add: letters_ready_def)
qed

lemma last_lines_last: "0 < c \<Longrightarrow> last_lines c (last_lines c xs @ ys) = last_lines c (xs @ ys)"
  by (cases "length xs \<le> c") (simp_all add: last_lines_def add.commute)

lemma push_last: "0 < c \<Longrightarrow> length ring \<le> c \<Longrightarrow> push_bounded c i ring = last_lines c (ring @ [i])"
  using last_lines_snoc [of c ring i] by (simp add: last_lines_short)

lemma apply_letters_spec:
  assumes "apply_letters L st dup ls sr d = (ok, st', dup', ls', sr', e)" "letters_ready base ls sr (files d)"
    and "\<forall>l \<in> set L. is_i64 (l_date l)"
    and "seen_stored S0 (ls_dir ls) (sr_path sr) (sr_capacity sr) (files d)"
  shows "through (seen_stored S0 (ls_dir ls) (sr_path sr) (sr_capacity sr)) d e \<and>
    only_in (in_dir base k_letters_dir \<union> named base k_seen_file) d e \<and>
    (ok \<longrightarrow> letters_ready base ls' sr' (files e) \<and> sr_capacity sr' = sr_capacity sr \<and>
      (\<exists>new. sr_ring sr' = last_lines (sr_capacity sr) (sr_ring sr @ new) \<and> length new \<le> length L \<and>
        (\<forall>l \<in> set L. l_id l \<in> set (sr_ring sr) \<union> set new)))"
  using assms
proof (induction L arbitrary: st dup ls sr d)
  case Nil
  then have "length (sr_ring sr) \<le> sr_capacity sr" by (auto simp: letters_ready_def seen_agrees_def length_last_lines)
  with Nil show ?case by (auto simp: last_lines_short intro!: through_refl exI [of _ "[]"])
next
  case (Cons l L)
  let ?c = "sr_capacity sr"
  have c: "0 < ?c" "length (sr_ring sr) \<le> ?c"
    using Cons.prems(2) by (auto simp: letters_ready_def seen_agrees_def length_last_lines)
  show ?case
  proof (cases "seen_contains sr (l_id l)")
    case True
    with Cons.prems(1) have "apply_letters L st (dup + 1) ls sr d = (ok, st', dup', ls', sr', e)" by simp
    from Cons.IH [OF this Cons.prems(2) _ Cons.prems(4)] Cons.prems(3) True
    show ?thesis by (fastforce simp: seen_contains_def)
  next
    case False
    obtain o1 ls1 d1 where p: "ls_put l ls d = (o1, ls1, d1)" using prod_cases3 by blast
    obtain o2 sr1 d2 where a: "seen_add (l_id l) sr d1 = (o2, sr1, d2)" using prod_cases3 by blast
    have date: "is_i64 (l_date l)" using Cons.prems(3) by simp
    note P = put_step [OF p Cons.prems(2) date Cons.prems(4)]
    have base: "dir_ok base" "ls_dir ls = join base k_letters_dir" "sr_path sr = join base k_seen_file"
      using Cons.prems(2) by (auto simp: letters_ready_def)
    have O1: "only_in (in_dir base k_letters_dir \<union> named base k_seen_file) d d1"
      by (rule only_in_mono [OF ls_put_only [OF p base(1,2)]]) simp
    have O2: "only_in (in_dir base k_letters_dir \<union> named base k_seen_file) d1 d2"
      by (rule only_in_mono [OF seen_add_only [OF a base(3,1)]]) simp
    show ?thesis
    proof (cases o1)
      case no: False
      with Cons.prems(1) False p have "ok = False" "e = d1" by auto
      with P(1) O1 show ?thesis by simp
    next
      case o1: True
      note A = add_step [OF a conjunct1 [OF P(3) [OF o1]] , unfolded P(2), OF through_files [OF P(1)]
          conjunct2 [OF P(3) [OF o1]]]
      have T: "through (seen_stored S0 (ls_dir ls) (sr_path sr) ?c) d d2"
        using P(1) A(1) by (rule through_trans)
      note O = only_in_trans [OF O1 O2]
      show ?thesis
      proof (cases o2)
        case no: False
        with Cons.prems(1) False p o1 a have "ok = False" "e = d2" by auto
        with T O show ?thesis by simp
      next
        case o2: True
        from Cons.prems(1) False p o1 a o2
        have rest: "apply_letters L (st + 1) dup ls1 sr1 d2 = (ok, st', dup', ls', sr', e)" by simp
        have ready: "letters_ready base ls1 sr1 (files d2)" and ring: "sr_ring sr1 = after_add (l_id l) sr"
          using A(3) [OF o2] by auto
        have "seen_stored S0 (ls_dir ls1) (sr_path sr1) (sr_capacity sr1) (files d2)"
          using through_files [OF A(1)] A(2) P(2) by simp
        from Cons.IH [OF rest ready _ this] Cons.prems(3) A(2) P(2)
        have IH: "through (seen_stored S0 (ls_dir ls) (sr_path sr) ?c) d2 e"
          "only_in (in_dir base k_letters_dir \<union> named base k_seen_file) d2 e"
          "ok \<Longrightarrow> letters_ready base ls' sr' (files e) \<and> sr_capacity sr' = ?c \<and>
            (\<exists>new. sr_ring sr' = last_lines ?c (sr_ring sr1 @ new) \<and> length new \<le> length L \<and>
              (\<forall>l \<in> set L. l_id l \<in> set (sr_ring sr1) \<union> set new))"
          by auto
        have r1: "sr_ring sr1 = last_lines ?c (sr_ring sr @ [l_id l])"
          using ring False c by (simp add: after_add_def seen_contains_def push_last)
        have "\<exists>new. sr_ring sr' = last_lines ?c (sr_ring sr @ new) \<and> length new \<le> length (l # L) \<and>
            (\<forall>m \<in> set (l # L). l_id m \<in> set (sr_ring sr) \<union> set new)" if ok
        proof -
          from IH(3) [OF that] obtain new where n: "sr_ring sr' = last_lines ?c (sr_ring sr1 @ new)"
            "length new \<le> length L" "\<forall>m \<in> set L. l_id m \<in> set (sr_ring sr1) \<union> set new" by auto
          have "sr_ring sr' = last_lines ?c (sr_ring sr @ (l_id l # new))"
            unfolding n(1) r1 using last_lines_last [OF c(1), of "sr_ring sr @ [l_id l]" new] by simp
          moreover have "set (sr_ring sr1) \<subseteq> insert (l_id l) (set (sr_ring sr))"
            unfolding r1 using set_last_lines [of ?c "sr_ring sr @ [l_id l]"] by auto
          ultimately show ?thesis using n by (intro exI [of _ "l_id l # new"]) auto
        qed
        with IH through_trans [OF T IH(1)] only_in_trans [OF O IH(2)] show ?thesis by simp
      qed
    qed
  qed
qed

subsection \<open>The cursor moves last\<close>

definition cursor_on :: "string \<Rightarrow> fs \<Rightarrow> string" where
  "cursor_on base fs = ss_cursor (or_else (slot_on decode_state (join base k_state_file) fs) default_state)"

text \<open>What must be on the medium before the cursor may move: no acked letter is still to be sent, the
  contact list of the response, and every letter's id recorded.\<close>

definition acks_settled :: "string \<Rightarrow> ack list \<Rightarrow> fs \<Rightarrow> bool" where
  "acks_settled base acks fs \<longleftrightarrow>
     (\<forall>a \<in> set acks. \<forall>x. ox_on base fs (ack_local_id a) = Some x \<longrightarrow> oe_rejected x)"

definition applied :: "string \<Rightarrow> response \<Rightarrow> string set \<Rightarrow> nat \<Rightarrow> fs \<Rightarrow> bool" where
  "applied base r S0 cap fs \<longleftrightarrow> acks_settled base (rs_acks r) fs \<and>
     (\<forall>ay. rs_ayllu r = Some ay \<longrightarrow> slot_on decode_snapshot (join base k_snapshot_file) fs = Some ay) \<and>
     (\<forall>l \<in> set (rs_letters r). l_id l \<in> S0 \<union> set (seen_on (join base k_seen_file) cap fs))"

definition entries_dated :: "outbox \<Rightarrow> bool" where
  "entries_dated s \<longleftrightarrow> (\<forall>x \<in> set (ox_entries s). is_i64 (oe_composed_at x))"

definition state_ready :: "string \<Rightarrow> state_store \<Rightarrow> fs \<Rightarrow> bool" where
  "state_ready base st fs \<longleftrightarrow> st_path st = join base k_state_file \<and> state_ok (st_state st) \<and>
     durable_file (join base k_state_file) fs \<and> cursor_on base fs = ss_cursor (st_state st)"

definition world_ready :: "string \<Rightarrow> world \<Rightarrow> bool" where
  "world_ready base w \<longleftrightarrow> letters_ready base (w_letters w) (w_seen w) (files (w_io w)) \<and>
     mem_inv base (w_outbox w) (files (w_io w)) \<and> ox_agrees (w_outbox w) (files (w_io w)) \<and>
     entries_dated (w_outbox w) \<and> state_ready base (w_state w) (files (w_io w)) \<and>
     ay_snapshot_path (w_contacts w) = join base k_snapshot_file \<and>
     durable_file (join base k_snapshot_file) (files (w_io w)) \<and>
     sg_path (w_settings w) = join base k_settings_file"

lemma same_but_crash: "same_but S fs fs' \<Longrightarrow> same_but S (crash k fs) (crash k fs')"
  by (simp add: same_but_def lookup_crash)

lemma cursor_on_cong: "same_but S fs fs' \<Longrightarrow> join base k_state_file \<notin> S \<Longrightarrow> cursor_on base fs' = cursor_on base fs"
  by (simp add: cursor_on_def slot_on_cong)

lemma cursor_on_crash: "durable_file (join base k_state_file) fs \<Longrightarrow> cursor_on base (crash k fs) = cursor_on base fs"
  by (simp add: cursor_on_def slot_on_crash)

lemma ox_on_same:
  assumes "same_but S fs fs'" "S \<inter> in_dir base k_outbox_dir = {}"
  shows "ox_on base fs' = ox_on base fs"
proof -
  have "lookup fs' (join (join base k_outbox_dir) i) = lookup fs (join (join base k_outbox_dir) i)"
    if "name_is_safe i" for i
  proof -
    have "join (join base k_outbox_dir) i \<in> in_dir base k_outbox_dir"
      using safe_no_slash [OF that] by (auto simp: in_dir_def)
    with assms show ?thesis by (auto simp: same_but_def)
  qed
  then show ?thesis unfolding ox_on_def by (intro outbox_on_cong) auto
qed

lemma files_apart:
  assumes "dir_ok base"
  shows "named base k_state_file \<inter> in_dir base k_outbox_dir = {}" "named base k_snapshot_file \<inter> in_dir base k_outbox_dir = {}"
    "named base k_settings_file \<inter> in_dir base k_outbox_dir = {}" "named base k_seen_file \<inter> in_dir base k_outbox_dir = {}"
    "in_dir base k_letters_dir \<inter> in_dir base k_outbox_dir = {}"
    "join base k_state_file \<notin> in_dir base k_outbox_dir" "join base k_state_file \<notin> named base k_snapshot_file"
    "join base k_state_file \<notin> in_dir base k_letters_dir \<union> named base k_seen_file"
    "join base k_state_file \<notin> named base k_settings_file"
    "join base k_snapshot_file \<notin> named base k_state_file" "join base k_snapshot_file \<notin> named base k_settings_file"
    "join base k_snapshot_file \<notin> in_dir base k_letters_dir \<union> named base k_seen_file"
    "join base k_seen_file \<notin> in_dir base k_letters_dir" "join base k_seen_file \<notin> named base k_state_file"
    "join base k_seen_file \<notin> named base k_settings_file"
    "join base k_snapshot_file \<notin> in_dir base k_outbox_dir" "join base k_seen_file \<notin> in_dir base k_outbox_dir"
    "join base k_seen_file \<notin> named base k_snapshot_file"
    "named base k_state_file \<inter> in_dir base k_letters_dir = {}" "named base k_snapshot_file \<inter> in_dir base k_letters_dir = {}"
    "in_dir base k_outbox_dir \<inter> in_dir base k_letters_dir = {}"
proof -
  note N = plain_names and D = names_differ
  have a: "in_dir base sub \<inter> named base n = {}" if "plain_name sub" "plain_name n" for sub n
    by (rule in_dir_named_apart [OF assms that])
  have b: "named base m \<inter> named base n = {}" if "plain_name m" "plain_name n" "m \<noteq> n" for m n
    by (rule named_apart [OF assms that])
  have mem: "join base n \<in> named base n" for n by (simp add: named_def)
  show "named base k_state_file \<inter> in_dir base k_outbox_dir = {}" "named base k_snapshot_file \<inter> in_dir base k_outbox_dir = {}"
    "named base k_settings_file \<inter> in_dir base k_outbox_dir = {}" "named base k_seen_file \<inter> in_dir base k_outbox_dir = {}"
    "named base k_state_file \<inter> in_dir base k_letters_dir = {}" "named base k_snapshot_file \<inter> in_dir base k_letters_dir = {}"
    using a N by blast+
  show "in_dir base k_letters_dir \<inter> in_dir base k_outbox_dir = {}" "in_dir base k_outbox_dir \<inter> in_dir base k_letters_dir = {}"
    using in_dirs_apart [OF assms] N D by auto
  show "join base k_state_file \<notin> in_dir base k_outbox_dir" "join base k_state_file \<notin> named base k_snapshot_file"
    "join base k_state_file \<notin> in_dir base k_letters_dir \<union> named base k_seen_file"
    "join base k_state_file \<notin> named base k_settings_file"
    using a [of k_outbox_dir k_state_file] a [of k_letters_dir k_state_file] b [of k_state_file k_snapshot_file]
      b [of k_state_file k_seen_file] b [of k_state_file k_settings_file] mem [of k_state_file] N D by auto
  show "join base k_snapshot_file \<notin> named base k_state_file" "join base k_snapshot_file \<notin> named base k_settings_file"
    "join base k_snapshot_file \<notin> in_dir base k_letters_dir \<union> named base k_seen_file"
    "join base k_snapshot_file \<notin> in_dir base k_outbox_dir"
    using a [of k_outbox_dir k_snapshot_file] a [of k_letters_dir k_snapshot_file] b [of k_snapshot_file k_state_file]
      b [of k_snapshot_file k_seen_file] b [of k_snapshot_file k_settings_file] mem [of k_snapshot_file] N D by auto
  show "join base k_seen_file \<notin> in_dir base k_letters_dir" "join base k_seen_file \<notin> named base k_state_file"
    "join base k_seen_file \<notin> named base k_settings_file" "join base k_seen_file \<notin> in_dir base k_outbox_dir"
    "join base k_seen_file \<notin> named base k_snapshot_file"
    using a [of k_outbox_dir k_seen_file] a [of k_letters_dir k_seen_file] b [of k_seen_file k_state_file]
      b [of k_seen_file k_settings_file] b [of k_seen_file k_snapshot_file] mem [of k_seen_file] N D by auto
qed

text \<open>A run that leaves the sync state's file alone leaves the cursor alone.\<close>

definition cursor_kept :: "string \<Rightarrow> string \<Rightarrow> fs \<Rightarrow> bool" where
  "cursor_kept base c fs \<longleftrightarrow> durable_file (join base k_state_file) fs \<and> cursor_on base fs = c"

lemma cursor_kept_crash: "cursor_kept base c fs \<Longrightarrow> cursor_on base (crash k fs) = c"
  by (simp add: cursor_kept_def cursor_on_crash)

lemma cursor_kept_only:
  assumes "only_in S d e" "join base k_state_file \<notin> S" "cursor_kept base c (files d)"
  shows "through (cursor_kept base c) d e"
  by (rule only_in_through [OF assms(1)])
    (use assms(2,3) cursor_on_cong slot_on_cong in \<open>simp add: cursor_kept_def durable_file_def same_but_def cursor_on_def slot_on_def\<close>)

lemma apply_acks_spec:
  assumes "apply_acks as n s d = (ok, n', s', e)" "mem_inv base s (files d)" "ox_agrees s (files d)" "entries_dated s"
  shows "only_in (in_dir base k_outbox_dir) d e \<and> (ok \<longrightarrow> mem_inv base s' (files e) \<and>
    ox_agrees s' (files e) \<and> entries_dated s' \<and> acks_settled base as (files e) \<and>
    (\<forall>i. (\<forall>x. ox_on base (files d) i = Some x \<longrightarrow> oe_rejected x) \<longrightarrow>
         (\<forall>x. ox_on base (files e) i = Some x \<longrightarrow> oe_rejected x)))"
  using assms
proof (induction "as" arbitrary: n s d)
  case Nil
  then show ?case by (simp add: acks_settled_def)
next
  case (Cons a rest)
  let ?i = "ack_local_id a" and ?st = "ack_stat a"
  obtain o1 s1 d1 where r: "outbox_resolve ?i ?st s d = (o1, s1, d1)" using prod_cases3 by blast
  note m = mem_inv_dir [OF Cons.prems(2)]
  have dated: "\<And>x. x \<in> set (ox_entries s) \<Longrightarrow> is_i64 (oe_composed_at x)"
    using Cons.prems(4) by (simp add: entries_dated_def)
  have "ox_high_water s < 2 ^ 63"
    using m counter_on_lt [of "join base k_local_id_file" "files d"] by (simp add: fs_inv_def ox_counter_def)
  then have safe: "\<forall>x \<in> set (ox_entries s). name_is_safe (oe_local_id x)"
    using Cons.prems(2) ids_below_safe by (fastforce simp: mem_inv_def)
  have O1: "only_in (in_dir base k_outbox_dir) d d1"
    by (rule resolve_only [OF r _ _ safe]) (use m in simp_all)
  note R = resolve_result [OF r Cons.prems(2,3) dated]
  have M1: "mem_inv base s1 (files d1)" using resolve_inv [OF r Cons.prems(2) dated] by simp
  have D1: "entries_dated s1"
  proof -
    have "is_i64 (oe_composed_at x)" if "x \<in> set (reject_entry ?i ?st es)" "\<forall>x \<in> set es. is_i64 (oe_composed_at x)" for x es
      using that by (induction ?i ?st es rule: reject_entry.induct) (auto split: if_splits)
    moreover have "ox_entries s1 = ox_entries s \<or> ox_entries s1 = filter (\<lambda>e. oe_local_id e \<noteq> ?i) (ox_entries s) \<or>
        ox_entries s1 = reject_entry ?i ?st (ox_entries s)"
      using r by (auto simp: outbox_resolve_def ox_erase_def Let_def split: option.splits if_splits prod.splits)
    ultimately show ?thesis using Cons.prems(4) unfolding entries_dated_def by auto
  qed
  show ?case
  proof (cases o1)
    case False
    with Cons.prems(1) r O1 show ?thesis by simp
  next
    case True
    have on: "outbox_on (ox_dir s1) = ox_on base" using mem_inv_dir [OF M1] by (simp add: ox_on_def)
    have agr1: "ox_agrees s1 (files d1)" using R True by simp
    have on0: "outbox_on (ox_dir s) = ox_on base" using m by (simp add: ox_on_def)
    have fi: "ox_on base (files d1) ?i = (if ?st = kSent then None
       else map_option (\<lambda>x. x\<lparr>oe_rejected := True, oe_reject_status := ?st\<rparr>) (ox_find s ?i))"
    proof -
      have "ox_find s1 ?i = ox_on base (files d1) ?i" using agr1 unfolding ox_agrees_def on by blast
      moreover have "ox_find s1 ?i = (if ?st = kSent then None
         else map_option (\<lambda>x. x\<lparr>oe_rejected := True, oe_reject_status := ?st\<rparr>) (ox_find s ?i))"
        using R True by blast
      ultimately show ?thesis by (rule subst)
    qed
    have rest: "apply_acks rest (n + 1) s1 d1 = (ok, n', s', e)" using Cons.prems(1) r True by simp
    note IH = Cons.IH [OF rest M1 agr1 D1]
    have other: "ox_on base (files d1) j = ox_on base (files d) j" if "j \<noteq> ?i" for j
      using through_files [OF R [THEN conjunct1]] that by blast
    have settled1: "\<forall>x. ox_on base (files d1) ?i = Some x \<longrightarrow> oe_rejected x"
      using fi by (auto split: if_splits)
    have keep: "\<forall>x. ox_on base (files d1) j = Some x \<longrightarrow> oe_rejected x"
      if "\<forall>x. ox_on base (files d) j = Some x \<longrightarrow> oe_rejected x" for j
      using that other [of j] settled1 by (cases "j = ?i") simp_all
    have O: "only_in (in_dir base k_outbox_dir) d e" using only_in_trans [OF O1] IH by blast
    show ?thesis
    proof (intro conjI O impI)
      assume ok
      then have I: "mem_inv base s' (files e)" "ox_agrees s' (files e)" "entries_dated s'"
        "acks_settled base rest (files e)"
        "\<And>i. \<forall>x. ox_on base (files d1) i = Some x \<longrightarrow> oe_rejected x \<Longrightarrow>
           \<forall>x. ox_on base (files e) i = Some x \<longrightarrow> oe_rejected x" using IH by auto
      show "mem_inv base s' (files e)" "ox_agrees s' (files e)" "entries_dated s'" by (rule I)+
      show "acks_settled base (a # rest) (files e)"
        using I(4) I(5) [OF settled1] by (auto simp: acks_settled_def)
      show "\<forall>i. (\<forall>x. ox_on base (files d) i = Some x \<longrightarrow> oe_rejected x) \<longrightarrow>
         (\<forall>x. ox_on base (files e) i = Some x \<longrightarrow> oe_rejected x)"
        using I(5) keep by blast
    qed
  qed
qed

end
