(* ===== verification/Sync_Order.thy ===== *)
theory Sync_Order
  imports Syncengine
begin

text \<open>
  The ordering argument of \<^verbatim>\<open>components/syncengine/syncengine.cpp\<close>: \<open>apply_response\<close> moves the cursor
  only after everything the response carried is on the medium. Each step is shown to leave the files
  of the others alone, so what a step settled is still there when the cursor is written.
\<close>

subsection \<open>The sync state's file\<close>

lemma ring_on_medium:
  assumes "seen_agrees sr fs"
  shows "seen_on (sr_path sr) (sr_capacity sr) (crash k fs) = sr_ring sr"
proof (cases "lookup fs (sr_path sr)")
  case None
  then show ?thesis using seen_agrees_on [OF assms] by (simp add: seen_on_def seen_lines_def lookup_crash)
next
  case (Some f)
  with assms obtain xs where xs: "lookup fs (sr_path sr) = Some (whole (as_lines xs))"
    "\<forall>l \<in> set xs. newline \<notin> set l \<and> l \<noteq> []" "sr_ring sr = last_lines (sr_capacity sr) xs"
    "distinct (sr_ring sr)" "0 < sr_capacity sr"
    by (auto simp: seen_agrees_def)
  with seen_on_whole [of fs "sr_path sr" xs "sr_capacity sr" k] show ?thesis by simp
qed

lemma state_set_ready:
  assumes "state_set f st d = (ok, st', e)" "state_ready base st (files d)" "dir_ok base"
    and "state_ok (f (st_state st))" "ss_cursor (f (st_state st)) = ss_cursor (st_state st)"
  shows "through (cursor_kept base (ss_cursor (st_state st))) d e"
    and "ok \<Longrightarrow> state_ready base st' (files e) \<and> ss_cursor (st_state st') = ss_cursor (st_state st)"
proof -
  have p: "st_path st = join base k_state_file" using assms(2) by (simp add: state_ready_def)
  have dur: "durable_file (st_path st) (files d)" using assms(2) p by (simp add: state_ready_def)
  note S = state_set_spec [OF assms(1,4) dur]
  show T: "through (cursor_kept base (ss_cursor (st_state st))) d e"
  proof (rule through_mono [OF S(1)])
    fix fs
    assume a: "old_or_new decode_state (st_path st) (files d) (on_flash (f (st_state st))) fs"
    then have df: "durable_file (join base k_state_file) fs" by (simp add: old_or_new_def p)
    have "slot_on decode_state (join base k_state_file) fs
        \<in> {slot_on decode_state (join base k_state_file) (files d), Some (on_flash (f (st_state st)))}"
      using old_or_newD [OF a, of "\<lambda>_. 0"] slot_on_crash [OF df, of decode_state "\<lambda>_. 0"] p by simp
    then show "cursor_kept base (ss_cursor (st_state st)) fs"
      using assms(2,5) df by (auto simp: cursor_kept_def cursor_on_def state_ready_def on_flash_def or_else_def)
  qed
  show "state_ready base st' (files e) \<and> ss_cursor (st_state st') = ss_cursor (st_state st)" if ok
    using that S(2) through_files [OF T] assms(4,5) p by (simp add: state_ready_def cursor_kept_def)
qed

subsection \<open>The contact list\<close>

lemma apply_ayllu_spec:
  assumes "apply_ayllu ay w = (ok, w')" "dir_ok base" "state_ready base (w_state w) (files (w_io w))"
    and "ay_snapshot_path (w_contacts w) = join base k_snapshot_file"
    and "durable_file (join base k_snapshot_file) (files (w_io w))"
    and "\<And>a. ay = Some a \<Longrightarrow> snapshot_ok a"
  shows "through (cursor_kept base (ss_cursor (st_state (w_state w)))) (w_io w) (w_io w')"
    and "only_in (named base k_snapshot_file \<union> named base k_state_file) (w_io w) (w_io w')"
    and "w_outbox w' = w_outbox w \<and> w_letters w' = w_letters w \<and> w_seen w' = w_seen w \<and>
      w_settings w' = w_settings w \<and> w_clock w' = w_clock w"
    and "ok \<Longrightarrow> state_ready base (w_state w') (files (w_io w')) \<and>
      ss_cursor (st_state (w_state w')) = ss_cursor (st_state (w_state w)) \<and>
      durable_file (join base k_snapshot_file) (files (w_io w')) \<and>
      (\<forall>a. ay = Some a \<longrightarrow> slot_on decode_snapshot (join base k_snapshot_file) (files (w_io w')) = Some a)"
proof -
  let ?c = "ss_cursor (st_state (w_state w))" and ?S = "named base k_snapshot_file \<union> named base k_state_file"
  let ?d = "w_io w"
  have k0: "cursor_kept base ?c (files ?d)" using assms(3) by (simp add: cursor_kept_def state_ready_def)
  have "through (cursor_kept base ?c) ?d (w_io w') \<and> only_in ?S ?d (w_io w') \<and>
      (w_outbox w' = w_outbox w \<and> w_letters w' = w_letters w \<and> w_seen w' = w_seen w \<and>
       w_settings w' = w_settings w \<and> w_clock w' = w_clock w) \<and>
      (ok \<longrightarrow> state_ready base (w_state w') (files (w_io w')) \<and> ss_cursor (st_state (w_state w')) = ?c \<and>
        durable_file (join base k_snapshot_file) (files (w_io w')) \<and>
        (\<forall>a. ay = Some a \<longrightarrow> slot_on decode_snapshot (join base k_snapshot_file) (files (w_io w')) = Some a))"
  proof (cases ay)
    case None
    with assms k0 show ?thesis by (auto simp: apply_ayllu_def intro: through_refl)
  next
    case (Some a)
    obtain o1 c1 d1 where s: "apply_snapshot a (w_contacts w) ?d = (o1, c1, d1)" using prod_cases3 by blast
    obtain o2 st2 d2 where v: "set_ayllu_version (wa_version a) (w_state w) d1 = (o2, st2, d2)"
      using prod_cases3 by blast
    have wr: "write_atomic (join base k_snapshot_file) (encode_snapshot a) ?d = (o1, d1)"
      using s assms(4) by (cases "write_atomic (join base k_snapshot_file) (encode_snapshot a) ?d")
        (auto simp: apply_snapshot_def split: if_splits)
    have O1: "only_in (named base k_snapshot_file) ?d d1" by (rule apply_snapshot_only [OF s assms(4,2)])
    have T1: "through (cursor_kept base ?c) ?d d1"
      by (rule cursor_kept_only [OF O1 files_apart(7) [OF assms(2)] k0])
    have sr1: "state_ready base (w_state w) (files d1)"
      using assms(3) through_files [OF T1] by (simp add: state_ready_def cursor_kept_def)
    have O1': "only_in ?S ?d d1" by (rule only_in_mono [OF O1]) simp
    show ?thesis
    proof (cases "o1 = True")
      case False
      then have "ok = False" "w' = w\<lparr>w_contacts := c1, w_io := d1\<rparr>"
        using assms(1) Some s by (simp_all add: apply_ayllu_def)
      with T1 O1' show ?thesis by simp
    next
      case True
      have p: "st_path (w_state w) = join base k_state_file" using assms(3) by (simp add: state_ready_def)
      have sok: "state_ok ((st_state (w_state w))\<lparr>ss_ayllu_version := wa_version a\<rparr>)"
        using assms(3) assms(6) [OF Some] by (simp add: state_ready_def state_ok_def snapshot_ok_def)
      note V = state_set_ready [OF v [unfolded setters] sr1 assms(2) sok]
      have O2: "only_in (named base k_state_file) d1 d2"
        by (rule state_set_only [OF v [unfolded setters] p assms(2)])
      have O2': "only_in ?S d1 d2" by (rule only_in_mono [OF O2]) simp
      have slot1: "slot_on decode_snapshot (join base k_snapshot_file) (files d1) = Some a"
        "durable_file (join base k_snapshot_file) (files d1)"
      proof -
        from snapshot_file.save_ok [OF _ assms(6) [OF Some]] wr True
        show dd: "durable_file (join base k_snapshot_file) (files d1)" by simp
        have "slot_on decode_snapshot (join base k_snapshot_file) (crash (\<lambda>_. 0) (files d1)) = Some a"
          using snapshot_file.save_ok(1) [OF wr [unfolded True] assms(6) [OF Some]] .
        then
        show "slot_on decode_snapshot (join base k_snapshot_file) (files d1) = Some a"
          by (simp add: slot_on_crash [OF dd])
      qed
      have slot2: "slot_on decode_snapshot (join base k_snapshot_file) (files d2) = Some a"
        "durable_file (join base k_snapshot_file) (files d2)"
        using slot_on_cong [OF only_in_files [OF O2] files_apart(10) [OF assms(2)], of decode_snapshot] slot1
        by simp_all
      have w': "ok = o2" "w' = w\<lparr>w_contacts := c1, w_state := st2, w_io := d2\<rparr>"
        using assms(1) Some s True v by (simp_all add: apply_ayllu_def)
      show ?thesis
        using through_trans [OF T1 V(1)] only_in_trans [OF O1' O2'] V(2) slot2 Some w' by simp
    qed
  qed
  then show "through (cursor_kept base ?c) ?d (w_io w')" "only_in ?S ?d (w_io w')"
    "w_outbox w' = w_outbox w \<and> w_letters w' = w_letters w \<and> w_seen w' = w_seen w \<and>
       w_settings w' = w_settings w \<and> w_clock w' = w_clock w"
    "ok \<Longrightarrow> state_ready base (w_state w') (files (w_io w')) \<and> ss_cursor (st_state (w_state w')) = ?c \<and>
        durable_file (join base k_snapshot_file) (files (w_io w')) \<and>
        (\<forall>a. ay = Some a \<longrightarrow> slot_on decode_snapshot (join base k_snapshot_file) (files (w_io w')) = Some a)"
    by blast+
qed

subsection \<open>The letters and the retention\<close>

lemma step_letters_spec:
  assumes "step_letters keep r out w = (ok, out', w')"
    and ready: "letters_ready base (w_letters w) (w_seen w) (files (w_io w))"
    and "\<forall>l \<in> set (rs_letters r). is_i64 (l_date l)"
    and cap: "length (rs_letters r) \<le> sr_capacity (w_seen w)"
  shows "only_in (in_dir base k_letters_dir \<union> named base k_seen_file) (w_io w) (w_io w')"
    and "w_outbox w' = w_outbox w \<and> w_contacts w' = w_contacts w \<and> w_state w' = w_state w \<and>
      w_settings w' = w_settings w \<and> w_clock w' = w_clock w"
    and "ok \<Longrightarrow> \<forall>k. \<forall>l \<in> set (rs_letters r). l_id l \<in> set (sr_ring (w_seen w)) \<union>
      set (seen_on (join base k_seen_file) (sr_capacity (w_seen w)) (crash k (files (w_io w'))))"
proof -
  let ?S = "in_dir base k_letters_dir \<union> named base k_seen_file"
  obtain o1 n m ls sr d1 where a:
    "apply_letters (rs_letters r) 0 0 (w_letters w) (w_seen w) (w_io w) = (o1, n, m, ls, sr, d1)"
    using prod_cases6 by blast
  have "seen_stored UNIV (ls_dir (w_letters w)) (sr_path (w_seen w)) (sr_capacity (w_seen w)) (files (w_io w))"
    by (simp add: seen_stored_def)
  note A = apply_letters_spec [OF a ready assms(3) this]
  have O1: "only_in ?S (w_io w) d1" using A by blast
  obtain n2 ls2 d2 where v: "evict_beyond keep ls d1 = (n2, ls2, d2)" using prod_cases3 by blast
  have E: "only_in (in_dir base k_letters_dir) d1 d2" if o1
  proof -
    have L: "letters_ready base ls sr (files d1)" using A that by blast
    have "name_is_safe (m_id m)" if "m \<in> set (ls_index ls)" for m
    proof -
      have "find_meta ls (m_id m) \<noteq> None" using that by (auto simp: find_meta_def find_None_iff)
      moreover have "find_meta ls (m_id m) = map_option meta_of_stored (letters_on (ls_dir ls) (files d1) (m_id m))"
        using L unfolding letters_ready_def ls_agrees_def by blast
      ultimately show ?thesis by (auto simp: letters_on_def records_on_def split: if_splits)
    qed
    with evict_beyond_only [OF v, of base] L show ?thesis by (simp add: letters_ready_def)
  qed
  have w': "ok = o1" "w_outbox w' = w_outbox w \<and> w_contacts w' = w_contacts w \<and> w_state w' = w_state w \<and>
      w_settings w' = w_settings w \<and> w_clock w' = w_clock w" "w_seen w' = sr"
    "w_io w' = (if o1 \<and> 0 < n then d2 else d1)"
    using assms(1) a v by (auto simp: step_letters_def Let_def split: if_splits)
  show "w_outbox w' = w_outbox w \<and> w_contacts w' = w_contacts w \<and> w_state w' = w_state w \<and>
      w_settings w' = w_settings w \<and> w_clock w' = w_clock w" by (rule w'(2))
  show "only_in ?S (w_io w) (w_io w')"
    using w'(4) O1 only_in_trans [OF O1 only_in_mono [OF E, of ?S]] by auto
  assume ok
  with A w'(1) obtain new where new: "sr_ring sr = last_lines (sr_capacity (w_seen w)) (sr_ring (w_seen w) @ new)"
    "length new \<le> length (rs_letters r)" "\<forall>l \<in> set (rs_letters r). l_id l \<in> set (sr_ring (w_seen w)) \<union> set new"
    and L: "letters_ready base ls sr (files d1)" "sr_capacity sr = sr_capacity (w_seen w)" by blast
  have sub: "set new \<subseteq> set (sr_ring sr)"
    using new(2) cap by (auto simp: new(1) last_lines_def)
  have "seen_agrees sr (files (w_io w'))"
  proof -
    have s1: "seen_agrees sr (files d1)" and p: "sr_path sr = join base k_seen_file" and b: "dir_ok base"
      using L by (simp_all add: letters_ready_def)
    have "seen_agrees sr (files d2)" if o1
      using seen_agrees_cong(1) [OF only_in_files [OF E [OF that]]] files_apart(13) [OF b] s1 p by simp
    with s1 w'(4) show ?thesis by simp
  qed
  from ring_on_medium [OF this] L have
    "seen_on (join base k_seen_file) (sr_capacity (w_seen w)) (crash k (files (w_io w'))) = sr_ring sr" for k
    by (simp add: letters_ready_def)
  with sub new(3) show "\<forall>k. \<forall>l \<in> set (rs_letters r). l_id l \<in> set (sr_ring (w_seen w)) \<union>
      set (seen_on (join base k_seen_file) (sr_capacity (w_seen w)) (crash k (files (w_io w'))))"
    by auto
qed

lemma session_on_config_only:
  assumes "sg_path (w_settings w) = join base k_settings_file" "dir_ok base"
  shows "only_in (named base k_settings_file) (w_io w) (w_io (session_on_config c w))"
    and "w_outbox (session_on_config c w) = w_outbox w \<and> w_contacts (session_on_config c w) = w_contacts w \<and>
      w_state (session_on_config c w) = w_state w \<and> w_seen (session_on_config c w) = w_seen w"
proof -
  obtain o1 s d where a: "apply_config c (w_settings w) (w_io w) = (o1, s, d)" using prod_cases3 by blast
  with settings_commit_only [OF a [unfolded apply_config_def] assms]
  show "only_in (named base k_settings_file) (w_io w) (w_io (session_on_config c w))"
    "w_outbox (session_on_config c w) = w_outbox w \<and> w_contacts (session_on_config c w) = w_contacts w \<and>
      w_state (session_on_config c w) = w_state w \<and> w_seen (session_on_config c w) = w_seen w"
    by (simp_all add: session_on_config_def)
qed

subsection \<open>Steps 1 to 5\<close>

lemma ox_on_durable_crash: "fs_inv base n fs \<Longrightarrow> ox_on base (crash k fs) = ox_on base fs"
  by (simp add: fs_inv_def ox_durable_def ox_on_def outbox_on_def records_on_crash)

lemma acks_settled_crash: "fs_inv base n fs \<Longrightarrow> acks_settled base as (crash k fs) = acks_settled base as fs"
  by (simp add: acks_settled_def ox_on_durable_crash)

text \<open>What a response must satisfy to be stored as it is: the widths the decoder checks.\<close>

definition response_ok :: "response \<Rightarrow> bool" where
  "response_ok r \<longleftrightarrow> (\<forall>l \<in> set (rs_letters r). is_i64 (l_date l)) \<and>
     (\<forall>a. rs_ayllu r = Some a \<longrightarrow> snapshot_ok a)"

lemma applied_same:
  assumes "same_but (named base k_state_file) fs fs'" "dir_ok base"
  shows "applied base r old cap fs' = applied base r old cap fs"
  unfolding applied_def acks_settled_def ox_on_same [OF assms(1) files_apart(1) [OF assms(2)]]
  using slot_on_cong [OF assms(1) files_apart(10) [OF assms(2)], of decode_snapshot]
    assms(1) files_apart(14) [OF assms(2)]
  by (simp add: seen_on_def seen_lines_def same_but_def)

lemma letters_ready_same:
  assumes "letters_ready base ls sr fs" "same_but S fs fs'" "S \<inter> in_dir base k_letters_dir = {}"
    and "join base k_seen_file \<notin> S"
  shows "letters_ready base ls sr fs'"
  using assms(1) ls_agrees_cong(1) [OF assms(2) _ assms(3)] seen_agrees_cong(1) [OF assms(2)]
    durable_dir_cong [OF assms(2,3)] assms(4)
  unfolding letters_ready_def by metis

lemma before_cursor_spec:
  assumes "apply_before_cursor dp en r w = (ok, out, w')" and ready: "world_ready base w"
    and "dp_on_config dp = session_on_config" and resp: "response_ok r"
    and cap: "length (rs_letters r) \<le> sr_capacity (w_seen w)"
  shows "through (cursor_kept base (ss_cursor (st_state (w_state w)))) (w_io w) (w_io w')"
    and "ok \<Longrightarrow> state_ready base (w_state w') (files (w_io w')) \<and>
      ss_cursor (st_state (w_state w')) = ss_cursor (st_state (w_state w)) \<and>
      (\<forall>k. applied base r (set (sr_ring (w_seen w))) (sr_capacity (w_seen w)) (crash k (files (w_io w'))))"
proof -
  let ?c = "ss_cursor (st_state (w_state w))" and ?K = "join base k_snapshot_file"
  let ?old = "set (sr_ring (w_seen w))" and ?cap = "sr_capacity (w_seen w)"
  let ?goal = "through (cursor_kept base ?c) (w_io w) (w_io w') \<and> (ok \<longrightarrow> state_ready base (w_state w') (files (w_io w')) \<and>
      ss_cursor (st_state (w_state w')) = ?c \<and> (\<forall>k. applied base r ?old ?cap (crash k (files (w_io w')))))"
  note W = ready [unfolded world_ready_def]
  have b: "dir_ok base" using W by (simp add: letters_ready_def)
  have kept0: "cursor_kept base ?c (files (w_io w))" using W by (simp add: cursor_kept_def state_ready_def)
  define w0 where "w0 = step_clock r w"
  have w0: "w_io w0 = w_io w" "w_outbox w0 = w_outbox w" "w_letters w0 = w_letters w" "w_seen w0 = w_seen w"
    "w_state w0 = w_state w" "w_contacts w0 = w_contacts w" "w_settings w0 = w_settings w"
    by (simp_all add: w0_def step_clock_def)
  obtain o1 n ox d1 where A: "apply_acks (rs_acks r) 0 (w_outbox w) (w_io w) = (o1, n, ox, d1)"
    using prod_cases4 by blast
  define w1 where "w1 = w0\<lparr>w_outbox := ox, w_io := d1\<rparr>"
  have acks: "step_acks r no_outcome w0 = (o1, no_outcome\<lparr>oc_acks_applied := n\<rparr>, w1)"
    using A by (simp add: step_acks_def w0 w1_def)
  have S1: "only_in (in_dir base k_outbox_dir) (w_io w) d1"
    "o1 \<Longrightarrow> mem_inv base ox (files d1) \<and> acks_settled base (rs_acks r) (files d1)"
    using apply_acks_spec [OF A] W by blast+
  have T1: "through (cursor_kept base ?c) (w_io w) d1"
    by (rule cursor_kept_only [OF S1(1) files_apart(6) [OF b] kept0])
  have sr1: "state_ready base (w_state w) (files d1)"
    using W through_files [OF T1] by (simp add: state_ready_def cursor_kept_def)
  have K1: "durable_file ?K (files d1)"
    using slot_on_cong [OF only_in_files [OF S1(1)] files_apart(16) [OF b], of decode_snapshot] W by simp
  obtain o2 w2 where Y: "apply_ayllu (rs_ayllu r) w1 = (o2, w2)" by fastforce
  have w1: "w_io w1 = d1" "w_state w1 = w_state w" "w_contacts w1 = w_contacts w" "w_letters w1 = w_letters w"
    "w_seen w1 = w_seen w" "w_settings w1 = w_settings w" "w_outbox w1 = ox"
    by (simp_all add: w1_def w0)
  note S2 = apply_ayllu_spec [OF Y b, unfolded w1, OF sr1]
  have ay: "ay_snapshot_path (w_contacts w) = ?K" using W by simp
  have snap: "snapshot_ok a" if "rs_ayllu r = Some a" for a
    using resp that by (simp add: response_ok_def)
  note S2 = S2 [OF ay K1 snap, simplified]
  have nf: "w_outbox w2 = ox" "w_letters w2 = w_letters w" "w_seen w2 = w_seen w" "w_settings w2 = w_settings w"
    using S2(3) by (simp_all add: w1)
  note step = apply_before_cursor_def Let_def w0_def [symmetric] acks Y
  have ?goal if "\<not> o1"
  proof -
    have "w' = w1" "\<not> ok" using assms(1) that by (simp_all add: step)
    with T1 w1 show ?thesis by simp
  qed
  moreover have ?goal if o1 "\<not> o2"
  proof -
    have "w' = w2" "\<not> ok" using assms(1) that by (simp_all add: step)
    with through_trans [OF T1 S2(1)] show ?thesis by simp
  qed
  moreover have ?goal if o1 o2
  proof -
    let ?S2 = "in_dir base k_outbox_dir \<union> (named base k_snapshot_file \<union> named base k_state_file)"
    let ?S3 = "in_dir base k_letters_dir \<union> named base k_seen_file"
    have T2: "through (cursor_kept base ?c) (w_io w) (w_io w2)" using through_trans [OF T1 S2(1)] .
    have "only_in ?S2 (w_io w) (w_io w2)"
      by (rule only_in_trans [OF only_in_mono [OF S1(1)] only_in_mono [OF S2(2)]]) auto
    note same = only_in_files [OF this]
    have disjoint: "?S2 \<inter> in_dir base k_letters_dir = {}" "join base k_seen_file \<notin> ?S2"
      by (simp_all add: Int_Un_distrib2 files_apart [OF b])
    have R2: "letters_ready base (w_letters w2) (w_seen w2) (files (w_io w2))"
      unfolding nf by (rule letters_ready_same [OF conjunct1 [OF W] same disjoint])
    obtain o3 out3 w3 where L: "step_letters (op_letters_keep (en_options en)) r
        (no_outcome\<lparr>oc_acks_applied := n, oc_ayllu_updated := rs_ayllu r \<noteq> None\<rparr>) w2 = (o3, out3, w3)"
      using prod_cases3 by blast
    have dates: "\<forall>l \<in> set (rs_letters r). is_i64 (l_date l)" using resp by (simp add: response_ok_def)
    note S3 = step_letters_spec [OF L R2 dates, unfolded nf, OF cap]
    have T3: "through (cursor_kept base ?c) (w_io w) (w_io w3)"
      by (rule through_trans [OF T2 cursor_kept_only [OF S3(1) files_apart(8) [OF b] through_files [OF T2]]])
    obtain out4 w4 where C: "step_config dp r out3 w3 = (out4, w4)" by fastforce
    have p3: "sg_path (w_settings w3) = join base k_settings_file" using S3(2) nf W by simp
    have c4: "w4 = w3 \<or> (\<exists>c. w4 = session_on_config c w3)"
      using C assms(3) by (auto simp: step_config_def split: option.splits)
    then have S4: "only_in (named base k_settings_file) (w_io w3) (w_io w4)"
      "w_state w4 = w_state w3"
      using session_on_config_only [OF p3 b] by auto
    have T4: "through (cursor_kept base ?c) (w_io w) (w_io w4)"
      by (rule through_trans [OF T3 cursor_kept_only [OF S4(1) files_apart(9) [OF b] through_files [OF T3]]])
    have res: "ok = o3" "w' = (if o3 then w4 else w3)"
      using assms(1) that L C by (cases o3; simp add: step)+
    have ?goal if o3
    proof -
      let ?f4 = "files (w_io w4)"
      have eq: "w' = w4" using res that by simp
      have st: "w_state w4 = w_state w2" using S3(2) S4(2) by simp
      have "state_ready base (w_state w4) ?f4 \<and> ss_cursor (st_state (w_state w4)) = ?c"
        using S2(4) \<open>o2\<close> through_files [OF T4] unfolding st by (auto simp: state_ready_def cursor_kept_def)
      moreover have "applied base r ?old ?cap (crash k ?f4)" for k
      proof -
        let ?S4 = "?S3 \<union> named base k_settings_file"
        have O34: "only_in ?S4 (w_io w2) (w_io w4)"
          by (rule only_in_trans [OF only_in_mono [OF S3(1)] only_in_mono [OF S4(1)]]) auto
        have O14: "only_in (named base k_snapshot_file \<union> named base k_state_file \<union> ?S4) d1 (w_io w4)"
          by (rule only_in_trans [OF only_in_mono [OF S2(2) [unfolded w1]] only_in_mono [OF O34]]) auto
        have "ox_on base (crash k ?f4) = ox_on base (crash k (files d1))"
          by (rule ox_on_same [OF same_but_crash [OF only_in_files [OF O14]]]) (use files_apart [OF b] in auto)
        then have "acks_settled base (rs_acks r) (crash k ?f4)"
          using S1(2) [OF \<open>o1\<close>] by (auto simp: acks_settled_def mem_inv_def ox_on_durable_crash)
        moreover have "slot_on decode_snapshot ?K (crash k ?f4) = Some a" if "rs_ayllu r = Some a" for a
        proof -
          have "slot_on decode_snapshot ?K ?f4 = Some a \<and> durable_file ?K ?f4"
            using slot_on_cong [OF only_in_files [OF O34], of ?K decode_snapshot] files_apart [OF b]
              S2(4) \<open>o2\<close> that by auto
          then show ?thesis by (simp add: slot_on_crash)
        qed
        moreover have "l_id l \<in> ?old \<union> set (seen_on (join base k_seen_file) ?cap (crash k ?f4))"
          if "l \<in> set (rs_letters r)" for l
        proof -
          have "lookup ?f4 (join base k_seen_file) = lookup (files (w_io w3)) (join base k_seen_file)"
            using only_in_files [OF S4(1)] files_apart(15) [OF b] by (simp add: same_but_def)
          then have "seen_on (join base k_seen_file) ?cap (crash k ?f4) =
              seen_on (join base k_seen_file) ?cap (crash k (files (w_io w3)))" by (rule seen_on_same)
          with S3(3) res(1) \<open>o3\<close> that show ?thesis by auto
        qed
        ultimately show ?thesis by (auto simp: applied_def)
      qed
      ultimately show ?thesis using T4 unfolding eq by blast
    qed
    moreover have ?goal if "\<not> o3" using res that T3 by simp
    ultimately show ?goal by blast
  qed
  ultimately have ?goal by blast
  then show "through (cursor_kept base ?c) (w_io w) (w_io w')"
    "ok \<Longrightarrow> state_ready base (w_state w') (files (w_io w')) \<and>
      ss_cursor (st_state (w_state w')) = ?c \<and> (\<forall>k. applied base r ?old ?cap (crash k (files (w_io w'))))"
    by blast+
qed

subsection \<open>The cursor\<close>

definition cursor_last :: "string \<Rightarrow> response \<Rightarrow> world \<Rightarrow> fs \<Rightarrow> bool" where
  "cursor_last base r w fs \<longleftrightarrow> (\<forall>k. cursor_on base (crash k fs) = ss_cursor (st_state (w_state w)) \<or>
     cursor_on base (crash k fs) = rs_cursor r \<and>
     applied base r (set (sr_ring (w_seen w))) (sr_capacity (w_seen w)) (crash k fs))"

lemma cursor_write:
  assumes "set_cursor c st d = (ok, st', e)" "state_ready base st (files d)" "dir_ok base"
    and A: "\<And>k. applied base r old cap (crash k (files d))"
  shows "through (\<lambda>fs. \<forall>k. cursor_on base (crash k fs) = ss_cursor (st_state st) \<or>
      cursor_on base (crash k fs) = c \<and> applied base r old cap (crash k fs)) d e"
    and "ok \<Longrightarrow> cursor_on base (crash k (files e)) = c"
proof -
  let ?f = "\<lambda>x. x\<lparr>ss_cursor := c\<rparr>" and ?p = "join base k_state_file"
  have p: "st_path st = ?p" and dur: "durable_file (st_path st) (files d)" and sok: "state_ok (?f (st_state st))"
    and c0: "cursor_on base (files d) = ss_cursor (st_state st)"
    using assms(2) by (simp_all add: state_ready_def state_ok_def)
  note set = assms(1) [unfolded setters]
  note S = state_set_spec [OF set sok dur]
  have O: "only_in (named base k_state_file) d e" by (rule state_set_only [OF set p assms(3)])
  have "through (\<lambda>fs. same_but (named base k_state_file) (files d) fs) d e"
    by (rule only_in_through [OF O])
  from through_conj [OF this S(1)]
  show "through (\<lambda>fs. \<forall>k. cursor_on base (crash k fs) = ss_cursor (st_state st) \<or>
      cursor_on base (crash k fs) = c \<and> applied base r old cap (crash k fs)) d e"
  proof (rule through_mono, intro allI)
    fix fs k
    assume a: "same_but (named base k_state_file) (files d) fs \<and>
      old_or_new decode_state (st_path st) (files d) (on_flash (?f (st_state st))) fs"
    then have "slot_on decode_state ?p (crash k fs) \<in> {slot_on decode_state ?p (files d), Some (on_flash (?f (st_state st)))}"
      using old_or_newD p by metis
    moreover have "applied base r old cap (crash k fs)"
      using applied_same [OF same_but_crash assms(3)] a A by metis
    ultimately show "cursor_on base (crash k fs) = ss_cursor (st_state st) \<or>
      cursor_on base (crash k fs) = c \<and> applied base r old cap (crash k fs)"
      using c0 by (auto simp: cursor_on_def on_flash_def or_else_def)
  qed
  show "cursor_on base (crash k (files e)) = c" if ok
    using S(2) S(3) [OF that, of k] that p by (simp add: cursor_on_def or_else_def on_flash_def)
qed

text \<open>
  C1: the ordering that makes a sync safe to cut at any point. Start from stores that agree with the
  medium and apply any response with dates and contact orders in range and no more letters than the
  seen ring holds, whatever calls of the file system fail and whenever the power goes: the cursor on
  the medium is the old one, so the server will send everything again, or it is the response's and
  then, on that same medium, no acknowledged letter is still to be sent, the response's contact list
  is the stored one, and every letter of it is recorded as seen. When the application is reported
  complete the cursor is the response's.\<close>

theorem cursor_moves_last:
  assumes "apply_response dp en r w = (out, w')" "world_ready base w" "dp_on_config dp = session_on_config"
    and "response_ok r" "length (rs_letters r) \<le> sr_capacity (w_seen w)"
  shows "through (cursor_last base r w) (w_io w) (w_io w') \<and>
    (\<not> oc_apply_incomplete out \<longrightarrow> cursor_on base (crash keep (files (w_io w'))) = rs_cursor r)"
proof (cases "dp_wired dp")
  case False
  have "state_ready base (w_state w) (files (w_io w))" using assms(2) by (simp add: world_ready_def)
  then have "cursor_last base r w (files (w_io w))"
    by (simp add: cursor_last_def state_ready_def cursor_on_crash)
  with False assms(1) show ?thesis by (auto simp: apply_response_def intro: through_refl)
next
  case True
  obtain o1 out1 w1 where B: "apply_before_cursor dp en r w = (o1, out1, w1)" using prod_cases3 by blast
  note S = before_cursor_spec [OF B assms(2-5)]
  have T: "through (cursor_last base r w) (w_io w) (w_io w1)"
    by (rule through_mono [OF S(1)]) (simp add: cursor_last_def cursor_kept_crash)
  show ?thesis
  proof (cases "o1 = True")
    case False
    with assms(1) True B have "w' = w1" "oc_apply_incomplete out" by (auto simp: apply_response_def)
    with T show ?thesis by simp
  next
    case o1: True
    obtain o2 st d where C: "set_cursor (rs_cursor r) (w_state w1) (w_io w1) = (o2, st, d)" using prod_cases3 by blast
    have b: "dir_ok base" using assms(2) by (simp add: world_ready_def letters_ready_def)
    have S2: "state_ready base (w_state w1) (files (w_io w1))"
      "ss_cursor (st_state (w_state w1)) = ss_cursor (st_state (w_state w))"
      "\<And>k. applied base r (set (sr_ring (w_seen w))) (sr_capacity (w_seen w)) (crash k (files (w_io w1)))"
      using S(2) o1 by blast+
    note W = cursor_write [OF C S2(1) b S2(3)]
    have T2: "through (cursor_last base r w) (w_io w1) d"
      using W(1) unfolding cursor_last_def S2(2) .
    have "w_io w' = d" "oc_apply_incomplete out \<longleftrightarrow> \<not> o2 \<or> oc_apply_incomplete out1"
      using assms(1) True B o1 C by (auto simp: apply_response_def Let_def split: if_splits)
    with through_trans [OF T T2] W(2) show ?thesis by auto
  qed
qed

text \<open>The stores of a card with nothing on it.\<close>

definition fresh_world :: "string \<Rightarrow> world" where
  "fresh_world base = \<lparr>w_letters = \<lparr>ls_dir = join base k_letters_dir, ls_index = []\<rparr>,
     w_outbox = empty_outbox base,
     w_seen = \<lparr>sr_path = join base k_seen_file, sr_capacity = 3, sr_lines = 0, sr_ring = []\<rparr>,
     w_state = \<lparr>st_path = join base k_state_file, st_counter_path = join base k_local_id_file, st_state = default_state\<rparr>,
     w_contacts = \<lparr>ay_snapshot_path = join base k_snapshot_file, ay_overlay_path = join base k_overlay_file,
       ay_snapshot = \<lparr>wa_version = 0, wa_contacts = []\<rparr>, ay_overlays = []\<rparr>,
     w_settings = \<lparr>sg_path = join base k_settings_file, sg_settings = default_settings\<rparr>,
     w_clock = \<lparr>ck_epoch_at_mark = 0, ck_mono_at_mark = 0, ck_valid = False, ck_now = 0\<rparr>,
     w_io = boot_io [] []\<rparr>"

lemma fresh_world_ready:
  assumes "dir_ok base"
  shows "world_ready base (fresh_world base)"
proof -
  have d: "dir_ok (join base k_letters_dir)" by (rule sub_dir_ok [OF assms plain_names(1)])
  have "letters_ready base (w_letters (fresh_world base)) (w_seen (fresh_world base)) []"
    using assms d by (simp add: letters_ready_def fresh_world_def ls_agrees_def find_meta_def letters_on_def
        records_on_def lookup_def seen_agrees_def last_lines_def durable_dir_def)
  moreover have "mem_inv base (empty_outbox base) []" "ox_agrees (empty_outbox base) []"
    using ox_run_inv [OF ox_run.factory [of base]] assms
    by (simp_all add: ox_agrees_def empty_outbox_def ox_find_def outbox_on_unfold lookup_def)
  ultimately show ?thesis
    by (simp add: world_ready_def fresh_world_def boot_io_def state_ready_def durable_file_def lookup_def state_ok_def
        default_state_def cursor_on_def slot_on_def or_else_def is_i32_def is_i64_def empty_outbox_def entries_dated_def)
qed

definition demo_response :: response where
  "demo_response = \<lparr>rs_server_time = 9, rs_cursor = ''c9'', rs_pututu_counter = 0,
     rs_acks = [\<lparr>ack_local_id = ''0000000000000001'', ack_stat = kSent\<rparr>],
     rs_letters = [\<lparr>l_id = ''a1'', l_contact_id = ''nina'', l_subject = ''s'', l_date = 7, l_body = ''hola'',
       l_trimmed = False, l_truncated = False, l_degraded = False\<rparr>],
     rs_more = False, rs_ayllu = Some \<lparr>wa_version = 2, wa_contacts = []\<rparr>, rs_config = None\<rparr>"

definition demo_deps :: deps where
  "demo_deps = \<lparr>dp_wired = True, dp_kipu = \<lambda>_. None, dp_counter_seen = \<lambda>_. 0, dp_on_config = session_on_config,
     dp_parse = \<lambda>_. None, dp_print = \<lambda>_. []\<rparr>"

definition demo_engine :: engine where
  "demo_engine = \<lparr>en_options = \<lparr>op_letters_keep = 500, op_max_drain_rounds = 8\<rparr>, en_failures = 0,
     en_retry_after_ms = 0, en_halted = False\<rparr>"

lemma cursor_moves_last_witness:
  "\<exists>out w'. apply_response demo_deps demo_engine demo_response (fresh_world ''/d'') = (out, w') \<and>
     through (cursor_last ''/d'' demo_response (fresh_world ''/d'')) (boot_io [] []) (w_io w')"
proof -
  have d: "dir_ok ''/d''" by (simp add: dir_ok_def slash_def)
  obtain out w' where a: "apply_response demo_deps demo_engine demo_response (fresh_world ''/d'') = (out, w')"
    by fastforce
  have "dp_on_config demo_deps = session_on_config" "response_ok demo_response"
    "length (rs_letters demo_response) \<le> sr_capacity (w_seen (fresh_world ''/d''))"
    by (simp_all add: demo_deps_def response_ok_def demo_response_def is_i64_def snapshot_ok_def is_i32_def fresh_world_def)
  from cursor_moves_last [OF a fresh_world_ready [OF d] this] a show ?thesis
    by (auto simp: fresh_world_def)
qed

text \<open>
  C6: A letter is recorded as seen only when it is stored: while the letters of a response are applied,
  at every state a power cut can leave and whatever the file system refuses, each id in the seen ring on
  the medium was there before or has its letter on the medium. When the step succeeds every letter of
  the response is in the ring or was pushed out by later ones, so the same response applied again stores
  nothing twice.\<close>

theorem letters_stored_before_seen:
  assumes "apply_letters L n m ls sr d = (ok, n', m', ls', sr', e)" "letters_ready base ls sr (files d)"
    and "\<forall>l \<in> set L. is_i64 (l_date l)"
  shows "through (seen_stored (set (sr_ring sr)) (ls_dir ls) (sr_path sr) (sr_capacity sr)) d e \<and>
    (ok \<longrightarrow> (\<exists>new. sr_ring sr' = last_lines (sr_capacity sr) (sr_ring sr @ new) \<and> length new \<le> length L \<and>
      (\<forall>l \<in> set L. l_id l \<in> set (sr_ring sr) \<union> set new)))"
proof -
  have agr: "seen_agrees sr (files d)" using assms(2) by (simp add: letters_ready_def)
  have "seen_stored (set (sr_ring sr)) (ls_dir ls) (sr_path sr) (sr_capacity sr) (files d)"
    by (simp add: seen_stored_def ring_on_medium [OF agr])
  from apply_letters_spec [OF assms this] show ?thesis by blast
qed

lemma letters_stored_before_seen_witness:
  "\<exists>ok n m ls sr e. apply_letters (rs_letters demo_response) 0 0 (w_letters (fresh_world ''/d''))
       (w_seen (fresh_world ''/d'')) (boot_io [] []) = (ok, n, m, ls, sr, e) \<and>
     through (seen_stored {} (join ''/d'' k_letters_dir) (join ''/d'' k_seen_file) 3) (boot_io [] []) e"
proof -
  have d: "dir_ok ''/d''" by (simp add: dir_ok_def slash_def)
  let ?w = "fresh_world ''/d''"
  obtain ok n m ls sr e where a: "apply_letters (rs_letters demo_response) 0 0 (w_letters ?w) (w_seen ?w)
      (boot_io [] []) = (ok, n, m, ls, sr, e)" using prod_cases6 by blast
  have r: "letters_ready ''/d'' (w_letters ?w) (w_seen ?w) (files (boot_io [] []))"
    using fresh_world_ready [OF d] by (simp add: world_ready_def) (simp add: fresh_world_def)
  have "\<forall>l \<in> set (rs_letters demo_response). is_i64 (l_date l)" by (simp add: demo_response_def is_i64_def)
  from letters_stored_before_seen [OF a r this] a show ?thesis
    by (simp add: fresh_world_def)
qed

end
