(* ===== verification/Sync_Run.thy ===== *)
theory Sync_Run
  imports Sync_Order
begin

text \<open>
  The drain loop and the backoff of \<^verbatim>\<open>components/syncengine/syncengine.cpp\<close>: how many rounds a sync
  makes, what a failed exchange leaves alone, and what the engine answers when asked how long to wait.
\<close>

subsection \<open>The backoff\<close>

text \<open>The engine's counters as every run keeps them: a server's wait is never above a day.\<close>

definition engine_ok :: "engine \<Rightarrow> bool" where
  "engine_ok en \<longleftrightarrow> 0 \<le> en_retry_after_ms en \<and> en_retry_after_ms en \<le> 86400000"

lemma reset_backoff_simps [simp]:
  "en_failures (reset_backoff en) = 0" "en_retry_after_ms (reset_backoff en) = 0"
  "en_halted (reset_backoff en) = False" "en_options (reset_backoff en) = en_options en"
  by (simp_all add: reset_backoff_def)

lemma engine_ok_reset: "engine_ok (reset_backoff en)" by (simp add: engine_ok_def)

lemma engine_ok_note: "engine_ok en \<Longrightarrow> engine_ok (note_failure f retry en)"
  by (auto simp: engine_ok_def note_failure_def k_max_retry_after_s_def)

lemma options_note [simp]: "en_options (note_failure f retry en) = en_options en"
  by (simp add: note_failure_def)

lemma halted_note: "en_halted (note_failure f retry en) \<longleftrightarrow> f = kProvisioningFault \<or> en_halted en"
  by (simp add: note_failure_def)

lemma next_backoff_reset: "next_backoff_ms (reset_backoff en) = 0"
  by (simp add: next_backoff_ms_def k_backoff_next_scheduled_wake_def)

lemma ladder_range: "i < 3 \<Longrightarrow> 0 < k_backoff_ladder_ms ! i \<and> k_backoff_ladder_ms ! i \<le> 600000"
  by (auto simp: k_backoff_ladder_ms_def less_Suc_eq numeral_3_eq_3)

lemma next_backoff_range:
  "engine_ok en \<Longrightarrow> (if en_halted en then next_backoff_ms en = -1
     else 0 \<le> next_backoff_ms en \<and> next_backoff_ms en \<le> 86400000)"
  using ladder_range [of "en_failures en - 1"]
  by (fastforce simp: next_backoff_ms_def engine_ok_def k_backoff_halted_def k_backoff_next_scheduled_wake_def
      k_backoff_ladder_steps_def)

lemma note_failure_counts:
  "f \<notin> {kProvisioningFault, kRoadBusy} \<Longrightarrow>
   note_failure f retry en = en\<lparr>en_retry_after_ms := 0, en_failures := en_failures en + 1\<rparr>"
  by (simp add: note_failure_def)

lemma note_failures_count:
  "\<forall>f \<in> set fs. f \<notin> {kProvisioningFault, kRoadBusy} \<Longrightarrow> en_retry_after_ms en = 0 \<Longrightarrow>
   let en' = fold (\<lambda>f. note_failure f 0) fs en
   in en_failures en' = en_failures en + length fs \<and> en_retry_after_ms en' = 0 \<and> en_halted en' = en_halted en"
  by (induction fs arbitrary: en) (simp_all add: note_failure_counts Let_def)

text \<open>
  The backoff ladder. After a reset, a run of failures of the ordinary kinds makes the engine ask
  for 30 seconds, 2 minutes, then 10 minutes, and from the fourth on for the next scheduled wake. A
  provisioning fault at any point halts it, and it stays halted through every later failure.\<close>

theorem backoff_ladder:
  assumes "\<forall>f \<in> set fs. f \<notin> {kProvisioningFault, kRoadBusy}"
  shows "next_backoff_ms (fold (\<lambda>f. note_failure f 0) fs (reset_backoff en)) =
      (if length fs = 1 then 30000 else if length fs = 2 then 120000 else if length fs = 3 then 600000 else 0) \<and>
    next_backoff_ms (fold (\<lambda>f. note_failure f r) gs (note_failure kProvisioningFault r en)) = k_backoff_halted"
proof
  let ?e = "fold (\<lambda>f. note_failure f 0) fs (reset_backoff en)"
  have e: "en_failures ?e = length fs" "en_retry_after_ms ?e = 0" "en_halted ?e = False"
    using note_failures_count [OF assms, of "reset_backoff en"] by (simp_all add: Let_def)
  consider "length fs = 0" | "length fs = 1" | "length fs = 2" | "length fs = 3" | "3 < length fs" by linarith
  then show "next_backoff_ms ?e =
      (if length fs = 1 then 30000 else if length fs = 2 then 120000 else if length fs = 3 then 600000 else 0)"
    by cases (simp_all add: next_backoff_ms_def e k_backoff_ladder_ms_def k_backoff_ladder_steps_def
        k_backoff_next_scheduled_wake_def)
  have "en_halted (fold (\<lambda>f. note_failure f r) gs x)" if "en_halted x" for x
    using that by (induction gs arbitrary: x) (simp_all add: note_failure_def)
  then show "next_backoff_ms (fold (\<lambda>f. note_failure f r) gs (note_failure kProvisioningFault r en)) = k_backoff_halted"
    by (simp add: next_backoff_ms_def note_failure_def [of kProvisioningFault])
qed

lemma backoff_ladder_witness:
  "next_backoff_ms (fold (\<lambda>f. note_failure f 0) [kNoSignal, kServerFault] (reset_backoff
     \<lparr>en_options = \<lparr>op_letters_keep = 5, op_max_drain_rounds = 8\<rparr>, en_failures = 7, en_retry_after_ms = 5, en_halted = True\<rparr>))
   = 120000"
proof -
  have "\<forall>f \<in> set [kNoSignal, kServerFault]. f \<notin> {kProvisioningFault, kRoadBusy}" by simp
  from backoff_ladder [OF this] show ?thesis by simp
qed

subsection \<open>The rounds\<close>

lemma st_snapshot_files: "st_snapshot s d = (x, e) \<Longrightarrow> files e = files d \<and> trail e = trail d"
  by (auto simp: st_snapshot_def split: prod.splits option.splits dest: read_all_state)

text \<open>Two worlds that differ at most in the clock's reading and in what the file system will refuse next.\<close>

definition same_stores :: "world \<Rightarrow> world \<Rightarrow> bool" where
  "same_stores w w' \<longleftrightarrow> w_letters w' = w_letters w \<and> w_outbox w' = w_outbox w \<and> w_seen w' = w_seen w \<and>
     w_state w' = w_state w \<and> w_contacts w' = w_contacts w \<and> w_settings w' = w_settings w \<and>
     files (w_io w') = files (w_io w) \<and> trail (w_io w') = trail (w_io w)"

lemma build_request_same: "build_request dp w = (rq, w') \<Longrightarrow> same_stores w w'"
  by (auto simp: build_request_def same_stores_def Let_def split: if_splits prod.splits dest: st_snapshot_files)

lemma build_request_clock: "build_request dp w = (rq, w') \<Longrightarrow> w_clock w' = w_clock w"
  by (auto simp: build_request_def Let_def split: if_splits prod.splits)

lemma drain_round_spec:
  assumes "drain_round dp net rnd out ap en w n = Some (go_on, out', ap', en', w', n')" "oc_fault out = kNone"
  shows "oc_rounds out' = rnd + 1" "ap \<Longrightarrow> ap'"
    and "oc_fault out' = kNone \<Longrightarrow> en' = en \<and> ap'"
    and "oc_fault out' \<noteq> kNone \<Longrightarrow> \<not> go_on \<and> ap' = ap \<and> same_stores w w' \<and>
      (\<exists>retry. en' = note_failure (oc_fault out') retry en)"
proof -
  obtain rq w1 where b: "build_request dp w = (rq, w1)" by fastforce
  obtain res now n1 where x: "net (encode_request (dp_print dp) rq) (ck_now (w_clock w1)) n = (res, now, n1)"
    using prod_cases3 by blast
  let ?w2 = "w1\<lparr>w_clock := (w_clock w1)\<lparr>ck_now := now\<rparr>\<rparr>"
  have same: "same_stores w ?w2" using build_request_same [OF b] by (simp add: same_stores_def)
  note d = drain_round_def Let_def
  have "oc_rounds out' = rnd + 1 \<and> (ap \<longrightarrow> ap') \<and> (oc_fault out' = kNone \<longrightarrow> en' = en \<and> ap') \<and>
    (oc_fault out' \<noteq> kNone \<longrightarrow> \<not> go_on \<and> ap' = ap \<and> same_stores w w' \<and>
      (\<exists>retry. en' = note_failure (oc_fault out') retry en))"
  proof (cases "fault_for res = kNone")
    case False
    then have "out' = out\<lparr>oc_rounds := rnd + 1, oc_fault := fault_for res\<rparr>" "\<not> go_on" "ap' = ap" "w' = ?w2"
      "en' = note_failure (fault_for res) (tr_retry_after_s res) en"
      using assms(1) b x by (simp_all add: d)
    with False same show ?thesis by auto
  next
    case f: True
    show ?thesis
    proof (cases "decode_response (dp_parse dp) (tr_body res)")
      case None
      with assms(1) f b x show ?thesis by (simp add: d)
    next
      case (Some o1)
      show ?thesis
      proof (cases o1)
        case None
        with Some assms(1) f b x have "out' = out\<lparr>oc_rounds := rnd + 1, oc_fault := kServerFault\<rparr>" "\<not> go_on"
          "ap' = ap" "w' = ?w2" "en' = note_failure kServerFault 0 en"
          by (simp_all add: d)
        with same show ?thesis by auto
      next
        case (Some resp)
        obtain a w3 where r: "apply_response dp en resp ?w2 = (a, w3)" by fastforce
        from \<open>decode_response (dp_parse dp) (tr_body res) = Some o1\<close> Some assms(1) f b x r
        have "oc_rounds out' = rnd + 1" "ap'" "en' = en" "oc_fault out' = oc_fault out"
          by (cases "oc_apply_incomplete a"; auto simp: d)+
        with assms(2) show ?thesis by simp
      qed
    qed
  qed
  then show "oc_rounds out' = rnd + 1" "ap \<Longrightarrow> ap'" "oc_fault out' = kNone \<Longrightarrow> en' = en \<and> ap'"
    "oc_fault out' \<noteq> kNone \<Longrightarrow> \<not> go_on \<and> ap' = ap \<and> same_stores w w' \<and>
      (\<exists>retry. en' = note_failure (oc_fault out') retry en)" by blast+
qed

lemma drain_spec:
  assumes "drain dp net left rnd out ap en w n = Some (out', ap', en', w', n')" "oc_fault out = kNone"
  shows "(0 < left \<longrightarrow> rnd + 1 \<le> oc_rounds out' \<and> oc_rounds out' \<le> rnd + left) \<and> (ap \<longrightarrow> ap') \<and>
    (oc_fault out' = kNone \<longrightarrow> en' = en) \<and>
    (oc_fault out' \<noteq> kNone \<longrightarrow> (\<exists>retry. en' = note_failure (oc_fault out') retry en)) \<and>
    (oc_fault out' \<noteq> kNone \<and> oc_rounds out' = rnd + 1 \<longrightarrow> same_stores w w' \<and> ap' = ap)"
  using assms
proof (induction left arbitrary: rnd out ap en w n)
  case 0
  then show ?case by auto
next
  case (Suc left)
  obtain go_on out1 ap1 en1 w1 n1 where r: "drain_round dp net rnd out ap en w n = Some (go_on, out1, ap1, en1, w1, n1)"
    using Suc.prems(1) by (cases "drain_round dp net rnd out ap en w n") auto
  note R = drain_round_spec [OF r Suc.prems(2)]
  show ?case
  proof (cases "go_on \<and> 0 < left")
    case False
    then have "out' = out1" "ap' = ap1" "en' = en1" "w' = w1"
      using Suc.prems(1) r by (auto split: if_splits)
    with R show ?thesis by auto
  next
    case True
    then have f: "oc_fault out1 = kNone" using R(4) by blast
    from True Suc.prems(1) r have "drain dp net left (rnd + 1) out1 ap1 en1 w1 n1 = Some (out', ap', en', w', n')" by simp
    from Suc.IH [OF this f] True R(2) R(3) [OF f] show ?thesis by auto
  qed
qed

lemma run_once_returns:
  assumes "\<And>b. decode_response (dp_parse dp) b \<noteq> None"
  shows "run_once dp net t en w n \<noteq> None"
proof -
  have "drain_round dp net rnd out ap en w n \<noteq> None" for rnd out ap en w n
    using assms by (auto simp del: not_None_eq simp: drain_round_def Let_def split: prod.splits option.splits)
  then have "drain dp net left rnd out ap en w n \<noteq> None" for left rnd out ap en w n
    by (induction left arbitrary: rnd out ap en w n) (auto split: option.splits)
  then have "\<exists>x. drain dp net left rnd out ap en w n = Some x" for left rnd out ap en w n by blast
  then obtain out ap en1 w1 n1 where "drain dp net (drain_cap (if t = kUserKey then reset_backoff en else en)) 0 no_outcome
      False (if t = kUserKey then reset_backoff en else en) w n = Some (out, ap, en1, w1, n1)"
    by (metis prod_cases5)
  then show ?thesis by (cases "dp_wired dp") (simp_all add: run_once_def Let_def case_prod_beta)
qed


definition dead_air :: "unit network" where
  "dead_air body now n = (\<lparr>tr_outcome = TrTransportFail, tr_http_status = 0, tr_body = [], tr_retry_after_s = 0\<rparr>, now + 5, n)"


end
