(* ===== verification/Kipu.thy ===== *)
theory Kipu
  imports Wire
begin

text \<open>
  The health block and its log, \<^verbatim>\<open>components/kipu/kipu.cpp\<close>: every field is clamped to a width, and the
  log is a ring of the last 32 blocks read newest first.
\<close>

subsection \<open>The block\<close>

definition k_min_battery_pct :: int where "k_min_battery_pct = 0"
definition k_max_battery_pct :: int where "k_max_battery_pct = 100"
definition k_min_rssi_dbm :: int where "k_min_rssi_dbm = -199"
definition k_max_rssi_dbm :: int where "k_max_rssi_dbm = 99"
definition k_min_queue_depth :: int where "k_min_queue_depth = 0"
definition k_max_queue_depth :: int where "k_max_queue_depth = 9999"
definition k_max_rat_bytes :: nat where "k_max_rat_bytes = 16"
definition k_max_fw_bytes :: nat where "k_max_fw_bytes = 64"

definition printable :: "char \<Rightarrow> bool" where
  "printable c \<longleftrightarrow> (0x20::nat) \<le> of_char c \<and> (of_char c :: nat) \<le> 0x7e"

text \<open>The loop, over the output so far.\<close>

fun ascii_loop :: "nat \<Rightarrow> string \<Rightarrow> string \<Rightarrow> string" where
  "ascii_loop max_bytes out [] = out"
| "ascii_loop max_bytes out (c # s) =
     (if length out = max_bytes then out
      else ascii_loop max_bytes (if printable c then out @ [c] else out) s)"

definition ascii :: "string \<Rightarrow> nat \<Rightarrow> string" where
  "ascii s max_bytes = ascii_loop max_bytes [] s"

definition clamp :: "int \<Rightarrow> int \<Rightarrow> int \<Rightarrow> int" where
  "clamp lo hi x = min (max x lo) hi"

definition kipu_build :: "int \<Rightarrow> bool \<Rightarrow> string \<Rightarrow> int \<Rightarrow> int \<Rightarrow> string \<Rightarrow> kipu_block" where
  "kipu_build battery_pct charging rat rssi queue_depth fw =
     \<lparr>k_battery_pct = clamp k_min_battery_pct k_max_battery_pct battery_pct,
      k_charging = charging,
      k_rat = ascii rat k_max_rat_bytes,
      k_rssi = clamp k_min_rssi_dbm k_max_rssi_dbm rssi,
      k_queue_depth = clamp k_min_queue_depth k_max_queue_depth queue_depth,
      k_fw = ascii fw k_max_fw_bytes\<rparr>"

subsection \<open>The log\<close>

record kipu_entry =
  ke_at :: int
  ke_block :: kipu_block

record kipu_log =
  kl_entries :: "kipu_entry list"
  kl_oldest :: nat

definition k_log_capacity :: nat where "k_log_capacity = 32"

definition new_log :: kipu_log where
  "new_log = \<lparr>kl_entries = [], kl_oldest = 0\<rparr>"

definition log_record :: "kipu_entry \<Rightarrow> kipu_log \<Rightarrow> kipu_log" where
  "log_record e s =
     (if length (kl_entries s) < k_log_capacity then s\<lparr>kl_entries := kl_entries s @ [e]\<rparr>
      else s\<lparr>kl_entries := (kl_entries s)[kl_oldest s := e],
             kl_oldest := (kl_oldest s + 1) mod k_log_capacity\<rparr>)"

definition log_recent :: "nat \<Rightarrow> kipu_log \<Rightarrow> kipu_entry list" where
  "log_recent n s =
     (let have' = length (kl_entries s); count = min n have'
      in map (\<lambda>i. kl_entries s ! ((kl_oldest s + have' - 1 - i) mod have')) [0..<count])"

subsection \<open>Bounds of the block\<close>

lemma clamp_range: "lo \<le> hi \<Longrightarrow> lo \<le> clamp lo hi x \<and> clamp lo hi x \<le> hi"
  by (simp add: clamp_def)

lemma clamp_inside: "lo \<le> x \<Longrightarrow> x \<le> hi \<Longrightarrow> clamp lo hi x = x"
  by (simp add: clamp_def)

lemma ascii_loop_take:
  "length out \<le> m \<Longrightarrow> ascii_loop m out s = take m (out @ filter printable s)"
proof (induction m out s rule: ascii_loop.induct)
  case (2 m out c s)
  have "m - length out = Suc (m - Suc (length out))" if "length out \<noteq> m" using 2 that by simp
  with 2 show ?case by auto
qed simp

lemma ascii_take: "ascii s m = take m (filter printable s)"
  by (simp add: ascii_def ascii_loop_take)

lemma ascii_bounded: "length (ascii s m) \<le> m" "c \<in> set (ascii s m) \<Longrightarrow> printable c"
  by (auto simp: ascii_take dest: in_set_takeD)

lemma ascii_inside: "length s \<le> m \<Longrightarrow> (\<forall>c \<in> set s. printable c) \<Longrightarrow> ascii s m = s"
  by (simp add: ascii_take)

text \<open>
  Whatever the gauge, the modem and the build report, the health block is bounded: the battery is a
  percentage, the signal and the queue are within the ranges the block's size was counted with, the two
  texts are printable ASCII of at most 16 and 64 bytes. Values already in range pass unchanged, so the
  block tells the truth whenever it can, and every block survives the wire.\<close>

theorem kipu_build_bounded:
  "let k = kipu_build b ch rat rs q fw in
     0 \<le> k_battery_pct k \<and> k_battery_pct k \<le> 100 \<and> -199 \<le> k_rssi k \<and> k_rssi k \<le> 99 \<and>
     0 \<le> k_queue_depth k \<and> k_queue_depth k \<le> 9999 \<and>
     length (k_rat k) \<le> 16 \<and> length (k_fw k) \<le> 64 \<and> list_all printable (k_rat k @ k_fw k) \<and>
     kipu_build (k_battery_pct k) (k_charging k) (k_rat k) (k_rssi k) (k_queue_depth k) (k_fw k) = k \<and>
     read_kipu (encode_kipu k) = k"
proof -
  let ?k = "kipu_build b ch rat rs q fw"
  have r: "0 \<le> k_battery_pct ?k \<and> k_battery_pct ?k \<le> 100" "-199 \<le> k_rssi ?k \<and> k_rssi ?k \<le> 99"
    "0 \<le> k_queue_depth ?k \<and> k_queue_depth ?k \<le> 9999"
    using clamp_range [of 0 100 b] clamp_range [of "-199" 99 rs] clamp_range [of 0 9999 q]
    by (simp_all add: kipu_build_def k_min_battery_pct_def k_max_battery_pct_def k_min_rssi_dbm_def
        k_max_rssi_dbm_def k_min_queue_depth_def k_max_queue_depth_def)
  have t: "length (k_rat ?k) \<le> 16" "length (k_fw ?k) \<le> 64" "list_all printable (k_rat ?k)" "list_all printable (k_fw ?k)"
    using ascii_bounded(1) [of rat 16] ascii_bounded(1) [of fw 64] ascii_bounded(2)
    by (auto simp: kipu_build_def k_max_rat_bytes_def k_max_fw_bytes_def list_all_iff)
  have "kipu_build (k_battery_pct ?k) (k_charging ?k) (k_rat ?k) (k_rssi ?k) (k_queue_depth ?k) (k_fw ?k) = ?k"
    using r t ascii_inside [of "k_rat ?k" 16] ascii_inside [of "k_fw ?k" 64]
    unfolding kipu_build_def [of "k_battery_pct ?k"]
    by (simp add: k_min_battery_pct_def k_max_battery_pct_def k_min_rssi_dbm_def k_max_rssi_dbm_def
        k_min_queue_depth_def k_max_queue_depth_def k_max_rat_bytes_def k_max_fw_bytes_def clamp_inside list_all_iff)
  moreover have "c_string x" if "list_all printable x" for x
    using that by (auto simp: c_string_def list_all_iff printable_def)
  with r t(3,4) have "kipu_ok ?k" by (simp add: kipu_ok_def is_i32_def)
  ultimately show ?thesis using r t by (simp add: Let_def)
qed

subsection \<open>The ring is the newest 32\<close>

definition log_view :: "kipu_log \<Rightarrow> kipu_entry list" where
  "log_view s = drop (kl_oldest s) (kl_entries s) @ take (kl_oldest s) (kl_entries s)"

definition log_inv :: "kipu_log \<Rightarrow> bool" where
  "log_inv s \<longleftrightarrow> length (kl_entries s) \<le> k_log_capacity \<and> kl_oldest s < k_log_capacity \<and>
     (length (kl_entries s) < k_log_capacity \<longrightarrow> kl_oldest s = 0)"

lemma log_recent_view:
  assumes "log_inv s"
  shows "log_recent n s = take n (rev (log_view s))"
proof (rule nth_equalityI)
  let ?h = "length (kl_entries s)" and ?o = "kl_oldest s"
  have len: "length (log_view s) = ?h" by (simp add: log_view_def)
  show "length (log_recent n s) = length (take n (rev (log_view s)))"
    by (simp add: log_recent_def Let_def len)
  fix i assume "i < length (log_recent n s)"
  then have i: "i < n" "i < ?h" by (simp_all add: log_recent_def Let_def)
  have o: "?o < ?h \<or> ?o = 0" using assms by (auto simp: log_inv_def)
  let ?j = "?h - 1 - i"
  have "rev (log_view s) ! i = log_view s ! ?j" using i len by (simp add: rev_nth)
  also have "\<dots> = kl_entries s ! ((?o + ?h - 1 - i) mod ?h)"
  proof (cases "?j < ?h - ?o")
    case True
    then have "log_view s ! ?j = kl_entries s ! (?o + ?j)" by (simp add: log_view_def nth_append)
    moreover have "(?o + ?h - 1 - i) mod ?h = ?o + ?j" using True i by simp
    ultimately show ?thesis by simp
  next
    case False
    then have a: "?o + ?h - 1 - i = ?h + (?j - (?h - ?o))" "?j - (?h - ?o) < ?h" using i o by auto
    have "log_view s ! ?j = kl_entries s ! (?j - (?h - ?o))" using False o i by (auto simp: log_view_def nth_append)
    moreover have "(?o + ?h - 1 - i) mod ?h = ?j - (?h - ?o)" unfolding a(1) using a(2) by simp
    ultimately show ?thesis by simp
  qed
  finally show "log_recent n s ! i = take n (rev (log_view s)) ! i"
    using i by (simp add: log_recent_def Let_def)
qed

lemma log_record_view:
  assumes "log_inv s"
  shows "log_inv (log_record e s)"
    and "log_view (log_record e s) =
      (if length (log_view s) < k_log_capacity then log_view s else tl (log_view s)) @ [e]"
proof -
  let ?h = "length (kl_entries s)" and ?o = "kl_oldest s" and ?c = k_log_capacity
  have len: "length (log_view s) = ?h" by (simp add: log_view_def)
  have c: "0 < ?c" by (simp add: k_log_capacity_def)
  show "log_inv (log_record e s)" using assms c by (auto simp: log_inv_def log_record_def)
  show "log_view (log_record e s) = (if length (log_view s) < ?c then log_view s else tl (log_view s)) @ [e]"
  proof (cases "?h < ?c")
    case True
    with assms show ?thesis by (simp add: log_inv_def log_record_def log_view_def)
  next
    case False
    with assms have h: "?h = ?c" "?o < ?c" by (simp_all add: log_inv_def)
    have tl: "tl (log_view s) = drop (?o + 1) (kl_entries s) @ take ?o (kl_entries s)"
      using h by (simp add: log_view_def tl_append2 drop_Suc [symmetric] tl_drop)
    show ?thesis
    proof (cases "?o + 1 = ?c")
      case True
      with h tl False len show ?thesis
        by (simp add: log_record_def log_view_def upd_conv_take_nth_drop)
    next
      case False
      with h have "(?o + 1) mod ?c = ?o + 1" by simp
      with h tl len show ?thesis
        by (simp add: log_record_def log_view_def take_Suc_conv_app_nth)
    qed
  qed
qed

lemma newest_snoc:
  assumes "0 < c"
  shows "rev (take c (e # xs)) = (if length xs < c then rev (take c xs) else tl (rev (take c xs))) @ [e]"
proof -
  obtain c' where c: "c = Suc c'" using assms by (cases c) auto
  have "tl (rev (take c xs)) = rev (butlast (take c xs))" by (metis butlast_rev rev_swap)
  then show ?thesis by (simp add: c butlast_take)
qed

text \<open>
  The log keeps exactly the newest 32 blocks: after any sequence of recordings, asking for \<open>n\<close>
  returns the last \<open>n\<close> of them, at most 32, newest first.\<close>

theorem kipu_log_newest:
  "log_recent n (fold log_record es new_log) = take (min n 32) (rev es)"
proof -
  have "log_inv (fold log_record es new_log) \<and> log_view (fold log_record es new_log) = rev (take 32 (rev es))"
  proof (induction es rule: rev_induct)
    case Nil
    show ?case by (simp add: log_inv_def log_view_def new_log_def k_log_capacity_def)
  next
    case (snoc e es)
    let ?s = "fold log_record es new_log"
    have len: "length (log_view ?s) = min 32 (length es)" using snoc by simp
    have "fold log_record (es @ [e]) new_log = log_record e ?s" by simp
    moreover have "log_view (log_record e ?s) = rev (take 32 (rev (es @ [e])))"
      unfolding log_record_view(2) [OF conjunct1 [OF snoc]] conjunct2 [OF snoc]
      using newest_snoc [of 32 e "rev es"] by (simp add: k_log_capacity_def)
    ultimately show ?case using log_record_view(1) [OF conjunct1 [OF snoc]] by simp
  qed
  with log_recent_view show ?thesis by (simp add: min.commute)
qed

end
