(* ===== verification/Hmac_Sha256.thy ===== *)
theory Hmac_Sha256
  imports Prelude
begin

unbundle bit_operations_syntax

text \<open>
  SHA-256, HMAC and base64 for the doorbell token, \<^verbatim>\<open>components/pututu/hmac_sha256.cpp\<close>, on 32-bit words
  and 8-bit bytes. The streaming implementation (a context with a partly filled block) is proved equal
  to the reference construction: pad the message, cut it into blocks of 64 bytes, fold the compression.
\<close>

subsection \<open>The implementation\<close>

definition k_sha256_digest_bytes :: nat where "k_sha256_digest_bytes = 32"
definition k_sha256_block_bytes :: nat where "k_sha256_block_bytes = 64"

definition k_round_constants :: "32 word list" where
  "k_round_constants = concat [
     [0x428a2f98, 0x71374491, 0xb5c0fbcf, 0xe9b5dba5, 0x3956c25b, 0x59f111f1],
     [0x923f82a4, 0xab1c5ed5, 0xd807aa98, 0x12835b01, 0x243185be, 0x550c7dc3],
     [0x72be5d74, 0x80deb1fe, 0x9bdc06a7, 0xc19bf174, 0xe49b69c1, 0xefbe4786],
     [0x0fc19dc6, 0x240ca1cc, 0x2de92c6f, 0x4a7484aa, 0x5cb0a9dc, 0x76f988da],
     [0x983e5152, 0xa831c66d, 0xb00327c8, 0xbf597fc7, 0xc6e00bf3, 0xd5a79147],
     [0x06ca6351, 0x14292967, 0x27b70a85, 0x2e1b2138, 0x4d2c6dfc, 0x53380d13],
     [0x650a7354, 0x766a0abb, 0x81c2c92e, 0x92722c85, 0xa2bfe8a1, 0xa81a664b],
     [0xc24b8b70, 0xc76c51a3, 0xd192e819, 0xd6990624, 0xf40e3585, 0x106aa070],
     [0x19a4c116, 0x1e376c08, 0x2748774c, 0x34b0bcb5, 0x391c0cb3, 0x4ed8aa4a],
     [0x5b9cca4f, 0x682e6ff3, 0x748f82ee, 0x78a5636f, 0x84c87814, 0x8cc70208],
     [0x90befffa, 0xa4506ceb, 0xbef9a3f7, 0xc67178f2]]"

definition ror :: "32 word \<Rightarrow> nat \<Rightarrow> 32 word" where
  "ror x n = drop_bit n x OR push_bit (32 - n) x"

record sha_context =
  sc_h :: "32 word list"
  sc_total :: "64 word"
  sc_block :: "8 word list"
  sc_filled :: nat

definition initial_hash :: "32 word list" where
  "initial_hash = [0x6a09e667, 0xbb67ae85, 0x3c6ef372, 0xa54ff53a,
                   0x510e527f, 0x9b05688c, 0x1f83d9ab, 0x5be0cd19]"

definition new_context :: sha_context where
  "new_context = \<lparr>sc_h = initial_hash, sc_total = 0, sc_block = replicate k_sha256_block_bytes 0, sc_filled = 0\<rparr>"

definition load_word :: "8 word list \<Rightarrow> nat \<Rightarrow> 32 word" where
  "load_word p i = push_bit 24 (ucast (p ! (i * 4))) OR push_bit 16 (ucast (p ! (i * 4 + 1))) OR
     push_bit 8 (ucast (p ! (i * 4 + 2))) OR ucast (p ! (i * 4 + 3))"

definition schedule_step :: "32 word list \<Rightarrow> nat \<Rightarrow> 32 word list" where
  "schedule_step w i =
     (let s0 = ror (w ! (i - 15)) 7 XOR ror (w ! (i - 15)) 18 XOR drop_bit 3 (w ! (i - 15));
          s1 = ror (w ! (i - 2)) 17 XOR ror (w ! (i - 2)) 19 XOR drop_bit 10 (w ! (i - 2))
      in w @ [w ! (i - 16) + s0 + w ! (i - 7) + s1])"

definition schedule :: "8 word list \<Rightarrow> 32 word list" where
  "schedule p = foldl schedule_step (map (load_word p) [0..<16]) [16..<64]"

type_synonym sha_vars = "32 word \<times> 32 word \<times> 32 word \<times> 32 word \<times> 32 word \<times> 32 word \<times> 32 word \<times> 32 word"

fun sha_round :: "32 word list \<Rightarrow> sha_vars \<Rightarrow> nat \<Rightarrow> sha_vars" where
  "sha_round w (a, b, cc, d, e, f, g, h) i =
     (let s1 = ror e 6 XOR ror e 11 XOR ror e 25;
          ch = (e AND f) XOR (NOT e AND g);
          t1 = h + s1 + ch + k_round_constants ! i + w ! i;
          s0 = ror a 2 XOR ror a 13 XOR ror a 22;
          maj = (a AND b) XOR (a AND cc) XOR (b AND cc);
          t2 = s0 + maj
      in (t1 + t2, a, b, cc, d + t1, e, f, g))"

text \<open>\<^verbatim>\<open>Compress\<close>, as a function of the eight hash words and the block.\<close>

definition compress_words :: "32 word list \<Rightarrow> 8 word list \<Rightarrow> 32 word list" where
  "compress_words h p =
     (let w = schedule p;
          (a, b, cc, d, e, f, g, hh) = foldl (sha_round w)
            (h ! 0, h ! 1, h ! 2, h ! 3, h ! 4, h ! 5, h ! 6, h ! 7) [0..<64]
      in [h ! 0 + a, h ! 1 + b, h ! 2 + cc, h ! 3 + d, h ! 4 + e, h ! 5 + f, h ! 6 + g, h ! 7 + hh])"

definition sha_compress :: "8 word list \<Rightarrow> sha_context \<Rightarrow> sha_context" where
  "sha_compress p c = c\<lparr>sc_h := compress_words (sc_h c) p\<rparr>"

text \<open>\<^verbatim>\<open>memcpy\<close> of a piece into the block.\<close>

definition blit :: "nat \<Rightarrow> 8 word list \<Rightarrow> 8 word list \<Rightarrow> 8 word list" where
  "blit at piece block = take at block @ piece @ drop (at + length piece) block"

text \<open>
  The loop of \<^verbatim>\<open>Update\<close>. The block is never full on entry (\<open>absorbed\<close> below), so each pass takes a byte
  at least; a full block, on which the source would spin, stops it here.
\<close>

function sha_absorb :: "8 word list \<Rightarrow> sha_context \<Rightarrow> sha_context" where
  "sha_absorb data c =
     (if data = [] \<or> k_sha256_block_bytes \<le> sc_filled c then c
      else let n = min (k_sha256_block_bytes - sc_filled c) (length data);
               c = c\<lparr>sc_block := blit (sc_filled c) (take n data) (sc_block c), sc_filled := sc_filled c + n\<rparr>;
               c = (if sc_filled c = k_sha256_block_bytes then (sha_compress (sc_block c) c)\<lparr>sc_filled := 0\<rparr> else c)
           in sha_absorb (drop n data) c)"
  by pat_completeness auto
termination
  by (relation "measure (\<lambda>(data, c). length data)") (auto simp: min_def)

declare sha_absorb.simps [simp del]

definition sha_update :: "8 word list \<Rightarrow> sha_context \<Rightarrow> sha_context" where
  "sha_update data c = sha_absorb data (c\<lparr>sc_total := sc_total c + of_nat (length data)\<rparr>)"

text \<open>The loop that pads with zeros; 64 passes are enough (\<open>sha_zeros_ends\<close>).\<close>

fun sha_zeros :: "nat \<Rightarrow> sha_context \<Rightarrow> sha_context" where
  "sha_zeros 0 c = c"
| "sha_zeros (Suc n) c =
     (if sc_filled c = k_sha256_block_bytes - 8 then c else sha_zeros n (sha_update [0] c))"

definition len_be :: "64 word \<Rightarrow> 8 word list" where
  "len_be bits = map (\<lambda>i. ucast (drop_bit (56 - 8 * i) bits)) [0..<8]"

definition word_be :: "32 word \<Rightarrow> 8 word list" where
  "word_be x = [ucast (drop_bit 24 x), ucast (drop_bit 16 x), ucast (drop_bit 8 x), ucast x]"

definition sha_final :: "sha_context \<Rightarrow> 8 word list" where
  "sha_final c =
     (let bits = sc_total c * 8;
          c = sha_zeros k_sha256_block_bytes (sha_update [0x80] c);
          c = sha_compress (blit (sc_filled c) (len_be bits) (sc_block c)) c
      in concat (map word_be (sc_h c)))"

definition sha256 :: "8 word list \<Rightarrow> 8 word list" where
  "sha256 data = sha_final (sha_update data new_context)"

definition hmac_key_block :: "8 word list \<Rightarrow> 8 word list" where
  "hmac_key_block key =
     (let k = (if k_sha256_block_bytes < length key then sha256 key else key)
      in k @ replicate (k_sha256_block_bytes - length k) 0)"

definition hmac_sha256 :: "8 word list \<Rightarrow> 8 word list \<Rightarrow> 8 word list" where
  "hmac_sha256 key data =
     (let k = hmac_key_block key;
          inner = sha_final (sha_update data (sha_update (map (\<lambda>b. b XOR 0x36) k) new_context))
      in sha_final (sha_update inner (sha_update (map (\<lambda>b. b XOR 0x5c) k) new_context)))"

definition k_base64_alphabet :: string where
  "k_base64_alphabet = ''ABCDEFGHIJKLMNOPQRSTUVWXYZabcdefghijklmnopqrstuvwxyz0123456789+/''"

definition base64_chr :: "32 word \<Rightarrow> char" where
  "base64_chr v = k_base64_alphabet ! unat (v AND 0x3f)"

fun base64 :: "8 word list \<Rightarrow> string" where
  "base64 (a # b # c # rest) =
     (let v = push_bit 16 (ucast a) OR push_bit 8 (ucast b) OR ucast c
      in [base64_chr (drop_bit 18 v), base64_chr (drop_bit 12 v), base64_chr (drop_bit 6 v), base64_chr v]
         @ base64 rest)"
| "base64 [a] =
     (let v = push_bit 16 (ucast a)
      in [base64_chr (drop_bit 18 v), base64_chr (drop_bit 12 v), CHR ''='', CHR ''=''])"
| "base64 [a, b] =
     (let v = push_bit 16 (ucast a) OR push_bit 8 (ucast b)
      in [base64_chr (drop_bit 18 v), base64_chr (drop_bit 12 v), base64_chr (drop_bit 6 v), CHR ''=''])"
| "base64 [] = []"

text \<open>\<^verbatim>\<open>Equals\<close>: the difference accumulated over every byte.\<close>

definition mac_equals :: "string \<Rightarrow> string \<Rightarrow> bool" where
  "mac_equals a b = (length a = length b \<and> foldl (\<lambda>diff (x, y). diff OR (u8 x XOR u8 y)) 0 (zip a b) = 0)"

subsection \<open>The reference construction\<close>

function sha_blocks :: "8 word list \<Rightarrow> 8 word list list" where
  "sha_blocks xs = (if length xs < 64 then [] else take 64 xs # sha_blocks (drop 64 xs))"
  by pat_completeness auto
termination
  by (relation "measure length") auto

declare sha_blocks.simps [simp del]

definition sha_pad :: "8 word list \<Rightarrow> 8 word list" where
  "sha_pad d = d @ [0x80] @ replicate ((119 - length d mod 64) mod 64) 0 @ len_be (of_nat (length d) * 8)"

definition sha256_spec :: "8 word list \<Rightarrow> 8 word list" where
  "sha256_spec d = concat (map word_be (foldl compress_words initial_hash (sha_blocks (sha_pad d))))"

definition hmac_spec :: "8 word list \<Rightarrow> 8 word list \<Rightarrow> 8 word list" where
  "hmac_spec key d =
     (let k = (if 64 < length key then sha256_spec key else key); k = k @ replicate (64 - length k) 0
      in sha256_spec (map (\<lambda>b. b XOR 0x5c) k @ sha256_spec (map (\<lambda>b. b XOR 0x36) k @ d)))"

lemma sha_blocks_whole: "\<forall>b \<in> set bs. length b = 64 \<Longrightarrow> sha_blocks (concat bs) = bs"
  by (induction bs) (simp_all add: sha_blocks.simps [of "[]"] sha_blocks.simps [of "_ @ _"])

subsection \<open>The streaming invariant\<close>

definition whole_blocks :: "8 word list list \<Rightarrow> bool" where
  "whole_blocks bs \<longleftrightarrow> (\<forall>b \<in> set bs. length b = 64)"

text \<open>The context has taken in exactly the bytes \<open>d\<close>.\<close>

definition absorbed :: "sha_context \<Rightarrow> 8 word list \<Rightarrow> bool" where
  "absorbed c d \<longleftrightarrow> (\<exists>bs r. d = concat bs @ r \<and> whole_blocks bs \<and> length r < 64 \<and>
     sc_h c = foldl compress_words initial_hash bs \<and> sc_filled c = length r \<and>
     take (length r) (sc_block c) = r \<and> length (sc_block c) = 64)"

lemma whole_blocks_length: "whole_blocks bs \<Longrightarrow> length (concat bs) = 64 * length bs"
  by (induction bs) (auto simp: whole_blocks_def)

lemma absorbed_filled: "absorbed c d \<Longrightarrow> sc_filled c = length d mod 64"
  by (auto simp: absorbed_def whole_blocks_length)

lemma absorbed_new: "absorbed new_context []"
  by (auto simp: absorbed_def new_context_def k_sha256_block_bytes_def whole_blocks_def
      intro: exI [of _ "[]"])

lemma absorbed_total: "absorbed (c\<lparr>sc_total := t\<rparr>) d = absorbed c d"
  by (simp add: absorbed_def)

lemma blit_take: "length block = 64 \<Longrightarrow> take (length r) block = r \<Longrightarrow> length r + length p \<le> 64 \<Longrightarrow>
    take (length r + length p) (blit (length r) p block) = r @ p \<and> length (blit (length r) p block) = 64"
  by (simp add: blit_def)

lemma absorb_spec: "absorbed c d \<Longrightarrow> absorbed (sha_absorb x c) (d @ x)"
proof (induction x c arbitrary: d rule: sha_absorb.induct)
  case (1 x c)
  from 1(2) obtain bs r where a: "d = concat bs @ r" "whole_blocks bs" "length r < 64"
    "sc_h c = foldl compress_words initial_hash bs" "sc_filled c = length r"
    "take (length r) (sc_block c) = r" "length (sc_block c) = 64"
    by (auto simp: absorbed_def)
  show ?case
  proof (cases "x = []")
    case True
    with 1(2) show ?thesis by (simp add: sha_absorb.simps)
  next
    case x: False
    let ?n = "min (k_sha256_block_bytes - sc_filled c) (length x)"
    let ?c1 = "c\<lparr>sc_block := blit (sc_filled c) (take ?n x) (sc_block c), sc_filled := sc_filled c + ?n\<rparr>"
    let ?c2 = "if sc_filled ?c1 = k_sha256_block_bytes then (sha_compress (sc_block ?c1) ?c1)\<lparr>sc_filled := 0\<rparr> else ?c1"
    have go: "\<not> (x = [] \<or> k_sha256_block_bytes \<le> sc_filled c)" using x a by (simp add: k_sha256_block_bytes_def)
    then have eq: "sha_absorb x c = sha_absorb (drop ?n x) ?c2"
      by (subst sha_absorb.simps) (simp only: Let_def if_False)
    have k: "?n = min (64 - length r) (length x)" by (simp add: k_sha256_block_bytes_def a(5))
    have blk: "take (length r + ?n) (sc_block ?c1) = r @ take ?n x" "length (sc_block ?c1) = 64"
      using blit_take [OF a(7,6), of "take ?n x"] a(3) k by (simp_all add: a(5))
    have "absorbed ?c2 (d @ take ?n x)"
    proof (cases "length r + ?n = 64")
      case True
      then have b1: "sc_block ?c1 = r @ take ?n x" using blk by simp
      have l: "length (r @ take ?n x) = 64" using True by simp
      have c2: "?c2 = (sha_compress (r @ take ?n x) ?c1)\<lparr>sc_filled := 0\<rparr>"
        using True by (simp only: b1) (simp add: a(5) k_sha256_block_bytes_def)
      show ?thesis
        unfolding absorbed_def
      proof (intro exI conjI)
        show "d @ take ?n x = concat (bs @ [r @ take ?n x]) @ []" using a(1) by simp
        show "whole_blocks (bs @ [r @ take ?n x])" using a(2) l by (simp add: whole_blocks_def)
        show "sc_h ?c2 = foldl compress_words initial_hash (bs @ [r @ take ?n x])"
          unfolding c2 by (simp add: sha_compress_def a(4))
        show "length (sc_block ?c2) = 64" using blk(2) unfolding c2 by (simp add: sha_compress_def)
        show "sc_filled ?c2 = length ([] :: 8 word list)" unfolding c2 by simp
      qed simp_all
    next
      case False
      have l: "length (r @ take ?n x) < 64" using False a(3) unfolding k by (auto simp: min_def split: if_splits)
      have c2: "?c2 = ?c1" using False by (simp add: a(5) k_sha256_block_bytes_def)
      show ?thesis
        unfolding absorbed_def c2
      proof (intro exI conjI)
        show "d @ take ?n x = concat bs @ (r @ take ?n x)" using a(1) by simp
        show "length (r @ take ?n x) < 64" by (rule l)
        show "take (length (r @ take ?n x)) (sc_block ?c1) = r @ take ?n x" using blk(1) by simp
        show "length (sc_block ?c1) = 64" by (rule blk(2))
      qed (simp_all add: a)
    qed
    from 1(1) [OF go refl refl refl this] show ?thesis unfolding eq by (simp only: append_assoc append_take_drop_id)
  qed
qed

lemma update_spec: "absorbed c d \<Longrightarrow> absorbed (sha_update x c) (d @ x)"
  unfolding sha_update_def by (rule absorb_spec) (simp add: absorbed_total)

lemma absorb_total: "sc_total (sha_absorb x c) = sc_total c"
proof (induction x c rule: sha_absorb.induct)
  case (1 x c)
  show ?case
  proof (cases "x = [] \<or> k_sha256_block_bytes \<le> sc_filled c")
    case True
    then show ?thesis by (subst sha_absorb.simps) simp
  next
    case False
    with 1 [OF False refl refl refl] show ?thesis
      by (subst sha_absorb.simps) (simp add: Let_def sha_compress_def split: if_splits)
  qed
qed

lemma update_total: "sc_total (sha_update x c) = sc_total c + of_nat (length x)"
  by (simp add: sha_update_def absorb_total)

lemma wrap64: "y < 64 \<Longrightarrow> (64 + y) mod 64 = (y::nat)"
  by simp

lemma pad_step:
  assumes "(x::nat) < 64" "x \<noteq> 56"
  shows "(120 - x) mod 64 = Suc ((120 - (if x = 63 then 0 else x + 1)) mod 64)"
proof (cases "x < 56")
  case True
  have "120 - x = 64 + (56 - x)" "120 - (x + 1) = 64 + (55 - x)" using True by arith+
  then have "(120 - x) mod 64 = 56 - x" "(120 - (x + 1)) mod 64 = 55 - x"
    using wrap64 [of "56 - x"] wrap64 [of "55 - x"] by (simp_all only:)
  moreover have "56 - x = Suc (55 - x)" "x \<noteq> 63" using True by arith+
  ultimately show ?thesis by (simp only: if_False)
next
  case False
  then have "120 - x < 64" using assms by arith
  then have l: "(120 - x) mod 64 = 120 - x" by (rule mod_less)
  show ?thesis
  proof (cases "x = 63")
    case True
    with l wrap64 [of 56] show ?thesis by simp
  next
    case ne: False
    have "120 - (x + 1) < 64" "120 - x = Suc (120 - (x + 1))" using False ne assms by arith+
    with l ne show ?thesis by (simp only: mod_less if_False)
  qed
qed

lemma pad_length:
  assumes "(x::nat) < 64"
  shows "(x + 1 + (119 - x) mod 64) mod 64 = 56"
proof (cases "x < 56")
  case True
  then have e: "119 - x = 64 + (55 - x)" "x + 1 + (55 - x) = 56" by arith+
  have m: "(119 - x) mod 64 = 55 - x" unfolding e(1) by (rule wrap64) simp
  show ?thesis unfolding m e(2) by simp
next
  case False
  then have m: "(119 - x) mod 64 = 119 - x" by (intro mod_less) arith
  have e: "x + 1 + (119 - x) = 64 + 56" using False assms by arith
  show ?thesis unfolding m e by (rule wrap64) simp
qed

text \<open>The zeros loop stops at byte 56, after as many zeros as the reference pads with.\<close>

lemma sha_zeros_ends:
  assumes "absorbed c d" "(120 - length d mod 64) mod 64 = m" "m \<le> n"
  shows "absorbed (sha_zeros n c) (d @ replicate m 0)"
  using assms
proof (induction n arbitrary: c d m)
  case (Suc n)
  show ?case
  proof (cases "length d mod 64 = 56")
    case True
    with Suc.prems absorbed_filled [OF Suc.prems(1)] show ?thesis by (simp add: k_sha256_block_bytes_def)
  next
    case False
    have lt: "length d mod 64 < 64" by simp
    have next_mod: "length (d @ [0]) mod 64 = (if length d mod 64 = 63 then 0 else length d mod 64 + 1)"
      by (simp add: mod_Suc)
    obtain m' where m: "m = Suc m'" "(120 - length (d @ [0]) mod 64) mod 64 = m'"
    proof
      show "m = Suc ((120 - length (d @ [0]) mod 64) mod 64)"
        unfolding Suc.prems(2) [symmetric] next_mod by (rule pad_step [OF lt False])
    qed simp
    have "absorbed (sha_zeros n (sha_update [0] c)) ((d @ [0]) @ replicate m' 0)"
      by (rule Suc.IH [OF update_spec [OF Suc.prems(1)] m(2)]) (use Suc.prems(3) m(1) in simp)
    moreover have "sha_zeros (Suc n) c = sha_zeros n (sha_update [0] c)"
      using False absorbed_filled [OF Suc.prems(1)] by (simp add: k_sha256_block_bytes_def)
    ultimately show ?thesis using m(1) by simp
  qed
qed simp

lemma pad_zeros: "(120 - length (d @ [0x80]) mod 64) mod 64 = (119 - length d mod 64) mod 64"
proof -
  have "length d mod 64 < 64" by simp
  then show ?thesis by (cases "length d mod 64 = 63") (simp_all add: mod_Suc)
qed

lemma final_spec:
  assumes "absorbed c d" "sc_total c = of_nat (length d)"
  shows "sha_final c = sha256_spec d"
proof -
  let ?z = "(119 - length d mod 64) mod 64" and ?c = "sha_zeros k_sha256_block_bytes (sha_update [0x80] c)"
  have "?z \<le> k_sha256_block_bytes" by (simp add: k_sha256_block_bytes_def less_imp_le)
  from sha_zeros_ends [OF update_spec [OF assms(1)] pad_zeros this]
  have A: "absorbed ?c ((d @ [0x80]) @ replicate ?z 0)" .
  then obtain bs r where a: "(d @ [0x80]) @ replicate ?z 0 = concat bs @ r" "whole_blocks bs" "length r < 64"
    "sc_h ?c = foldl compress_words initial_hash bs" "sc_filled ?c = length r"
    "take (length r) (sc_block ?c) = r" "length (sc_block ?c) = 64"
    by (auto simp: absorbed_def)
  have "length ((d @ [0x80]) @ replicate ?z 0) mod 64 = 56"
  proof -
    have "(length d mod 64 + 1 + ?z) mod 64 = 56" by (rule pad_length) simp
    moreover have "(length d + 1 + ?z) mod 64 = (length d mod 64 + 1 + ?z) mod 64"
      using mod_add_left_eq [of "length d" 64 "1 + ?z"] by (simp only: add.assoc)
    ultimately show ?thesis by (simp only: length_append length_replicate list.size One_nat_def add_0)
  qed
  then have r: "length r = 56" using absorbed_filled [OF A] a(5) by simp
  let ?l = "len_be (of_nat (length d) * 8)"
  have l: "length ?l = 8" by (simp add: len_be_def)
  have blk: "blit (sc_filled ?c) ?l (sc_block ?c) = r @ ?l"
    using blit_take [OF a(7,6), of ?l] a(5,7) r l by (simp add: blit_def)
  have "sha_pad d = concat (bs @ [r @ ?l])"
    using a(1) by (simp add: sha_pad_def)
  moreover have "\<forall>b \<in> set (bs @ [r @ ?l]). length b = 64" using a(2) r l by (auto simp: whole_blocks_def)
  ultimately have "sha_blocks (sha_pad d) = bs @ [r @ ?l]" by (simp only: sha_blocks_whole)
  then show ?thesis
    using assms(2) a(4) blk by (simp add: sha_final_def sha256_spec_def sha_compress_def Let_def)
qed

lemma sha256_refines: "sha256 d = sha256_spec d"
  unfolding sha256_def
  by (rule final_spec) (use update_spec [OF absorbed_new, of d] in \<open>simp_all add: update_total new_context_def\<close>)

lemma sha256_two: "sha_final (sha_update b (sha_update a new_context)) = sha256_spec (a @ b)"
  by (rule final_spec) (use update_spec [OF update_spec [OF absorbed_new, of a], of b] in
    \<open>simp_all add: update_total new_context_def\<close>)

lemma hmac_refines: "hmac_sha256 key d = hmac_spec key d"
  by (simp add: hmac_sha256_def hmac_spec_def hmac_key_block_def sha256_refines sha256_two Let_def
      k_sha256_block_bytes_def)

lemma length_sha256: "length (sha256 d) = 32"
  by (simp add: sha256_def sha_final_def Let_def sha_compress_def compress_words_def word_be_def split: prod.splits)


subsection \<open>Base64 and the comparison\<close>

lemma alphabet: "length k_base64_alphabet = 64" "distinct k_base64_alphabet"
  by (simp_all add: k_base64_alphabet_def)

lemma base64_chr_eq: "base64_chr v = base64_chr w \<longleftrightarrow> v AND 0x3f = w AND 0x3f"
proof -
  have "unat (x AND 0x3f) < 64" for x :: "32 word"
  proof -
    have "unat (x AND 0x3f) \<le> unat (0x3f :: 32 word)" using word_and_le1 [of x "0x3f"] by (simp only: word_le_nat_alt)
    then show ?thesis by simp
  qed
  then show ?thesis
    using alphabet by (simp add: base64_chr_def nth_eq_iff_index_eq word_unat_eq_iff [symmetric])
qed

lemma six_bits:
  assumes "drop_bit s v AND 0x3f = drop_bit s w AND (0x3f :: 32 word)" "k < 6"
  shows "bit v (s + k) \<longleftrightarrow> bit w (s + k)"
proof -
  have m: "(0x3f :: 32 word) = mask 6" by (simp add: mask_eq_exp_minus_1)
  have "bit (drop_bit s v AND mask 6) k \<longleftrightarrow> bit (drop_bit s w AND (mask 6 :: 32 word)) k"
    using assms(1) unfolding m by simp
  with assms(2) show ?thesis by (simp add: bit_simps)
qed

lemma group_inj:
  fixes v w :: "32 word"
  assumes "base64_chr (drop_bit 18 v) = base64_chr (drop_bit 18 w)" "base64_chr (drop_bit 12 v) = base64_chr (drop_bit 12 w)"
    "base64_chr (drop_bit 6 v) = base64_chr (drop_bit 6 w)" "base64_chr v = base64_chr w" "n < 24"
  shows "bit v n \<longleftrightarrow> bit w n"
proof -
  note e = assms(1-4) [unfolded base64_chr_eq]
  have "drop_bit 0 v AND 0x3f = drop_bit 0 w AND 0x3f" using e(4) by simp
  note b = six_bits [OF e(1)] six_bits [OF e(2)] six_bits [OF e(3)] six_bits [OF this]
  consider "n < 6" | "6 \<le> n" "n < 12" | "12 \<le> n" "n < 18" | "18 \<le> n" using assms(5) by linarith
  then show ?thesis
  proof cases
    case 1 with b(4) [of n] show ?thesis by simp
  next
    case 2 with b(3) [of "n - 6"] show ?thesis by simp
  next
    case 3 with b(2) [of "n - 12"] show ?thesis by simp
  next
    case 4 with b(1) [of "n - 18"] assms(5) show ?thesis by simp
  qed
qed

definition pack3 :: "8 word \<Rightarrow> 8 word \<Rightarrow> 8 word \<Rightarrow> 32 word" where
  "pack3 a b c = push_bit 16 (ucast a) OR push_bit 8 (ucast b) OR ucast c"

lemma pack3_inj:
  assumes "\<And>n. n < 24 \<Longrightarrow> bit (pack3 a b c) n \<longleftrightarrow> bit (pack3 a' b' c') n"
  shows "a = a' \<and> b = b' \<and> c = c'"
proof (intro conjI; rule bit_word_eqI)
  fix k assume "k < LENGTH(8)"
  then have k: "k < 8" by simp
  have far: "\<not> bit (x :: 8 word) m" if "8 \<le> m" for x m using that by (auto dest: bit_imp_le_length)
  show "bit a k \<longleftrightarrow> bit a' k"
    using assms [of "16 + k"] k far by (simp add: pack3_def bit_simps)
  show "bit b k \<longleftrightarrow> bit b' k"
    using assms [of "8 + k"] k far by (simp add: pack3_def bit_simps)
  show "bit c k \<longleftrightarrow> bit c' k"
    using assms [of k] k far by (simp add: pack3_def bit_simps)
qed

lemma base64_triple:
  "base64 (a # b # c # r) = (let v = pack3 a b c in
     [base64_chr (drop_bit 18 v), base64_chr (drop_bit 12 v), base64_chr (drop_bit 6 v), base64_chr v] @ base64 r)"
  by (simp add: pack3_def Let_def)

lemma triple_cases:
  assumes "length x = 3 * Suc n"
  obtains a b c r where "x = a # b # c # r" "length r = 3 * n"
proof -
  have "length x = Suc (Suc (Suc (3 * n)))" using assms by simp
  then show ?thesis using that by (auto simp only: length_Suc_conv)
qed

lemma base64_inj:
  "length x = 3 * n \<Longrightarrow> length y = 3 * n \<Longrightarrow> base64 x = base64 y \<Longrightarrow> x = y"
proof (induction n arbitrary: x y)
  case (Suc n)
  obtain a b c r where x: "x = a # b # c # r" "length r = 3 * n" using Suc.prems(1) by (rule triple_cases)
  obtain a' b' c' r' where y: "y = a' # b' # c' # r'" "length r' = 3 * n"
    using Suc.prems(2) by (rule triple_cases)
  note e = Suc.prems(3) [unfolded x(1) y(1) base64_triple Let_def append_Cons append_Nil list.inject]
  have "a = a' \<and> b = b' \<and> c = c'"
    by (rule pack3_inj) (use e group_inj [of "pack3 a b c" "pack3 a' b' c'"] in blast)
  moreover have "r = r'" using Suc.IH [OF x(2) y(2)] e by blast
  ultimately show ?case by (simp add: x(1) y(1))
qed simp

lemma base64_length: "length x = 3 * n \<Longrightarrow> length (base64 x) = 4 * n"
proof (induction n arbitrary: x)
  case (Suc n)
  obtain a b c r where "x = a # b # c # r" "length r = 3 * n" using Suc.prems by (rule triple_cases)
  with Suc.IH show ?case by (simp add: Let_def)
qed simp

lemma or_fold_zero:
  "foldl (\<lambda>diff (x, y). diff OR (u8 x XOR u8 y)) d ps = 0 \<longleftrightarrow> d = 0 \<and> (\<forall>(x, y) \<in> set ps. x = y)"
proof (induction ps arbitrary: d)
  case (Cons p ps)
  obtain x y where p: "p = (x, y)" by fastforce
  have "u8 x XOR u8 y = 0 \<longleftrightarrow> x = y" by (metis u8_inject xor.right_neutral xor_self_eq xor.left_commute)
  with Cons.IH [of "d OR (u8 x XOR u8 y)"] p show ?case by (auto simp: or_eq_0_iff)
qed simp

lemma mac_equals_iff: "mac_equals a b \<longleftrightarrow> a = b"
proof -
  have "(\<forall>(x, y) \<in> set (zip a b). x = y) \<longleftrightarrow> a = b" if "length a = length b"
    using that by (induction a b rule: list_induct2) auto
  then show ?thesis by (auto simp: mac_equals_def or_fold_zero)
qed

end
