(* ===== verification/Pututu.thy ===== *)
theory Pututu
  imports Hmac_Sha256
begin

text \<open>
  The SMS doorbell verifier, \<^verbatim>\<open>components/pututu/pututu.cpp\<close>: the token format, its MAC, the counter's
  high water and the rate limit. The counter store and the cell that survives deep sleep belong to the
  caller: the store is a parameter with two operations, the cell a field of the state.
\<close>

subsection \<open>State and seams\<close>

datatype verdict = kAccept | kBadFormat | kBadMac | kStaleCounter | kRateLimited | kNotPersisted

record 'c counter_api =
  ca_high_water :: "'c \<Rightarrow> nat"
  ca_set_high_water :: "nat \<Rightarrow> 'c \<Rightarrow> bool \<times> 'c"

record 'c pututu_deps =
  pd_counters :: "'c counter_api option"
  pd_hmac_key :: string
  pd_monotonic :: bool
  pd_load :: bool
  pd_store :: bool

record 'c pututu_state =
  ps_counters :: 'c
  ps_rtc_wake_ms :: int
  ps_last_wake_ms :: int

definition k_min_wake_interval_ms :: int where "k_min_wake_interval_ms = 5 * 60 * 1000"
definition k_boot_quiet_ms :: int where "k_boot_quiet_ms = 60 * 1000"

definition k_pututu_prefix :: string where "k_pututu_prefix = ''CH1.''"
definition k_mac_bytes :: nat where "k_mac_bytes = 12"
definition k_mac_chars :: nat where "k_mac_chars = 16"
definition k_max_counter_digits :: nat where "k_max_counter_digits = 20"
definition dot :: char where "dot = CHR ''.''"

subsection \<open>The token\<close>

fun pututu_digits :: "nat \<Rightarrow> string \<Rightarrow> nat option" where
  "pututu_digits v [] = Some v"
| "pututu_digits v (c # s) =
     (if \<not> is_digit c then None
      else if (2 ^ 64 - 1 - digit_val c) div 10 < v then None
      else pututu_digits (v * 10 + digit_val c) s)"

definition pututu_parse_counter :: "string \<Rightarrow> nat option" where
  "pututu_parse_counter s =
     (if s = [] \<or> k_max_counter_digits < length s then None
      else if 1 < length s \<and> hd s = CHR ''0'' then None
      else pututu_digits 0 s)"

definition pututu_split :: "string \<Rightarrow> (nat \<times> string) option" where
  "pututu_split body =
     (let n = length k_pututu_prefix; text = takeWhile (\<lambda>c. c \<noteq> dot) (drop n body);
          tail = dropWhile (\<lambda>c. c \<noteq> dot) (drop n body)
      in if length body \<le> n then None
         else if take n body \<noteq> k_pututu_prefix then None
         else if tail = [] then None
         else if length (tl tail) \<noteq> k_mac_chars then None
         else if dot \<in> set (tl tail) then None
         else map_option (\<lambda>c. (c, tl tail)) (pututu_parse_counter text))"

definition compute_mac :: "string \<Rightarrow> nat \<Rightarrow> string" where
  "compute_mac key counter = base64 (take k_mac_bytes (hmac_sha256 (map u8 key) (map u8 (dec counter))))"

subsection \<open>The rate limit and the verdict\<close>

definition pututu_now :: "'c pututu_deps \<Rightarrow> int \<Rightarrow> int" where
  "pututu_now d t = (if pd_monotonic d then t else 0)"

definition last_wake :: "'c pututu_deps \<Rightarrow> 'c pututu_state \<Rightarrow> int" where
  "last_wake d s = (if pd_load d then ps_rtc_wake_ms s else ps_last_wake_ms s)"

definition rate_limited :: "'c pututu_deps \<Rightarrow> int \<Rightarrow> 'c pututu_state \<Rightarrow> bool" where
  "rate_limited d now s =
     (if now < k_boot_quiet_ms then True
      else let last' = last_wake d s
           in if last' = 0 then False else now < last' \<or> now - last' < k_min_wake_interval_ms)"

definition record_wake :: "'c pututu_deps \<Rightarrow> int \<Rightarrow> 'c pututu_state \<Rightarrow> 'c pututu_state" where
  "record_wake d now s =
     (let s = s\<lparr>ps_last_wake_ms := now\<rparr> in if pd_store d then s\<lparr>ps_rtc_wake_ms := now\<rparr> else s)"

definition pututu_verify :: "'c pututu_deps \<Rightarrow> int \<Rightarrow> string \<Rightarrow> 'c pututu_state \<Rightarrow> verdict \<times> 'c pututu_state" where
  "pututu_verify d t body s =
     (let now = pututu_now d t
      in if rate_limited d now s then (kRateLimited, s)
      else let s = record_wake d now s
      in case pututu_split body of
           None \<Rightarrow> (kBadFormat, s)
         | Some (counter, mac) \<Rightarrow>
             if \<not> mac_equals mac (compute_mac (pd_hmac_key d) counter) then (kBadMac, s)
             else case pd_counters d of
               None \<Rightarrow> (kNotPersisted, s)
             | Some api \<Rightarrow>
                 if counter \<le> ca_high_water api (ps_counters s) then (kStaleCounter, s)
                 else let (ok, c) = ca_set_high_water api counter (ps_counters s); s = s\<lparr>ps_counters := c\<rparr>
                      in if \<not> ok then (kNotPersisted, s) else (kAccept, s))"

definition counter_seen :: "'c pututu_deps \<Rightarrow> 'c pututu_state \<Rightarrow> nat" where
  "counter_seen d s = (case pd_counters d of None \<Rightarrow> 0 | Some api \<Rightarrow> ca_high_water api (ps_counters s))"

subsection \<open>The token format\<close>

definition token :: "string \<Rightarrow> nat \<Rightarrow> string" where
  "token key counter = k_pututu_prefix @ dec counter @ [dot] @ compute_mac key counter"

lemma digit_chr_val: "is_digit c \<Longrightarrow> digit_chr (digit_val c) = c \<and> digit_val c < 10"
  by (auto simp: is_digit_iff digit_val_def digit_chr_def)

lemma digits_from_ge: "v \<le> foldl (\<lambda>v c. v * 10 + digit_val c) v s"
proof (induction s arbitrary: v)
  case (Cons c s)
  have "v \<le> v * 10 + digit_val c" by simp
  also have "\<dots> \<le> foldl (\<lambda>v c. v * 10 + digit_val c) (v * 10 + digit_val c) s" by (rule Cons.IH)
  finally show ?case by simp
qed simp

lemma pututu_digits_eq:
  assumes "list_all is_digit s" "v < 2 ^ 64"
  shows "pututu_digits v s = (let n = foldl (\<lambda>v c. v * 10 + digit_val c) v s in if n < 2 ^ 64 then Some n else None)"
  using assms
proof (induction s arbitrary: v)
  case (Cons c s)
  let ?w = "v * 10 + digit_val c"
  have c: "is_digit c" "digit_val c < 10" using Cons.prems digit_chr_val by auto
  show ?case
  proof (cases "(2 ^ 64 - 1 - digit_val c) div 10 < v")
    case True
    then have "2 ^ 64 \<le> ?w" using c(2) by simp
    with digits_from_ge [of ?w s] have "\<not> foldl (\<lambda>v c. v * 10 + digit_val c) ?w s < 2 ^ 64" by linarith
    with True c show ?thesis by (simp add: Let_def)
  next
    case False
    then have "?w < 2 ^ 64" using c(2) by simp
    with Cons.IH [of ?w] Cons.prems False c show ?thesis by simp
  qed
qed simp

lemma pututu_digits_all: "pututu_digits v s = Some n \<Longrightarrow> list_all is_digit s"
  by (induction v s rule: pututu_digits.induct) (auto split: if_splits)

lemma canonical_digits:
  "list_all is_digit s \<Longrightarrow> s \<noteq> [] \<Longrightarrow> (1 < length s \<longrightarrow> hd s \<noteq> CHR ''0'') \<Longrightarrow>
   dec (digits_val s) = s \<and> (hd s \<noteq> CHR ''0'' \<longrightarrow> 0 < digits_val s)"
proof (induction s rule: rev_induct)
  case (snoc c s)
  have c: "digit_chr (digit_val c) = c" "digit_val c < 10" using snoc.prems digit_chr_val by auto
  show ?case
  proof (cases "s = []")
    case True
    have "0 < digit_val c" if "c \<noteq> CHR ''0''"
    proof -
      have "(of_char c :: nat) \<noteq> of_char (CHR ''0'')" using that by (simp only: of_char_eq_iff not_False_eq_True)
      then show ?thesis using snoc.prems(1) by (simp add: digit_val_def is_digit_iff)
    qed
    with True c show ?thesis by (subst dec.simps) (simp add: digits_val_def)
  next
    case False
    with snoc have s: "dec (digits_val s) = s" "0 < digits_val s" by (auto simp: neq_Nil_conv)
    have v: "digits_val (s @ [c]) = digits_val s * 10 + digit_val c" by (rule digits_val_append)
    with s(2) have "\<not> digits_val (s @ [c]) < 10" by simp
    then have "dec (digits_val (s @ [c])) = dec (digits_val s) @ [digit_chr (digit_val c)]"
      by (subst dec.simps) (simp add: v c(2))
    with s c v show ?thesis by simp
  qed
qed simp

lemma dec_no_leading_zero: "1 < length (dec n) \<Longrightarrow> hd (dec n) \<noteq> CHR ''0''"
proof (induction n rule: dec.induct)
  case (1 n)
  have n: "\<not> n < 10" using 1(2) by (subst (asm) dec.simps) (auto split: if_splits)
  then have d: "dec n = dec (n div 10) @ [digit_chr (n mod 10)]" by (subst dec.simps) simp
  show ?case
  proof (cases "1 < length (dec (n div 10))")
    case True
    with 1(1) [OF n] d show ?thesis by simp
  next
    case False
    have "n div 10 < 10"
    proof (rule ccontr)
      assume "\<not> n div 10 < 10"
      then have "dec (n div 10) = dec (n div 10 div 10) @ [digit_chr (n div 10 mod 10)]" by (subst dec.simps) simp
      with False show False by (simp add: Suc_le_eq)
    qed
    then have "dec (n div 10) = [digit_chr (n div 10)]" by (subst dec.simps) simp
    moreover have "digit_val (digit_chr (n div 10)) = n div 10" by (rule digit_val_chr) fact
    ultimately show ?thesis using d n by (auto simp: digit_val_def)
  qed
qed

lemma parse_counter_iff: "pututu_parse_counter s = Some c \<longleftrightarrow> s = dec c \<and> c < 2 ^ 64"
proof
  assume a: "pututu_parse_counter s = Some c"
  then have s: "s \<noteq> []" "1 < length s \<Longrightarrow> hd s \<noteq> CHR ''0''" "pututu_digits 0 s = Some c"
    by (auto simp: pututu_parse_counter_def split: if_splits)
  from pututu_digits_all [OF s(3)] have d: "list_all is_digit s" .
  from pututu_digits_eq [OF d, of 0] s(3) have "c = digits_val s \<and> c < 2 ^ 64"
    by (simp add: digits_val_def Let_def split: if_splits)
  with canonical_digits [OF d s(1)] s(2) show "s = dec c \<and> c < 2 ^ 64" by auto
next
  assume a: "s = dec c \<and> c < 2 ^ 64"
  have "length (dec c) \<le> 20" by (rule length_dec_le) (use a in auto)
  moreover have "pututu_digits 0 (dec c) = Some c"
    using pututu_digits_eq [of "dec c" 0] a by (simp add: digits_val_def [symmetric] Let_def)
  ultimately show "pututu_parse_counter s = Some c"
    using a dec_no_leading_zero [of c] by (auto simp: pututu_parse_counter_def k_max_counter_digits_def)
qed

lemma dot_not_digit: "dot \<notin> set (dec n)"
  by (auto simp: dot_def is_digit_iff dest!: dec_digits)

lemma split_iff:
  "pututu_split body = Some (c, mac) \<longleftrightarrow>
   body = k_pututu_prefix @ dec c @ [dot] @ mac \<and> c < 2 ^ 64 \<and> length mac = k_mac_chars \<and> dot \<notin> set mac"
  (is "?l \<longleftrightarrow> ?r")
proof
  let ?n = "length k_pututu_prefix" and ?p = "\<lambda>x. x \<noteq> dot"
  assume ?l
  then have h: "take ?n body = k_pututu_prefix" "dropWhile ?p (drop ?n body) \<noteq> []"
    "length (tl (dropWhile ?p (drop ?n body))) = k_mac_chars" "dot \<notin> set (tl (dropWhile ?p (drop ?n body)))"
    "mac = tl (dropWhile ?p (drop ?n body))" "pututu_parse_counter (takeWhile ?p (drop ?n body)) = Some c"
    by (auto simp: pututu_split_def Let_def split: if_splits)
  have "hd (dropWhile ?p (drop ?n body)) = dot" using hd_dropWhile [OF h(2)] by simp
  then have "dropWhile ?p (drop ?n body) = dot # mac" using h(2,5) by (metis list.collapse)
  moreover have "takeWhile ?p (drop ?n body) = dec c" "c < 2 ^ 64" using h(6) parse_counter_iff by blast+
  ultimately have "drop ?n body = dec c @ [dot] @ mac" by (metis append_Cons append_Nil takeWhile_dropWhile_id)
  with h \<open>c < 2 ^ 64\<close> show ?r by (metis append_take_drop_id)
next
  assume r: ?r
  let ?n = "length k_pututu_prefix" and ?p = "\<lambda>x. x \<noteq> dot"
  have d: "drop ?n body = dec c @ dot # mac" "take ?n body = k_pututu_prefix" "?n < length body" using r by simp_all
  then have "takeWhile ?p (drop ?n body) = dec c" "dropWhile ?p (drop ?n body) = dot # mac"
    by (simp_all add: takeWhile_neq_append [OF dot_not_digit] dropWhile_neq_append [OF dot_not_digit])
  moreover have "pututu_parse_counter (dec c) = Some c" using r parse_counter_iff by blast
  ultimately show ?l using r d by (simp add: pututu_split_def Let_def)
qed

lemma base64_alphabet: "set (base64 x) \<subseteq> insert (CHR ''='') (set k_base64_alphabet)"
proof -
  have c: "base64_chr v \<in> set k_base64_alphabet" for v
  proof -
    have "unat (v AND 0x3f) \<le> unat (0x3f :: 32 word)" using word_and_le1 [of v "0x3f"] by (simp only: word_le_nat_alt)
    then have "unat (v AND 0x3f) < length k_base64_alphabet" by (simp add: alphabet)
    then show ?thesis unfolding base64_chr_def by (rule nth_mem)
  qed
  show ?thesis by (induction x rule: base64.induct) (use c in \<open>auto simp: Let_def simp del: drop_bit_or\<close>)
qed

lemma mac_digest_length: "length (take k_mac_bytes (hmac_sha256 key d)) = 3 * 4"
  by (simp add: k_mac_bytes_def hmac_refines hmac_spec_def Let_def sha256_refines [symmetric] length_sha256)

lemma mac_chars: "length (compute_mac key c) = k_mac_chars" "dot \<notin> set (compute_mac key c)"
proof -
  from base64_length [OF mac_digest_length] show "length (compute_mac key c) = k_mac_chars"
    by (simp add: compute_mac_def k_mac_chars_def)
  show "dot \<notin> set (compute_mac key c)"
    using base64_alphabet [of "take k_mac_bytes (hmac_sha256 (map u8 key) (map u8 (dec c)))"]
    by (auto simp: compute_mac_def dot_def k_base64_alphabet_def)
qed

lemma verify_accept:
  assumes "pd_counters d = Some api"
  shows "pututu_verify d t body s = (kAccept, s') \<longleftrightarrow> \<not> rate_limited d (pututu_now d t) s \<and>
    (\<exists>c. body = token (pd_hmac_key d) c \<and> c < 2 ^ 64 \<and> ca_high_water api (ps_counters s) < c \<and>
      (\<exists>cs. ca_set_high_water api c (ps_counters s) = (True, cs) \<and>
         s' = (record_wake d (pututu_now d t) s)\<lparr>ps_counters := cs\<rparr>))"
  (is "?l \<longleftrightarrow> ?r")
proof
  have cnt: "ps_counters (record_wake d n s) = ps_counters s" for n by (simp add: record_wake_def Let_def)
  {
    assume l: ?l
    then have rl: "\<not> rate_limited d (pututu_now d t) s" by (auto simp: pututu_verify_def Let_def split: if_splits)
    obtain c mac where sp: "pututu_split body = Some (c, mac)"
      using l rl by (auto simp: pututu_verify_def Let_def split: option.splits)
    obtain ok cs where st: "ca_set_high_water api c (ps_counters s) = (ok, cs)" by fastforce
    from l rl sp st assms cnt have v: "mac = compute_mac (pd_hmac_key d) c" "ca_high_water api (ps_counters s) < c" ok
      "s' = (record_wake d (pututu_now d t) s)\<lparr>ps_counters := cs\<rparr>"
      by (auto simp: pututu_verify_def Let_def mac_equals_iff split: if_splits)
    moreover have "body = token (pd_hmac_key d) c" "c < 2 ^ 64"
      using sp [unfolded split_iff] v(1) by (simp_all add: token_def)
    ultimately show ?r using rl st by (metis (full_types))
  }
  {
    assume r: ?r
    then obtain c cs where v: "body = token (pd_hmac_key d) c" "c < 2 ^ 64" "ca_high_water api (ps_counters s) < c"
      "ca_set_high_water api c (ps_counters s) = (True, cs)"
      "s' = (record_wake d (pututu_now d t) s)\<lparr>ps_counters := cs\<rparr>" by blast
    have "pututu_split body = Some (c, compute_mac (pd_hmac_key d) c)"
      unfolding split_iff using v mac_chars by (simp add: token_def)
    with r v assms cnt show ?l by (auto simp: pututu_verify_def Let_def mac_equals_iff)
  }
qed

text \<open>
  C13: The verifier accepts exactly the doorbells the server mints. A message is accepted if and only if
  the limiter lets it through, it is byte for byte \<^verbatim>\<open>CH1.<counter>.<mac>\<close> for a 64-bit counter in canonical
  decimal with the base64 of the first twelve bytes of its HMAC, the counter is above the high water, and
  the new high water was persisted first. A tag that is the base64 of other bytes is never accepted.\<close>

theorem pututu_accepts_exactly:
  assumes "pd_counters d = Some api"
  shows "(fst (pututu_verify d t body s) = kAccept \<longleftrightarrow> \<not> rate_limited d (pututu_now d t) s \<and>
      (\<exists>c. body = token (pd_hmac_key d) c \<and> c < 2 ^ 64 \<and> ca_high_water api (ps_counters s) < c \<and>
        fst (ca_set_high_water api c (ps_counters s)))) \<and>
    (\<forall>c tag. body = k_pututu_prefix @ dec c @ [dot] @ base64 tag \<and> length tag = k_mac_bytes \<and>
      tag \<noteq> take k_mac_bytes (hmac_sha256 (map u8 (pd_hmac_key d)) (map u8 (dec c))) \<longrightarrow>
      fst (pututu_verify d t body s) \<noteq> kAccept)"
proof (intro conjI allI impI)
  have iff: "fst (pututu_verify d t body s) = kAccept \<longleftrightarrow> (\<exists>s'. pututu_verify d t body s = (kAccept, s'))"
    by (cases "pututu_verify d t body s") simp
  show "fst (pututu_verify d t body s) = kAccept \<longleftrightarrow> \<not> rate_limited d (pututu_now d t) s \<and>
      (\<exists>c. body = token (pd_hmac_key d) c \<and> c < 2 ^ 64 \<and> ca_high_water api (ps_counters s) < c \<and>
        fst (ca_set_high_water api c (ps_counters s)))"
  proof -
    have f: "fst (ca_set_high_water api c (ps_counters s)) \<longleftrightarrow> (\<exists>cs. ca_set_high_water api c (ps_counters s) = (True, cs))" for c
      by (cases "ca_set_high_water api c (ps_counters s)") simp
    show ?thesis unfolding iff verify_accept [OF assms] f by blast
  qed
  fix c tag
  let ?right = "take k_mac_bytes (hmac_sha256 (map u8 (pd_hmac_key d)) (map u8 (dec c)))"
  assume b: "body = k_pututu_prefix @ dec c @ [dot] @ base64 tag \<and> length tag = k_mac_bytes \<and> tag \<noteq> ?right"
  then have len: "length tag = 3 * 4" by (simp add: k_mac_bytes_def)
  have "base64 tag \<noteq> compute_mac (pd_hmac_key d) c"
    using base64_inj [OF len mac_digest_length] b unfolding compute_mac_def by blast
  moreover have "base64 tag = compute_mac (pd_hmac_key d) c" if "body = token (pd_hmac_key d) c'" for c'
  proof -
    have eq: "dec c @ dot # base64 tag = dec c' @ dot # compute_mac (pd_hmac_key d) c'"
      using that b by (simp add: token_def)
    from arg_cong [OF eq, of "takeWhile (\<lambda>x. x \<noteq> dot)"] have "dec c = dec c'"
      by (simp only: takeWhile_neq_append [OF dot_not_digit])
    with eq show ?thesis by simp
  qed
  ultimately show "fst (pututu_verify d t body s) \<noteq> kAccept" unfolding iff verify_accept [OF assms] by blast
qed

text \<open>A store in memory that never fails.\<close>

definition memory_counter :: "nat counter_api" where
  "memory_counter = \<lparr>ca_high_water = \<lambda>n. n, ca_set_high_water = \<lambda>v n. (True, v)\<rparr>"

definition demo_verifier :: "nat pututu_deps" where
  "demo_verifier = \<lparr>pd_counters = Some memory_counter, pd_hmac_key = ''k'', pd_monotonic = True, pd_load = True,
     pd_store = True\<rparr>"

definition demo_pututu :: "nat pututu_state" where
  "demo_pututu = \<lparr>ps_counters = 6, ps_rtc_wake_ms = 0, ps_last_wake_ms = 0\<rparr>"

lemma pututu_accepts_exactly_witness:
  "fst (pututu_verify demo_verifier 60000 (token ''k'' 7) demo_pututu) = kAccept"
proof -
  have "pd_counters demo_verifier = Some memory_counter" by (simp add: demo_verifier_def)
  from pututu_accepts_exactly [OF this, of 60000 "token ''k'' 7" demo_pututu]
  have "fst (pututu_verify demo_verifier 60000 (token ''k'' 7) demo_pututu) = kAccept \<longleftrightarrow>
      \<not> rate_limited demo_verifier (pututu_now demo_verifier 60000) demo_pututu \<and>
      (\<exists>c. token ''k'' 7 = token ''k'' c \<and> c < 2 ^ 64 \<and> 6 < c)"
    by (simp add: demo_verifier_def memory_counter_def demo_pututu_def)
  moreover have "\<not> rate_limited demo_verifier (pututu_now demo_verifier 60000) demo_pututu"
    by (simp add: rate_limited_def pututu_now_def demo_verifier_def demo_pututu_def k_boot_quiet_ms_def last_wake_def)
  moreover have "\<exists>c. token ''k'' 7 = token ''k'' c \<and> c < 2 ^ 64 \<and> 6 < (c::nat)" by (intro exI [of _ 7]) simp
  ultimately show ?thesis by blast
qed

subsection \<open>Runs of messages, sleeps and power cuts\<close>

text \<open>
  What happens to a device: a message at a reading of the clock, a deep sleep that constructs the
  verifier anew, a power loss that zeroes the surviving cell too. The counter store keeps its value.
\<close>

datatype doorbell_event = Sms int string | Deep_sleep | Power_loss

fun doorbell_run :: "'c pututu_deps \<Rightarrow> doorbell_event list \<Rightarrow> 'c pututu_state \<Rightarrow> (int \<times> string \<times> verdict) list" where
  "doorbell_run d [] s = []"
| "doorbell_run d (Sms t body # es) s =
     (let (v, s) = pututu_verify d t body s in (t, body, v) # doorbell_run d es s)"
| "doorbell_run d (Deep_sleep # es) s = doorbell_run d es (s\<lparr>ps_last_wake_ms := 0\<rparr>)"
| "doorbell_run d (Power_loss # es) s = doorbell_run d es (s\<lparr>ps_last_wake_ms := 0, ps_rtc_wake_ms := 0\<rparr>)"

definition accepted_counters :: "(int \<times> string \<times> verdict) list \<Rightarrow> nat list" where
  "accepted_counters tr = map (\<lambda>(t, body, v). fst (the (pututu_split body))) (filter (\<lambda>(t, body, v). v = kAccept) tr)"

definition wake_times :: "(int \<times> string \<times> verdict) list \<Rightarrow> int list" where
  "wake_times tr = map fst (filter (\<lambda>(t, body, v). v \<noteq> kRateLimited) tr)"

text \<open>The store's contract: a successful write is read back, a failed one leaves the old value or the new.\<close>

definition counter_contract :: "'c counter_api \<Rightarrow> bool" where
  "counter_contract api \<longleftrightarrow> (\<forall>v c c'. ca_set_high_water api v c = (True, c') \<longrightarrow> ca_high_water api c' = v) \<and>
     (\<forall>v c c'. ca_set_high_water api v c = (False, c') \<longrightarrow> ca_high_water api c' \<in> {ca_high_water api c, v})"

lemma verify_counters:
  assumes "pd_counters d = Some api" "counter_contract api" "pututu_verify d t body s = (v, s')"
  shows "if v = kAccept then \<exists>c mac. pututu_split body = Some (c, mac) \<and> ca_high_water api (ps_counters s) < c \<and>
      ca_high_water api (ps_counters s') = c
    else ca_high_water api (ps_counters s) \<le> ca_high_water api (ps_counters s')"
proof -
  have cnt: "ps_counters (record_wake d n s) = ps_counters s" for n by (simp add: record_wake_def Let_def)
  show ?thesis
  proof (cases "rate_limited d (pututu_now d t) s")
    case True
    with assms(3) show ?thesis by (auto simp: pututu_verify_def Let_def)
  next
    case rl: False
    show ?thesis
    proof (cases "pututu_split body")
      case None
      with rl assms(3) cnt show ?thesis by (auto simp: pututu_verify_def Let_def)
    next
      case (Some p)
      obtain c mac where p: "p = (c, mac)" by fastforce
      obtain ok cs where st: "ca_set_high_water api c (ps_counters s) = (ok, cs)" by fastforce
      have con: "ok \<Longrightarrow> ca_high_water api cs = c" "\<not> ok \<Longrightarrow> ca_high_water api cs \<in> {ca_high_water api (ps_counters s), c}"
        using assms(2) st by (auto simp: counter_contract_def)
      have k: "pututu_verify d t body s =
        (if \<not> mac_equals mac (compute_mac (pd_hmac_key d) c) then (kBadMac, record_wake d (pututu_now d t) s)
         else if c \<le> ca_high_water api (ps_counters s) then (kStaleCounter, record_wake d (pututu_now d t) s)
         else (if ok then kAccept else kNotPersisted, (record_wake d (pututu_now d t) s)\<lparr>ps_counters := cs\<rparr>))"
        using rl Some p assms(1) st cnt by (simp add: pututu_verify_def Let_def)
      show ?thesis using assms(3) con Some p cnt unfolding k by (auto split: if_splits)
    qed
  qed
qed

lemma verify_wake:
  assumes "pd_load d" "pd_store d" "pd_monotonic d" "pututu_verify d t body s = (v, s')"
  shows "if v = kRateLimited then s' = s
    else 60000 \<le> t \<and> (ps_rtc_wake_ms s \<noteq> 0 \<longrightarrow> ps_rtc_wake_ms s + 300000 \<le> t) \<and> ps_rtc_wake_ms s' = t"
proof (cases "rate_limited d t s")
  case True
  with assms show ?thesis by (auto simp: pututu_verify_def pututu_now_def Let_def)
next
  case False
  then have a: "60000 \<le> t" "ps_rtc_wake_ms s \<noteq> 0 \<longrightarrow> ps_rtc_wake_ms s + 300000 \<le> t"
    using assms(1) by (auto simp: rate_limited_def last_wake_def Let_def k_boot_quiet_ms_def k_min_wake_interval_ms_def split: if_splits)
  from False assms have "v \<noteq> kRateLimited \<and> ps_rtc_wake_ms s' = t"
    by (auto simp: pututu_verify_def pututu_now_def record_wake_def Let_def split: option.splits prod.splits if_splits)
  with a show ?thesis by simp
qed

text \<open>
  C12: No doorbell is accepted twice and none drains the battery. Over any sequence of messages, valid or
  forged, deep sleeps and power losses, failing counter writes included, the accepted counters strictly
  increase above the high water at the start, so a replay is never accepted. Between two power losses,
  with the wake time kept in the cell that survives deep sleep, everything the verifier looks at past the
  limiter is at least five minutes apart and not in the first minute.\<close>

theorem doorbell_no_replay:
  assumes "pd_counters d = Some api" "counter_contract api"
  shows "sorted_wrt (<) (ca_high_water api (ps_counters s) # accepted_counters (doorbell_run d es s)) \<and>
    (pd_load d \<and> pd_store d \<and> pd_monotonic d \<and> Power_loss \<notin> set es \<longrightarrow>
      sorted_wrt (\<lambda>a b. a + 300000 \<le> b) (wake_times (doorbell_run d es s)) \<and>
      (\<forall>w \<in> set (wake_times (doorbell_run d es s)). 60000 \<le> w))"
proof
  show "sorted_wrt (<) (ca_high_water api (ps_counters s) # accepted_counters (doorbell_run d es s))"
  proof (induction es arbitrary: s)
    case (Cons e es)
    show ?case
    proof (cases e)
      case (Sms t body)
      obtain v s' where v: "pututu_verify d t body s = (v, s')" by fastforce
      from verify_counters [OF assms v] Cons.IH [of s'] v Sms show ?thesis
        by (fastforce simp: accepted_counters_def split: if_splits)
    next
      case Deep_sleep
      with Cons.IH [of "s\<lparr>ps_last_wake_ms := 0\<rparr>"] show ?thesis by simp
    next
      case Power_loss
      with Cons.IH [of "s\<lparr>ps_last_wake_ms := 0, ps_rtc_wake_ms := 0\<rparr>"] show ?thesis by simp
    qed
  qed (simp add: accepted_counters_def)
  show "pd_load d \<and> pd_store d \<and> pd_monotonic d \<and> Power_loss \<notin> set es \<longrightarrow>
      sorted_wrt (\<lambda>a b. a + 300000 \<le> b) (wake_times (doorbell_run d es s)) \<and>
      (\<forall>w \<in> set (wake_times (doorbell_run d es s)). 60000 \<le> w)"
  proof
    assume h: "pd_load d \<and> pd_store d \<and> pd_monotonic d \<and> Power_loss \<notin> set es"
    then have "sorted_wrt (\<lambda>a b. a + 300000 \<le> b) (wake_times (doorbell_run d es s)) \<and>
      (\<forall>w \<in> set (wake_times (doorbell_run d es s)). 60000 \<le> w \<and> (ps_rtc_wake_ms s \<noteq> 0 \<longrightarrow> ps_rtc_wake_ms s + 300000 \<le> w))"
    proof (induction es arbitrary: s)
      case (Cons e es)
      show ?case
      proof (cases e)
        case (Sms t body)
        obtain v s' where v: "pututu_verify d t body s = (v, s')" by fastforce
        have "pd_load d" "pd_store d" "pd_monotonic d" using Cons.prems by simp_all
        from verify_wake [OF this v] Cons.IH [of s'] Cons.prems v Sms show ?thesis
          by (fastforce simp: wake_times_def split: if_splits)
      next
        case Deep_sleep
        with Cons.IH [of "s\<lparr>ps_last_wake_ms := 0\<rparr>"] Cons.prems show ?thesis by simp
      next
        case Power_loss
        with Cons.prems show ?thesis by simp
      qed
    qed (simp add: wake_times_def)
    then show "sorted_wrt (\<lambda>a b. a + 300000 \<le> b) (wake_times (doorbell_run d es s)) \<and>
      (\<forall>w \<in> set (wake_times (doorbell_run d es s)). 60000 \<le> w)" by blast
  qed
qed

lemma doorbell_no_replay_witness:
  "sorted_wrt (<) (6 # accepted_counters (doorbell_run demo_verifier
     [Sms 60000 (token ''k'' 7), Power_loss, Sms 60000 (token ''k'' 7)] demo_pututu))"
proof -
  have "pd_counters demo_verifier = Some memory_counter" "counter_contract memory_counter"
    by (simp_all add: demo_verifier_def counter_contract_def memory_counter_def)
  from doorbell_no_replay [OF this, of demo_pututu "[Sms 60000 (token ''k'' 7), Power_loss, Sms 60000 (token ''k'' 7)]"]
  have "sorted_wrt (<) (ca_high_water memory_counter (ps_counters demo_pututu) # accepted_counters (doorbell_run demo_verifier
     [Sms 60000 (token ''k'' 7), Power_loss, Sms 60000 (token ''k'' 7)] demo_pututu))" by (rule conjunct1)
  moreover have "ca_high_water memory_counter (ps_counters demo_pututu) = 6" by (simp add: memory_counter_def demo_pututu_def)
  ultimately show ?thesis by (simp only:)
qed

end
