(* ===== verification/Battery.thy ===== *)
theory Battery
  imports Prelude
begin

text \<open>
  The battery monitor, \<^verbatim>\<open>components/power/power.cpp\<close>: the graceful threshold polled during a session and
  the armed undervoltage alert with its one confirming re-read. The gauge and the actions the caller
  supplies are seams: a gauge is a function of its own state, a missing seam a flag that is off, and the
  calls the monitor makes are recorded in order, newest first.
\<close>

subsection \<open>State and seams\<close>

record reading =
  rd_soc_pct :: int
  rd_millivolts :: int
  rd_charging :: bool
  rd_valid :: bool

definition no_reading :: reading where
  "no_reading = \<lparr>rd_soc_pct = 0, rd_millivolts = 0, rd_charging = False, rd_valid = False\<rparr>"

definition k_graceful_soc_pct :: int where "k_graceful_soc_pct = 5"
definition k_emergency_millivolts :: int where "k_emergency_millivolts = 3300"
definition k_emergency_confirm_delay_ms :: int where "k_emergency_confirm_delay_ms = 250"
definition k_emergency_confirm_margin_mv :: int where "k_emergency_confirm_margin_mv = 100"
definition k_gauge_poll_interval_ms :: int where "k_gauge_poll_interval_ms = 1000"

datatype emergency_outcome = kNoAlert | kCancelled | kWiped

datatype power_call = ReadGauge | ArmAlert int | DisarmAlert | ClearAlert | OnEmergency | RadioOff | DelayMs int | OnAlertIsr

record 'g monitor_deps =
  md_gauge :: "('g \<Rightarrow> reading \<times> 'g) option"
  md_on_emergency :: bool
  md_radio_off :: bool
  md_delay_ms :: bool
  md_on_alert_isr :: bool
  md_monotonic_ms :: bool

record 'g monitor =
  mo_last :: reading
  mo_alert_pending :: bool
  mo_last_sample_ms :: int
  mo_have_sample :: bool
  mo_session :: bool
  mo_latched :: bool
  mo_gauge :: 'g
  mo_calls :: "power_call list"

definition new_monitor :: "'g \<Rightarrow> 'g monitor" where
  "new_monitor g = \<lparr>mo_last = no_reading, mo_alert_pending = False, mo_last_sample_ms = 0, mo_have_sample = False,
     mo_session = False, mo_latched = False, mo_gauge = g, mo_calls = []\<rparr>"

definition power_call :: "power_call \<Rightarrow> 'g monitor \<Rightarrow> 'g monitor" where
  "power_call c m = m\<lparr>mo_calls := c # mo_calls m\<rparr>"

definition call_if :: "bool \<Rightarrow> power_call \<Rightarrow> 'g monitor \<Rightarrow> 'g monitor" where
  "call_if b c m = (if b then power_call c m else m)"

subsection \<open>Operations\<close>

definition gauge_read :: "('g \<Rightarrow> reading \<times> 'g) \<Rightarrow> 'g monitor \<Rightarrow> 'g monitor" where
  "gauge_read rd m = (let (r, g) = rd (mo_gauge m) in power_call ReadGauge (m\<lparr>mo_last := r, mo_gauge := g\<rparr>))"

definition sample :: "'g monitor_deps \<Rightarrow> bool \<Rightarrow> int \<Rightarrow> 'g monitor \<Rightarrow> 'g monitor" where
  "sample d force t m = (case md_gauge d of
      None \<Rightarrow> m
    | Some rd \<Rightarrow>
        let now = (if md_monotonic_ms d then t else 0)
        in if \<not> force \<and> mo_have_sample m \<and> now - mo_last_sample_ms m < k_gauge_poll_interval_ms then m
           else (gauge_read rd m)\<lparr>mo_last_sample_ms := now, mo_have_sample := True\<rparr>)"

definition arm :: "'g monitor_deps \<Rightarrow> 'g monitor \<Rightarrow> 'g monitor" where
  "arm d m = call_if (md_gauge d \<noteq> None) (ArmAlert k_emergency_millivolts) m"

definition disarm :: "'g monitor_deps \<Rightarrow> 'g monitor \<Rightarrow> 'g monitor" where
  "disarm d m = call_if (md_gauge d \<noteq> None) DisarmAlert m"

definition begin_session :: "'g monitor_deps \<Rightarrow> int \<Rightarrow> 'g monitor \<Rightarrow> 'g monitor" where
  "begin_session d t m = (if mo_session m then m else arm d (sample d True t (m\<lparr>mo_session := True\<rparr>)))"

definition end_session :: "'g monitor_deps \<Rightarrow> 'g monitor \<Rightarrow> 'g monitor" where
  "end_session d m = (if \<not> mo_session m then m else disarm d (m\<lparr>mo_session := False\<rparr>))"

definition graceful_threshold_crossed :: "'g monitor_deps \<Rightarrow> int \<Rightarrow> 'g monitor \<Rightarrow> bool \<times> 'g monitor" where
  "graceful_threshold_crossed d t m =
     (if \<not> mo_session m then (False, m)
      else let m = sample d False t m; r = mo_last m
      in if \<not> rd_valid r then (False, m)
      else if rd_charging r then (False, m\<lparr>mo_latched := False\<rparr>)
      else if k_graceful_soc_pct \<le> rd_soc_pct r then (False, m)
      else if mo_latched m then (False, m)
      else (True, m\<lparr>mo_latched := True\<rparr>))"

definition on_alert :: "'g monitor_deps \<Rightarrow> 'g monitor \<Rightarrow> 'g monitor" where
  "on_alert d m = call_if (md_on_alert_isr d) OnAlertIsr (m\<lparr>mo_alert_pending := True\<rparr>)"

definition recovered :: "'g monitor_deps \<Rightarrow> 'g monitor \<Rightarrow> bool \<times> 'g monitor" where
  "recovered d m = (case md_gauge d of
      None \<Rightarrow> (False, m)
    | Some rd \<Rightarrow>
        if \<not> md_delay_ms d then (False, m)
        else let m = gauge_read rd (power_call (DelayMs k_emergency_confirm_delay_ms) m); r = mo_last m
             in (rd_valid r \<and> k_emergency_millivolts + k_emergency_confirm_margin_mv \<le> rd_millivolts r, m))"

definition service_emergency :: "'g monitor_deps \<Rightarrow> 'g monitor \<Rightarrow> emergency_outcome \<times> 'g monitor" where
  "service_emergency d m =
     (if \<not> mo_alert_pending m then (kNoAlert, m)
      else let m = call_if (md_radio_off d) RadioOff (m\<lparr>mo_alert_pending := False\<rparr>);
               (ok, m) = recovered d m
           in if ok then (kCancelled, arm d (call_if (md_gauge d \<noteq> None) ClearAlert m))
              else (kWiped, call_if (md_on_emergency d) OnEmergency m))"

subsection \<open>The emergency path\<close>

lemma call_if_simps [simp]:
  "mo_last (call_if b c m) = mo_last m" "mo_alert_pending (call_if b c m) = mo_alert_pending m"
  "mo_session (call_if b c m) = mo_session m" "mo_latched (call_if b c m) = mo_latched m"
  "mo_gauge (call_if b c m) = mo_gauge m" "mo_calls (call_if b c m) = (if b then c # mo_calls m else mo_calls m)"
  by (simp_all add: call_if_def power_call_def)

lemma gauge_read_simps [simp]:
  "mo_last (gauge_read rd m) = fst (rd (mo_gauge m))" "mo_alert_pending (gauge_read rd m) = mo_alert_pending m"
  "mo_session (gauge_read rd m) = mo_session m" "mo_latched (gauge_read rd m) = mo_latched m"
  "mo_gauge (gauge_read rd m) = snd (rd (mo_gauge m))" "mo_calls (gauge_read rd m) = ReadGauge # mo_calls m"
  by (simp_all add: gauge_read_def power_call_def Let_def split: prod.splits)

lemma arm_simps [simp]:
  "mo_alert_pending (arm d m) = mo_alert_pending m" "mo_session (arm d m) = mo_session m"
  "mo_latched (arm d m) = mo_latched m" "mo_last (arm d m) = mo_last m"
  "mo_calls (arm d m) = (if md_gauge d = None then mo_calls m else ArmAlert k_emergency_millivolts # mo_calls m)"
  by (simp_all add: arm_def)

text \<open>The reading that can call off a wipe: valid, and above the threshold by the margin.\<close>

definition confirms :: "reading \<Rightarrow> bool" where
  "confirms r \<longleftrightarrow> rd_valid r \<and> 3400 \<le> rd_millivolts r"

text \<open>
  Doubt resolves toward wiping. A pending alert is serviced once: the radio goes off first, then at
  most one reading is taken, after 250 ms. The wipe is called off exactly when there is a gauge, a delay
  to wait with, and the reading is valid and at least 100 mV above the threshold; then the alert is
  cleared and armed again. In every other case, a missing gauge and a failed read included, the emergency
  handler runs, last.\<close>

theorem emergency_wipes_on_doubt:
  assumes "mo_alert_pending m" "service_emergency d m = (out, m')"
  shows "out = (case md_gauge d of Some rd \<Rightarrow> if md_delay_ms d \<and> confirms (fst (rd (mo_gauge m))) then kCancelled else kWiped
      | None \<Rightarrow> kWiped) \<and> \<not> mo_alert_pending m' \<and> mo_session m' = mo_session m \<and> mo_latched m' = mo_latched m \<and>
    rev (mo_calls m') = rev (mo_calls m) @ (if md_radio_off d then [RadioOff] else []) @
      (if md_gauge d \<noteq> None \<and> md_delay_ms d then [DelayMs 250, ReadGauge] else []) @
      (if out = kCancelled then [ClearAlert, ArmAlert 3300] else if md_on_emergency d then [OnEmergency] else [])"
proof (cases "md_gauge d")
  case None
  with assms show ?thesis
    by (auto simp: service_emergency_def recovered_def)
next
  case (Some rd)
  note k = k_emergency_millivolts_def k_emergency_confirm_margin_mv_def k_emergency_confirm_delay_ms_def
  show ?thesis
  proof (cases "md_delay_ms d")
    case False
    with Some assms show ?thesis by (auto simp: service_emergency_def recovered_def)
  next
    case True
    let ?m = "gauge_read rd (power_call (DelayMs 250) (call_if (md_radio_off d) RadioOff (m\<lparr>mo_alert_pending := False\<rparr>)))"
    have g: "mo_last ?m = fst (rd (mo_gauge m))" "mo_alert_pending ?m = False" "mo_session ?m = mo_session m"
      "mo_latched ?m = mo_latched m"
      "mo_calls ?m = ReadGauge # DelayMs 250 # (if md_radio_off d then RadioOff # mo_calls m else mo_calls m)"
      by (simp_all add: power_call_def)
    have "recovered d (call_if (md_radio_off d) RadioOff (m\<lparr>mo_alert_pending := False\<rparr>)) =
        (confirms (fst (rd (mo_gauge m))), ?m)"
      using Some True g(1) by (simp add: recovered_def Let_def confirms_def k)
    with assms Some have "(out, m') = (if confirms (fst (rd (mo_gauge m)))
        then (kCancelled, arm d (call_if True ClearAlert ?m)) else (kWiped, call_if (md_on_emergency d) OnEmergency ?m))"
      by (cases "confirms (fst (rd (mo_gauge m)))") (simp_all add: service_emergency_def Let_def)
    with Some True g show ?thesis by (simp add: k split: if_splits)
  qed
qed

subsection \<open>Sessions\<close>

text \<open>
  A device's life: sessions begin and end, the UI polls, an armed gauge raises its alert at any moment and
  the handler runs. A step is labelled with what it reports.
\<close>

fun armed_by :: "power_call list \<Rightarrow> bool" where
  "armed_by [] = False"
| "armed_by (ArmAlert mv # cs) = True"
| "armed_by (DisarmAlert # cs) = False"
| "armed_by (c # cs) = armed_by cs"

datatype power_event = Begin | End | Poll bool | Alert | Service emergency_outcome

inductive mon_step :: "'g monitor_deps \<Rightarrow> 'g monitor \<Rightarrow> power_event \<Rightarrow> 'g monitor \<Rightarrow> bool" for d where
  begins: "mon_step d m Begin (begin_session d t m)"
| ends: "mon_step d m End (end_session d m)"
| polls: "graceful_threshold_crossed d t m = (b, m') \<Longrightarrow> mon_step d m (Poll b) m'"
| alerts: "armed_by (mo_calls m) \<Longrightarrow> mon_step d m Alert (on_alert d m)"
| services: "service_emergency d m = (out, m') \<Longrightarrow> mon_step d m (Service out) m'"

inductive_cases poll_fires: "mon_step d m (Poll True) m'"
inductive_simps service_simp: "mon_step d m (Service out) m'"

text \<open>The events, newest first, each with the state it left.\<close>

inductive mon_run :: "'g monitor_deps \<Rightarrow> 'g monitor \<Rightarrow> (power_event \<times> 'g monitor) list \<Rightarrow> bool" for d where
  fresh: "mon_run d (new_monitor g) []"
| step: "mon_run d m tr \<Longrightarrow> mon_step d m e m' \<Longrightarrow> mon_run d m' ((e, m') # tr)"

definition mon_inv :: "'g monitor_deps \<Rightarrow> 'g monitor \<Rightarrow> bool" where
  "mon_inv d m \<longleftrightarrow> (armed_by (mo_calls m) \<longleftrightarrow> mo_session m \<and> md_gauge d \<noteq> None)"

lemma armed_call_if: "c \<noteq> DisarmAlert \<Longrightarrow> (\<forall>mv. c \<noteq> ArmAlert mv) \<Longrightarrow> armed_by (c # cs) = armed_by cs"
  by (cases c) auto

lemma sample_simps [simp]:
  "mo_session (sample d force t m) = mo_session m" "mo_latched (sample d force t m) = mo_latched m"
  "mo_alert_pending (sample d force t m) = mo_alert_pending m"
  "armed_by (mo_calls (sample d force t m)) = armed_by (mo_calls m)"
  by (simp_all add: sample_def Let_def split: option.splits)

lemma graceful_spec:
  assumes "graceful_threshold_crossed d t m = (b, m')"
  shows "mo_session m' = mo_session m" "armed_by (mo_calls m') = armed_by (mo_calls m)"
    "mo_alert_pending m' = mo_alert_pending m"
    and "b \<Longrightarrow> mo_session m \<and> \<not> mo_latched m \<and> mo_latched m' \<and> rd_valid (mo_last m') \<and>
      \<not> rd_charging (mo_last m') \<and> rd_soc_pct (mo_last m') < 5"
    and "mo_latched m \<Longrightarrow> \<not> mo_latched m' \<Longrightarrow> \<not> b \<and> rd_valid (mo_last m') \<and> rd_charging (mo_last m')"
  using assms by (auto simp: graceful_threshold_crossed_def Let_def k_graceful_soc_pct_def split: if_splits)

lemma service_inv:
  assumes "service_emergency d m = (out, m')" "mon_inv d m" "mo_session m \<or> md_gauge d = None \<or> \<not> mo_alert_pending m"
  shows "mon_inv d m' \<and> mo_latched m' = mo_latched m"
proof (cases "mo_alert_pending m")
  case False
  with assms show ?thesis by (simp add: service_emergency_def)
next
  case True
  let ?m = "call_if (md_radio_off d) RadioOff (m\<lparr>mo_alert_pending := False\<rparr>)"
  obtain ok m1 where r: "recovered d ?m = (ok, m1)" by fastforce
  have m1: "mo_session m1 = mo_session m" "mo_latched m1 = mo_latched m" "armed_by (mo_calls m1) = armed_by (mo_calls m)"
    using r by (auto simp: recovered_def power_call_def Let_def split: option.splits if_splits)
  have g: "ok \<Longrightarrow> md_gauge d \<noteq> None" using r by (auto simp: recovered_def split: option.splits)
  show ?thesis
  proof (cases "ok = True")
    case True
    with r assms(1) g \<open>mo_alert_pending m\<close> have "m' = arm d (call_if True ClearAlert m1)"
      by (auto simp: service_emergency_def)
    with m1 assms(2,3) g True \<open>mo_alert_pending m\<close> show ?thesis by (auto simp: mon_inv_def)
  next
    case False
    with r assms(1) \<open>mo_alert_pending m\<close> have "m' = call_if (md_on_emergency d) OnEmergency m1"
      by (auto simp: service_emergency_def)
    moreover have "armed_by (mo_calls (call_if (md_on_emergency d) OnEmergency m1)) = armed_by (mo_calls m1)"
      by (simp add: call_if_def power_call_def)
    ultimately show ?thesis using m1 assms(2) by (simp add: mon_inv_def)
  qed
qed

lemma mon_step_inv:
  assumes "mon_step d m e m'" "mon_inv d m" "mo_session m \<or> \<not> mo_alert_pending m \<or> md_gauge d = None"
  shows "mon_inv d m'"
  using assms
proof (cases rule: mon_step.cases)
  case (begins t)
  with assms(2) show ?thesis by (auto simp: begin_session_def mon_inv_def)
next
  case ends
  with assms(2) show ?thesis by (auto simp: end_session_def disarm_def mon_inv_def)
next
  case (polls t b)
  with assms(2) graceful_spec [OF polls(2)] show ?thesis by (simp add: mon_inv_def)
next
  case alerts
  with assms(2) show ?thesis by (simp add: on_alert_def mon_inv_def)
next
  case (services out)
  with service_inv [OF services(2) assms(2)] assms(3) show ?thesis by blast
qed

lemma emergency_service_pending:
  assumes "service_emergency d m = (out, m')"
  shows "\<not> mo_alert_pending m' \<and> mo_latched m' = mo_latched m"
proof (cases "mo_alert_pending m")
  case False
  with assms show ?thesis by (simp add: service_emergency_def)
next
  case True
  let ?m = "call_if (md_radio_off d) RadioOff (m\<lparr>mo_alert_pending := False\<rparr>)"
  obtain ok m1 where r: "recovered d ?m = (ok, m1)" by fastforce
  have "\<not> mo_alert_pending m1 \<and> mo_latched m1 = mo_latched m"
    using r by (auto simp: recovered_def power_call_def Let_def split: option.splits if_splits)
  with True r assms show ?thesis by (cases ok) (auto simp: service_emergency_def)
qed

text \<open>The alert handler has nothing pending outside a session, as long as none was pending when one ended.\<close>

definition mon_strong :: "'g monitor_deps \<Rightarrow> 'g monitor \<Rightarrow> bool" where
  "mon_strong d m \<longleftrightarrow> mon_inv d m \<and> (mo_alert_pending m \<longrightarrow> mo_session m)"

lemma mon_step_strong:
  assumes "mon_step d m e m'" "mon_strong d m" "e = End \<longrightarrow> \<not> mo_alert_pending m'"
  shows "mon_strong d m'"
proof -
  have "mon_inv d m'" using mon_step_inv [OF assms(1)] assms(2) by (auto simp: mon_strong_def)
  moreover have "mo_alert_pending m' \<longrightarrow> mo_session m'"
    using assms(1)
  proof cases
    case (begins t)
    with assms(2) show ?thesis by (auto simp: begin_session_def mon_strong_def)
  next
    case ends
    with assms(3) show ?thesis by simp
  next
    case (polls t b)
    with assms(2) graceful_spec [OF polls(2)] show ?thesis by (simp add: mon_strong_def)
  next
    case alerts
    with assms(2) show ?thesis by (simp add: on_alert_def mon_strong_def mon_inv_def)
  next
    case (services out)
    with assms(2) emergency_service_pending [OF services(2)] show ?thesis by (auto simp: mon_strong_def)
  qed
  ultimately show ?thesis by (simp add: mon_strong_def)
qed

lemma mon_run_strong:
  "mon_run d m tr \<Longrightarrow> (\<forall>(e, x) \<in> set tr. e = End \<longrightarrow> \<not> mo_alert_pending x) \<Longrightarrow> mon_strong d m"
proof (induction rule: mon_run.induct)
  case (fresh g)
  show ?case by (simp add: mon_strong_def mon_inv_def new_monitor_def)
next
  case (step m tr e m')
  then show ?case using mon_step_strong by fastforce
qed


definition steady_gauge :: "unit monitor_deps" where
  "steady_gauge = \<lparr>md_gauge = Some (\<lambda>u. (\<lparr>rd_soc_pct = 50, rd_millivolts = 3700, rd_charging = False, rd_valid = True\<rparr>, u)),
     md_on_emergency = True, md_radio_off = True, md_delay_ms = True, md_on_alert_isr = False, md_monotonic_ms = True\<rparr>"


text \<open>
  The proviso is needed. A session that ends with an alert pending, whose handler then finds the
  voltage recovered, leaves the backstop armed outside any session: \<^verbatim>\<open>EndSession\<close> does not withdraw the
  pending alert and \<^verbatim>\<open>ServiceEmergency\<close> arms again without looking at the session.\<close>

theorem late_service_arms_asleep:
  "\<exists>m tr. mon_run steady_gauge m tr \<and> \<not> mo_session m \<and> armed_by (mo_calls m)"
proof -
  let ?a = "begin_session steady_gauge 5 (new_monitor ())"
  let ?b = "on_alert steady_gauge ?a" and ?c = "end_session steady_gauge (on_alert steady_gauge ?a)"
  obtain out m where s: "service_emergency steady_gauge ?c = (out, m)" by fastforce
  note defs = begin_session_def new_monitor_def sample_def gauge_read_def power_call_def call_if_def arm_def
    disarm_def on_alert_def end_session_def service_emergency_def recovered_def steady_gauge_def
    k_emergency_millivolts_def k_emergency_confirm_margin_mv_def Let_def
  have a: "armed_by (mo_calls ?a)" by (simp add: defs)
  have "mon_run steady_gauge ?a [(Begin, ?a)]" by (rule mon_run.step [OF mon_run.fresh mon_step.begins])
  from mon_run.step [OF this mon_step.alerts [OF a]]
  have "mon_run steady_gauge ?b [(Alert, ?b), (Begin, ?a)]" .
  from mon_run.step [OF mon_run.step [OF this mon_step.ends] mon_step.services [OF s]]
  have "mon_run steady_gauge m [(Service out, m), (End, ?c), (Alert, ?b), (Begin, ?a)]" .
  moreover have "\<not> mo_session m \<and> armed_by (mo_calls m)" using s by (auto simp: defs)
  ultimately show ?thesis by blast
qed

subsection \<open>The graceful threshold\<close>

text \<open>Once latched, the monitor stays latched until a poll sees the charger.\<close>

lemma latched_step:
  assumes "mon_step d m e m'" "mo_latched m" "\<not> (rd_valid (mo_last m') \<and> rd_charging (mo_last m') \<and> e = Poll False)"
  shows "mo_latched m'"
  using assms(1)
proof cases
  case (begins t)
  with assms(2) show ?thesis by (simp add: begin_session_def)
next
  case ends
  with assms(2) show ?thesis by (simp add: end_session_def disarm_def)
next
  case (polls t b)
  with graceful_spec(5) [OF polls(2) assms(2)] assms(3) show ?thesis by auto
next
  case alerts
  with assms(2) show ?thesis by (simp add: on_alert_def)
next
  case (services out)
  with assms(2) emergency_service_pending [OF services(2)] show ?thesis by simp
qed

lemma run_suffix: "mon_run d m (xs @ ys) \<Longrightarrow> \<exists>m0. mon_run d m0 ys \<and> (xs = [] \<longrightarrow> m0 = m)"
proof (induction xs arbitrary: m)
  case (Cons x xs)
  then obtain m1 where "mon_run d m1 (xs @ ys)" by (auto elim: mon_run.cases)
  from Cons.IH [OF this] show ?case by blast
qed auto

lemma latched_along:
  assumes "mon_run d m (xs @ (Poll True, m0) # ys)"
    and "\<forall>(e, x) \<in> set xs. \<not> (rd_valid (mo_last x) \<and> rd_charging (mo_last x) \<and> e = Poll False)"
  shows "mo_latched m"
  using assms
proof (induction xs arbitrary: m)
  case Nil
  then obtain m1 where "mon_step d m1 (Poll True) m" by (auto elim: mon_run.cases)
  then obtain t where "graceful_threshold_crossed d t m1 = (True, m)" by (rule poll_fires)
  from graceful_spec(4) [OF this] show ?case by simp
next
  case (Cons p xs)
  obtain e x where p: "p = (e, x)" by fastforce
  from Cons.prems(1) obtain m1 where "mon_run d m1 (xs @ (Poll True, m0) # ys)" "mon_step d m1 e m" "x = m"
    by (auto simp: p elim: mon_run.cases)
  with latched_step Cons.IH Cons.prems(2) p show ?case by fastforce
qed

text \<open>
  The charge-me wipe fires once per crossing. In every run, whatever the gauge answers, two polls that
  report the threshold crossed are separated by a poll that read a valid charging state; and a poll only
  reports a crossing in a session, on a valid reading below five percent that is not charging. The latch
  is on from the report until that charging poll.\<close>

theorem graceful_once_per_crossing:
  assumes "mon_run d m (xs @ (Poll True, m0) # ys)"
  shows "rd_valid (mo_last m0) \<and> \<not> rd_charging (mo_last m0) \<and> rd_soc_pct (mo_last m0) < 5 \<and> mo_session m0 \<and>
    ((\<exists>x. (Poll False, x) \<in> set xs \<and> rd_valid (mo_last x) \<and> rd_charging (mo_last x)) \<or>
     mo_latched m \<and> (\<forall>x. (Poll True, x) \<notin> set xs))"
proof -
  have first: "rd_valid (mo_last m0) \<and> \<not> rd_charging (mo_last m0) \<and> rd_soc_pct (mo_last m0) < 5 \<and> mo_session m0"
  proof -
    from run_suffix [OF assms] obtain m1 where "mon_run d m1 ((Poll True, m0) # ys)" by blast
    then obtain m2 where "mon_step d m2 (Poll True) m0" by (auto elim: mon_run.cases)
    then obtain t where "graceful_threshold_crossed d t m2 = (True, m0)" by (rule poll_fires)
    from graceful_spec(1,4) [OF this] show ?thesis by simp
  qed
  have "mo_latched m \<and> (\<forall>x. (Poll True, x) \<notin> set xs)"
    if none: "\<And>x. (Poll False, x) \<in> set xs \<Longrightarrow> rd_valid (mo_last x) \<Longrightarrow> rd_charging (mo_last x) \<Longrightarrow> False"
  proof (intro conjI allI notI)
    show "mo_latched m" by (rule latched_along [OF assms]) (use none in auto)
    fix x assume "(Poll True, x) \<in> set xs"
    then obtain as bs where xs: "xs = as @ (Poll True, x) # bs" by (meson split_list)
    from run_suffix [of d m as "(Poll True, x) # bs @ (Poll True, m0) # ys"] assms xs
    obtain m1 where "mon_run d m1 ((Poll True, x) # bs @ (Poll True, m0) # ys)" by auto
    then obtain m2 where m2: "mon_run d m2 (bs @ (Poll True, m0) # ys)" "mon_step d m2 (Poll True) x"
      by (auto elim: mon_run.cases)
    have "mo_latched m2" by (rule latched_along [OF m2(1)]) (use none xs in auto)
    moreover from m2(2) obtain t where "graceful_threshold_crossed d t m2 = (True, x)" by (rule poll_fires)
    ultimately show False using graceful_spec(4) by blast
  qed
  with first show ?thesis by blast
qed

lemma graceful_once_per_crossing_witness:
  "\<exists>d m. mon_run d m [(Poll True, m), (Begin, begin_session d 5 (new_monitor ()))] \<and> mo_latched m \<and> mo_session m"
proof -
  let ?d = "steady_gauge\<lparr>md_gauge := Some (\<lambda>u. (\<lparr>rd_soc_pct = 3, rd_millivolts = 3500, rd_charging = False, rd_valid = True\<rparr>, u))\<rparr>"
  let ?a = "begin_session ?d 5 (new_monitor ())"
  obtain b m where p: "graceful_threshold_crossed ?d 9 ?a = (b, m)" by fastforce
  then have b: "b = True"
    by (simp add: graceful_threshold_crossed_def begin_session_def new_monitor_def sample_def gauge_read_def
        power_call_def call_if_def arm_def steady_gauge_def k_graceful_soc_pct_def k_gauge_poll_interval_ms_def Let_def)
  from mon_run.step [OF mon_run.step [OF mon_run.fresh mon_step.begins] mon_step.polls [OF p [unfolded b]]]
  have r: "mon_run ?d m ([] @ (Poll True, m) # [(Begin, ?a)])" by simp
  from graceful_once_per_crossing [OF r] r show ?thesis by auto
qed

lemma emergency_wipes_on_doubt_witness:
  "\<exists>m'. service_emergency (steady_gauge\<lparr>md_gauge := None\<rparr>) ((new_monitor ())\<lparr>mo_alert_pending := True\<rparr>) = (kWiped, m') \<and>
     rev (mo_calls m') = [RadioOff, OnEmergency]"
proof -
  obtain out m' where a: "service_emergency (steady_gauge\<lparr>md_gauge := None\<rparr>) ((new_monitor ())\<lparr>mo_alert_pending := True\<rparr>) = (out, m')"
    by fastforce
  have "mo_alert_pending ((new_monitor ())\<lparr>mo_alert_pending := True\<rparr>)" by simp
  from emergency_wipes_on_doubt [OF this a] a show ?thesis by (simp add: steady_gauge_def new_monitor_def)
qed

end
