(* ===== verification/Frame.thy ===== *)
theory Frame
  imports Prelude
begin

unbundle bit_operations_syntax

text \<open>
  The frame codec of the development transport, \<^verbatim>\<open>components/transport/frame.cpp\<close>: CRC-32, framing with
  resynchronisation, and the positional payloads of a request and a response. A frame type is a byte, as
  the enumeration's underlying type lets every value through.
\<close>

subsection \<open>Integers on the wire\<close>

definition put_u16 :: "16 word \<Rightarrow> string" where
  "put_u16 v = [chr8 (drop_bit 8 v AND 0xFF), chr8 (v AND 0xFF)]"

definition put_u32 :: "32 word \<Rightarrow> string" where
  "put_u32 v = [chr8 (drop_bit 24 v AND 0xFF), chr8 (drop_bit 16 v AND 0xFF),
     chr8 (drop_bit 8 v AND 0xFF), chr8 (v AND 0xFF)]"

definition get_u16 :: "string \<Rightarrow> 16 word" where
  "get_u16 p = push_bit 8 (ucast (u8 (p ! 0))) OR ucast (u8 (p ! 1))"

definition get_u32 :: "string \<Rightarrow> 32 word" where
  "get_u32 p = push_bit 24 (ucast (u8 (p ! 0))) OR push_bit 16 (ucast (u8 (p ! 1))) OR
     push_bit 8 (ucast (u8 (p ! 2))) OR ucast (u8 (p ! 3))"

subsection \<open>CRC-32\<close>

definition crc_bit :: "32 word \<Rightarrow> 32 word" where
  "crc_bit crc = (let mask = - (crc AND 1) in drop_bit 1 crc XOR (0xEDB88320 AND mask))"

definition crc_byte :: "32 word \<Rightarrow> char \<Rightarrow> 32 word" where
  "crc_byte crc c = (crc_bit ^^ 8) (crc XOR ucast (u8 c))"

definition crc32 :: "string \<Rightarrow> 32 word" where
  "crc32 data = NOT (foldl crc_byte 0xFFFFFFFF data)"

subsection \<open>Framing\<close>

definition k_magic :: "32 word" where "k_magic = 0x43484B31"
definition k_max_payload_bytes :: nat where "k_max_payload_bytes = 64 * 1024"
definition k_header_bytes :: nat where "k_header_bytes = 9"
definition k_trailer_bytes :: nat where "k_trailer_bytes = 4"
definition k_overhead_bytes :: nat where "k_overhead_bytes = k_header_bytes + k_trailer_bytes"

type_synonym frame_type = "8 word"

definition k_type_request :: frame_type where "k_type_request = 0x01"
definition k_type_response :: frame_type where "k_type_response = 0x02"
definition k_type_command :: frame_type where "k_type_command = 0x03"
definition k_type_event :: frame_type where "k_type_event = 0x04"

definition frame_encode :: "frame_type \<Rightarrow> string \<Rightarrow> string \<Rightarrow> bool \<times> string" where
  "frame_encode ty payload out =
     (if k_max_payload_bytes < length payload then (False, out)
      else let covered = chr8 ty # put_u32 (of_nat (length payload)) @ payload
           in (True, out @ put_u32 k_magic @ covered @ put_u32 (crc32 covered)))"

record decoder =
  de_buf :: string
  de_resyncs :: nat

definition new_decoder :: decoder where "new_decoder = \<lparr>de_buf = [], de_resyncs = 0\<rparr>"

definition decoder_append :: "string \<Rightarrow> decoder \<Rightarrow> decoder" where
  "decoder_append data d = d\<lparr>de_buf := de_buf d @ data\<rparr>"

definition decoder_reset :: "decoder \<Rightarrow> decoder" where
  "decoder_reset d = d\<lparr>de_buf := [], de_resyncs := 0\<rparr>"

fun find_magic :: "string \<Rightarrow> nat option" where
  "find_magic buf =
     (if length buf < 4 then None
      else if get_u32 buf = k_magic then Some 0
      else map_option Suc (find_magic (tl buf)))"

declare find_magic.simps [simp del]

text \<open>One pass of the loop of \<^verbatim>\<open>Next\<close>: what it returns, or the state to go on with.\<close>

datatype pass = Again decoder | NeedMoreBytes decoder | GotFrame frame_type string decoder

definition erase_head :: "nat \<Rightarrow> decoder \<Rightarrow> decoder" where
  "erase_head n d = \<lparr>de_buf = drop n (de_buf d), de_resyncs = de_resyncs d + 1\<rparr>"

definition decode_candidate :: "decoder \<Rightarrow> pass" where
  "decode_candidate d =
     (if length (de_buf d) < k_header_bytes then NeedMoreBytes d
      else let declared = unat (get_u32 (drop 5 (de_buf d)))
      in if k_max_payload_bytes < declared then Again (erase_head 1 d)
      else let total = k_header_bytes + declared + k_trailer_bytes
      in if length (de_buf d) < total then NeedMoreBytes d
      else let want = get_u32 (drop (k_header_bytes + declared) (de_buf d))
      in if crc32 (take (5 + declared) (drop 4 (de_buf d))) \<noteq> want then Again (erase_head 1 d)
      else GotFrame (u8 (de_buf d ! 4)) (take declared (drop k_header_bytes (de_buf d)))
             (d\<lparr>de_buf := drop total (de_buf d)\<rparr>))"

definition decoder_pass :: "decoder \<Rightarrow> pass" where
  "decoder_pass d = (case find_magic (de_buf d) of
      None \<Rightarrow> NeedMoreBytes (if 3 < length (de_buf d) then erase_head (length (de_buf d) - 3) d else d)
    | Some start \<Rightarrow> decode_candidate (if 0 < start then erase_head start d else d))"

lemma find_magic_lt: "find_magic buf = Some i \<Longrightarrow> i + 4 \<le> length buf"
proof (induction buf arbitrary: i rule: find_magic.induct)
  case (1 buf)
  then show ?case
    by (subst (asm) (2) find_magic.simps) (auto split: if_splits)
qed

lemma decode_candidate_shorter:
  "decode_candidate d = Again d' \<Longrightarrow> length (de_buf d') < length (de_buf d)"
  "decode_candidate d = GotFrame ty p d' \<Longrightarrow> length (de_buf d') < length (de_buf d)"
  by (auto simp: decode_candidate_def erase_head_def k_header_bytes_def k_trailer_bytes_def Let_def split: if_splits)

lemma decoder_pass_shorter:
  "decoder_pass d = Again d' \<Longrightarrow> length (de_buf d') < length (de_buf d)"
  "decoder_pass d = GotFrame ty p d' \<Longrightarrow> length (de_buf d') < length (de_buf d)"
  by (auto simp: decoder_pass_def erase_head_def dest!: decode_candidate_shorter split: option.splits if_splits)

function decoder_next :: "decoder \<Rightarrow> (frame_type \<times> string) option \<times> decoder" where
  "decoder_next d = (case decoder_pass d of
      NeedMoreBytes d' \<Rightarrow> (None, d')
    | GotFrame ty p d' \<Rightarrow> (Some (ty, p), d')
    | Again d' \<Rightarrow> decoder_next d')"
  by pat_completeness auto
termination
  by (relation "measure (\<lambda>d. length (de_buf d))") (auto dest: decoder_pass_shorter)

declare decoder_next.simps [simp del]

subsection \<open>Payloads\<close>

record request_payload =
  rp_seq :: "16 word"
  rp_authorization :: string
  rp_body :: string

datatype wire_outcome = WireOk | WireTransportFail | WireTlsTrustFail

definition outcome_code :: "wire_outcome \<Rightarrow> 8 word" where
  "outcome_code w = (case w of WireOk \<Rightarrow> 0 | WireTransportFail \<Rightarrow> 1 | WireTlsTrustFail \<Rightarrow> 2)"

definition outcome_of_code :: "8 word \<Rightarrow> wire_outcome" where
  "outcome_of_code b = (if b = 0 then WireOk else if b = 1 then WireTransportFail
     else if b = 2 then WireTlsTrustFail else WireTransportFail)"

record response_payload =
  sp_seq :: "16 word"
  sp_outcome :: wire_outcome
  sp_http_status :: "16 word"
  sp_retry_after :: string
  sp_body :: string

definition encode_request_payload :: "request_payload \<Rightarrow> bool \<times> string" where
  "encode_request_payload r =
     (if 0xFFFF < length (rp_authorization r) then (False, [])
      else let out = put_u16 (rp_seq r) @ put_u16 (of_nat (length (rp_authorization r))) @ rp_authorization r @ rp_body r
           in (length out \<le> k_max_payload_bytes, out))"

definition decode_request_payload :: "string \<Rightarrow> request_payload option" where
  "decode_request_payload s =
     (if length s < 4 then None
      else let auth_len = unat (get_u16 (drop 2 s))
           in if length s < 4 + auth_len then None
              else Some \<lparr>rp_seq = get_u16 s, rp_authorization = take auth_len (drop 4 s), rp_body = drop (4 + auth_len) s\<rparr>)"

definition encode_response_payload :: "response_payload \<Rightarrow> bool \<times> string" where
  "encode_response_payload r =
     (if 0xFFFF < length (sp_retry_after r) then (False, [])
      else let out = put_u16 (sp_seq r) @ [chr8 (outcome_code (sp_outcome r))] @ put_u16 (sp_http_status r) @
                 put_u16 (of_nat (length (sp_retry_after r))) @ sp_retry_after r @ sp_body r
           in (length out \<le> k_max_payload_bytes, out))"

definition decode_response_payload :: "string \<Rightarrow> response_payload option" where
  "decode_response_payload s =
     (if length s < 7 then None
      else let ra_len = unat (get_u16 (drop 5 s))
           in if length s < 7 + ra_len then None
              else Some \<lparr>sp_seq = get_u16 s, sp_outcome = outcome_of_code (u8 (s ! 2)), sp_http_status = get_u16 (drop 3 s),
                 sp_retry_after = take ra_len (drop 7 s), sp_body = drop (7 + ra_len) s\<rparr>)"

subsection \<open>Retry-After\<close>

definition is_blank :: "char \<Rightarrow> bool" where
  "is_blank c \<longleftrightarrow> c = CHR '' '' \<or> c = CHR 0x09"

definition retry_step :: "int \<Rightarrow> char \<Rightarrow> int" where
  "retry_step v c = (let v = v * 10 + int (digit_val c) in if 86400 < v then 86400 else v)"

definition parse_retry_after_seconds :: "string \<Rightarrow> int" where
  "parse_retry_after_seconds h =
     (let s = dropWhile is_blank h;
          ds = takeWhile is_digit s;
          rest = dropWhile is_blank (dropWhile is_digit s)
      in if s = [] \<or> ds = [] \<or> rest \<noteq> [] then 0 else foldl retry_step 0 ds)"

subsection \<open>Round trips of the fields\<close>

lemma bit_u8_chr8: "bit (u8 (chr8 (w :: 'a::len word))) n \<longleftrightarrow> n < 8 \<and> bit w n"
  by (auto simp: u8_chr8 bit_simps dest: bit_imp_le_length)

lemma mask_ff: "(0xFF :: 'a::len word) = mask 8"
  by (simp add: mask_eq_exp_minus_1)

lemma get_put_u16 [simp]: "get_u16 (put_u16 v @ x) = v"
proof (rule bit_word_eqI)
  fix n assume "n < LENGTH(16)"
  then consider "n < 8" | "8 \<le> n" "n < 16" by fastforce
  then show "bit (get_u16 (put_u16 v @ x)) n \<longleftrightarrow> bit v n"
    by cases (auto simp: get_u16_def put_u16_def mask_ff bit_simps bit_u8_chr8)
qed

lemma get_put_u32 [simp]: "get_u32 (put_u32 v @ x) = v"
proof (rule bit_word_eqI)
  fix n assume "n < LENGTH(32)"
  then consider "n < 8" | "8 \<le> n" "n < 16" | "16 \<le> n" "n < 24" | "24 \<le> n" "n < 32" by fastforce
  then show "bit (get_u32 (put_u32 v @ x)) n \<longleftrightarrow> bit v n"
    by cases (auto simp: get_u32_def put_u32_def mask_ff bit_simps bit_u8_chr8)
qed

lemma put_get_u32:
  assumes "length p = 4"
  shows "put_u32 (get_u32 p) = p"
proof -
  obtain a b c d where p: "p = [a, b, c, d]" using assms by (auto simp: eval_nat_numeral length_Suc_conv)
  have far: "\<not> bit (x :: 8 word) m" if "8 \<le> m" for x m using that by (auto dest: bit_imp_le_length)
  have g: "chr8 w = e" if "\<And>n. n < 8 \<Longrightarrow> bit (w :: 32 word) n \<longleftrightarrow> bit (u8 e) n" for w e
  proof -
    have "u8 (chr8 w) = u8 e" by (rule bit_word_eqI) (use that in \<open>simp add: bit_u8_chr8\<close>)
    then show ?thesis by simp
  qed
  show ?thesis unfolding p put_u32_def get_u32_def
    by (intro list.inject [THEN iffD2] conjI g; simp add: mask_ff bit_simps far)+
qed

lemma length_put [simp]: "length (put_u16 v) = 2" "length (put_u32 w) = 4"
  by (simp_all add: put_u16_def put_u32_def)

lemma get_u32_take: "4 \<le> length p \<Longrightarrow> get_u32 (take 4 p) = get_u32 p"
  by (simp add: get_u32_def)

lemma unat_length_u32: "length p \<le> k_max_payload_bytes \<Longrightarrow> unat (of_nat (length p) :: 32 word) = length p"
  by (simp add: k_max_payload_bytes_def unat_of_nat)

subsection \<open>Frames in the buffer\<close>

definition covered_bytes :: "frame_type \<Rightarrow> string \<Rightarrow> string" where
  "covered_bytes ty p = chr8 ty # put_u32 (of_nat (length p)) @ p"

definition frame_bytes :: "frame_type \<times> string \<Rightarrow> string" where
  "frame_bytes f = put_u32 k_magic @ covered_bytes (fst f) (snd f) @ put_u32 (crc32 (covered_bytes (fst f) (snd f)))"

definition frame_ok :: "frame_type \<times> string \<Rightarrow> bool" where
  "frame_ok f \<longleftrightarrow> length (snd f) \<le> k_max_payload_bytes"

lemma frame_encode_eq: "frame_encode ty p out = (if frame_ok (ty, p) then (True, out @ frame_bytes (ty, p)) else (False, out))"
  by (simp add: frame_encode_def frame_bytes_def covered_bytes_def frame_ok_def Let_def)

lemma length_frame: "length (frame_bytes f) = 13 + length (snd f)"
  by (simp add: frame_bytes_def covered_bytes_def)

lemma u8_chr8_id: "u8 (chr8 (b :: 8 word)) = b"
  by (simp add: u8_chr8)

lemma find_magic_head: "4 \<le> length buf \<Longrightarrow> get_u32 buf = k_magic \<Longrightarrow> find_magic buf = Some 0"
  by (subst find_magic.simps) simp

lemma candidate_frame:
  assumes "frame_ok f" "de_buf d = frame_bytes f @ z"
  shows "decode_candidate d = GotFrame (fst f) (snd f) (d\<lparr>de_buf := z\<rparr>)"
proof -
  let ?p = "snd f" and ?c = "covered_bytes (fst f) (snd f)"
  have len: "length ?p \<le> k_max_payload_bytes" using assms(1) by (simp add: frame_ok_def)
  have buf: "de_buf d = put_u32 k_magic @ chr8 (fst f) # put_u32 (of_nat (length ?p)) @ ?p @ put_u32 (crc32 ?c) @ z"
    by (simp add: assms(2) frame_bytes_def covered_bytes_def)
  have d4: "drop 4 (de_buf d) = ?c @ put_u32 (crc32 ?c) @ z" "length ?c = 5 + length ?p"
    by (simp_all add: buf covered_bytes_def)
  have d5: "drop 5 (de_buf d) = put_u32 (of_nat (length ?p)) @ ?p @ put_u32 (crc32 ?c) @ z"
    by (simp add: buf)
  have "drop 9 (de_buf d) = ?p @ put_u32 (crc32 ?c) @ z" by (simp add: buf)
  then have d9: "drop (9 + n) (de_buf d) = drop n (?p @ put_u32 (crc32 ?c) @ z)" for n
    by (metis drop_drop add.commute)
  have n4: "de_buf d ! 4 = chr8 (fst f)" by (simp add: buf nth_append)
  have dec: "unat (get_u32 (drop 5 (de_buf d))) = length ?p"
    unfolding d5 by (simp add: unat_length_u32 [OF len])
  have l: "length (de_buf d) = 13 + length ?p + length z" by (simp add: assms(2) length_frame)
  have "drop (9 + length ?p + 4) (de_buf d) = z" using d9 [of "length ?p + 4"] by (simp add: add.assoc)
  with dec l len d4 n4 d9 [of "length ?p"] d9 [of 0] show ?thesis
    by (simp add: decode_candidate_def k_header_bytes_def k_trailer_bytes_def Let_def u8_chr8_id)
qed

lemma next_frame:
  assumes "frame_ok f" "de_buf d = frame_bytes f @ z"
  shows "decoder_next d = (Some f, d\<lparr>de_buf := z\<rparr>)"
proof -
  have "get_u32 (de_buf d) = k_magic" by (simp add: assms(2) frame_bytes_def)
  then have "find_magic (de_buf d) = Some 0"
    by (intro find_magic_head) (simp_all add: assms(2) length_frame)
  then have "decoder_pass d = GotFrame (fst f) (snd f) (d\<lparr>de_buf := z\<rparr>)"
    by (simp add: decoder_pass_def candidate_frame [OF assms])
  then show ?thesis by (subst decoder_next.simps) simp
qed

text \<open>A frame that is not all there yet stays in the buffer.\<close>

lemma next_partial:
  assumes "frame_ok f" "y @ z = frame_bytes f" "z \<noteq> []" "de_buf d = y"
  shows "decoder_next d = (None, d)"
proof (cases "4 \<le> length y")
  case False
  then have "find_magic y = None" by (subst find_magic.simps) simp
  with False assms(4) show ?thesis by (subst decoder_next.simps) (simp add: decoder_pass_def)
next
  case True
  have y: "y = take (length y) (frame_bytes f)" by (metis append_eq_conv_conj assms(2))
  have short: "length y < 13 + length (snd f)"
    using arg_cong [OF assms(2), of length] assms(3) by (cases z) (simp_all add: length_frame)
  have "take 4 y = put_u32 k_magic"
    using True arg_cong [OF assms(2), of "take 4"] by (simp add: frame_bytes_def put_u32_def)
  then have "get_u32 y = k_magic" using get_u32_take [OF True] get_put_u32 [of k_magic "[]"] by simp
  then have m: "find_magic y = Some 0" by (rule find_magic_head [OF True])
  have "decode_candidate d = NeedMoreBytes d"
  proof (cases "9 \<le> length y")
    case False
    with assms(4) show ?thesis by (simp add: decode_candidate_def k_header_bytes_def)
  next
    case nine: True
    have "take 4 (drop 5 y) = take 4 (drop 5 (frame_bytes f))"
      using nine arg_cong [OF assms(2), of "\<lambda>l. take 4 (drop 5 l)"] by simp
    also have "\<dots> = put_u32 (of_nat (length (snd f)))"
      by (simp add: frame_bytes_def covered_bytes_def put_u32_def)
    finally have "get_u32 (drop 5 y) = of_nat (length (snd f))"
      using get_u32_take [of "drop 5 y"] nine get_put_u32 [of "of_nat (length (snd f))" "[]"] by simp
    then have "unat (get_u32 (drop 5 y)) = length (snd f)"
      using assms(1) by (simp add: unat_length_u32 frame_ok_def)
    with nine short assms(1,4) show ?thesis
      by (simp add: decode_candidate_def k_header_bytes_def k_trailer_bytes_def Let_def frame_ok_def)
  qed
  with m assms(4) show ?thesis by (subst decoder_next.simps) (simp add: decoder_pass_def)
qed

subsection \<open>Draining the buffer, chunk by chunk\<close>

text \<open>The caller's loop: \<^verbatim>\<open>Next\<close> until it asks for more.\<close>

lemma decoder_next_shorter: "decoder_next d = (Some f, d') \<Longrightarrow> length (de_buf d') < length (de_buf d)"
proof (induction d rule: decoder_next.induct)
  case (1 d)
  show ?case
  proof (cases "decoder_pass d")
    case (Again d1)
    with 1 have "length (de_buf d') < length (de_buf d1)" by (simp add: decoder_next.simps [of d])
    with decoder_pass_shorter(1) [OF Again] show ?thesis by simp
  next
    case (NeedMoreBytes d1)
    with 1(2) show ?thesis by (simp add: decoder_next.simps [of d])
  next
    case (GotFrame ty p d1)
    with 1(2) decoder_pass_shorter(2) [OF GotFrame] show ?thesis by (auto simp: decoder_next.simps [of d])
  qed
qed

function decoder_drain :: "decoder \<Rightarrow> (frame_type \<times> string) list \<times> decoder" where
  "decoder_drain d = (case decoder_next d of
      (None, d') \<Rightarrow> ([], d')
    | (Some f, d') \<Rightarrow> let (fs, d'') = decoder_drain d' in (f # fs, d''))"
  by pat_completeness auto
termination
  by (relation "measure (\<lambda>d. length (de_buf d))") (auto dest: decoder_next_shorter [OF sym])

declare decoder_drain.simps [simp del]

fun receive_chunks :: "string list \<Rightarrow> decoder \<Rightarrow> (frame_type \<times> string) list \<times> decoder" where
  "receive_chunks [] d = ([], d)"
| "receive_chunks (c # cs) d =
     (let (fs, d) = decoder_drain (decoder_append c d); (gs, d) = receive_chunks cs d in (fs @ gs, d))"

definition partial_frame :: "string \<Rightarrow> (frame_type \<times> string) list \<Rightarrow> bool" where
  "partial_frame y fs \<longleftrightarrow> (case fs of [] \<Rightarrow> y = [] | f # _ \<Rightarrow> length y < length (frame_bytes f))"

lemma next_stuck:
  assumes "\<forall>f \<in> set fs. frame_ok f" "y @ rest = concat (map frame_bytes fs)" "partial_frame y fs" "de_buf d = y"
  shows "decoder_next d = (None, d)"
proof (cases fs)
  case Nil
  have "find_magic [] = None" by (subst find_magic.simps) simp
  with Nil assms(3,4) show ?thesis by (subst decoder_next.simps) (simp add: decoder_pass_def partial_frame_def)
next
  case (Cons f gs)
  have short: "length y < length (frame_bytes f)" using assms(3) Cons by (simp add: partial_frame_def)
  have "y = take (length y) (frame_bytes f)"
    using arg_cong [OF assms(2), of "take (length y)"] short Cons by simp
  then have split: "y @ drop (length y) (frame_bytes f) = frame_bytes f" by (metis append_take_drop_id)
  show ?thesis by (rule next_partial [OF _ split _ assms(4)]) (use assms(1) Cons short in auto)
qed

lemma drain_stream:
  assumes "\<forall>f \<in> set fs. frame_ok f" "de_buf d @ rest = concat (map frame_bytes fs)"
  shows "\<exists>done left y. fs = done @ left \<and> decoder_drain d = (done, d\<lparr>de_buf := y\<rparr>) \<and>
    y @ rest = concat (map frame_bytes left) \<and> partial_frame y left"
  using assms
proof (induction fs arbitrary: d)
  case Nil
  then have "decoder_next d = (None, d)" by (intro next_stuck [of "[]"]) (auto simp: partial_frame_def)
  with Nil show ?case by (intro exI [of _ "[]"]) (simp add: decoder_drain.simps partial_frame_def)
next
  case (Cons f fs)
  show ?case
  proof (cases "length (de_buf d) < length (frame_bytes f)")
    case True
    with Cons.prems have "decoder_next d = (None, d)"
      by (intro next_stuck [of "f # fs"]) (auto simp: partial_frame_def)
    with True Cons.prems show ?thesis
      by (intro exI [of _ "[]"] exI [of _ "f # fs"] exI [of _ "de_buf d"])
        (simp add: decoder_drain.simps partial_frame_def)
  next
    case False
    let ?z = "drop (length (frame_bytes f)) (de_buf d)"
    have "frame_bytes f = take (length (frame_bytes f)) (de_buf d)"
      using arg_cong [OF Cons.prems(2), of "take (length (frame_bytes f))"] False by simp
    then have buf: "de_buf d = frame_bytes f @ ?z" by (metis append_take_drop_id)
    have "frame_ok f" using Cons.prems(1) by simp
    note N = next_frame [OF this buf]
    have "de_buf (d\<lparr>de_buf := ?z\<rparr>) @ rest = concat (map frame_bytes fs)"
      using Cons.prems(2) by (subst (asm) buf) simp
    with Cons.IH [of "d\<lparr>de_buf := ?z\<rparr>"] Cons.prems(1) obtain dn left y where
      "fs = dn @ left" "decoder_drain (d\<lparr>de_buf := ?z\<rparr>) = (dn, d\<lparr>de_buf := y\<rparr>)"
      "y @ rest = concat (map frame_bytes left)" "partial_frame y left" by auto
    with N show ?thesis
      by (intro exI [of _ "f # dn"] exI [of _ left] exI [of _ y]) (simp add: decoder_drain.simps [of d])
  qed
qed

lemma receive_stream:
  assumes "\<forall>f \<in> set fs. frame_ok f" "de_buf d @ concat cs = concat (map frame_bytes fs)" "partial_frame (de_buf d) fs"
  shows "receive_chunks cs d = (fs, d\<lparr>de_buf := []\<rparr>)"
  using assms
proof (induction cs arbitrary: d fs)
  case Nil
  then have "fs = [] \<and> de_buf d = []" by (cases fs) (auto simp: partial_frame_def)
  then show ?case by simp
next
  case (Cons c cs)
  have "de_buf (decoder_append c d) @ concat cs = concat (map frame_bytes fs)"
    using Cons.prems(2) by (simp add: decoder_append_def)
  from drain_stream [OF Cons.prems(1) this] obtain dn left y where
    D: "fs = dn @ left" "decoder_drain (decoder_append c d) = (dn, (decoder_append c d)\<lparr>de_buf := y\<rparr>)"
    "y @ concat cs = concat (map frame_bytes left)" "partial_frame y left" by blast
  have "receive_chunks cs ((decoder_append c d)\<lparr>de_buf := y\<rparr>) = (left, (decoder_append c d)\<lparr>de_buf := y, de_buf := []\<rparr>)"
    using Cons.IH [of left "(decoder_append c d)\<lparr>de_buf := y\<rparr>"] D Cons.prems(1) by simp
  with D show ?case by (simp add: decoder_append_def)
qed

text \<open>
  C14: What one end frames the other receives, however the bytes are cut. Encode any sequence of messages
  within the payload limit, cut the stream into chunks at any places, feed the chunks to a fresh decoder
  and drain it after each: it delivers exactly those messages, in order, discards nothing and ends with
  an empty buffer. \<^verbatim>\<open>Encode\<close> refuses exactly a payload above the limit, leaving its output alone.\<close>

theorem frames_survive_chunking:
  assumes "\<And>f. f \<in> set fs \<Longrightarrow> length (snd f) \<le> k_max_payload_bytes"
    and "concat cs = foldl (\<lambda>out f. snd (frame_encode (fst f) (snd f) out)) [] fs"
  shows "receive_chunks cs new_decoder = (fs, new_decoder) \<and>
    (fst (frame_encode ty p out) \<longleftrightarrow> length p \<le> k_max_payload_bytes) \<and>
    (\<not> fst (frame_encode ty p out) \<longrightarrow> snd (frame_encode ty p out) = out)"
proof -
  have ok: "\<forall>f \<in> set fs. frame_ok f" using assms(1) by (simp add: frame_ok_def)
  then have "foldl (\<lambda>out f. snd (frame_encode (fst f) (snd f) out)) a fs = a @ concat (map frame_bytes fs)" for a
    by (induction fs arbitrary: a) (simp_all add: frame_encode_eq)
  then have "de_buf new_decoder @ concat cs = concat (map frame_bytes fs)"
    using assms(2) by (simp add: new_decoder_def)
  moreover have "partial_frame (de_buf new_decoder) fs"
    by (cases fs) (auto simp: partial_frame_def new_decoder_def length_frame)
  ultimately have "receive_chunks cs new_decoder = (fs, new_decoder\<lparr>de_buf := []\<rparr>)"
    by (rule receive_stream [OF ok])
  then show ?thesis by (simp add: new_decoder_def frame_encode_eq frame_ok_def)
qed

lemma frames_survive_chunking_witness:
  "receive_chunks [take 5 (frame_bytes (1, ''hola'')), drop 5 (frame_bytes (1, ''hola''))] new_decoder = ([(1, ''hola'')], new_decoder)"
proof -
  have l: "length (snd f) \<le> k_max_payload_bytes" if "f \<in> set [(1 :: frame_type, ''hola'')]" for f
    using that by (simp add: k_max_payload_bytes_def)
  have "concat [take 5 (frame_bytes (1, ''hola'')), drop 5 (frame_bytes (1, ''hola''))] =
      foldl (\<lambda>out f. snd (frame_encode (fst f) (snd f) out)) [] [(1, ''hola'')]"
    by (simp add: frame_encode_eq frame_ok_def k_max_payload_bytes_def)
  from frames_survive_chunking [OF l this] show ?thesis by simp
qed

subsection \<open>Nothing else is ever delivered\<close>

lemma find_magic_at: "find_magic buf = Some i \<Longrightarrow> get_u32 (drop i buf) = k_magic"
proof (induction buf arbitrary: i rule: find_magic.induct)
  case (1 buf)
  show ?case
  proof (cases "length buf < 4 \<or> get_u32 buf = k_magic")
    case True
    with 1(2) show ?thesis by (auto simp: find_magic.simps [of buf] split: if_splits)
  next
    case False
    with 1(2) obtain j where "find_magic (tl buf) = Some j" "i = Suc j"
      by (subst (asm) find_magic.simps) (auto split: if_splits)
    with 1(1) False show ?thesis by (simp add: drop_Suc)
  qed
qed

lemma candidate_got:
  assumes "decode_candidate d = GotFrame ty p d'" "get_u32 (de_buf d) = k_magic"
  shows "frame_ok (ty, p) \<and> de_buf d = frame_bytes (ty, p) @ de_buf d'"
proof -
  let ?b = "de_buf d"
  define n where "n = unat (get_u32 (drop 5 (de_buf d)))"
  have h: "9 \<le> length ?b" "n \<le> k_max_payload_bytes" "9 + n + 4 \<le> length ?b"
    "crc32 (take (5 + n) (drop 4 ?b)) = get_u32 (drop (9 + n) ?b)" "ty = u8 (?b ! 4)" "p = take n (drop 9 ?b)"
    "de_buf d' = drop (9 + n + 4) ?b"
    using assms(1) by (auto simp: n_def decode_candidate_def k_header_bytes_def k_trailer_bytes_def Let_def split: if_splits)
  have lp: "length p = n" using h(3,6) by simp
  have a: "take 4 ?b = put_u32 k_magic"
    using put_get_u32 [of "take 4 ?b"] h(1) assms(2) by (simp add: get_u32_take)
  have b: "drop 4 ?b = chr8 ty # drop 5 ?b" using h(1,5) by (simp add: Cons_nth_drop_Suc [symmetric])
  have c: "take 4 (drop 5 ?b) = put_u32 (of_nat (length p))"
    using put_get_u32 [of "take 4 (drop 5 ?b)"] h(1) lp by (simp add: get_u32_take n_def)
  have d: "drop 5 ?b = put_u32 (of_nat (length p)) @ drop 9 ?b"
    using append_take_drop_id [of 4 "drop 5 ?b"] c by simp
  have e: "drop 9 ?b = p @ drop (9 + n) ?b" using append_take_drop_id [of n "drop 9 ?b"] h(6) by (simp add: add.commute)
  have cov: "take (5 + n) (drop 4 ?b) = covered_bytes ty p"
    unfolding b d e covered_bytes_def using lp by (simp add: take_Cons' nat_diff_split)
  have "take 4 (drop (9 + n) ?b) = put_u32 (crc32 (covered_bytes ty p))"
    using put_get_u32 [of "take 4 (drop (9 + n) ?b)"] h(3,4) cov by (simp add: get_u32_take)
  then have f: "drop (9 + n) ?b = put_u32 (crc32 (covered_bytes ty p)) @ de_buf d'"
    using append_take_drop_id [of 4 "drop (9 + n) ?b"] h(7) by (simp add: add.commute)
  have "?b = put_u32 k_magic @ chr8 ty # put_u32 (of_nat (length p)) @ p @ put_u32 (crc32 (covered_bytes ty p)) @ de_buf d'"
    using append_take_drop_id [of 4 ?b] unfolding a b d e f by simp
  with h(2) lp show ?thesis by (simp add: frame_ok_def frame_bytes_def covered_bytes_def)
qed

definition buffer_bounded :: "decoder \<Rightarrow> bool" where
  "buffer_bounded d \<longleftrightarrow> length (de_buf d) < k_max_payload_bytes + k_overhead_bytes"

lemma erase_head_noise: "\<exists>noise. de_buf d = noise @ de_buf (erase_head n d)"
  by (intro exI [of _ "take n (de_buf d)"]) (simp add: erase_head_def)

lemma candidate_again: "decode_candidate d = Again d' \<Longrightarrow> d' = erase_head 1 d"
  by (simp add: decode_candidate_def Let_def split: if_splits)

lemma candidate_more: "decode_candidate d = NeedMoreBytes d' \<Longrightarrow> d' = d \<and> buffer_bounded d"
  by (auto simp: decode_candidate_def buffer_bounded_def k_overhead_bytes_def k_header_bytes_def
      k_trailer_bytes_def k_max_payload_bytes_def Let_def split: if_splits)

lemma pass_spec:
  "case decoder_pass d of
     Again d' \<Rightarrow> \<exists>noise. de_buf d = noise @ de_buf d'
   | NeedMoreBytes d' \<Rightarrow> (\<exists>noise. de_buf d = noise @ de_buf d') \<and> buffer_bounded d'
   | GotFrame ty p d' \<Rightarrow> \<exists>noise. frame_ok (ty, p) \<and> de_buf d = noise @ frame_bytes (ty, p) @ de_buf d'"
proof (cases "find_magic (de_buf d)")
  case None
  let ?d = "if 3 < length (de_buf d) then erase_head (length (de_buf d) - 3) d else d"
  have "\<exists>noise. de_buf d = noise @ de_buf ?d"
    using erase_head_noise [of d "length (de_buf d) - 3"] by auto
  moreover have "buffer_bounded ?d"
    by (simp add: buffer_bounded_def erase_head_def k_overhead_bytes_def k_header_bytes_def k_trailer_bytes_def)
  ultimately show ?thesis using None by (simp add: decoder_pass_def)
next
  case (Some i)
  let ?d = "if 0 < i then erase_head i d else d"
  have n: "de_buf d = take i (de_buf d) @ de_buf ?d" by (simp add: erase_head_def)
  have m: "get_u32 (de_buf ?d) = k_magic" using find_magic_at [OF Some] by (cases i) (simp_all add: erase_head_def)
  have p: "decoder_pass d = decode_candidate ?d" by (simp add: decoder_pass_def Some)
  show ?thesis
  proof (cases "decode_candidate ?d")
    case (Again d')
    then obtain noise where "de_buf ?d = noise @ de_buf d'" using candidate_again erase_head_noise by blast
    with n have "de_buf d = (take i (de_buf d) @ noise) @ de_buf d'" by simp
    then have "\<exists>noise. de_buf d = noise @ de_buf d'" by (rule exI)
    then show ?thesis by (simp only: p Again pass.case)
  next
    case (NeedMoreBytes d')
    with candidate_more [OF NeedMoreBytes] have "d' = ?d" "buffer_bounded d'" by simp_all
    moreover from this(1) n have "\<exists>noise. de_buf d = noise @ de_buf d'" by blast
    ultimately show ?thesis by (simp only: p NeedMoreBytes pass.case)
  next
    case (GotFrame ty q d')
    from candidate_got [OF GotFrame m] have g: "frame_ok (ty, q)" "de_buf ?d = frame_bytes (ty, q) @ de_buf d'" by simp_all
    have "de_buf d = take i (de_buf d) @ frame_bytes (ty, q) @ de_buf d'" using n unfolding g(2) .
    with g(1) have "\<exists>noise. frame_ok (ty, q) \<and> de_buf d = noise @ frame_bytes (ty, q) @ de_buf d'" by blast
    then show ?thesis by (simp only: p GotFrame pass.case)
  qed
qed

text \<open>
  C28: The decoder trusts nothing it cannot check. From any bytes whatever, line noise and torn frames
  included, \<^verbatim>\<open>Next\<close> returns; what it delivers stood in the buffer as a complete frame, magic, length
  within the limit and checksum of that type and payload, and it leaves exactly the bytes behind it.
  When it asks for more, only bytes ahead of the buffer's new start were dropped and less than one
  maximal frame is kept, so a hostile length cannot make it hold more.\<close>

theorem decoder_delivers_only_frames:
  "case decoder_next d of
     (Some f, d') \<Rightarrow> \<exists>noise. length (snd f) \<le> k_max_payload_bytes \<and>
       de_buf d = noise @ snd (frame_encode (fst f) (snd f) []) @ de_buf d'
   | (None, d') \<Rightarrow> (\<exists>noise. de_buf d = noise @ de_buf d') \<and> length (de_buf d') < k_max_payload_bytes + k_overhead_bytes"
proof (induction d rule: decoder_next.induct)
  case (1 d)
  show ?case
  proof (cases "decoder_pass d")
    case (Again d1)
    with pass_spec [of d] obtain noise where n: "de_buf d = noise @ de_buf d1" by auto
    have "decoder_next d = decoder_next d1" using Again by (simp add: decoder_next.simps [of d])
    with 1 [OF Again] n show ?thesis by (fastforce split: prod.splits option.splits)
  next
    case (NeedMoreBytes d1)
    with pass_spec [of d] show ?thesis by (simp add: decoder_next.simps [of d] buffer_bounded_def)
  next
    case (GotFrame ty p d1)
    with pass_spec [of d] show ?thesis by (simp add: decoder_next.simps [of d] frame_encode_eq frame_ok_def)
  qed
qed

subsection \<open>Payloads and advice\<close>

lemma unat_length_u16: "length a \<le> 0xFFFF \<Longrightarrow> unat (of_nat (length a) :: 16 word) = length a"
  by (simp add: unat_of_nat)

lemma request_payload_round_trip:
  "encode_request_payload r = (True, out) \<Longrightarrow> decode_request_payload out = Some r"
proof -
  assume a: "encode_request_payload r = (True, out)"
  then have len: "length (rp_authorization r) \<le> 0xFFFF"
    and out: "out = put_u16 (rp_seq r) @ put_u16 (of_nat (length (rp_authorization r))) @ rp_authorization r @ rp_body r"
    by (auto simp: encode_request_payload_def Let_def split: if_splits)
  show ?thesis by (simp add: decode_request_payload_def out unat_length_u16 [OF len] Let_def)
qed

lemma outcome_round_trip: "outcome_of_code (outcome_code w) = w"
  by (cases w) (simp_all add: outcome_code_def outcome_of_code_def)

lemma response_payload_round_trip:
  "encode_response_payload r = (True, out) \<Longrightarrow> decode_response_payload out = Some r"
proof -
  assume a: "encode_response_payload r = (True, out)"
  then have len: "length (sp_retry_after r) \<le> 0xFFFF"
    and out: "out = put_u16 (sp_seq r) @ chr8 (outcome_code (sp_outcome r)) # put_u16 (sp_http_status r) @
      put_u16 (of_nat (length (sp_retry_after r))) @ sp_retry_after r @ sp_body r"
    by (auto simp: encode_response_payload_def Let_def split: if_splits)
  have d: "drop 7 out = sp_retry_after r @ sp_body r" "drop 5 out = put_u16 (of_nat (length (sp_retry_after r))) @ sp_retry_after r @ sp_body r"
    "drop 3 out = put_u16 (sp_http_status r) @ put_u16 (of_nat (length (sp_retry_after r))) @ sp_retry_after r @ sp_body r"
    "out ! 2 = chr8 (outcome_code (sp_outcome r))" "get_u16 out = sp_seq r" "length out = 7 + length (sp_retry_after r @ sp_body r)"
    by (simp_all add: out nth_append)
  have "drop (7 + length (sp_retry_after r)) out = sp_body r"
    using arg_cong [OF d(1), of "drop (length (sp_retry_after r))"] by (simp add: add.commute)
  with d show ?thesis
    by (simp add: decode_response_payload_def unat_length_u16 [OF len] Let_def outcome_round_trip u8_chr8_id)
qed

lemma retry_range: "0 \<le> v \<Longrightarrow> v \<le> 86400 \<Longrightarrow> 0 \<le> foldl retry_step v ds \<and> foldl retry_step v ds \<le> 86400"
  by (induction ds arbitrary: v) (auto simp: retry_step_def Let_def)

lemma retry_after_range: "0 \<le> parse_retry_after_seconds h \<and> parse_retry_after_seconds h \<le> 86400"
  using retry_range [of 0] by (simp add: parse_retry_after_seconds_def Let_def)

end
