(* ===== verification/Usbbridge.thy ===== *)
theory Usbbridge
  imports Frame Syncengine
begin

text \<open>
  The development transport, \<^verbatim>\<open>components/transport/usbbridge.cpp\<close>: one framed exchange over a serial
  link, answered only by the response that carries its sequence number. The link is a parameter of three
  calls on a state of its own.
\<close>

subsection \<open>The link\<close>

record 'l link_api =
  li_write :: "string \<Rightarrow> 'l \<Rightarrow> bool \<times> 'l"
  li_read :: "nat \<Rightarrow> int \<Rightarrow> 'l \<Rightarrow> string \<times> 'l"
  li_monotonic_ms :: "'l \<Rightarrow> int \<times> 'l"

record bridge_stats =
  bs_requests :: nat
  bs_responses :: nat
  bs_timeouts :: nat
  bs_malformed :: nat
  bs_mismatched :: nat
  bs_resyncs :: nat

definition k_default_timeout_ms :: int where "k_default_timeout_ms = 45000"
definition k_poll_ms :: int where "k_poll_ms = 100"
definition k_read_chunk :: nat where "k_read_chunk = 512"

record bridge =
  br_authorization :: string
  br_timeout_ms :: int
  br_seq :: "16 word"
  br_stats :: bridge_stats
  br_decoder :: decoder

definition new_bridge :: "string \<Rightarrow> int \<Rightarrow> bridge" where
  "new_bridge authorization timeout_ms = \<lparr>br_authorization = authorization, br_timeout_ms = timeout_ms, br_seq = 0,
     br_stats = \<lparr>bs_requests = 0, bs_responses = 0, bs_timeouts = 0, bs_malformed = 0, bs_mismatched = 0, bs_resyncs = 0\<rparr>,
     br_decoder = new_decoder\<rparr>"

definition failed :: "transport_outcome \<Rightarrow> transport_result" where
  "failed o' = \<lparr>tr_outcome = o', tr_http_status = 0, tr_body = [], tr_retry_after_s = 0\<rparr>"

subsection \<open>The exchange\<close>

definition result_of :: "response_payload \<Rightarrow> transport_result" where
  "result_of r = (case sp_outcome r of
      WireOk \<Rightarrow> \<lparr>tr_outcome = TrOk, tr_http_status = uint (sp_http_status r), tr_body = sp_body r,
        tr_retry_after_s = parse_retry_after_seconds (sp_retry_after r)\<rparr>
    | WireTlsTrustFail \<Rightarrow> failed TrTlsTrustFail
    | WireTransportFail \<Rightarrow> failed TrTransportFail)"

text \<open>The inner loop: frames are taken from the buffer until one answers the exchange.\<close>

function take_answer :: "16 word \<Rightarrow> bridge_stats \<Rightarrow> decoder \<Rightarrow> transport_result option \<times> bridge_stats \<times> decoder" where
  "take_answer seq st d = (case decoder_next d of
      (None, d') \<Rightarrow> (None, st\<lparr>bs_resyncs := de_resyncs d'\<rparr>, d')
    | (Some (ty, got), d') \<Rightarrow>
        let st = st\<lparr>bs_resyncs := de_resyncs d'\<rparr>
        in if ty \<noteq> k_type_response then take_answer seq st d'
           else case decode_response_payload got of
             None \<Rightarrow> take_answer seq (st\<lparr>bs_malformed := bs_malformed st + 1\<rparr>) d'
           | Some resp \<Rightarrow>
               if sp_seq resp \<noteq> seq then take_answer seq (st\<lparr>bs_mismatched := bs_mismatched st + 1\<rparr>) d'
               else (Some (result_of resp), st\<lparr>bs_responses := bs_responses st + 1\<rparr>, d'))"
  by pat_completeness auto
termination
  by (relation "measure (\<lambda>(seq, st, d). length (de_buf d))") (auto dest: decoder_next_shorter [OF sym])

declare take_answer.simps [simp del]

text \<open>The outer loop; a link whose clock stands still would keep it forever.\<close>

partial_function (option) await_answer ::
  "'l link_api \<Rightarrow> 16 word \<Rightarrow> int \<Rightarrow> bridge_stats \<Rightarrow> decoder \<Rightarrow> 'l \<Rightarrow>
   (transport_result \<times> bridge_stats \<times> decoder \<times> 'l) option" where
  "await_answer api seq deadline st d l = (case take_answer seq st d of
      (Some r, st', d') \<Rightarrow> Some (r, st', d', l)
    | (None, st', d') \<Rightarrow> (case li_monotonic_ms api l of (now, l1) \<Rightarrow>
        if deadline - now \<le> 0
        then Some (failed TrTransportFail, st'\<lparr>bs_timeouts := bs_timeouts st' + 1\<rparr>, d', l1)
        else (case li_read api k_read_chunk (min (deadline - now) k_poll_ms) l1 of (chunk, l2) \<Rightarrow>
          await_answer api seq deadline st' (if chunk \<noteq> [] then decoder_append chunk d' else d') l2)))"

definition bridge_sync ::
  "'l link_api option \<Rightarrow> string \<Rightarrow> bridge \<Rightarrow> 'l \<Rightarrow> (transport_result \<times> bridge \<times> 'l) option" where
  "bridge_sync link request_json b l = (case link of
      None \<Rightarrow> Some (failed TrTransportFail, b, l)
    | Some api \<Rightarrow>
        let seq = br_seq b + 1;
            b = b\<lparr>br_seq := seq\<rparr>;
            (ok, payload) = encode_request_payload \<lparr>rp_seq = seq, rp_authorization = br_authorization b, rp_body = request_json\<rparr>;
            (ok', framed) = frame_encode k_type_request payload []
        in if \<not> ok \<or> \<not> ok' then Some (failed TrTransportFail, b, l)
        else let (sent, l) = li_write api framed l
        in if \<not> sent then Some (failed TrTransportFail, b, l)
        else let st = br_stats b; st = st\<lparr>bs_requests := bs_requests st + 1\<rparr>;
                 (now, l) = li_monotonic_ms api l
        in case await_answer api seq (now + br_timeout_ms b) st (br_decoder b) l of
             None \<Rightarrow> None
           | Some (r, st, d, l) \<Rightarrow> Some (r, b\<lparr>br_stats := st, br_decoder := d\<rparr>, l))"

subsection \<open>Only its own answer\<close>

text \<open>What an exchange may return: a failure, or the reading of a response with its sequence number.\<close>

definition own_answer :: "16 word \<Rightarrow> transport_result \<Rightarrow> bool" where
  "own_answer seq r \<longleftrightarrow> r = failed TrTransportFail \<or>
     (\<exists>got resp. decode_response_payload got = Some resp \<and> sp_seq resp = seq \<and> r = result_of resp)"

lemma take_answer_own: "take_answer seq st d = (Some r, st', d') \<Longrightarrow> own_answer seq r"
proof (induction seq st d rule: take_answer.induct)
  case (1 seq st d)
  obtain f d1 where n: "decoder_next d = (f, d1)" by fastforce
  show ?case
  proof (cases f)
    case None
    with n 1(4) show ?thesis by (simp add: take_answer.simps [of seq st d])
  next
    case (Some p)
    obtain ty got where p: "p = (ty, got)" by fastforce
    let ?st = "st\<lparr>bs_resyncs := de_resyncs d1\<rparr>"
    note n = n [unfolded Some p]
    note eq = 1(4) [unfolded take_answer.simps [of seq st d] n option.case prod.case Let_def]
    show ?thesis
    proof (cases "ty = k_type_response")
      case False
      with 1(1) [OF n [symmetric] refl _ refl] eq show ?thesis by simp
    next
      case resp: True
      show ?thesis
      proof (cases "decode_response_payload got")
        case None
        with resp 1(2) [OF n [symmetric] refl _ refl] eq show ?thesis by simp
      next
        case (Some a)
        with resp 1(3) [OF n [symmetric] refl _ refl] eq show ?thesis
          by (cases "sp_seq a = seq") (auto simp: own_answer_def)
      qed
    qed
  qed
qed

lemma result_of_ok:
  "tr_outcome (result_of r) = TrOk \<longleftrightarrow> sp_outcome r = WireOk"
  "0 \<le> tr_retry_after_s (result_of r) \<and> tr_retry_after_s (result_of r) \<le> 86400"
  using retry_after_range by (auto simp: result_of_def failed_def split: wire_outcome.splits)

text \<open>
  The clock of a link gets there: polled the way the loop polls it, within so many rounds it passes the
  deadline. This is what a monotonic clock and reads that block for at most their timeout promise.
\<close>

fun passes_deadline :: "'l link_api \<Rightarrow> int \<Rightarrow> nat \<Rightarrow> 'l \<Rightarrow> bool" where
  "passes_deadline api deadline 0 l = False"
| "passes_deadline api deadline (Suc k) l = (case li_monotonic_ms api l of (now, l1) \<Rightarrow>
     deadline - now \<le> 0 \<or>
     passes_deadline api deadline k (snd (li_read api k_read_chunk (min (deadline - now) k_poll_ms) l1)))"

lemma await_returns:
  "passes_deadline api deadline k l \<Longrightarrow>
   \<exists>r st' d' l'. await_answer api seq deadline st d l = Some (r, st', d', l') \<and> own_answer seq r"
proof (induction k arbitrary: st d l)
  case (Suc k)
  obtain a st1 d1 where t: "take_answer seq st d = (a, st1, d1)" using prod_cases3 by blast
  show ?case
  proof (cases a)
    case (Some r)
    with t have "await_answer api seq deadline st d l = Some (r, st1, d1, l)" by (subst await_answer.simps) simp
    with take_answer_own t Some show ?thesis by blast
  next
    case None
    obtain now l1 where m: "li_monotonic_ms api l = (now, l1)" by fastforce
    show ?thesis
    proof (cases "deadline - now \<le> 0")
      case True
      with None t m have "await_answer api seq deadline st d l =
          Some (failed TrTransportFail, st1\<lparr>bs_timeouts := bs_timeouts st1 + 1\<rparr>, d1, l1)"
        by (subst await_answer.simps) simp
      then show ?thesis by (auto simp: own_answer_def)
    next
      case False
      obtain chunk l2 where r: "li_read api k_read_chunk (min (deadline - now) k_poll_ms) l1 = (chunk, l2)" by fastforce
      have "passes_deadline api deadline k l2" using Suc.prems m r False by simp
      from Suc.IH [OF this, of st1 "if chunk \<noteq> [] then decoder_append chunk d1 else d1"] None t m r False
      show ?thesis by (subst await_answer.simps) simp
    qed
  qed
qed simp

lemma own_answer_facts:
  assumes "own_answer seq r"
  shows "0 \<le> tr_retry_after_s r \<and> tr_retry_after_s r \<le> 86400"
    and "tr_outcome r = TrOk \<Longrightarrow> \<exists>got resp. decode_response_payload got = Some resp \<and> sp_seq resp = seq \<and>
      sp_outcome resp = WireOk \<and> tr_body r = sp_body resp"
proof -
  from assms consider (f) "r = failed TrTransportFail"
    | (a) got resp where "decode_response_payload got = Some resp" "sp_seq resp = seq" "r = result_of resp"
    unfolding own_answer_def by blast
  then show "0 \<le> tr_retry_after_s r \<and> tr_retry_after_s r \<le> 86400"
    by cases (simp_all add: failed_def result_of_ok(2) del: One_nat_def)
  assume ok: "tr_outcome r = TrOk"
  from assms consider (f) "r = failed TrTransportFail"
    | (a) got resp where "decode_response_payload got = Some resp" "sp_seq resp = seq" "r = result_of resp"
    unfolding own_answer_def by blast
  then show "\<exists>got resp. decode_response_payload got = Some resp \<and> sp_seq resp = seq \<and>
      sp_outcome resp = WireOk \<and> tr_body r = sp_body resp"
  proof cases
    case f
    with ok show ?thesis by (simp add: failed_def)
  next
    case a
    with ok have w: "sp_outcome resp = WireOk" by (simp add: result_of_ok(1))
    then have "tr_body r = sp_body resp" using a(3) by (simp add: result_of_def)
    with a w show ?thesis by blast
  qed
qed

lemma bridge_sync_returns:
  assumes "\<And>l'. \<exists>k. passes_deadline api (fst (li_monotonic_ms api l') + br_timeout_ms b) k (snd (li_monotonic_ms api l'))"
  shows "\<exists>r b' l'. bridge_sync (Some api) body b l = Some (r, b', l') \<and> br_seq b' = br_seq b + 1 \<and>
    own_answer (br_seq b + 1) r"
proof -
  let ?b = "b\<lparr>br_seq := br_seq b + 1\<rparr>"
  have f: "own_answer (br_seq b + 1) (failed TrTransportFail)" by (simp add: own_answer_def)
  obtain ok payload where p: "encode_request_payload
      \<lparr>rp_seq = br_seq b + 1, rp_authorization = br_authorization b, rp_body = body\<rparr> = (ok, payload)" by fastforce
  obtain ok' framed where e: "frame_encode k_type_request payload [] = (ok', framed)" by fastforce
  obtain sent l1 where w: "li_write api framed l = (sent, l1)" by fastforce
  obtain now l2 where m: "li_monotonic_ms api l1 = (now, l2)" by fastforce
  obtain k where k: "passes_deadline api (now + br_timeout_ms b) k l2" using assms [of l1] m by auto
  obtain r st d l3 where a: "await_answer api (br_seq b + 1) (now + br_timeout_ms b)
      ((br_stats b)\<lparr>bs_requests := bs_requests (br_stats b) + 1\<rparr>) (br_decoder b) l2 = Some (r, st, d, l3)"
    and own: "own_answer (br_seq b + 1) r"
    using await_returns [OF k] by blast
  show ?thesis
    using f own by (cases "ok \<and> ok'"; cases sent) (simp_all add: bridge_sync_def p e w m a [unfolded Suc_eq_plus1 [symmetric]] Let_def)
qed


text \<open>A link that accepts every write, hears nothing and whose clock advances by the time each read blocks.\<close>

definition quiet_link :: "int link_api" where
  "quiet_link = \<lparr>li_write = (\<lambda>framed t. (True, t)), li_read = (\<lambda>cap wait t. ([], t + wait)), li_monotonic_ms = (\<lambda>t. (t, t))\<rparr>"

lemma quiet_link_passes: "\<exists>k. passes_deadline quiet_link (l' + 250) k l'"
  by (rule exI [of _ 4]) (simp add: quiet_link_def k_poll_ms_def numeral_eq_Suc)


end
