(* ===== verification/Usbcdc_Link.thy ===== *)
theory Usbcdc_Link
  imports Prelude
begin

text \<open>
  The target's end of the serial link, \<^verbatim>\<open>components/transport/usbcdc_link.cpp\<close>, over the vendor's driver: a
  write that loops until the driver has taken everything or stalls, the blocking read and the clock.
  Installing the driver and converting a timeout to ticks are the vendor's.
\<close>

text \<open>The vendor's driver: what it takes of a buffer, and what it has received.\<close>

record 'v driver_api =
  dr_write_bytes :: "string \<Rightarrow> 'v \<Rightarrow> int \<times> 'v"
  dr_read_bytes :: "nat \<Rightarrow> int \<Rightarrow> 'v \<Rightarrow> string \<times> 'v"
  dr_time_us :: "'v \<Rightarrow> int \<times> 'v"

partial_function (option) cdc_write :: "'v driver_api \<Rightarrow> string \<Rightarrow> 'v \<Rightarrow> (bool \<times> 'v) option" where
  "cdc_write drv rest v =
     (if rest = [] then Some (True, v)
      else (case dr_write_bytes drv rest v of (wrote, v') \<Rightarrow>
        if wrote \<le> 0 then Some (False, v') else cdc_write drv (drop (nat wrote) rest) v'))"

definition cdc_read :: "'v driver_api \<Rightarrow> nat \<Rightarrow> int \<Rightarrow> 'v \<Rightarrow> string \<times> 'v" where
  "cdc_read drv cap timeout_ms v = dr_read_bytes drv cap timeout_ms v"

definition cdc_monotonic_ms :: "'v driver_api \<Rightarrow> 'v \<Rightarrow> int \<times> 'v" where
  "cdc_monotonic_ms drv v = (let (us, v) = dr_time_us drv v in (us div 1000, v))"

lemma cdc_write_returns: "\<exists>ok v'. cdc_write drv rest v = Some (ok, v')"
proof (induction "length rest" arbitrary: rest v rule: less_induct)
  case less
  show ?case
  proof (cases "rest = []")
    case True
    then show ?thesis by (intro exI [of _ True] exI [of _ v]) (subst cdc_write.simps, simp)
  next
    case False
    obtain n v' where w: "dr_write_bytes drv rest v = (n, v')" by fastforce
    show ?thesis
    proof (cases "n \<le> 0")
      case True
      with False w show ?thesis by (intro exI [of _ False] exI [of _ v']) (subst cdc_write.simps, simp)
    next
      case pos: False
      then have "length (drop (nat n) rest) < length rest" using False by simp
      from less [OF this, of v'] pos False w show ?thesis by (subst cdc_write.simps) simp
    qed
  qed
qed

text \<open>When the write reports success the driver has taken every byte, in order: what a driver that records them holds.\<close>

lemma cdc_write_sends_all:
  assumes "\<And>s v n v'. dr_write_bytes drv s v = (n, v') \<Longrightarrow> sent v' = sent v @ take (nat n) s"
  shows "cdc_write drv rest v = Some (ok, v') \<Longrightarrow> (if ok then sent v' = sent v @ rest else \<exists>k. sent v' = sent v @ take k rest)"
proof (induction "length rest" arbitrary: rest v rule: less_induct)
  case less
  show ?case
  proof (cases "rest = []")
    case True
    with less.prems show ?thesis by (subst (asm) cdc_write.simps) auto
  next
    case ne: False
    obtain n v1 where w: "dr_write_bytes drv rest v = (n, v1)" by fastforce
    note s = assms [OF w]
    show ?thesis
    proof (cases "n \<le> 0")
      case True
      with less.prems ne w have "ok = False" "v' = v1" by (subst (asm) cdc_write.simps, simp)+
      with s show ?thesis by auto
    next
      case False
      then have lt: "length (drop (nat n) rest) < length rest" using ne by simp
      have "cdc_write drv (drop (nat n) rest) v1 = Some (ok, v')"
        using less.prems ne w False by (subst (asm) cdc_write.simps) simp
      note ih = less.hyps [OF lt this]
      show ?thesis
      proof (cases ok)
        case True
        with ih s show ?thesis by simp
      next
        case False
        with ih obtain k where "sent v' = sent v1 @ take k (drop (nat n) rest)" by auto
        then have "sent v' = sent v @ take (nat n + k) rest" using s by (simp add: take_add)
        with False show ?thesis by auto
      qed
    qed
  qed
qed

end
