(* ===== verification/Wake.thy ===== *)
theory Wake
  imports Pututu
begin

text \<open>
  The wake policy, \<^verbatim>\<open>main/wake.cpp\<close>: the bookkeeping that survives deep sleep, the plan a wake follows and
  the run that carries it out. The jobs of a wake are a parameter, one function per virtual call on a
  state of their own; they are not given the bookkeeping. Milliseconds are integers: an uptime stays far
  below the width of \<^verbatim>\<open>int64_t\<close>.
\<close>

subsection \<open>State\<close>

datatype reason = ColdBoot | TimerWake | Keypress | UsbAttach | UnknownWake

datatype sync_cause = CauseNone | CauseFirstBoot | CauseScheduled | CauseDoorbell | CauseOutboundQueued | CauseUserKey

definition reason_code :: "reason \<Rightarrow> int" where
  "reason_code r = (case r of ColdBoot \<Rightarrow> 0 | TimerWake \<Rightarrow> 1 | Keypress \<Rightarrow> 2 | UsbAttach \<Rightarrow> 3 | UnknownWake \<Rightarrow> 4)"

record rtc_state =
  rs_magic :: "32 word"
  rs_boot_count :: "32 word"
  rs_last_reason :: int
  rs_unread_mirror :: nat
  rs_unread_mirror_valid :: nat
  rs_last_sms_wake_ms :: int
  rs_next_sync_due_ms :: int

definition zero_rtc :: rtc_state where
  "zero_rtc = \<lparr>rs_magic = 0, rs_boot_count = 0, rs_last_reason = 0, rs_unread_mirror = 0, rs_unread_mirror_valid = 0,
     rs_last_sms_wake_ms = 0, rs_next_sync_due_ms = 0\<rparr>"

definition k_rtc_magic :: "32 word" where "k_rtc_magic = 0x43483101"
definition k_boot_conservative_window_ms :: int where "k_boot_conservative_window_ms = 60000"

definition intact :: "rtc_state \<Rightarrow> bool" where
  "intact s \<longleftrightarrow> rs_magic s = k_rtc_magic"

definition reconstruct :: "int \<Rightarrow> rtc_state" where
  "reconstruct uptime_ms = zero_rtc\<lparr>rs_magic := k_rtc_magic, rs_last_reason := reason_code ColdBoot,
     rs_next_sync_due_ms := uptime_ms,
     rs_last_sms_wake_ms := uptime_ms + k_boot_conservative_window_ms - k_min_wake_interval_ms,
     rs_unread_mirror_valid := 0\<rparr>"

definition note_wake :: "reason \<Rightarrow> rtc_state \<Rightarrow> rtc_state" where
  "note_wake r s = s\<lparr>rs_last_reason := reason_code r, rs_boot_count := rs_boot_count s + 1\<rparr>"

definition sms_wake_allowed :: "rtc_state \<Rightarrow> int \<Rightarrow> bool" where
  "sms_wake_allowed s uptime_ms \<longleftrightarrow> k_min_wake_interval_ms \<le> uptime_ms - rs_last_sms_wake_ms s"

definition note_sms_wake :: "int \<Rightarrow> rtc_state \<Rightarrow> rtc_state" where
  "note_sms_wake uptime_ms s = s\<lparr>rs_last_sms_wake_ms := uptime_ms\<rparr>"

definition schedule_next_sync :: "int \<Rightarrow> int \<Rightarrow> rtc_state \<Rightarrow> rtc_state" where
  "schedule_next_sync uptime_ms interval_s s = s\<lparr>rs_next_sync_due_ms := uptime_ms + interval_s * 1000\<rparr>"

definition set_unread_mirror :: "bool \<Rightarrow> rtc_state \<Rightarrow> rtc_state" where
  "set_unread_mirror any_unread s = s\<lparr>rs_unread_mirror := if any_unread then 1 else 0, rs_unread_mirror_valid := 1\<rparr>"

definition cover_needs_rerender :: "rtc_state \<Rightarrow> bool \<Rightarrow> bool" where
  "cover_needs_rerender s any_unread \<longleftrightarrow>
     (if rs_unread_mirror_valid s = 0 then True else (rs_unread_mirror s \<noteq> 0) \<noteq> any_unread)"

subsection \<open>The plan\<close>

record inputs =
  in_reason :: reason
  in_uptime_ms :: int
  in_rtc_intact :: bool
  in_next_sync_due_ms :: int
  in_outbound_queued :: bool
  in_below_battery_floor :: bool

record plan =
  pl_poll_doorbell :: bool
  pl_sync :: bool
  pl_cause :: sync_cause
  pl_open_ui :: bool
  pl_charge_me :: bool

definition empty_plan :: plan where
  "empty_plan = \<lparr>pl_poll_doorbell = False, pl_sync = False, pl_cause = CauseNone, pl_open_ui = False, pl_charge_me = False\<rparr>"

definition sync_is_due :: "inputs \<Rightarrow> sync_cause \<Rightarrow> bool \<times> sync_cause" where
  "sync_is_due i cause =
     (if in_outbound_queued i then (True, CauseOutboundQueued)
      else if \<not> in_rtc_intact i \<or> in_next_sync_due_ms i \<le> in_uptime_ms i then (True, CauseScheduled)
      else (False, cause))"

definition decide :: "inputs \<Rightarrow> plan" where
  "decide i = (let p = empty_plan in
     if in_below_battery_floor i then p\<lparr>pl_charge_me := True\<rparr>
     else case in_reason i of
       Keypress \<Rightarrow> p\<lparr>pl_open_ui := True\<rparr>
     | TimerWake \<Rightarrow> (let (due, cause) = sync_is_due i (pl_cause p)
         in p\<lparr>pl_poll_doorbell := True, pl_sync := due, pl_cause := cause\<rparr>)
     | UsbAttach \<Rightarrow> (let (due, cause) = sync_is_due i (pl_cause p) in p\<lparr>pl_sync := due, pl_cause := cause\<rparr>)
     | ColdBoot \<Rightarrow> p\<lparr>pl_sync := True, pl_cause := CauseFirstBoot\<rparr>
     | UnknownWake \<Rightarrow> (let (due, cause) = sync_is_due i (pl_cause p)
         in p\<lparr>pl_poll_doorbell := True, pl_sync := due, pl_cause := cause\<rparr>))"

subsection \<open>The run\<close>

record doorbell_poll =
  db_received :: bool
  db_accepted :: bool

record 'x wake_jobs =
  wj_poll_doorbell :: "'x \<Rightarrow> doorbell_poll \<times> 'x"
  wj_sync :: "sync_cause \<Rightarrow> 'x \<Rightarrow> 'x"
  wj_open_ui_session :: "'x \<Rightarrow> 'x"
  wj_any_unread :: "'x \<Rightarrow> bool \<times> 'x"
  wj_render_cover :: "bool \<Rightarrow> 'x \<Rightarrow> 'x"
  wj_render_charge_me :: "'x \<Rightarrow> 'x"

record run_result =
  rr_doorbell_accepted :: bool
  rr_synced :: bool
  rr_cause :: sync_cause
  rr_ui_opened :: bool
  rr_cover_rendered :: bool
  rr_charge_me :: bool

definition empty_result :: run_result where
  "empty_result = \<lparr>rr_doorbell_accepted = False, rr_synced = False, rr_cause = CauseNone, rr_ui_opened = False,
     rr_cover_rendered = False, rr_charge_me = False\<rparr>"

definition poll_step :: "inputs \<Rightarrow> plan \<Rightarrow> 'x wake_jobs \<Rightarrow> rtc_state \<Rightarrow> 'x \<Rightarrow> bool \<times> run_result \<times> rtc_state \<times> 'x" where
  "poll_step i p jobs rtc x = (let out = empty_result\<lparr>rr_cause := pl_cause p\<rparr> in
     if \<not> pl_poll_doorbell p then (pl_sync p, out, rtc, x)
     else let (db, x) = wj_poll_doorbell jobs x;
              allowed = sms_wake_allowed rtc (in_uptime_ms i);
              rtc = (if db_received db \<and> allowed then note_sms_wake (in_uptime_ms i) rtc else rtc)
     in if db_accepted db \<and> allowed
        then (True, out\<lparr>rr_doorbell_accepted := True, rr_cause := CauseDoorbell\<rparr>, rtc, x)
        else (pl_sync p, out, rtc, x))"

definition cover_step :: "'x wake_jobs \<Rightarrow> run_result \<Rightarrow> rtc_state \<Rightarrow> 'x \<Rightarrow> run_result \<times> rtc_state \<times> 'x" where
  "cover_step jobs out rtc x = (let (unread, x) = wj_any_unread jobs x
     in if cover_needs_rerender rtc unread
        then (out\<lparr>rr_cover_rendered := True\<rparr>, set_unread_mirror unread rtc, wj_render_cover jobs unread x)
        else (out, set_unread_mirror unread rtc, x))"

definition wake_run :: "inputs \<Rightarrow> 'x wake_jobs \<Rightarrow> rtc_state \<Rightarrow> 'x \<Rightarrow> run_result \<times> rtc_state \<times> 'x" where
  "wake_run i jobs rtc x = (let p = decide i in
     if pl_charge_me p
     then (empty_result\<lparr>rr_charge_me := True, rr_cover_rendered := True\<rparr>, rtc, wj_render_charge_me jobs x)
     else let (sync, out, rtc, x) = poll_step i p jobs rtc x;
              x = (if sync then wj_sync jobs (rr_cause out) x else x);
              out = (if sync then out\<lparr>rr_synced := True\<rparr> else out)
     in if pl_open_ui p then (out\<lparr>rr_ui_opened := True\<rparr>, rtc, wj_open_ui_session jobs x)
        else cover_step jobs out rtc x)"

subsection \<open>What a run does, observed\<close>

datatype job = PollDoorbell | SyncFor sync_cause | OpenUi | AskUnread bool | ShowCover bool | ShowChargeMe

text \<open>The same jobs with a log beside their state: it only observes.\<close>

definition logged :: "'x wake_jobs \<Rightarrow> ('x \<times> job list) wake_jobs" where
  "logged jobs = \<lparr>
     wj_poll_doorbell = (\<lambda>(x, l). let (db, x') = wj_poll_doorbell jobs x in (db, x', l @ [PollDoorbell])),
     wj_sync = (\<lambda>c (x, l). (wj_sync jobs c x, l @ [SyncFor c])),
     wj_open_ui_session = (\<lambda>(x, l). (wj_open_ui_session jobs x, l @ [OpenUi])),
     wj_any_unread = (\<lambda>(x, l). let (u, x') = wj_any_unread jobs x in (u, x', l @ [AskUnread u])),
     wj_render_cover = (\<lambda>u (x, l). (wj_render_cover jobs u x, l @ [ShowCover u])),
     wj_render_charge_me = (\<lambda>(x, l). (wj_render_charge_me jobs x, l @ [ShowChargeMe]))\<rparr>"

definition sync_due :: "inputs \<Rightarrow> bool" where
  "sync_due i \<longleftrightarrow> in_outbound_queued i \<or> \<not> in_rtc_intact i \<or> in_next_sync_due_ms i \<le> in_uptime_ms i"

lemmas decide_simps = decide_def sync_is_due_def empty_plan_def Let_def

lemma sync_is_due_iff: "fst (sync_is_due i c) \<longleftrightarrow> sync_due i"
  by (simp add: sync_is_due_def sync_due_def)

lemma decide_flags:
  "pl_charge_me (decide i) \<longleftrightarrow> in_below_battery_floor i"
  "pl_open_ui (decide i) \<longleftrightarrow> \<not> in_below_battery_floor i \<and> in_reason i = Keypress"
  "pl_poll_doorbell (decide i) \<longleftrightarrow> \<not> in_below_battery_floor i \<and> in_reason i \<in> {TimerWake, UnknownWake}"
  "pl_sync (decide i) \<longleftrightarrow> \<not> in_below_battery_floor i \<and>
     (in_reason i = ColdBoot \<or> in_reason i \<in> {TimerWake, UsbAttach, UnknownWake} \<and> sync_due i)"
  using sync_is_due_iff [of i CauseNone]
  by (auto simp: decide_def empty_plan_def Let_def split: reason.splits prod.splits)

lemma cover_step_logged:
  "cover_step (logged jobs) out rtc (x, l) = (case wj_any_unread jobs x of (u, x') \<Rightarrow>
     if cover_needs_rerender rtc u
     then (out\<lparr>rr_cover_rendered := True\<rparr>, set_unread_mirror u rtc, wj_render_cover jobs u x', l @ [AskUnread u, ShowCover u])
     else (out, set_unread_mirror u rtc, x', l @ [AskUnread u]))"
  by (simp add: cover_step_def logged_def split: prod.splits)

lemma sync_logged: "wj_sync (logged jobs) c (x, l) = (wj_sync jobs c x, l @ [SyncFor c])"
  by (simp add: logged_def)

lemma poll_logged:
  "poll_step i p (logged jobs) rtc (x, l) = (case poll_step i p jobs rtc x of (s, out, rtc', x') \<Rightarrow>
     (s, out, rtc', x', if pl_poll_doorbell p then l @ [PollDoorbell] else l))"
proof -
  obtain db x1 where db: "wj_poll_doorbell jobs x = (db, x1)" by fastforce
  show ?thesis by (cases "pl_poll_doorbell p") (simp_all add: poll_step_def logged_def Let_def db)
qed

text \<open>What polling the doorbell decides: the sync, its reason and the charge of the limiter.\<close>

lemma poll_step_facts:
  assumes "poll_step i p jobs rtc x = (s, out, rtc', x')"
  shows "s \<longleftrightarrow> pl_sync p \<or> rr_doorbell_accepted out"
    and "rr_doorbell_accepted out \<Longrightarrow> pl_poll_doorbell p \<and> sms_wake_allowed rtc (in_uptime_ms i)"
    and "\<not> rr_synced out \<and> \<not> rr_ui_opened out \<and> \<not> rr_cover_rendered out \<and> \<not> rr_charge_me out"
    and "rs_unread_mirror rtc' = rs_unread_mirror rtc \<and> rs_unread_mirror_valid rtc' = rs_unread_mirror_valid rtc"
    and "rtc' = rtc \<or> sms_wake_allowed rtc (in_uptime_ms i) \<and> rtc' = note_sms_wake (in_uptime_ms i) rtc"
    and "rr_cause out = (if rr_doorbell_accepted out then CauseDoorbell else pl_cause p)"
proof -
  obtain db x1 where db: "wj_poll_doorbell jobs x = (db, x1)" by fastforce
  note simps = poll_step_def empty_result_def note_sms_wake_def Let_def db
  show "s \<longleftrightarrow> pl_sync p \<or> rr_doorbell_accepted out"
    and "rr_doorbell_accepted out \<Longrightarrow> pl_poll_doorbell p \<and> sms_wake_allowed rtc (in_uptime_ms i)"
    and "\<not> rr_synced out \<and> \<not> rr_ui_opened out \<and> \<not> rr_cover_rendered out \<and> \<not> rr_charge_me out"
    and "rs_unread_mirror rtc' = rs_unread_mirror rtc \<and> rs_unread_mirror_valid rtc' = rs_unread_mirror_valid rtc"
    and "rtc' = rtc \<or> sms_wake_allowed rtc (in_uptime_ms i) \<and> rtc' = note_sms_wake (in_uptime_ms i) rtc"
    and "rr_cause out = (if rr_doorbell_accepted out then CauseDoorbell else pl_cause p)"
    using assms by (auto simp: simps split: if_splits)
qed

text \<open>
  A wake does one job and no more. Below the battery floor it only paints the charge-me cover. A key
  press only opens the session, with the radio down, and no other wake opens one. Every other wake polls
  the doorbell exactly when the timer or an unknown source woke it, syncs at most once, and exactly on a
  cold boot, when a sync is due (a letter queued, the interval over, the bookkeeping lost) or on an
  admitted doorbell; then, after the sync, it asks the store for unread letters, repaints the cover
  exactly when the glass may disagree, and leaves a mirror that agrees with the answer.\<close>

theorem wake_does_one_job:
  "case wake_run i (logged jobs) rtc (x, []) of (res, rtc', x', log) \<Rightarrow>
     if in_below_battery_floor i then log = [ShowChargeMe] \<and> rtc' = rtc
     else if in_reason i = Keypress then log = [OpenUi] \<and> rtc' = rtc
     else \<exists>u. log = (if in_reason i \<in> {TimerWake, UnknownWake} then [PollDoorbell] else []) @
         (if rr_synced res then [SyncFor (rr_cause res)] else []) @ [AskUnread u] @
         (if rr_cover_rendered res then [ShowCover u] else []) \<and>
       (rr_synced res \<longleftrightarrow> in_reason i = ColdBoot \<or> sync_due i \<or> rr_doorbell_accepted res) \<and>
       (rr_cover_rendered res \<longleftrightarrow> (if rs_unread_mirror_valid rtc = 0 then True else (rs_unread_mirror rtc = 0) = u)) \<and>
       rs_unread_mirror_valid rtc' = 1 \<and> (rs_unread_mirror rtc' \<noteq> 0) = u"
proof -
  obtain s out rtc1 x1 where p: "poll_step i (decide i) jobs rtc x = (s, out, rtc1, x1)" using prod_cases4 by blast
  note f = poll_step_facts [OF p]
  show ?thesis
  proof (cases "in_below_battery_floor i")
    case True
    then show ?thesis by (simp add: wake_run_def Let_def decide_flags) (simp add: logged_def)
  next
    case floor: False
    show ?thesis
    proof (cases "in_reason i = Keypress")
      case True
      then show ?thesis using floor
        by (simp add: wake_run_def Let_def decide_flags poll_step_def) (simp add: logged_def)
    next
      case key: False
      define x2 where "x2 = (if s then wj_sync jobs (rr_cause out) x1 else x1)"
      obtain u x3 where u: "wj_any_unread jobs x2 = (u, x3)" by fastforce
      have due: "s \<longleftrightarrow> in_reason i = ColdBoot \<or> sync_due i \<or> rr_doorbell_accepted out"
        using f(1) floor key by (cases "in_reason i") (auto simp: decide_flags)
      have "cover_needs_rerender rtc1 v \<longleftrightarrow> rs_unread_mirror_valid rtc = 0 \<or> (rs_unread_mirror rtc \<noteq> 0) \<noteq> v" for v
        using f(4) by (auto simp: cover_needs_rerender_def)
      note cover = this
      have run: "wake_run i (logged jobs) rtc (x, []) = cover_step (logged jobs) (if s then out\<lparr>rr_synced := True\<rparr> else out) rtc1
          (x2, (if in_reason i \<in> {TimerWake, UnknownWake} then [PollDoorbell] else []) @
            (if s then [SyncFor (rr_cause out)] else []))"
        using floor key by (cases s) (simp_all add: wake_run_def Let_def decide_flags poll_logged p sync_logged x2_def)
      show ?thesis
        unfolding run cover_step_logged u prod.case cover
        using floor key f(3) due by (cases "rs_unread_mirror_valid rtc = 0 \<or> (rs_unread_mirror rtc \<noteq> 0) \<noteq> u"; cases s)
          (auto simp: set_unread_mirror_def)
    qed
  qed
qed

subsection \<open>The doorbell limiter over many wakes\<close>

text \<open>
  The wakes of one power cycle, with the times at which the limiter was charged and at which a doorbell
  was let through, newest first. \<^verbatim>\<open>app_main\<close> counts the wake, runs it and schedules the next sync.\<close>

inductive wakes :: "int \<Rightarrow> rtc_state \<Rightarrow> int \<Rightarrow> int list \<Rightarrow> int list \<Rightarrow> bool" for b where
  boot: "wakes b (reconstruct b) b [] []"
| wake: "wakes b s t cs ds \<Longrightarrow> t \<le> in_uptime_ms i \<Longrightarrow>
    (db_accepted (fst (wj_poll_doorbell jobs x)) \<Longrightarrow> db_received (fst (wj_poll_doorbell jobs x))) \<Longrightarrow>
    wake_run i jobs (note_wake (in_reason i) s) (x :: unit) = (res, s', x') \<Longrightarrow>
    wakes b s' (in_uptime_ms i) (if rs_last_sms_wake_ms s' = rs_last_sms_wake_ms s then cs else in_uptime_ms i # cs)
      (if rr_doorbell_accepted res then in_uptime_ms i # ds else ds)"
| schedule: "wakes b s t cs ds \<Longrightarrow> wakes b (schedule_next_sync t' interval_s s) t cs ds"

lemma limiter_untouched [simp]:
  "rs_last_sms_wake_ms (note_wake r s) = rs_last_sms_wake_ms s"
  "rs_last_sms_wake_ms (schedule_next_sync t n s) = rs_last_sms_wake_ms s"
  "rs_last_sms_wake_ms (set_unread_mirror u s) = rs_last_sms_wake_ms s"
  "sms_wake_allowed (note_wake r s) = sms_wake_allowed s"
  by (simp_all add: note_wake_def schedule_next_sync_def set_unread_mirror_def sms_wake_allowed_def fun_eq_iff)

lemma cover_step_limiter:
  "cover_step jobs out rtc x = (res, rtc', x') \<Longrightarrow>
   rs_last_sms_wake_ms rtc' = rs_last_sms_wake_ms rtc \<and> rr_doorbell_accepted res = rr_doorbell_accepted out"
  by (auto simp: cover_step_def Let_def split: prod.splits if_splits)

text \<open>Polled or not, a run lets a doorbell through exactly when it polls, the token is genuine and the window is open.\<close>

lemma wake_run_limiter:
  assumes "wake_run i jobs rtc x = (res, rtc', x')"
  defines "polls \<equiv> \<not> in_below_battery_floor i \<and> in_reason i \<in> {TimerWake, UnknownWake}"
    and "db \<equiv> fst (wj_poll_doorbell jobs x)"
  shows "rr_doorbell_accepted res \<longleftrightarrow> polls \<and> db_accepted db \<and> sms_wake_allowed rtc (in_uptime_ms i)"
    and "rs_last_sms_wake_ms rtc' = (if polls \<and> db_received db \<and> sms_wake_allowed rtc (in_uptime_ms i)
      then in_uptime_ms i else rs_last_sms_wake_ms rtc)"
proof -
  obtain s out rtc1 x1 where p: "poll_step i (decide i) jobs rtc x = (s, out, rtc1, x1)" using prod_cases4 by blast
  obtain d x2 where d: "wj_poll_doorbell jobs x = (d, x2)" by fastforce
  have pf: "pl_poll_doorbell (decide i) = polls" by (simp only: decide_flags polls_def)
  have "(rr_doorbell_accepted out \<longleftrightarrow> polls \<and> db_accepted db \<and> sms_wake_allowed rtc (in_uptime_ms i)) \<and>
      rs_last_sms_wake_ms rtc1 = (if polls \<and> db_received db \<and> sms_wake_allowed rtc (in_uptime_ms i)
        then in_uptime_ms i else rs_last_sms_wake_ms rtc)"
    using p d pf by (auto simp: poll_step_def Let_def db_def empty_result_def note_sms_wake_def split: if_splits)
  moreover have "rr_doorbell_accepted res = rr_doorbell_accepted out \<and> rs_last_sms_wake_ms rtc' = rs_last_sms_wake_ms rtc1"
  proof (cases "in_below_battery_floor i \<or> in_reason i = Keypress")
    case True
    then have "poll_step i (decide i) jobs rtc x = (pl_sync (decide i), empty_result\<lparr>rr_cause := pl_cause (decide i)\<rparr>, rtc, x)"
      using pf by (auto simp: poll_step_def Let_def polls_def)
    then have "out = empty_result\<lparr>rr_cause := pl_cause (decide i)\<rparr> \<and> rtc1 = rtc" and p': "x1 = x" using p by simp_all
    with True assms(1) p show ?thesis
      by (cases "in_below_battery_floor i"; cases s) (auto simp: wake_run_def Let_def decide_flags empty_result_def)
  next
    case False
    with assms(1) p show ?thesis
      by (cases s) (auto simp: wake_run_def Let_def decide_flags dest!: cover_step_limiter)
  qed
  ultimately show "rr_doorbell_accepted res \<longleftrightarrow> polls \<and> db_accepted db \<and> sms_wake_allowed rtc (in_uptime_ms i)"
    and "rs_last_sms_wake_ms rtc' = (if polls \<and> db_received db \<and> sms_wake_allowed rtc (in_uptime_ms i)
      then in_uptime_ms i else rs_last_sms_wake_ms rtc)" by simp_all
qed

text \<open>Times newest first, each at least the wake interval after the one before it.\<close>

definition spaced :: "int list \<Rightarrow> bool" where
  "spaced = sorted_wrt (\<lambda>later earlier. k_min_wake_interval_ms \<le> later - earlier)"

lemma spaced_Cons: "spaced (c # cs) \<longleftrightarrow> (\<forall>e \<in> set cs. k_min_wake_interval_ms \<le> c - e) \<and> spaced cs"
  by (simp add: spaced_def)

lemma wakes_invariant:
  assumes "wakes b s t cs ds"
  shows "spaced cs \<and> spaced ds \<and> set ds \<subseteq> set cs \<and> (\<forall>c \<in> set cs. b + k_boot_conservative_window_ms \<le> c \<and> c \<le> t) \<and>
    rs_last_sms_wake_ms s = (if cs = [] then b + k_boot_conservative_window_ms - k_min_wake_interval_ms else hd cs) \<and> b \<le> t"
  using assms
proof induction
  case boot
  show ?case by (simp add: spaced_def reconstruct_def)
next
  case (wake s t cs ds i jobs x res s' x')
  let ?now = "in_uptime_ms i"
  note l = wake_run_limiter [OF wake.hyps(4)]
  have pos: "0 < k_min_wake_interval_ms" by (simp add: k_min_wake_interval_ms_def)
  show ?case
  proof (cases "rs_last_sms_wake_ms s' = rs_last_sms_wake_ms s")
    case True
    have "\<not> rr_doorbell_accepted res"
    proof
      assume "rr_doorbell_accepted res"
      with l wake.hyps(3) have "sms_wake_allowed s ?now" "rs_last_sms_wake_ms s' = ?now" by simp_all
      with True pos show False by (simp add: sms_wake_allowed_def)
    qed
    with True wake.IH wake.hyps(2) show ?thesis by auto
  next
    case False
    with l(2) have new: "rs_last_sms_wake_ms s' = ?now" and open': "sms_wake_allowed s ?now"
      by (auto split: if_splits)
    have old: "\<forall>c \<in> set cs. k_min_wake_interval_ms \<le> ?now - c" "b + k_boot_conservative_window_ms \<le> ?now"
    proof -
      have h: "k_min_wake_interval_ms \<le> ?now - rs_last_sms_wake_ms s" using open' by (simp add: sms_wake_allowed_def)
      show "\<forall>c \<in> set cs. k_min_wake_interval_ms \<le> ?now - c"
        using h wake.IH pos by (cases cs) (auto simp: spaced_Cons)
      show "b + k_boot_conservative_window_ms \<le> ?now"
        using h wake.IH pos by (cases cs) auto
    qed
    have "spaced (?now # cs)" "spaced (?now # ds)" using old wake.IH by (auto simp: spaced_Cons)
    with False new old wake.IH wake.hyps(2) show ?thesis by auto
  qed
next
  case (schedule s t cs ds t' interval_s)
  then show ?case by simp
qed


text \<open>A modem that buffers one genuine token for every poll.\<close>

definition ringing :: "unit wake_jobs" where
  "ringing = \<lparr>wj_poll_doorbell = (\<lambda>x. (\<lparr>db_received = True, db_accepted = True\<rparr>, x)), wj_sync = (\<lambda>c x. x),
     wj_open_ui_session = (\<lambda>x. x), wj_any_unread = (\<lambda>x. (True, x)), wj_render_cover = (\<lambda>u x. x), wj_render_charge_me = (\<lambda>x. x)\<rparr>"

definition timer_wake_at :: "int \<Rightarrow> inputs" where
  "timer_wake_at t = \<lparr>in_reason = TimerWake, in_uptime_ms = t, in_rtc_intact = True, in_next_sync_due_ms = t + 1,
     in_outbound_queued = False, in_below_battery_floor = False\<rparr>"


end
