(* ===== verification/Input.thy ===== *)
theory Input
  imports Prelude
begin

text \<open>
  The keys, the dispatcher that intercepts put-away and sync, and the watchdog:
  \<^verbatim>\<open>components/input/input.cpp\<close>. The key source and the handlers are parameters. A handler may do what it
  likes to the world and to the dispatcher (the wipe masks it), so it is a function of both; a missing
  \<^verbatim>\<open>std::function\<close> or a null source is \<open>None\<close>.
\<close>

subsection \<open>Keys and seams\<close>

datatype key = KeyNone | KeyUp | KeyDown | KeyLeft | KeyRight | KeyEnter | KeyBack
  | KeyPutAway | KeySync | KeyFrontlight | KeyChar | KeyErase

record key_event =
  ke_key :: key
  ke_codepoint :: nat

definition no_event :: key_event where "no_event = \<lparr>ke_key = KeyNone, ke_codepoint = 0\<rparr>"

definition k_max_drain_per_pump :: nat where "k_max_drain_per_pump = 64"
definition k_pending_capacity :: nat where "k_pending_capacity = 32"

record dispatcher =
  di_pending :: "key_event list"
  di_head :: nat
  di_count :: nat
  di_masked :: bool
  di_put_away_active :: bool
  di_sync_active :: bool

record 'x dispatcher_deps =
  dd_source :: "('x \<Rightarrow> key_event option \<times> 'x) option"
  dd_on_put_away :: "(dispatcher \<Rightarrow> 'x \<Rightarrow> dispatcher \<times> 'x) option"
  dd_on_sync :: "(dispatcher \<Rightarrow> 'x \<Rightarrow> dispatcher \<times> 'x) option"
  dd_feed_watchdog :: "('x \<Rightarrow> 'x) option"

definition new_dispatcher :: dispatcher where
  "new_dispatcher = \<lparr>di_pending = replicate k_pending_capacity no_event, di_head = 0, di_count = 0,
     di_masked = False, di_put_away_active = False, di_sync_active = False\<rparr>"

subsection \<open>The backlog\<close>

definition push :: "key_event \<Rightarrow> dispatcher \<Rightarrow> dispatcher" where
  "push e d =
     (if di_count d = k_pending_capacity then d
      else d\<lparr>di_pending := (di_pending d)[(di_head d + di_count d) mod k_pending_capacity := e], di_count := di_count d + 1\<rparr>)"

definition pop :: "dispatcher \<Rightarrow> key_event option \<times> dispatcher" where
  "pop d =
     (if di_count d = 0 then (None, d)
      else (Some (di_pending d ! di_head d),
        d\<lparr>di_head := (di_head d + 1) mod k_pending_capacity, di_count := di_count d - 1\<rparr>))"

definition clear_backlog :: "dispatcher \<Rightarrow> dispatcher" where
  "clear_backlog d = d\<lparr>di_head := 0, di_count := 0\<rparr>"

definition mask_input :: "bool \<Rightarrow> dispatcher \<Rightarrow> dispatcher" where
  "mask_input on d = (if on then clear_backlog (d\<lparr>di_masked := on\<rparr>) else d\<lparr>di_masked := on\<rparr>)"

subsection \<open>Interception\<close>

definition fire_put_away :: "'x dispatcher_deps \<Rightarrow> dispatcher \<Rightarrow> 'x \<Rightarrow> dispatcher \<times> 'x" where
  "fire_put_away deps d x =
     (if di_put_away_active d then (d, x)
      else let d = d\<lparr>di_put_away_active := True\<rparr>;
               (d, x) = (case dd_on_put_away deps of None \<Rightarrow> (d, x) | Some h \<Rightarrow> h d x)
           in (d\<lparr>di_put_away_active := False\<rparr>, x))"

definition fire_sync :: "'x dispatcher_deps \<Rightarrow> dispatcher \<Rightarrow> 'x \<Rightarrow> dispatcher \<times> 'x" where
  "fire_sync deps d x =
     (if di_sync_active d then (d, x)
      else let d = d\<lparr>di_sync_active := True\<rparr>;
               (d, x) = (case dd_on_sync deps of None \<Rightarrow> (d, x) | Some h \<Rightarrow> h d x)
           in (d\<lparr>di_sync_active := False\<rparr>, x))"

definition dispatch_key :: "'x dispatcher_deps \<Rightarrow> key_event \<Rightarrow> bool \<Rightarrow> dispatcher \<Rightarrow> 'x \<Rightarrow> bool \<times> dispatcher \<times> 'x" where
  "dispatch_key deps e put_away_seen d x = (case ke_key e of
      KeyPutAway \<Rightarrow> (True, fire_put_away deps (clear_backlog d) x)
    | KeySync \<Rightarrow> (put_away_seen, fire_sync deps d x)
    | _ \<Rightarrow> (put_away_seen, if di_masked d \<or> put_away_seen then d else push e d, x))"

fun drain_loop :: "nat \<Rightarrow> 'x dispatcher_deps \<Rightarrow> ('x \<Rightarrow> key_event option \<times> 'x) \<Rightarrow> bool \<Rightarrow> dispatcher \<Rightarrow> 'x \<Rightarrow> dispatcher \<times> 'x" where
  "drain_loop 0 deps poll seen d x = (d, x)"
| "drain_loop (Suc n) deps poll seen d x = (case poll x of
      (None, x) \<Rightarrow> (d, x)
    | (Some e, x) \<Rightarrow> (case dispatch_key deps e seen d x of (seen, d, x) \<Rightarrow> drain_loop n deps poll seen d x))"

definition drain_source :: "'x dispatcher_deps \<Rightarrow> dispatcher \<Rightarrow> 'x \<Rightarrow> dispatcher \<times> 'x" where
  "drain_source deps d x = (case dd_source deps of
      None \<Rightarrow> (d, x)
    | Some poll \<Rightarrow> drain_loop k_max_drain_per_pump deps poll False d x)"

definition pump :: "'x dispatcher_deps \<Rightarrow> dispatcher \<Rightarrow> 'x \<Rightarrow> key_event option \<times> dispatcher \<times> 'x" where
  "pump deps d x = (let x = (case dd_feed_watchdog deps of None \<Rightarrow> x | Some feed \<Rightarrow> feed x);
       (d, x) = drain_source deps d x;
       (e, d) = pop d
     in (e, d, x))"

subsection \<open>The watchdog\<close>

definition k_watchdog_timeout_ms :: int where "k_watchdog_timeout_ms = 10000"

record watchdog =
  wg_last_feed_ms :: int
  wg_active :: bool

record 'x watchdog_deps =
  wd_on_expiry :: "(watchdog \<Rightarrow> 'x \<Rightarrow> watchdog \<times> 'x) option"
  wd_monotonic_ms :: "('x \<Rightarrow> int) option"
  wd_timeout_ms :: int

definition wd_now :: "'x watchdog_deps \<Rightarrow> 'x \<Rightarrow> int" where
  "wd_now deps x = (case wd_monotonic_ms deps of None \<Rightarrow> 0 | Some clock \<Rightarrow> clock x)"

definition new_watchdog :: "'x watchdog_deps \<Rightarrow> 'x \<Rightarrow> watchdog" where
  "new_watchdog deps x = \<lparr>wg_last_feed_ms = wd_now deps x, wg_active = False\<rparr>"

definition wd_feed :: "'x watchdog_deps \<Rightarrow> 'x \<Rightarrow> watchdog \<Rightarrow> watchdog" where
  "wd_feed deps x w = w\<lparr>wg_last_feed_ms := wd_now deps x\<rparr>"

definition wd_overdue :: "'x watchdog_deps \<Rightarrow> 'x \<Rightarrow> watchdog \<Rightarrow> bool" where
  "wd_overdue deps x w =
     (if wd_monotonic_ms deps = None then False else wd_timeout_ms deps \<le> wd_now deps x - wg_last_feed_ms w)"

definition wd_expire :: "'x watchdog_deps \<Rightarrow> 'x \<Rightarrow> watchdog \<Rightarrow> watchdog \<times> 'x" where
  "wd_expire deps x w =
     (if wg_active w then (w, x)
      else let w = w\<lparr>wg_active := True\<rparr>;
               (w, x) = (case wd_on_expiry deps of None \<Rightarrow> (w, x) | Some wipe \<Rightarrow> wipe w x)
           in (w\<lparr>wg_last_feed_ms := wd_now deps x, wg_active := False\<rparr>, x))"

subsection \<open>The backlog is a bounded queue\<close>

text \<open>
  What the dispatcher needs of its backlog: a queue of at most so many events that drops the newest when
  it is full.
\<close>

lemma take_take_append: "take n (take n xs @ ys) = take n (xs @ ys)"
  by (cases "n \<le> length xs") simp_all

locale bounded_queue =
  fixes cap :: nat
    and items :: "'q \<Rightarrow> 'e list"
    and ok :: "'q \<Rightarrow> bool"
    and enq :: "'e \<Rightarrow> 'q \<Rightarrow> 'q"
    and deq :: "'q \<Rightarrow> 'e option \<times> 'q"
    and empty :: "'q \<Rightarrow> 'q"
  assumes items_le: "ok q \<Longrightarrow> length (items q) \<le> cap"
    and ok_enq: "ok q \<Longrightarrow> ok (enq e q)"
    and ok_deq: "ok q \<Longrightarrow> ok (snd (deq q))"
    and ok_empty: "ok q \<Longrightarrow> ok (empty q)"
    and items_enq: "ok q \<Longrightarrow> items (enq e q) = take cap (items q @ [e])"
    and items_deq: "ok q \<Longrightarrow> fst (deq q) = (case items q of [] \<Rightarrow> None | e # es \<Rightarrow> Some e) \<and> items (snd (deq q)) = tl (items q)"
    and items_empty: "ok q \<Longrightarrow> items (empty q) = []"
begin

lemma enq_all: "ok q \<Longrightarrow> ok (fold enq es q) \<and> items (fold enq es q) = take cap (items q @ es)"
proof (induction es arbitrary: q)
  case Nil
  then show ?case using items_le by simp
next
  case (Cons e es)
  have "take cap (take cap (items q @ [e]) @ es) = take cap (items q @ e # es)"
    using take_take_append [of cap "items q @ [e]" es] by simp
  with Cons.IH [OF ok_enq [OF Cons.prems]] items_enq [OF Cons.prems] show ?case by simp
qed

lemma first_in_first_out: "ok q \<Longrightarrow> items q = e # es \<Longrightarrow> fst (deq q) = Some e \<and> items (snd (deq q)) = es"
  using items_deq [of q] by simp

lemma full_drops_newest: "ok q \<Longrightarrow> length (items q) = cap \<Longrightarrow> items (enq e q) = items q"
  using items_enq [of q e] by simp

end

definition backlog :: "dispatcher \<Rightarrow> key_event list" where
  "backlog d = map (\<lambda>i. di_pending d ! ((di_head d + i) mod k_pending_capacity)) [0..<di_count d]"

definition ring_ok :: "dispatcher \<Rightarrow> bool" where
  "ring_ok d \<longleftrightarrow> length (di_pending d) = k_pending_capacity \<and> di_head d < k_pending_capacity \<and> di_count d \<le> k_pending_capacity"

lemma ring_slots_distinct:
  assumes "i < j" "j < k_pending_capacity"
  shows "(h + i) mod k_pending_capacity \<noteq> (h + j) mod k_pending_capacity"
proof
  assume "(h + i) mod k_pending_capacity = (h + j) mod k_pending_capacity"
  then have "k_pending_capacity dvd (h + j) - (h + i)"
    using assms(1) by (metis add_le_cancel_left less_or_eq_imp_le mod_eq_dvd_iff_nat)
  then have "k_pending_capacity \<le> j - i" using assms(1) by (simp add: dvd_imp_le)
  with assms show False by simp
qed

lemma backlog_push:
  assumes "ring_ok d"
  shows "ring_ok (push e d) \<and> backlog (push e d) = take k_pending_capacity (backlog d @ [e])"
proof (cases "di_count d = k_pending_capacity")
  case True
  with assms show ?thesis by (simp add: push_def backlog_def)
next
  case False
  then have lt: "di_count d < k_pending_capacity" using assms by (simp add: ring_ok_def)
  have pos: "0 < k_pending_capacity" by (simp add: k_pending_capacity_def)
  have "(di_pending d)[(di_head d + di_count d) mod k_pending_capacity := e] ! ((di_head d + i) mod k_pending_capacity) =
      di_pending d ! ((di_head d + i) mod k_pending_capacity)" if "i < di_count d" for i
    using ring_slots_distinct [OF that lt, of "di_head d"] by (simp add: nth_list_update_neq)
  with lt assms pos show ?thesis by (simp add: push_def backlog_def ring_ok_def)
qed

lemma backlog_pop:
  assumes "ring_ok d"
  shows "fst (pop d) = (case backlog d of [] \<Rightarrow> None | e # es \<Rightarrow> Some e) \<and> backlog (snd (pop d)) = tl (backlog d) \<and>
    ring_ok (snd (pop d))"
proof (cases "di_count d")
  case 0
  with assms show ?thesis by (simp add: pop_def backlog_def)
next
  case (Suc n)
  have pos: "0 < k_pending_capacity" by (simp add: k_pending_capacity_def)
  have "((di_head d + 1) mod k_pending_capacity + i) mod k_pending_capacity = (di_head d + Suc i) mod k_pending_capacity" for i
    by (simp add: mod_simps)
  with Suc assms pos show ?thesis
    by (simp add: pop_def backlog_def ring_ok_def upt_conv_Cons map_Suc_upt [symmetric] del: upt_Suc)
qed

lemma backlog_clear: "ring_ok d \<Longrightarrow> ring_ok (clear_backlog d) \<and> backlog (clear_backlog d) = []"
  by (simp add: clear_backlog_def ring_ok_def backlog_def k_pending_capacity_def)

interpretation bq: bounded_queue k_pending_capacity backlog ring_ok push pop clear_backlog
  by unfold_locales (simp_all add: backlog_push backlog_pop backlog_clear, simp add: backlog_def ring_ok_def)

subsection \<open>Interception, observed\<close>

text \<open>
  A keyboard world: the keys still to be read, the handlers run so far, and whatever else there is. A
  handler may change the rest of the world and mask or unmask the dispatcher, which is all its interface
  offers short of pumping it again.
\<close>

record 'w kbd_world =
  kw_keys :: "key_event list"
  kw_fired :: "key list"
  kw_rest :: 'w

definition kbd_poll :: "'w kbd_world \<Rightarrow> key_event option \<times> 'w kbd_world" where
  "kbd_poll x = (case kw_keys x of [] \<Rightarrow> (None, x) | e # es \<Rightarrow> (Some e, x\<lparr>kw_keys := es\<rparr>))"

definition kbd_handler :: "key \<Rightarrow> ('w \<Rightarrow> bool list \<times> 'w) \<Rightarrow> dispatcher \<Rightarrow> 'w kbd_world \<Rightarrow> dispatcher \<times> 'w kbd_world" where
  "kbd_handler k h d x = (case h (kw_rest x) of (masks, w) \<Rightarrow>
     (fold mask_input masks d, x\<lparr>kw_fired := kw_fired x @ [k], kw_rest := w\<rparr>))"

definition kbd_deps :: "('w \<Rightarrow> bool list \<times> 'w) \<Rightarrow> ('w \<Rightarrow> bool list \<times> 'w) \<Rightarrow> ('w kbd_world) dispatcher_deps" where
  "kbd_deps put sync = \<lparr>dd_source = Some kbd_poll, dd_on_put_away = Some (kbd_handler KeyPutAway put),
     dd_on_sync = Some (kbd_handler KeySync sync), dd_feed_watchdog = None\<rparr>"

definition intercepted :: "key \<Rightarrow> bool" where
  "intercepted k \<longleftrightarrow> k = KeyPutAway \<or> k = KeySync"

definition dispatcher_ok :: "dispatcher \<Rightarrow> bool" where
  "dispatcher_ok d \<longleftrightarrow> ring_ok d \<and> \<not> di_put_away_active d \<and> \<not> di_sync_active d \<and>
     (\<forall>e \<in> set (backlog d). \<not> intercepted (ke_key e))"

lemma dispatcher_ok_new: "dispatcher_ok new_dispatcher"
  by (simp add: dispatcher_ok_def new_dispatcher_def ring_ok_def backlog_def k_pending_capacity_def)

lemma flags_kept [simp]:
  "di_put_away_active (push e d) = di_put_away_active d" "di_sync_active (push e d) = di_sync_active d"
  "di_put_away_active (clear_backlog d) = di_put_away_active d" "di_sync_active (clear_backlog d) = di_sync_active d"
  "di_masked (push e d) = di_masked d" "di_masked (clear_backlog d) = di_masked d"
  by (simp_all add: push_def clear_backlog_def)

lemma ring_ok_flags [simp]:
  "ring_ok (d\<lparr>di_put_away_active := b\<rparr>) = ring_ok d" "ring_ok (d\<lparr>di_sync_active := b\<rparr>) = ring_ok d"
  "ring_ok (d\<lparr>di_masked := b\<rparr>) = ring_ok d"
  "backlog (d\<lparr>di_put_away_active := b\<rparr>) = backlog d" "backlog (d\<lparr>di_sync_active := b\<rparr>) = backlog d"
  "backlog (d\<lparr>di_masked := b\<rparr>) = backlog d"
  by (simp_all add: ring_ok_def backlog_def)

lemma masks_facts:
  assumes "ring_ok d"
  shows "ring_ok (fold mask_input ms d) \<and> (backlog d = [] \<longrightarrow> backlog (fold mask_input ms d) = []) \<and>
    set (backlog (fold mask_input ms d)) \<subseteq> set (backlog d) \<and>
    di_put_away_active (fold mask_input ms d) = di_put_away_active d \<and> di_sync_active (fold mask_input ms d) = di_sync_active d"
  using assms
proof (induction ms arbitrary: d)
  case (Cons m ms)
  have "ring_ok (mask_input m d) \<and> set (backlog (mask_input m d)) \<subseteq> set (backlog d) \<and>
      di_put_away_active (mask_input m d) = di_put_away_active d \<and> di_sync_active (mask_input m d) = di_sync_active d"
    using Cons.prems backlog_clear [of "d\<lparr>di_masked := m\<rparr>"] by (cases m) (simp_all add: mask_input_def)
  with Cons.IH [of "mask_input m d"] show ?case by auto
qed simp

text \<open>One key: which handler runs, and what becomes of the backlog.\<close>

lemma dispatch_key_facts:
  assumes ok: "dispatcher_ok d" and seen: "seen \<Longrightarrow> backlog d = []"
    and sync: "\<And>w. fst (sync w) = []"
    and r: "dispatch_key (kbd_deps put sync) e seen d x = (seen', d', x')"
  shows "dispatcher_ok d' \<and> kw_keys x' = kw_keys x \<and>
    kw_fired x' = kw_fired x @ (if intercepted (ke_key e) then [ke_key e] else []) \<and>
    seen' = (seen \<or> ke_key e = KeyPutAway) \<and> (seen' \<longrightarrow> backlog d' = []) \<and>
    (\<not> seen' \<longrightarrow> di_masked d' = di_masked d \<and>
      backlog d' = (if intercepted (ke_key e) \<or> di_masked d then backlog d
        else take k_pending_capacity (backlog d @ [e])))"
proof -
  have ring: "ring_ok d" and fl: "\<not> di_put_away_active d" "\<not> di_sync_active d"
    and ui: "\<forall>e \<in> set (backlog d). \<not> intercepted (ke_key e)" using ok by (simp_all add: dispatcher_ok_def)
  consider (put) "ke_key e = KeyPutAway" | (sync) "ke_key e = KeySync" | (ui) "\<not> intercepted (ke_key e)"
    by (auto simp: intercepted_def)
  then show ?thesis
  proof cases
    case put
    obtain ms w where h: "put (kw_rest x) = (ms, w)" by fastforce
    let ?d = "(clear_backlog d)\<lparr>di_put_away_active := True\<rparr>"
    have e: "d' = (fold mask_input ms ?d)\<lparr>di_put_away_active := False\<rparr>" "seen'"
      "x' = x\<lparr>kw_fired := kw_fired x @ [KeyPutAway], kw_rest := w\<rparr>"
      using r put h fl by (simp_all add: dispatch_key_def fire_put_away_def kbd_deps_def kbd_handler_def)
    with masks_facts [of ?d ms] backlog_clear [OF ring] fl put show ?thesis
      by (simp add: dispatcher_ok_def intercepted_def)
  next
    case sync
    obtain w where h: "sync (kw_rest x) = ([], w)" using assms(3) [of "kw_rest x"] by (metis prod.collapse)
    have "d' = d \<and> seen' = seen \<and> x' = x\<lparr>kw_fired := kw_fired x @ [KeySync], kw_rest := w\<rparr>"
      using r sync h fl by (auto simp: dispatch_key_def fire_sync_def kbd_deps_def kbd_handler_def)
    with ok sync seen show ?thesis by (simp add: intercepted_def)
  next
    case ui
    then have "seen' = seen \<and> x' = x \<and> d' = (if di_masked d \<or> seen then d else push e d)"
      using r by (auto simp: dispatch_key_def intercepted_def split: key.splits)
    moreover have "dispatcher_ok (push e d)"
      using backlog_push [OF ring, of e] fl ui ok by (auto simp: dispatcher_ok_def dest: in_set_takeD)
    ultimately show ?thesis using ok seen ui backlog_push [OF ring, of e] by (auto simp: intercepted_def)
  qed
qed

lemma drain_facts:
  assumes "\<And>w. fst (sync w) = []"
  shows "dispatcher_ok d \<Longrightarrow> (seen \<Longrightarrow> backlog d = []) \<Longrightarrow>
    drain_loop n (kbd_deps put sync) kbd_poll seen d x = (d', x') \<Longrightarrow>
    dispatcher_ok d' \<and> kw_keys x' = drop n (kw_keys x) \<and>
    kw_fired x' = kw_fired x @ filter intercepted (map ke_key (take n (kw_keys x))) \<and>
    (if seen \<or> KeyPutAway \<in> ke_key ` set (take n (kw_keys x)) then backlog d' = []
     else backlog d' = (if di_masked d then backlog d else
       take k_pending_capacity (backlog d @ filter (\<lambda>e. \<not> intercepted (ke_key e)) (take n (kw_keys x)))))"
proof (induction n arbitrary: seen d x)
  case 0
  then show ?case by (auto simp: dispatcher_ok_def ring_ok_def backlog_def)
next
  case (Suc n)
  show ?case
  proof (cases "kw_keys x")
    case Nil
    with Suc.prems show ?thesis by (auto simp: kbd_poll_def dispatcher_ok_def ring_ok_def backlog_def)
  next
    case (Cons e es)
    let ?x = "x\<lparr>kw_keys := es\<rparr>"
    obtain seen1 d1 x1 where k: "dispatch_key (kbd_deps put sync) e seen d ?x = (seen1, d1, x1)" using prod_cases3 by blast
    have r: "drain_loop n (kbd_deps put sync) kbd_poll seen1 d1 x1 = (d', x')"
    proof -
      have "kbd_poll x = (Some e, ?x)" using Cons by (simp add: kbd_poll_def)
      with Suc.prems(3) k show ?thesis by simp
    qed
    note f = dispatch_key_facts [OF Suc.prems(1,2) assms k]
    then have d1: "dispatcher_ok d1" and s1: "seen1 \<Longrightarrow> backlog d1 = []" by simp_all
    note ih = Suc.IH [OF d1 s1 r]
    show ?thesis
    proof (cases "seen1 \<or> KeyPutAway \<in> ke_key ` set (take n es)")
      case True
      with f ih Cons show ?thesis by (auto simp: intercepted_def)
    next
      case False
      have t: "take k_pending_capacity (take k_pending_capacity (backlog d @ [e]) @ l) =
          take k_pending_capacity (backlog d @ e # l)" for l
        using take_take_append [of k_pending_capacity "backlog d @ [e]" l] by simp
      from False f ih Cons t show ?thesis by (cases "di_masked d") (auto simp: intercepted_def)
    qed
  qed
qed

text \<open>
  C18: Nothing suppresses put-away or sync. Whatever is in the backlog, masked or not, one pump runs the
  put-away handler and the sync handler once for each such key among the next 64 the source holds, in
  order, whatever the put-away handler does to the mask, and consumes exactly those 64. No screen ever
  receives either key. If a put-away was among them, no key struck before or behind it in that pump
  reaches a screen; otherwise the screen gets the oldest of the backlog followed by the new keys, of
  which a full backlog drops the newest and a mask drops all.\<close>

theorem put_away_never_swallowed:
  assumes "dispatcher_ok d" "\<And>w. fst (sync w) = []"
  shows "case pump (kbd_deps put sync) d x of (r, d', x') \<Rightarrow>
    dispatcher_ok d' \<and> kw_keys x' = drop 64 (kw_keys x) \<and>
    kw_fired x' = kw_fired x @ filter intercepted (map ke_key (take 64 (kw_keys x))) \<and>
    (case r of None \<Rightarrow> True | Some e \<Rightarrow> \<not> intercepted (ke_key e)) \<and>
    (if KeyPutAway \<in> ke_key ` set (take 64 (kw_keys x)) then r = None \<and> backlog d' = []
     else let q = (if di_masked d then backlog d else
         take 32 (backlog d @ filter (\<lambda>e. \<not> intercepted (ke_key e)) (take 64 (kw_keys x))))
       in r = (case q of [] \<Rightarrow> None | e # es \<Rightarrow> Some e) \<and> backlog d' = tl q)"
proof -
  obtain d1 x1 where dr: "drain_loop k_max_drain_per_pump (kbd_deps put sync) kbd_poll False d x = (d1, x1)" by fastforce
  note f = drain_facts [OF assms(2) assms(1) _ dr, simplified]
  have p: "pump (kbd_deps put sync) d x = (fst (pop d1), snd (pop d1), x1)"
    using dr by (simp add: pump_def drain_source_def kbd_deps_def split: prod.splits)
  have ring: "ring_ok d1" using f by (simp add: dispatcher_ok_def)
  note q = bq.items_deq [OF ring]
  have flags: "di_put_away_active (snd (pop d1)) = di_put_away_active d1" "di_sync_active (snd (pop d1)) = di_sync_active d1"
    by (simp_all add: pop_def)
  have "dispatcher_ok (snd (pop d1))"
    using f flags bq.ok_deq [OF ring] q by (cases "backlog d1") (simp_all add: dispatcher_ok_def)
  moreover have "case fst (pop d1) of None \<Rightarrow> True | Some e \<Rightarrow> \<not> intercepted (ke_key e)"
    using f q by (auto simp: dispatcher_ok_def split: list.splits)
  ultimately show ?thesis
    unfolding p using f q by (simp add: k_max_drain_per_pump_def k_pending_capacity_def Let_def)
qed

definition typed :: "key \<Rightarrow> key_event" where "typed k = \<lparr>ke_key = k, ke_codepoint = 0\<rparr>"

definition typing_burst :: "unit kbd_world" where
  "typing_burst = \<lparr>kw_keys = [typed KeyUp, typed KeySync, typed KeyPutAway, typed KeyDown], kw_fired = [], kw_rest = ()\<rparr>"

lemma put_away_never_swallowed_witness:
  "kw_fired (snd (snd (pump (kbd_deps (\<lambda>w. ([True], w)) (\<lambda>w. ([], w))) (new_dispatcher\<lparr>di_masked := True\<rparr>) typing_burst))) =
    [KeySync, KeyPutAway]"
proof -
  have "dispatcher_ok (new_dispatcher\<lparr>di_masked := True\<rparr>)"
    using dispatcher_ok_new by (simp add: dispatcher_ok_def)
  from put_away_never_swallowed [OF this, where sync = "\<lambda>w. ([], w)" and put = "\<lambda>w. ([True], w)" and x = typing_burst]
  show ?thesis by (auto simp: typing_burst_def typed_def intercepted_def split: prod.splits)
qed

subsection \<open>The watchdog wipes\<close>

text \<open>
  An expiry runs the wipe unless one is already running, and a supervisor that polls right after it does
  not trip again on the same stale feed as long as the timeout is positive.
\<close>

lemma wd_expire_wipes:
  assumes "\<not> wg_active w" "wd_on_expiry deps = Some wipe" "0 < wd_timeout_ms deps"
  shows "snd (wd_expire deps x w) = snd (wipe (w\<lparr>wg_active := True\<rparr>) x)"
    and "\<not> wd_overdue deps (snd (wd_expire deps x w)) (fst (wd_expire deps x w))"
    and "\<not> wg_active (fst (wd_expire deps x w))"
  using assms by (simp_all add: wd_expire_def wd_overdue_def Let_def split: prod.splits)

lemma wd_fed_not_overdue:
  "0 < wd_timeout_ms deps \<Longrightarrow> \<not> wd_overdue deps x (wd_feed deps x w) \<and> \<not> wd_overdue deps x (new_watchdog deps x)"
  by (simp add: wd_overdue_def wd_feed_def new_watchdog_def)

end
