(* ===== verification/Keebdeck.thy ===== *)
theory Keebdeck
  imports Input
begin

text \<open>
  The KeebDeck key source, \<^verbatim>\<open>components/input/keebdeck.cpp\<close>: a debouncer with a repeat timer and the table
  that decodes a scancode. The bus read and the clock are parameters on a state of their own; a read that
  fails is \<open>None\<close>.
\<close>

subsection \<open>Scancodes\<close>

definition k_scan_none :: "8 word" where "k_scan_none = 0x00"
definition k_scan_back :: "8 word" where "k_scan_back = 0x1B"
definition k_scan_erase :: "8 word" where "k_scan_erase = 0x08"
definition k_scan_enter :: "8 word" where "k_scan_enter = 0x0D"
definition k_scan_left :: "8 word" where "k_scan_left = 0xB4"
definition k_scan_up :: "8 word" where "k_scan_up = 0xB5"
definition k_scan_down :: "8 word" where "k_scan_down = 0xB6"
definition k_scan_right :: "8 word" where "k_scan_right = 0xB7"
definition k_scan_enye :: "8 word" where "k_scan_enye = 0x80"
definition k_scan_enye_upper :: "8 word" where "k_scan_enye_upper = 0x81"
definition k_scan_put_away :: "8 word" where "k_scan_put_away = 0xC0"
definition k_scan_sync :: "8 word" where "k_scan_sync = 0xC1"
definition k_scan_frontlight :: "8 word" where "k_scan_frontlight = 0xC2"

lemmas scan_defs = k_scan_none_def k_scan_back_def k_scan_erase_def k_scan_enter_def k_scan_left_def k_scan_up_def
  k_scan_down_def k_scan_right_def k_scan_enye_def k_scan_enye_upper_def k_scan_put_away_def k_scan_sync_def
  k_scan_frontlight_def

definition decode_keebdeck :: "8 word \<Rightarrow> key_event" where
  "decode_keebdeck sc = (let e = no_event in
     if sc = k_scan_put_away then e\<lparr>ke_key := KeyPutAway\<rparr>
     else if sc = k_scan_sync then e\<lparr>ke_key := KeySync\<rparr>
     else if sc = k_scan_frontlight then e\<lparr>ke_key := KeyFrontlight\<rparr>
     else if sc = k_scan_enter then e\<lparr>ke_key := KeyEnter\<rparr>
     else if sc = k_scan_back then e\<lparr>ke_key := KeyBack\<rparr>
     else if sc = k_scan_erase then e\<lparr>ke_key := KeyErase\<rparr>
     else if sc = k_scan_up then e\<lparr>ke_key := KeyUp\<rparr>
     else if sc = k_scan_down then e\<lparr>ke_key := KeyDown\<rparr>
     else if sc = k_scan_left then e\<lparr>ke_key := KeyLeft\<rparr>
     else if sc = k_scan_right then e\<lparr>ke_key := KeyRight\<rparr>
     else if sc = k_scan_enye then e\<lparr>ke_key := KeyChar, ke_codepoint := 0xF1\<rparr>
     else if sc = k_scan_enye_upper then e\<lparr>ke_key := KeyChar, ke_codepoint := 0xD1\<rparr>
     else if 0x20 \<le> sc \<and> sc \<le> 0x7E then e\<lparr>ke_key := KeyChar, ke_codepoint := unat sc\<rparr>
     else e)"

definition repeatable :: "key \<Rightarrow> bool" where
  "repeatable k = (case k of KeyErase \<Rightarrow> True | KeyChar \<Rightarrow> True | KeyUp \<Rightarrow> True | KeyDown \<Rightarrow> True
     | KeyLeft \<Rightarrow> True | KeyRight \<Rightarrow> True | _ \<Rightarrow> False)"

subsection \<open>The source\<close>

definition k_debounce_ms :: int where "k_debounce_ms = 12"
definition k_repeat_delay_ms :: int where "k_repeat_delay_ms = 500"
definition k_repeat_interval_ms :: int where "k_repeat_interval_ms = 120"

record 'x keebdeck_deps =
  kd_bus :: "('x \<Rightarrow> 8 word option \<times> 'x) option"
  kd_monotonic_ms :: "('x \<Rightarrow> int) option"
  kd_decode :: "(8 word \<Rightarrow> key_event) option"

record keebdeck =
  ka_accepted :: "8 word"
  ka_candidate :: "8 word"
  ka_candidate_since_ms :: int
  ka_repeat_armed :: bool
  ka_repeat_event :: key_event
  ka_next_repeat_ms :: int

definition new_keebdeck :: keebdeck where
  "new_keebdeck = \<lparr>ka_accepted = k_scan_none, ka_candidate = k_scan_none, ka_candidate_since_ms = 0,
     ka_repeat_armed = False, ka_repeat_event = no_event, ka_next_repeat_ms = 0\<rparr>"

definition kd_now :: "'x keebdeck_deps \<Rightarrow> 'x \<Rightarrow> int" where
  "kd_now deps x = (case kd_monotonic_ms deps of None \<Rightarrow> 0 | Some clock \<Rightarrow> clock x)"

definition kd_decoder :: "'x keebdeck_deps \<Rightarrow> 8 word \<Rightarrow> key_event" where
  "kd_decoder deps sc = (case kd_decode deps of None \<Rightarrow> decode_keebdeck sc | Some d \<Rightarrow> d sc)"

definition key_repeat :: "int \<Rightarrow> keebdeck \<Rightarrow> key_event option \<times> keebdeck" where
  "key_repeat now s =
     (if \<not> ka_repeat_armed s \<or> now < ka_next_repeat_ms s then (None, s)
      else (Some (ka_repeat_event s), s\<lparr>ka_next_repeat_ms := now + k_repeat_interval_ms\<rparr>))"

definition keebdeck_poll :: "'x keebdeck_deps \<Rightarrow> keebdeck \<Rightarrow> 'x \<Rightarrow> key_event option \<times> keebdeck \<times> 'x" where
  "keebdeck_poll deps s x = (case kd_bus deps of
      None \<Rightarrow> (None, s, x)
    | Some read \<Rightarrow> let now = kd_now deps x in (case read x of
        (None, x) \<Rightarrow> (None, s\<lparr>ka_repeat_armed := False, ka_candidate := ka_accepted s\<rparr>, x)
      | (Some raw, x) \<Rightarrow>
          if raw \<noteq> ka_candidate s then (None, s\<lparr>ka_candidate := raw, ka_candidate_since_ms := now\<rparr>, x)
          else if raw = ka_accepted s then (let (e, s) = key_repeat now s in (e, s, x))
          else if now - ka_candidate_since_ms s < k_debounce_ms then (None, s, x)
          else let s = s\<lparr>ka_accepted := raw, ka_repeat_armed := False\<rparr>
          in if raw = k_scan_none then (None, s, x)
          else let e = kd_decoder deps raw
          in if ke_key e = KeyNone then (None, s, x)
          else let s = (if repeatable (ke_key e)
              then s\<lparr>ka_repeat_armed := True, ka_repeat_event := e, ka_next_repeat_ms := now + k_repeat_delay_ms\<rparr> else s)
          in (Some e, s, x)))"

subsection \<open>Sampling a bus\<close>

text \<open>A world that is one sample: the time and what the bus reads then.\<close>

type_synonym sample = "int \<times> 8 word option"

definition sample_deps :: "sample keebdeck_deps" where
  "sample_deps = \<lparr>kd_bus = Some (\<lambda>x. (snd x, x)), kd_monotonic_ms = Some fst, kd_decode = None\<rparr>"

definition sample_step :: "keebdeck \<Rightarrow> sample \<Rightarrow> key_event option \<times> keebdeck" where
  "sample_step s x = (case keebdeck_poll sample_deps s x of (e, s', _) \<Rightarrow> (e, s'))"

fun sample_run :: "keebdeck \<Rightarrow> sample list \<Rightarrow> (int \<times> key_event) list \<times> keebdeck" where
  "sample_run s [] = ([], s)"
| "sample_run s (x # xs) = (case sample_step s x of (e, s1) \<Rightarrow> case sample_run s1 xs of (es, s2) \<Rightarrow>
     ((case e of None \<Rightarrow> es | Some e \<Rightarrow> (fst x, e) # es), s2))"

lemma sample_step_fail: "sample_step s (t, None) = (None, s\<lparr>ka_repeat_armed := False, ka_candidate := ka_accepted s\<rparr>)"
  by (simp add: sample_step_def keebdeck_poll_def sample_deps_def Let_def)

lemma sample_step_read:
  "sample_step s (t, Some raw) =
    (if raw \<noteq> ka_candidate s then (None, s\<lparr>ka_candidate := raw, ka_candidate_since_ms := t\<rparr>)
     else if raw = ka_accepted s then key_repeat t s
     else if t - ka_candidate_since_ms s < k_debounce_ms then (None, s)
     else let s = s\<lparr>ka_accepted := raw, ka_repeat_armed := False\<rparr>; e = decode_keebdeck raw
       in if raw = k_scan_none \<or> ke_key e = KeyNone then (None, s)
       else (Some e, if repeatable (ke_key e)
         then s\<lparr>ka_repeat_armed := True, ka_repeat_event := e, ka_next_repeat_ms := t + k_repeat_delay_ms\<rparr> else s))"
  by (simp add: sample_step_def keebdeck_poll_def sample_deps_def kd_now_def kd_decoder_def Let_def split: prod.splits)

lemma sample_run_append:
  "sample_run s (xs @ ys) = (case sample_run s xs of (es, s1) \<Rightarrow> case sample_run s1 ys of (fs, s2) \<Rightarrow> (es @ fs, s2))"
  by (induction xs arbitrary: s) (auto split: prod.splits option.splits)

subsection \<open>Presses are real\<close>

text \<open>
  A reading that is not yet accepted has been read, without a break, since the time the source remembers;
  and a repeat timer that runs repeats the accepted key.
\<close>

definition held_since :: "sample list \<Rightarrow> int \<Rightarrow> 8 word \<Rightarrow> bool" where
  "held_since ss t0 raw \<longleftrightarrow> (\<exists>pre hold. ss = pre @ hold \<and> hold \<noteq> [] \<and> fst (hd hold) = t0 \<and> set (map snd hold) = {Some raw})"

definition armed_ok :: "keebdeck \<Rightarrow> bool" where
  "armed_ok s \<longleftrightarrow> (ka_repeat_armed s \<longrightarrow>
     ka_repeat_event s = decode_keebdeck (ka_accepted s) \<and> repeatable (ke_key (ka_repeat_event s)))"

lemma held_since_new: "held_since (ss @ [(t, Some raw)]) t raw"
  unfolding held_since_def by (rule exI [of _ ss], rule exI [of _ "[(t, Some raw)]"]) simp

lemma held_since_more: "held_since ss t0 raw \<Longrightarrow> held_since (ss @ [(t, Some raw)]) t0 raw"
  unfolding held_since_def
proof (elim exE conjE)
  fix pre hold
  assume "ss = pre @ hold" "hold \<noteq> []" "fst (hd hold) = t0" "set (map snd hold) = {Some raw}"
  then show "\<exists>pre' hold'. ss @ [(t, Some raw)] = pre' @ hold' \<and> hold' \<noteq> [] \<and> fst (hd hold') = t0 \<and> set (map snd hold') = {Some raw}"
    by (intro exI [of _ pre] exI [of _ "hold @ [(t, Some raw)]"]) simp
qed

lemma armed_ok_step:
  assumes "armed_ok s"
  shows "armed_ok (snd (sample_step s x))"
proof (cases x)
  case (Pair t r)
  with assms show ?thesis
    by (cases r) (auto simp: sample_step_fail sample_step_read armed_ok_def key_repeat_def Let_def)
qed

lemma sample_run_snd: "snd (sample_run s (ss @ [x])) = snd (sample_step (snd (sample_run s ss)) x)"
  by (simp add: sample_run_append split: prod.splits)

lemma armed_ok_run: "armed_ok s \<Longrightarrow> armed_ok (snd (sample_run s ss))"
  by (induction ss rule: rev_induct) (simp_all add: sample_run_snd armed_ok_step del: sample_run.simps(2))

lemma candidate_held:
  "ka_candidate (snd (sample_run new_keebdeck ss)) \<noteq> ka_accepted (snd (sample_run new_keebdeck ss)) \<Longrightarrow>
   held_since ss (ka_candidate_since_ms (snd (sample_run new_keebdeck ss))) (ka_candidate (snd (sample_run new_keebdeck ss)))"
proof (induction ss rule: rev_induct)
  case Nil
  then show ?case by (simp add: new_keebdeck_def)
next
  case (snoc x ss)
  define s where "s = snd (sample_run new_keebdeck ss)"
  obtain t r where x: "x = (t, r)" by fastforce
  have run: "snd (sample_run new_keebdeck (ss @ [x])) = snd (sample_step s (t, r))"
    by (simp add: sample_run_snd s_def x)
  show ?case
  proof (cases r)
    case None
    with snoc.prems show ?thesis unfolding run by (simp add: sample_step_fail)
  next
    case (Some raw)
    show ?thesis
    proof (cases "raw = ka_candidate s")
      case False
      then show ?thesis unfolding run unfolding x Some by (simp add: sample_step_read held_since_new)
    next
      case True
      then have st: "ka_candidate (snd (sample_step s (t, r))) = raw \<and>
          (ka_accepted (snd (sample_step s (t, r))) = raw \<or>
            ka_accepted (snd (sample_step s (t, r))) = ka_accepted s \<and> raw \<noteq> ka_accepted s \<and>
            ka_candidate_since_ms (snd (sample_step s (t, r))) = ka_candidate_since_ms s)"
        by (auto simp: Some sample_step_read key_repeat_def Let_def)
      with snoc.prems have "raw \<noteq> ka_accepted s" "ka_candidate_since_ms (snd (sample_step s (t, r))) = ka_candidate_since_ms s"
        unfolding run by auto
      with snoc.IH True st show ?thesis unfolding run s_def [symmetric] unfolding x Some by (simp add: held_since_more)
    qed
  qed
qed

lemma event_facts:
  assumes "armed_ok s" "sample_step s (t, r) = (Some e, s')"
  shows "\<exists>raw. r = Some raw \<and> e = decode_keebdeck raw \<and> ke_key e \<noteq> KeyNone \<and> raw = ka_candidate s \<and> ka_accepted s' = raw \<and>
    (raw = ka_accepted s \<and> repeatable (ke_key e) \<or> raw \<noteq> ka_accepted s \<and> k_debounce_ms \<le> t - ka_candidate_since_ms s)"
proof (cases r)
  case None
  with assms(2) show ?thesis by (simp add: sample_step_fail)
next
  case (Some raw)
  have "repeatable k \<Longrightarrow> k \<noteq> KeyNone" for k by (auto simp: repeatable_def)
  with assms Some show ?thesis
    by (auto simp: sample_step_read key_repeat_def armed_ok_def Let_def split: if_splits)
qed

text \<open>While the bus reads one key or nothing readable, an accepted key stays accepted.\<close>

lemma held_step:
  assumes "armed_ok s" "r = None \<or> r = Some c" "sample_step s (t, r) = (e, s')"
  shows "(ka_accepted s = c \<longrightarrow> ka_accepted s' = c \<and> (case e of None \<Rightarrow> True | Some k \<Rightarrow> repeatable (ke_key k))) \<and>
    (case e of None \<Rightarrow> True | Some k \<Rightarrow> repeatable (ke_key k) \<or> ka_accepted s' = c)"
proof (cases e)
  case None
  with assms(2,3) show ?thesis
    by (auto simp: sample_step_fail sample_step_read key_repeat_def Let_def split: if_splits)
next
  case (Some k)
  with event_facts [OF assms(1) assms(3) [unfolded Some]] assms(2) show ?thesis by auto
qed

lemma held_run:
  assumes "armed_ok s"
  shows "length (filter (\<lambda>p. \<not> repeatable (ke_key (snd p)))
      (fst (sample_run s (map (\<lambda>(t, lost). (t, if lost then None else Some c)) held)))) \<le> (if ka_accepted s = c then 0 else 1)"
  using assms
proof (induction held arbitrary: s)
  case (Cons h held)
  obtain t lost where h: "h = (t, lost)" by fastforce
  let ?r = "if lost then None else Some c"
  obtain e s' where st: "sample_step s (t, ?r) = (e, s')" by fastforce
  have "armed_ok s'" using armed_ok_step [OF Cons.prems, of "(t, ?r)"] st by simp
  note ih = Cons.IH [OF this]
  have "?r = None \<or> ?r = Some c" by simp
  note f = held_step [OF Cons.prems this st]
  show ?case
    using ih f st h by (cases e) (auto split: prod.splits if_splits)
qed simp

text \<open>
  No key fires by accident. Whatever the bus has read and lost before, an event is the decoding of what
  the bus reads now, never of an unmapped code; it is either a repeat of the key already accepted, and
  then of one that may repeat, or a press that the bus has read without a break for at least 12 ms. A key
  that is leaned on, with the bus failing now and then, fires at most once unless it is one that may
  repeat, and put-away, sync, enter and back never do: a failed read is not taken for a release.\<close>

theorem key_press_is_real:
  "(case sample_step (snd (sample_run new_keebdeck ss)) (t, r) of (None, s') \<Rightarrow> True | (Some e, s') \<Rightarrow>
     \<exists>raw. r = Some raw \<and> e = decode_keebdeck raw \<and> ke_key e \<noteq> KeyNone \<and>
       (if ka_accepted (snd (sample_run new_keebdeck ss)) = raw then repeatable (ke_key e)
        else \<exists>t0. held_since ss t0 raw \<and> 12 \<le> t - t0)) \<and>
   length (filter (\<lambda>p. \<not> repeatable (ke_key (snd p))) (fst (sample_run (snd (sample_run new_keebdeck ss))
     (map (\<lambda>(t, lost). (t, if lost then None else Some c)) held)))) \<le> 1 \<and>
   filter repeatable [KeyPutAway, KeySync, KeyEnter, KeyBack, KeyFrontlight] = []"
proof -
  define s where "s = snd (sample_run new_keebdeck ss)"
  have a: "armed_ok s" unfolding s_def by (rule armed_ok_run) (simp add: armed_ok_def new_keebdeck_def)
  have "case sample_step s (t, r) of (None, s') \<Rightarrow> True | (Some e, s') \<Rightarrow>
     \<exists>raw. r = Some raw \<and> e = decode_keebdeck raw \<and> ke_key e \<noteq> KeyNone \<and>
       (if ka_accepted s = raw then repeatable (ke_key e) else \<exists>t0. held_since ss t0 raw \<and> 12 \<le> t - t0)"
  proof (cases "sample_step s (t, r)")
    case (Pair e s')
    show ?thesis
    proof (cases e)
      case (Some k)
      from event_facts [OF a Pair [unfolded Some]] candidate_held [of ss] Pair Some show ?thesis
        by (auto simp: k_debounce_ms_def s_def [symmetric])
    qed (simp add: Pair)
  qed
  moreover have "filter repeatable [KeyPutAway, KeySync, KeyEnter, KeyBack, KeyFrontlight] = []" by (simp add: repeatable_def)
  ultimately show ?thesis using held_run [OF a, of c held] unfolding s_def [symmetric] by (auto split: if_splits)
qed

end
