(* ===== verification/Panel.thy ===== *)
theory Panel
  imports Prelude
begin

text \<open>
  The wipe controller, \<^verbatim>\<open>components/panel/panel.cpp\<close>: the two orderings in which panel, rail, radio and sleep
  are driven. Every device call is recorded in a trace; a dependency that is absent is \<open>False\<close> or \<open>None\<close>,
  and the answer of \<^verbatim>\<open>voltage_ok\<close> may depend on what was driven before.
\<close>

subsection \<open>Seams\<close>

record rect =
  rc_x :: int
  rc_y :: int
  rc_w :: int
  rc_h :: int

record framebuf =
  fb_w :: int
  fb_h :: int
  fb_bits :: "8 word list"

definition empty_framebuf :: framebuf where "empty_framebuf = \<lparr>fb_w = 0, fb_h = 0, fb_bits = []\<rparr>"

datatype cover_kind = CoverResting | CoverChargeMe

record cover_state =
  cs_kind :: cover_kind
  cs_battery_pct :: int
  cs_charging :: bool
  cs_any_unread :: bool

datatype device_call = MaskInput | PowerDownRadio | WaitBusy | ClearFlush int | FullRefresh framebuf
  | FastRefresh framebuf | PartialRefresh rect framebuf | PanelDeepSleep | RailCut | RailPowerOn | McuDeepSleep bool

record wipe_deps =
  wd_panel :: bool
  wd_rail :: bool
  wd_sleeper :: bool
  wd_radio :: bool
  wd_render_cover :: "(cover_state \<Rightarrow> framebuf \<Rightarrow> framebuf) option"
  wd_voltage_ok :: "(device_call list \<Rightarrow> bool) option"
  wd_mask_input :: bool
  wd_graceful_flush_passes :: int
  wd_emergency_flush_passes :: int

definition default_flush_passes :: int where "default_flush_passes = 4"

subsection \<open>The two orderings\<close>

definition flush :: "wipe_deps \<Rightarrow> int \<Rightarrow> device_call list \<Rightarrow> device_call list" where
  "flush d passes tr = (if \<not> wd_panel d then tr else tr @ [ClearFlush passes] @ [WaitBusy])"

definition render_cover :: "wipe_deps \<Rightarrow> cover_state \<Rightarrow> device_call list \<Rightarrow> device_call list" where
  "render_cover d cover tr = (if \<not> wd_panel d then tr
     else let fb = (case wd_render_cover d of None \<Rightarrow> empty_framebuf | Some render \<Rightarrow> render cover empty_framebuf)
     in tr @ [FullRefresh fb] @ [WaitBusy])"

definition park :: "wipe_deps \<Rightarrow> bool \<Rightarrow> device_call list \<Rightarrow> device_call list" where
  "park d wake_on_charger_only tr = (let
     tr = (if wd_panel d then tr @ [PanelDeepSleep] else tr);
     tr = (if wd_rail d then tr @ [RailCut] else tr)
   in if wd_sleeper d then tr @ [McuDeepSleep wake_on_charger_only] else tr)"

definition graceful_wipe :: "wipe_deps \<Rightarrow> cover_state \<Rightarrow> device_call list \<Rightarrow> device_call list" where
  "graceful_wipe d cover tr = (let
     tr = (if wd_mask_input d then tr @ [MaskInput] else tr);
     tr = flush d (wd_graceful_flush_passes d) tr;
     tr = render_cover d cover tr
   in park d False tr)"

definition emergency_wipe :: "wipe_deps \<Rightarrow> cover_state \<Rightarrow> device_call list \<Rightarrow> device_call list" where
  "emergency_wipe d cover tr = (let
     tr = (if wd_mask_input d then tr @ [MaskInput] else tr);
     tr = (if wd_radio d then tr @ [PowerDownRadio] else tr);
     tr = (if wd_panel d then tr @ [WaitBusy] else tr);
     tr = flush d (wd_emergency_flush_passes d) tr;
     tr = (if (case wd_voltage_ok d of None \<Rightarrow> True | Some ok \<Rightarrow> ok tr) then render_cover d cover tr else tr)
   in park d True tr)"

subsection \<open>The glass\<close>

text \<open>
  What the panel's interface says of the hardware. A waveform started while another is in flight freezes
  the glass; a started waveform is in flight until \<^verbatim>\<open>WaitBusy\<close>; only the flush removes residue; the
  controller must be asleep before its rail is cut; a panel without its rail cannot draw.
\<close>

datatype shown = Residue | White | CoverShown framebuf

record glass =
  gl_shown :: shown
  gl_busy :: bool
  gl_frozen :: bool
  gl_asleep :: bool
  gl_powered :: bool
  gl_radio_on :: bool
  gl_undefined :: bool
  gl_mcu_asleep :: "bool option"

definition start_waveform :: "shown \<Rightarrow> glass \<Rightarrow> glass" where
  "start_waveform s g =
     (if gl_busy g \<or> gl_asleep g \<or> \<not> gl_powered g then g\<lparr>gl_frozen := True\<rparr>
      else g\<lparr>gl_shown := s, gl_busy := True\<rparr>)"

fun glass_step :: "device_call \<Rightarrow> glass \<Rightarrow> glass" where
  "glass_step (ClearFlush passes) g = start_waveform (if 0 < passes then White else gl_shown g) g"
| "glass_step (FullRefresh fb) g = start_waveform (if gl_shown g = Residue then Residue else CoverShown fb) g"
| "glass_step (FastRefresh fb) g = start_waveform Residue g"
| "glass_step (PartialRefresh r fb) g = start_waveform Residue g"
| "glass_step WaitBusy g = g\<lparr>gl_busy := False\<rparr>"
| "glass_step PanelDeepSleep g = (if gl_busy g then g\<lparr>gl_frozen := True\<rparr> else g\<lparr>gl_asleep := True\<rparr>)"
| "glass_step RailCut g = g\<lparr>gl_powered := False, gl_undefined := gl_undefined g \<or> \<not> gl_asleep g\<rparr>"
| "glass_step RailPowerOn g = g\<lparr>gl_powered := True, gl_asleep := False\<rparr>"
| "glass_step PowerDownRadio g = g\<lparr>gl_radio_on := False\<rparr>"
| "glass_step (McuDeepSleep charger_only) g = g\<lparr>gl_mcu_asleep := Some charger_only\<rparr>"
| "glass_step MaskInput g = g"

text \<open>Nothing runs once the MCU sleeps.\<close>

definition drive :: "device_call list \<Rightarrow> glass \<Rightarrow> glass" where
  "drive = fold (\<lambda>c g. if gl_mcu_asleep g = None then glass_step c g else g)"

definition glass_live :: "glass \<Rightarrow> bool" where
  "glass_live g \<longleftrightarrow> \<not> gl_frozen g \<and> \<not> gl_asleep g \<and> gl_powered g \<and> \<not> gl_undefined g \<and> gl_mcu_asleep g = None"

definition board_deps :: "wipe_deps \<Rightarrow> bool" where
  "board_deps d \<longleftrightarrow> wd_panel d \<and> wd_rail d \<and> wd_sleeper d \<and> 0 < wd_graceful_flush_passes d \<and> 0 < wd_emergency_flush_passes d"

definition cover_frame :: "wipe_deps \<Rightarrow> cover_state \<Rightarrow> framebuf" where
  "cover_frame d cover = (case wd_render_cover d of None \<Rightarrow> empty_framebuf | Some render \<Rightarrow> render cover empty_framebuf)"

definition wiped :: "bool \<Rightarrow> glass \<Rightarrow> bool" where
  "wiped charger_only g \<longleftrightarrow> gl_shown g \<noteq> Residue \<and> \<not> gl_busy g \<and> \<not> gl_frozen g \<and> gl_asleep g \<and> \<not> gl_powered g \<and>
     \<not> gl_undefined g \<and> gl_mcu_asleep g = Some charger_only"

text \<open>The radio is off before any waveform of a trace starts.\<close>

fun radio_before_waveform :: "bool \<Rightarrow> device_call list \<Rightarrow> bool" where
  "radio_before_waveform off [] = True"
| "radio_before_waveform off (c # cs) = (case c of
      ClearFlush n \<Rightarrow> off \<and> radio_before_waveform off cs
    | FullRefresh fb \<Rightarrow> off \<and> radio_before_waveform off cs
    | PowerDownRadio \<Rightarrow> radio_before_waveform True cs
    | _ \<Rightarrow> radio_before_waveform off cs)"

lemmas wipe_simps = flush_def render_cover_def park_def graceful_wipe_def emergency_wipe_def Let_def

lemma drive_simps [simp]:
  "drive [] g = g"
  "drive (c # cs) g = drive cs (if gl_mcu_asleep g = None then glass_step c g else g)"
  by (simp_all add: drive_def)

lemma drive_mask: "drive ((if b then [MaskInput] else []) @ cs) g = drive cs g"
  by simp

lemma drive_radio:
  "gl_mcu_asleep g = None \<Longrightarrow>
   drive ((if b then [PowerDownRadio] else []) @ cs) g = drive cs (if b then g\<lparr>gl_radio_on := False\<rparr> else g)"
  by simp

lemma emergency_trace:
  assumes "board_deps d"
  shows "\<exists>cover_pass. emergency_wipe d cover [] =
    (if wd_mask_input d then [MaskInput] else []) @ (if wd_radio d then [PowerDownRadio] else []) @
    [WaitBusy, ClearFlush (wd_emergency_flush_passes d), WaitBusy] @ cover_pass @ [PanelDeepSleep, RailCut, McuDeepSleep True] \<and>
    cover_pass \<in> {[], [FullRefresh (cover_frame d cover), WaitBusy]}"
  using assms by (auto simp: wipe_simps board_deps_def cover_frame_def)

lemma graceful_trace:
  assumes "board_deps d"
  shows "graceful_wipe d cover [] = (if wd_mask_input d then [MaskInput] else []) @
    [ClearFlush (wd_graceful_flush_passes d), WaitBusy, FullRefresh (cover_frame d cover), WaitBusy,
     PanelDeepSleep, RailCut, McuDeepSleep False]"
  using assms by (auto simp: wipe_simps board_deps_def cover_frame_def)

text \<open>
  C31: A wipe leaves nothing legible and breaks nothing. On a board with panel, rail and sleeper, the
  emergency wipe run from any live state of the glass, a waveform in flight included, ends with the
  residue flushed, no waveform aborted, the controller asleep before its rail was cut and the MCU asleep
  waking on the charger only, with the cover or plain white on the glass; the radio, if there is one, is
  off before the first waveform. The graceful wipe ends the same way, always with the cover and waking
  on keys, exactly if no waveform was in flight: it does not wait before its flush.\<close>

theorem wipes_leave_nothing:
  assumes "board_deps d" "glass_live g"
  shows "wiped True (drive (emergency_wipe d cover []) g) \<and>
    gl_shown (drive (emergency_wipe d cover []) g) \<in> {White, CoverShown (cover_frame d cover)} \<and>
    radio_before_waveform (\<not> wd_radio d) (emergency_wipe d cover []) \<and>
    (wiped False (drive (graceful_wipe d cover []) g) \<longleftrightarrow> \<not> gl_busy g) \<and>
    (\<not> gl_busy g \<longrightarrow> gl_shown (drive (graceful_wipe d cover []) g) = CoverShown (cover_frame d cover))"
proof -
  obtain cp where e: "emergency_wipe d cover [] =
      (if wd_mask_input d then [MaskInput] else []) @ (if wd_radio d then [PowerDownRadio] else []) @
      [WaitBusy, ClearFlush (wd_emergency_flush_passes d), WaitBusy] @ cp @ [PanelDeepSleep, RailCut, McuDeepSleep True]"
    and cp: "cp = [] \<or> cp = [FullRefresh (cover_frame d cover), WaitBusy]"
    using emergency_trace [OF assms(1), of cover] by blast
  define g0 where "g0 = (if wd_radio d then g\<lparr>gl_radio_on := False\<rparr> else g)"
  have live: "glass_live g0" using assms(2) by (simp add: g0_def glass_live_def)
  have pos: "0 < wd_emergency_flush_passes d" "0 < wd_graceful_flush_passes d" using assms(1) by (simp_all add: board_deps_def)
  have "drive (emergency_wipe d cover []) g =
      drive ([WaitBusy, ClearFlush (wd_emergency_flush_passes d), WaitBusy] @ cp @ [PanelDeepSleep, RailCut, McuDeepSleep True]) g0"
    using assms(2) unfolding e drive_mask g0_def by (subst drive_radio) (simp_all only: glass_live_def)
  then have "wiped True (drive (emergency_wipe d cover []) g) \<and>
      gl_shown (drive (emergency_wipe d cover []) g) \<in> {White, CoverShown (cover_frame d cover)}"
    using cp live pos by (elim disjE) (simp_all add: start_waveform_def glass_live_def wiped_def)
  moreover have "radio_before_waveform (\<not> wd_radio d) (emergency_wipe d cover [])"
    using cp unfolding e by (elim disjE) simp_all
  moreover have "(wiped False (drive (graceful_wipe d cover []) g) \<longleftrightarrow> \<not> gl_busy g) \<and>
      (\<not> gl_busy g \<longrightarrow> gl_shown (drive (graceful_wipe d cover []) g) = CoverShown (cover_frame d cover))"
    using assms(2) pos unfolding graceful_trace [OF assms(1)] drive_mask
    by (cases "gl_busy g") (simp_all add: start_waveform_def glass_live_def wiped_def)
  ultimately show ?thesis by blast
qed

definition full_board :: wipe_deps where
  "full_board = \<lparr>wd_panel = True, wd_rail = True, wd_sleeper = True, wd_radio = True, wd_render_cover = None,
     wd_voltage_ok = Some (\<lambda>tr. False), wd_mask_input = True, wd_graceful_flush_passes = default_flush_passes,
     wd_emergency_flush_passes = default_flush_passes\<rparr>"

definition letter_on_glass :: glass where
  "letter_on_glass = \<lparr>gl_shown = Residue, gl_busy = True, gl_frozen = False, gl_asleep = False, gl_powered = True,
     gl_radio_on = True, gl_undefined = False, gl_mcu_asleep = None\<rparr>"

lemma wipes_leave_nothing_witness:
  "wiped True (drive (emergency_wipe full_board \<lparr>cs_kind = CoverResting, cs_battery_pct = 1, cs_charging = False, cs_any_unread = True\<rparr> [])
     letter_on_glass) \<and>
   \<not> wiped False (drive (graceful_wipe full_board \<lparr>cs_kind = CoverResting, cs_battery_pct = 1, cs_charging = False, cs_any_unread = True\<rparr> [])
     letter_on_glass)"
proof -
  have "board_deps full_board" "glass_live letter_on_glass"
    by (simp_all add: board_deps_def full_board_def default_flush_passes_def glass_live_def letter_on_glass_def)
  from wipes_leave_nothing [OF this] show ?thesis by (simp add: letter_on_glass_def)
qed

end
