(* ===== verification/Session.thy ===== *)
theory Session
  imports Sync_Run Draft Wake
begin

text \<open>
  The composition root, \<^verbatim>\<open>main/session.cpp\<close>: mounting, opening and reformatting the stores, the bearer token
  in NVS, building the engine, and the one place a sync starts. NVS, the file-system driver and the serial
  link belong to the vendor and are parameters with a state of their own; the transport is the network
  parameter of the engine. A store that is not open is absent with the others: they are opened and closed
  together.
\<close>

subsection \<open>The vendor's side\<close>

datatype esp_err = EspOk | NvsNoFreePages | NvsNewVersionFound | EspOther

record 'v vendor_api =
  ve_nvs_flash_init :: "'v \<Rightarrow> esp_err \<times> 'v"
  ve_nvs_flash_erase :: "'v \<Rightarrow> esp_err \<times> 'v"
  ve_nvs_open :: "bool \<Rightarrow> 'v \<Rightarrow> esp_err \<times> 'v"
  ve_nvs_str_len :: "string \<Rightarrow> 'v \<Rightarrow> esp_err \<times> nat"
  ve_nvs_get_str :: "string \<Rightarrow> nat \<Rightarrow> 'v \<Rightarrow> esp_err \<times> string"
  ve_nvs_set_str :: "string \<Rightarrow> string \<Rightarrow> 'v \<Rightarrow> esp_err \<times> 'v"
  ve_nvs_commit :: "'v \<Rightarrow> esp_err \<times> 'v"
  ve_nvs_get_u64 :: "string \<Rightarrow> 'v \<Rightarrow> nat option"
  ve_littlefs_register :: "io \<Rightarrow> bool \<times> io"
  ve_littlefs_format :: "io \<Rightarrow> bool \<times> io"
  ve_new_link :: "'v \<Rightarrow> bool \<times> 'v"

definition k_letter_root :: string where "k_letter_root = ''/letters''"
definition k_nvs_key_device_token :: string where "k_nvs_key_device_token = ''device_token''"
definition k_nvs_key_pututu :: string where "k_nvs_key_pututu = ''pututu_hw''"
definition k_max_token_bytes :: nat where "k_max_token_bytes = 512"

subsection \<open>State\<close>

record stores =
  so_letters :: letter_store
  so_outbox :: outbox
  so_seen :: seen_ring
  so_state :: state_store
  so_settings :: settings_store
  so_drafts :: draft_store
  so_contacts :: ayllu_store

record 'v session =
  se_vendor :: 'v
  se_io :: io
  se_stores :: "stores option"
  se_clock :: clock
  se_link :: bool
  se_transport :: "string option"
  se_engine :: "engine option"
  se_device_token :: string
  se_fs_mounted :: bool

definition new_session :: "'v \<Rightarrow> io \<Rightarrow> int \<Rightarrow> 'v session" where
  "new_session v d now = \<lparr>se_vendor = v, se_io = d, se_stores = None,
     se_clock = \<lparr>ck_epoch_at_mark = 0, ck_mono_at_mark = 0, ck_valid = False, ck_now = now\<rparr>,
     se_link = False, se_transport = None, se_engine = None, se_device_token = [], se_fs_mounted = False\<rparr>"

definition default_options :: options where
  "default_options = \<lparr>op_letters_keep = k_default_letters_keep, op_max_drain_rounds = 10\<rparr>"

definition new_engine :: "options \<Rightarrow> engine" where
  "new_engine o' = \<lparr>en_options = o', en_failures = 0, en_retry_after_ms = 0, en_halted = False\<rparr>"

subsection \<open>Opening\<close>

definition open_stores :: "'v session \<Rightarrow> 'v session" where
  "open_stores s = (let d = se_io s;
     (letters, d) = open_letter_store k_letter_root d;
     (outbox, d) = open_outbox k_letter_root d;
     (seen, d) = open_seen_ring k_letter_root k_min_seen_ids d;
     (state, d) = open_state_store k_letter_root d;
     (settings, d) = open_settings_store k_letter_root d;
     (drafts, d) = open_draft_store k_letter_root d;
     (contacts, d) = open_ayllu k_letter_root d
   in s\<lparr>se_io := d, se_stores := Some \<lparr>so_letters = letters, so_outbox = outbox, so_seen = seen, so_state = state,
        so_settings = settings, so_drafts = drafts, so_contacts = contacts\<rparr>\<rparr>)"

definition close_stores :: "'v session \<Rightarrow> 'v session" where
  "close_stores s = s\<lparr>se_engine := None, se_stores := None\<rparr>"

text \<open>The dev build has the USB bridge; a production build has no transport yet.\<close>

definition build_engine :: "'v vendor_api \<Rightarrow> bool \<Rightarrow> 'v session \<Rightarrow> 'v session" where
  "build_engine api dev_build s = (let
     s = s\<lparr>se_engine := None, se_transport := None\<rparr>;
     s = (if \<not> dev_build then s
          else let (link, v) = (if se_link s then (True, se_vendor s) else ve_new_link api (se_vendor s));
                   s = s\<lparr>se_link := link, se_vendor := v\<rparr>
               in if \<not> link then s
                  else s\<lparr>se_transport := Some (if se_device_token s = [] then [] else ''Bearer '' @ se_device_token s)\<rparr>)
   in if se_transport s = None then s else s\<lparr>se_engine := Some (new_engine default_options)\<rparr>)"

definition load_device_token :: "'v vendor_api \<Rightarrow> 'v session \<Rightarrow> 'v session" where
  "load_device_token api s = (let
     s = s\<lparr>se_device_token := []\<rparr>;
     (err, v) = ve_nvs_open api False (se_vendor s);
     s = s\<lparr>se_vendor := v\<rparr>
   in if err \<noteq> EspOk then s
   else let (err, len) = ve_nvs_str_len api k_nvs_key_device_token (se_vendor s)
   in if err = EspOk \<and> 1 < len \<and> len \<le> k_max_token_bytes
      then let (err, bytes) = ve_nvs_get_str api k_nvs_key_device_token len (se_vendor s)
           in if err = EspOk then s\<lparr>se_device_token := take (length bytes - 1) bytes\<rparr> else s
      else s)"

definition session_open :: "'v vendor_api \<Rightarrow> bool \<Rightarrow> 'v session \<Rightarrow> bool \<times> 'v session" where
  "session_open api dev_build s = (let
     (err, v) = ve_nvs_flash_init api (se_vendor s);
     (err, v) = (if err = NvsNoFreePages \<or> err = NvsNewVersionFound
       then let (e, v) = ve_nvs_flash_erase api v in if e = EspOk then ve_nvs_flash_init api v else (err, v)
       else (err, v));
     s = s\<lparr>se_vendor := v\<rparr>
   in if err \<noteq> EspOk then (False, s)
   else let (ok, d) = ve_littlefs_register api (se_io s); s = s\<lparr>se_io := d\<rparr>
   in if \<not> ok then (False, s)
   else (True, build_engine api dev_build (load_device_token api (open_stores (s\<lparr>se_fs_mounted := True\<rparr>)))))"

definition session_reformat :: "'v vendor_api \<Rightarrow> bool \<Rightarrow> 'v session \<Rightarrow> bool \<times> 'v session" where
  "session_reformat api dev_build s =
     (if \<not> se_fs_mounted s then (False, s)
      else let s = close_stores s; (ok, d) = ve_littlefs_format api (se_io s); s = s\<lparr>se_io := d\<rparr>
      in if \<not> ok then (False, s) else (True, build_engine api dev_build (open_stores s)))"

definition c_str :: "string \<Rightarrow> string" where
  "c_str s = takeWhile (\<lambda>c. c \<noteq> CHR 0x00) s"

definition set_device_token :: "'v vendor_api \<Rightarrow> bool \<Rightarrow> string \<Rightarrow> 'v session \<Rightarrow> bool \<times> 'v session" where
  "set_device_token api dev_build tok s =
     (if k_max_token_bytes \<le> length tok then (False, s)
      else let (err, v) = ve_nvs_open api True (se_vendor s)
      in if err \<noteq> EspOk then (False, s\<lparr>se_vendor := v\<rparr>)
      else let (err, v) = ve_nvs_set_str api k_nvs_key_device_token (c_str tok) v;
               (err, v) = (if err = EspOk then ve_nvs_commit api v else (err, v));
               s = s\<lparr>se_vendor := v\<rparr>
      in if err \<noteq> EspOk then (False, s)
      else (True, build_engine api dev_build (s\<lparr>se_device_token := tok\<rparr>)))"

definition pututu_counter_seen :: "'v vendor_api \<Rightarrow> 'v session \<Rightarrow> nat" where
  "pututu_counter_seen api s = (let (err, v) = ve_nvs_open api False (se_vendor s)
     in if err \<noteq> EspOk then 0
        else case ve_nvs_get_u64 api k_nvs_key_pututu v of None \<Rightarrow> 0 | Some n \<Rightarrow> n)"

subsection \<open>A sync\<close>

text \<open>What \<^verbatim>\<open>BuildEngine\<close> wires into the engine, over the JSON layer \<open>parse\<close> and \<open>print\<close>.\<close>

definition session_deps :: "'v vendor_api \<Rightarrow> (string \<Rightarrow> json option) \<Rightarrow> (json \<Rightarrow> string) \<Rightarrow> 'v session \<Rightarrow> deps" where
  "session_deps api parse print s = \<lparr>dp_wired = se_transport s \<noteq> None \<and> se_stores s \<noteq> None, dp_kipu = (\<lambda>w. None),
     dp_counter_seen = (\<lambda>w. pututu_counter_seen api s), dp_on_config = session_on_config, dp_parse = parse, dp_print = print\<rparr>"

definition session_world :: "stores \<Rightarrow> 'v session \<Rightarrow> world" where
  "session_world st s = \<lparr>w_letters = so_letters st, w_outbox = so_outbox st, w_seen = so_seen st, w_state = so_state st,
     w_contacts = so_contacts st, w_settings = so_settings st, w_clock = se_clock s, w_io = se_io s\<rparr>"

definition put_world :: "world \<Rightarrow> stores \<Rightarrow> 'v session \<Rightarrow> 'v session" where
  "put_world w st s = s\<lparr>se_io := w_io w, se_clock := w_clock w,
     se_stores := Some (st\<lparr>so_letters := w_letters w, so_outbox := w_outbox w, so_seen := w_seen w, so_state := w_state w,
       so_settings := w_settings w, so_contacts := w_contacts w\<rparr>)\<rparr>"

record sync_report =
  re_attempted :: bool
  re_outcome :: outcome
  re_backoff_ms :: int

definition no_report :: sync_report where
  "no_report = \<lparr>re_attempted = False, re_outcome = no_outcome, re_backoff_ms = 0\<rparr>"

definition fault_name :: "fault \<Rightarrow> string" where
  "fault_name f = (case f of kNone \<Rightarrow> ''none'' | kNoSignal \<Rightarrow> ''no_signal'' | kCantReachHome \<Rightarrow> ''cant_reach_home''
     | kProvisioningFault \<Rightarrow> ''provisioning_fault'' | kRoadBusy \<Rightarrow> ''road_busy'' | kServerFault \<Rightarrow> ''server_fault'')"

text \<open>An engine over closed stores has its seams unwired and answers so at once.\<close>

definition run_sync ::
  "'v vendor_api \<Rightarrow> (string \<Rightarrow> json option) \<Rightarrow> (json \<Rightarrow> string) \<Rightarrow> 'n network \<Rightarrow> trigger \<Rightarrow> 'v session \<Rightarrow> 'n \<Rightarrow>
   (sync_report \<times> 'v session \<times> 'n) option" where
  "run_sync api parse print net t s n = (case se_engine s of
      None \<Rightarrow> Some (no_report\<lparr>re_outcome := no_outcome\<lparr>oc_fault := kNoSignal\<rparr>\<rparr>, s, n)
    | Some en \<Rightarrow>
        if t \<noteq> kUserKey \<and> next_backoff_ms en = k_backoff_halted
        then Some (no_report\<lparr>re_outcome := no_outcome\<lparr>oc_fault := kProvisioningFault\<rparr>, re_backoff_ms := k_backoff_halted\<rparr>, s, n)
        else case se_stores s of
          None \<Rightarrow> Some (no_report\<lparr>re_attempted := True, re_outcome := no_outcome\<lparr>oc_apply_incomplete := True\<rparr>,
            re_backoff_ms := next_backoff_ms en\<rparr>, s, n)
        | Some st \<Rightarrow> (case run_once (session_deps api parse print s) net t en (session_world st s) n of
            None \<Rightarrow> None
          | Some (out, en, w, n) \<Rightarrow>
              Some (no_report\<lparr>re_attempted := True, re_outcome := out, re_backoff_ms := next_backoff_ms en\<rparr>,
                (put_world w st s)\<lparr>se_engine := Some en\<rparr>, n)))"

subsection \<open>The halt\<close>

fun run_syncs ::
  "'v vendor_api \<Rightarrow> (string \<Rightarrow> json option) \<Rightarrow> (json \<Rightarrow> string) \<Rightarrow> 'n network \<Rightarrow> trigger list \<Rightarrow> 'v session \<Rightarrow> 'n \<Rightarrow>
   (sync_report list \<times> 'v session \<times> 'n) option" where
  "run_syncs api parse print net [] s n = Some ([], s, n)"
| "run_syncs api parse print net (t # ts) s n = (case run_sync api parse print net t s n of
      None \<Rightarrow> None
    | Some (rep, s, n) \<Rightarrow> map_option (\<lambda>(reps, s, n). (rep # reps, s, n)) (run_syncs api parse print net ts s n))"

definition halted_report :: sync_report where
  "halted_report = no_report\<lparr>re_outcome := no_outcome\<lparr>oc_fault := kProvisioningFault\<rparr>, re_backoff_ms := k_backoff_halted\<rparr>"

lemma run_once_halts:
  assumes "run_once dp net t en w n = Some (out, en', w', n')" "oc_fault out = kProvisioningFault"
  shows "next_backoff_ms en' = k_backoff_halted"
proof -
  have "dp_wired dp"
    using assms by (cases "dp_wired dp") (auto simp: run_once_def no_outcome_def)
  define en0 where "en0 = (if t = kUserKey then reset_backoff en else en)"
  obtain ap en1 w1 where r: "drain dp net (drain_cap en0) 0 no_outcome False en0 w n = Some (out, ap, en1, w1, n')"
    and e: "en' = (if oc_fault out = kNone then reset_backoff en1 else en1)"
    using assms(1) \<open>dp_wired dp\<close>
    by (auto simp: run_once_def Let_def en0_def [symmetric] split: option.splits prod.splits if_splits)
  have "oc_fault no_outcome = kNone" by (simp add: no_outcome_def)
  from drain_spec [OF r this] assms(2) obtain retry where "en1 = note_failure kProvisioningFault retry en0" by auto
  with e assms(2) show ?thesis by (simp add: next_backoff_ms_def halted_note)
qed

lemma run_sync_halted:
  assumes "se_engine s = Some en" "next_backoff_ms en = k_backoff_halted" "t \<noteq> kUserKey"
  shows "run_sync api parse print net t s n = Some (halted_report, s, n)"
  using assms by (simp add: run_sync_def halted_report_def)

lemma run_syncs_halted:
  assumes "se_engine s = Some en" "next_backoff_ms en = k_backoff_halted" "kUserKey \<notin> set ts"
  shows "run_syncs api parse print net ts s n = Some (replicate (length ts) halted_report, s, n)"
  using assms(3) by (induction ts) (simp_all add: run_sync_halted [OF assms(1,2)] eq_commute)

lemma run_sync_engine:
  assumes "run_sync api parse print net t s n = Some (rep, s', n')" "re_attempted rep"
    "oc_fault (re_outcome rep) = kProvisioningFault"
  shows "\<exists>en. se_engine s' = Some en \<and> next_backoff_ms en = k_backoff_halted"
proof -
  obtain en where en: "se_engine s = Some en"
    using assms by (cases "se_engine s") (auto simp: run_sync_def no_report_def)
  have att: "\<not> (t \<noteq> kUserKey \<and> next_backoff_ms en = k_backoff_halted)"
    using assms(1,2) en by (auto simp: run_sync_def no_report_def)
  obtain st where st: "se_stores s = Some st"
    using assms en att by (cases "se_stores s") (auto simp: run_sync_def no_report_def no_outcome_def)
  then obtain out en' w n1 where r: "run_once (session_deps api parse print s) net t en (session_world st s) n = Some (out, en', w, n1)"
    and o: "rep = no_report\<lparr>re_attempted := True, re_outcome := out, re_backoff_ms := next_backoff_ms en'\<rparr>"
    and s': "s' = (put_world w st s)\<lparr>se_engine := Some en'\<rparr>"
    using assms(1) en att by (auto simp: run_sync_def split: option.splits prod.splits if_splits)
  have "oc_fault out = kProvisioningFault" using assms(3) o by simp
  from run_once_halts [OF r this] s' show ?thesis by simp
qed


subsection \<open>A factory reset\<close>

lemma open_stores_blank:
  assumes "files (se_io s) = []" "script (se_io s) = []"
  shows "se_io (open_stores s) = se_io s \<and> (\<exists>st. se_stores (open_stores s) = Some st \<and> so_outbox st = empty_outbox k_letter_root)"
proof -
  let ?d = "se_io s"
  have r: "read_all p ?d = (None, ?d)" for p using read_all_no_faults [OF assms(2)] assms(1) by (simp add: lookup_def)
  have l: "list_names p ?d = (Some [], ?d)" for p using assms by (simp add: list_names_def pop_no_faults)
  have o: "open_outbox k_letter_root ?d = (empty_outbox k_letter_root, ?d)"
    by (simp add: open_outbox_def load_counter_def r l)
  show ?thesis
    by (simp add: open_stores_def Let_def o open_letter_store_def open_seen_ring_def seen_load_def open_state_store_def
        open_settings_store_def open_draft_store_def draft_load_def open_ayllu_def r l split: prod.splits)
qed

lemma build_engine_keeps:
  "se_io (build_engine api dev s) = se_io s \<and> se_stores (build_engine api dev s) = se_stores s \<and>
   se_device_token (build_engine api dev s) = se_device_token s"
  by (simp add: build_engine_def Let_def split: prod.splits)

text \<open>
  A factory reset keeps the identity but restarts the numbering. After the partition is formatted the
  bearer token is untouched, and the next letter gets the local id 1, whatever ids the device handed out
  before: the high water was a file of that partition. A server that still remembers the ids of the same
  device answers for the old letter.\<close>

theorem factory_reset_restarts_ids:
  assumes "se_fs_mounted s" "ve_littlefs_format api (se_io s) = (True, \<lparr>files = [], trail = tr, script = []\<rparr>)"
  shows "case session_reformat api dev s of (ok, s') \<Rightarrow> ok \<and> se_device_token s' = se_device_token s \<and>
    (case se_stores s' of None \<Rightarrow> False | Some st \<Rightarrow>
      fst (outbox_add contact subject body t (so_outbox st) (se_io s')) = Some (format_local_id 1))"
proof -
  let ?s = "(close_stores s)\<lparr>se_io := \<lparr>files = [], trail = tr, script = []\<rparr>\<rparr>"
  obtain st where st: "se_stores (open_stores ?s) = Some st" "so_outbox st = empty_outbox k_letter_root"
    and d: "se_io (open_stores ?s) = se_io ?s"
    using open_stores_blank [of ?s] by auto
  have r: "session_reformat api dev s = (True, build_engine api dev (open_stores ?s))"
    using assms by (simp add: session_reformat_def close_stores_def)
  have "se_device_token (open_stores ?s) = se_device_token s"
    by (simp add: open_stores_def close_stores_def Let_def split: prod.splits)
  moreover have "fst (outbox_add contact subject body t (empty_outbox k_letter_root) (se_io ?s)) = Some (format_local_id 1)"
    using outbox_add_succeeds [of "se_io ?s" "empty_outbox k_letter_root" contact subject body t]
    by (auto simp: empty_outbox_def sendable_count_def k_outbox_cap_def)
  ultimately show ?thesis unfolding r using st d by (simp add: build_engine_keeps)
qed

subsection \<open>The token\<close>

text \<open>What NVS documents: a string set and committed is read back, its length counted with the terminator.\<close>

definition nvs_reads_back :: "'v vendor_api \<Rightarrow> bool" where
  "nvs_reads_back api \<longleftrightarrow> (\<forall>k x v v1 v2. ve_nvs_set_str api k x v = (EspOk, v1) \<and> ve_nvs_commit api v1 = (EspOk, v2) \<longrightarrow>
     (\<exists>v3. ve_nvs_open api False v2 = (EspOk, v3) \<and> ve_nvs_str_len api k v3 = (EspOk, length x + 1) \<and>
       ve_nvs_get_str api k (length x + 1) v3 = (EspOk, x @ [CHR 0x00])))"

lemma build_engine_vendor: "\<not> dev \<Longrightarrow> se_vendor (build_engine api dev s) = se_vendor s"
  by (simp add: build_engine_def)

text \<open>
  A stored bearer token is the one the next boot sends. \<^verbatim>\<open>SetDeviceToken\<close> refuses exactly what is too
  long or cannot be written and then keeps the old token; once it returns true, a reboot of a production
  image loads the same token, if it has no NUL byte in it: every accepted length fits the bound
  \<^verbatim>\<open>LoadDeviceToken\<close> checks.\<close>

theorem device_token_round_trip:
  assumes "nvs_reads_back api" "CHR 0x00 \<notin> set tok" "set_device_token api False tok s = (ok, s')"
  shows "if ok then se_device_token s' = tok \<and> length tok < 512 \<and>
      se_device_token (load_device_token api (new_session (se_vendor s') d now)) = tok
    else se_device_token s' = se_device_token s"
proof (cases ok)
  case False
  with assms(3) show ?thesis
    by (auto simp: set_device_token_def Let_def build_engine_keeps split: if_splits prod.splits)
next
  case True
  have c: "c_str tok = tok" using assms(2) by (simp add: c_str_def takeWhile_eq_all_conv) (metis)
  from True assms(3) obtain v0 v1 v2 where v: "ve_nvs_set_str api k_nvs_key_device_token tok v0 = (EspOk, v1)"
    "ve_nvs_commit api v1 = (EspOk, v2)" and len: "length tok < k_max_token_bytes"
    and s': "s' = build_engine api False (s\<lparr>se_vendor := v2, se_device_token := tok\<rparr>)"
    by (auto simp: set_device_token_def Let_def c not_le split: if_splits prod.splits)
  from v assms(1) obtain v3 where r: "ve_nvs_open api False v2 = (EspOk, v3)"
    "ve_nvs_str_len api k_nvs_key_device_token v3 = (EspOk, length tok + 1)"
    "ve_nvs_get_str api k_nvs_key_device_token (length tok + 1) v3 = (EspOk, tok @ [CHR 0x00])"
    unfolding nvs_reads_back_def by blast
  have "se_vendor s' = v2" by (simp add: s' build_engine_vendor)
  moreover have "se_device_token (load_device_token api (new_session v2 d now)) = tok"
    using r len by (cases tok) (simp_all add: load_device_token_def new_session_def)
  ultimately show ?thesis using True len by (simp add: s' build_engine_keeps k_max_token_bytes_def)
qed

text \<open>A vendor with one NVS string and a file system that mounts and formats.\<close>

definition one_string_vendor :: "string vendor_api" where
  "one_string_vendor = \<lparr>ve_nvs_flash_init = (\<lambda>v. (EspOk, v)), ve_nvs_flash_erase = (\<lambda>v. (EspOk, [])),
     ve_nvs_open = (\<lambda>w v. (EspOk, v)), ve_nvs_str_len = (\<lambda>k v. (EspOk, length v + 1)),
     ve_nvs_get_str = (\<lambda>k n v. (EspOk, v @ [CHR 0x00])), ve_nvs_set_str = (\<lambda>k x v. (EspOk, x)),
     ve_nvs_commit = (\<lambda>v. (EspOk, v)), ve_nvs_get_u64 = (\<lambda>k v. None), ve_littlefs_register = (\<lambda>d. (True, d)),
     ve_littlefs_format = (\<lambda>d. (True, \<lparr>files = [], trail = [], script = []\<rparr>)), ve_new_link = (\<lambda>v. (True, v))\<rparr>"

definition booted :: "bool \<Rightarrow> string session" where
  "booted dev = snd (session_open one_string_vendor dev (new_session [] \<lparr>files = [], trail = [], script = []\<rparr> 0))"

lemma device_token_round_trip_witness:
  "se_device_token (load_device_token one_string_vendor (new_session
     (se_vendor (snd (set_device_token one_string_vendor False ''abc'' (booted False)))) (se_io (booted False)) 0)) = ''abc''"
proof -
  have "nvs_reads_back one_string_vendor" by (simp add: nvs_reads_back_def one_string_vendor_def)
  moreover have "CHR 0x00 \<notin> set ''abc''" by simp
  moreover obtain s' where s: "set_device_token one_string_vendor False ''abc'' (booted False) = (True, s')"
    by (simp add: set_device_token_def one_string_vendor_def k_max_token_bytes_def)
  ultimately show ?thesis using device_token_round_trip [of one_string_vendor "''abc''" "booted False" True s'] by simp
qed

lemma booted_mounted: "se_fs_mounted (booted dev)"
  by (simp add: booted_def session_open_def one_string_vendor_def build_engine_def load_device_token_def open_stores_def
      Let_def split: prod.splits)

lemma factory_reset_restarts_ids_witness:
  "fst (session_reformat one_string_vendor True (booted True))"
proof -
  have "ve_littlefs_format one_string_vendor (se_io (booted True)) = (True, \<lparr>files = [], trail = [], script = []\<rparr>)"
    by (simp add: one_string_vendor_def)
  from factory_reset_restarts_ids [OF booted_mounted this, where dev = True] show ?thesis
    by (cases "session_reformat one_string_vendor True (booted True)") simp
qed

text \<open>A network that answers every request with 401.\<close>

definition unauthorised :: "unit network" where
  "unauthorised body now n = (\<lparr>tr_outcome = TrOk, tr_http_status = 401, tr_body = [], tr_retry_after_s = 0\<rparr>, now + 1, n)"

lemma booted_ready: "\<exists>st. se_stores (booted True) = Some st" "se_engine (booted True) = Some (new_engine default_options)"
  "se_transport (booted True) \<noteq> None"
  by (simp_all add: booted_def session_open_def one_string_vendor_def build_engine_def load_device_token_def open_stores_def
      new_session_def Let_def split: prod.splits)


end
