(* ===== verification/Sync_Recovery.thy ===== *)
theory Sync_Recovery
  imports Session
begin

text \<open>
  What follows a power cut: the stores are opened again on whatever the cut left, and one sync the
  server answers completes. The file theories show that nothing is lost; here every operation on the
  way is shown to go through when no call of the file system fails, whatever the files hold.
\<close>

subsection \<open>Operations on a file system that refuses nothing\<close>

lemma append_line_no_faults:
  assumes "script d = []"
  shows "\<exists>e. append_line path line d = (True, e) \<and> script e = []"
proof -
  obtain d1 f where s1: "sys_open_append path d = (True, d1)" "script d1 = []" "lookup (files d1) path = Some f"
    using assms by (cases "lookup (files d) path")
      (auto simp: sys_open_append_def pop_no_faults put_inode_def commit_def lookup_def update_Some_unfold)
  obtain d2 where s2: "write_all path (line @ [newline]) d1 = (True, d2)" "script d2 = []"
    using s1 by (auto simp: write_all_def pop_no_faults put_inode_def commit_def)
  have l2: "lookup (files d2) path = Some (f\<lparr>content := content f @ line @ [newline]\<rparr>)"
    using write_all_ok [OF s2(1) s1(3)] by simp
  obtain d3 where s3: "sys_fsync path d2 = (True, d3)" "script d3 = []"
    using s2(2) l2 by (auto simp: sys_fsync_def pop_no_faults put_inode_def commit_def)
  have "sys_close d3 = (True, d3)" using s3(2) by (simp add: sys_close_def pop_no_faults)
  then show ?thesis using s3(2) by (simp add: append_line_def s1(1) s2(1) s3(1))
qed

lemma remove_file_no_faults:
  "script d = [] \<Longrightarrow> \<exists>e. remove_file path d = (True, e) \<and> script e = []"
  by (cases "lookup (files d) path")
    (auto simp: remove_file_def sys_unlink_def sync_dir_def pop_no_faults commit_def)

lemma ls_put_no_faults:
  assumes "script d = []" "name_is_safe (l_id l)"
  shows "\<exists>s' e. ls_put l s d = (True, s', e) \<and> script e = []"
proof -
  let ?u = "case find_meta s (l_id l) of None \<Rightarrow> True | Some m \<Rightarrow> m_unread m"
  obtain e where "write_atomic (join (ls_dir s) (l_id l)) (encode_letter l ?u) d = (True, e)" "script e = []"
    using write_atomic_no_faults [OF assms(1)] by blast
  with assms(2) show ?thesis by (simp add: ls_put_def)
qed

lemma seen_add_no_faults:
  assumes "script d = []" "name_is_safe i"
  shows "\<exists>s' e. seen_add i s d = (True, s', e) \<and> script e = [] \<and> sr_ring s' = after_add i s"
proof -
  let ?s = "s\<lparr>sr_ring := push_bounded (sr_capacity s) i (sr_ring s)\<rparr>"
  obtain e where "append_line (sr_path s) i d = (True, e)" "script e = []"
    using append_line_no_faults [OF assms(1)] by blast
  moreover obtain e' where "write_atomic (sr_path s) (concat (map (\<lambda>i. i @ [newline]) (sr_ring ?s))) d = (True, e')" "script e' = []"
    using write_atomic_no_faults [OF assms(1)] by blast
  ultimately show ?thesis
    using assms by (auto simp: seen_add_def seen_compact_def after_add_def seen_contains_def Let_def)
qed

lemma evict_loop_no_faults:
  assumes "script d = []"
  shows "\<exists>s' e. evict_loop is n s d = (n + length is, s', e) \<and> script e = []"
  using assms
proof (induction "is" arbitrary: n s d)
  case (Cons i js)
  then obtain d1 where r: "remove_file (join (ls_dir s) i) d = (True, d1)" "script d1 = []"
    using remove_file_no_faults by blast
  obtain s' e where "evict_loop js (n + 1) (s\<lparr>ls_index := filter (\<lambda>m. m_id m \<noteq> i) (ls_index s)\<rparr>) d1 =
      (n + 1 + length js, s', e)" "script e = []"
    using Cons.IH [OF r(2)] by blast
  with r show ?case by simp
qed simp

lemma session_on_config_no_faults:
  assumes "script (w_io w) = []"
  shows "script (w_io (session_on_config c w)) = []"
proof -
  let ?x = "sanitise (pushed c (sg_settings (w_settings w)))"
  obtain e where "write_atomic (sg_path (w_settings w)) (encode_settings ?x) (w_io w) = (True, e)" "script e = []"
    using write_atomic_no_faults [OF assms] by blast
  then show ?thesis by (simp add: session_on_config_def apply_config_def settings_commit_def)
qed

subsection \<open>Acknowledgements\<close>

text \<open>The outbox in memory, as opening leaves it.\<close>

definition outbox_loaded :: "string \<Rightarrow> outbox \<Rightarrow> bool" where
  "outbox_loaded base s \<longleftrightarrow> ox_dir s = join base k_outbox_dir \<and> distinct (map oe_local_id (ox_entries s)) \<and>
     (\<forall>x \<in> set (ox_entries s). name_is_safe (oe_local_id x))"

lemma set_sendable: "set (sendable s) = {x \<in> set (ox_entries s). \<not> oe_rejected x}"
  by (simp add: sendable_def ox_ordered_def)

lemma set_reject_entry:
  "distinct (map oe_local_id es) \<Longrightarrow>
   {x \<in> set (reject_entry i st es). \<not> oe_rejected x} = {x \<in> set es. \<not> oe_rejected x \<and> oe_local_id x \<noteq> i}"
  by (induction i st es rule: reject_entry.induct) (auto simp: image_iff)

lemma resolve_no_faults:
  assumes "script d = []" "outbox_loaded base s" "dir_ok base"
  shows "\<exists>s' e. outbox_resolve i st s d = (True, s', e) \<and> script e = [] \<and> outbox_loaded base s' \<and>
    only_in (in_dir base k_outbox_dir) d e \<and> set (sendable s') = {x \<in> set (sendable s). oe_local_id x \<noteq> i}"
proof -
  note L = assms(2) [unfolded outbox_loaded_def]
  have only: "only_in (in_dir base k_outbox_dir) d e" if "outbox_resolve i st s d = (ok, s', e)" for ok s' e
    by (rule resolve_only [OF that _ assms(3)]) (use L in simp_all)
  show ?thesis
  proof (cases "ox_find s i")
    case None
    then have "oe_local_id x \<noteq> i" if "x \<in> set (ox_entries s)" for x
      using that by (auto simp: ox_find_def find_None_iff)
    with None assms show ?thesis by (auto simp: outbox_resolve_def set_sendable)
  next
    case (Some x)
    obtain d1 where r: "remove_file (ox_path s i) d = (True, d1)" "script d1 = []"
      using remove_file_no_faults [OF assms(1)] by blast
    obtain d2 where w: "write_atomic (ox_path s i) (encode_entry (x\<lparr>oe_rejected := True, oe_reject_status := st\<rparr>)) d = (True, d2)"
      "script d2 = []"
      using write_atomic_no_faults [OF assms(1)] by blast
    have ids: "oe_local_id ` set (reject_entry i st (ox_entries s)) = oe_local_id ` set (ox_entries s)"
      using ids_reject_entry by (metis list.set_map)
    show ?thesis
    proof (cases "st = kSent")
      case True
      let ?s = "s\<lparr>ox_entries := filter (\<lambda>e. oe_local_id e \<noteq> i) (ox_entries s)\<rparr>"
      have run: "outbox_resolve i st s d = (True, ?s, d1)"
        using Some True r by (simp add: outbox_resolve_def ox_erase_def)
      have "outbox_loaded base ?s" using L by (auto simp: outbox_loaded_def distinct_map_filter)
      with run r(2) only [OF run] show ?thesis by (auto simp: set_sendable)
    next
      case False
      let ?s = "s\<lparr>ox_entries := reject_entry i st (ox_entries s)\<rparr>"
      have p: "ox_path ?s i = ox_path s i" by (simp add: ox_path_def)
      have run: "outbox_resolve i st s d = (True, ?s, d2)"
        using Some False w by (simp add: outbox_resolve_def Let_def p)
      have "outbox_loaded base ?s"
        using L ids unfolding outbox_loaded_def by (auto simp: ids_reject_entry) (metis imageE imageI)
      with run w(2) only [OF run] set_reject_entry [of "ox_entries s" i st] L show ?thesis
        by (auto simp: set_sendable)
    qed
  qed
qed

lemma apply_acks_no_faults:
  assumes "script d = []" "outbox_loaded base s" "dir_ok base"
  shows "\<exists>s' e. apply_acks as n s d = (True, n + length as, s', e) \<and> script e = [] \<and> outbox_loaded base s' \<and>
    only_in (in_dir base k_outbox_dir) d e \<and>
    set (sendable s') = {x \<in> set (sendable s). oe_local_id x \<notin> ack_local_id ` set as}"
  using assms
proof (induction "as" arbitrary: n s d)
  case (Cons a rest)
  obtain s1 d1 where r: "outbox_resolve (ack_local_id a) (ack_stat a) s d = (True, s1, d1)" "script d1 = []"
    "outbox_loaded base s1" "only_in (in_dir base k_outbox_dir) d d1"
    "set (sendable s1) = {x \<in> set (sendable s). oe_local_id x \<noteq> ack_local_id a}"
    using resolve_no_faults [OF Cons.prems] by blast
  obtain s' e where i: "apply_acks rest (n + 1) s1 d1 = (True, n + 1 + length rest, s', e)" "script e = []"
    "outbox_loaded base s'" "only_in (in_dir base k_outbox_dir) d1 e"
    "set (sendable s') = {x \<in> set (sendable s1). oe_local_id x \<notin> ack_local_id ` set rest}"
    using Cons.IH [OF r(2,3) Cons.prems(3)] by blast
  from only_in_trans [OF r(4) i(4)] i r(1,5) show ?case by auto
qed simp

subsection \<open>Letters\<close>

text \<open>The ring as any file loads into it, and the letter store that agrees with its directory.\<close>

definition letters_loaded :: "string \<Rightarrow> letter_store \<Rightarrow> seen_ring \<Rightarrow> fs \<Rightarrow> bool" where
  "letters_loaded base ls sr fs \<longleftrightarrow> ls_dir ls = join base k_letters_dir \<and> ls_agrees ls fs \<and>
     sr_path sr = join base k_seen_file"

definition in_window :: "nat \<Rightarrow> letter_store \<Rightarrow> string \<Rightarrow> bool" where
  "in_window keep ls i \<longleftrightarrow> find_meta ls i \<noteq> None \<or> evict_keep keep \<le> ls_count ls"

lemma find_put: "find_meta (s\<lparr>ls_index := index_put (meta_of l u) (ls_index s)\<rparr>) i \<noteq> None \<longleftrightarrow> i = l_id l \<or> find_meta s i \<noteq> None"
  by (simp add: find_meta_def find_index_put meta_of_def)

lemma length_index_put: "length xs \<le> length (index_put m xs)"
  by (induction m xs rule: index_put.induct) auto

lemma ls_put_index:
  assumes "ls_put l s d = (True, s', e)"
  shows "(find_meta s' i \<noteq> None \<longleftrightarrow> i = l_id l \<or> find_meta s i \<noteq> None) \<and> ls_count s \<le> ls_count s'"
proof -
  obtain u where s': "s' = s\<lparr>ls_index := index_put (meta_of l u) (ls_index s)\<rparr>"
    using assms by (auto simp: ls_put_def Let_def split: if_splits prod.splits)
  show ?thesis unfolding s' find_put by (simp add: ls_count_def length_index_put)
qed

lemma apply_letters_no_faults:
  assumes "script d = []" "letters_loaded base ls sr (files d)" "dir_ok base"
    and "\<forall>l \<in> set L. is_i64 (l_date l) \<and> name_is_safe (l_id l)"
  shows "\<exists>st' dup' ls' sr' e. apply_letters L st dup ls sr d = (True, st', dup', ls', sr', e) \<and> script e = [] \<and>
    letters_loaded base ls' sr' (files e) \<and> st' + dup' = st + dup + length L \<and>
    only_in (in_dir base k_letters_dir \<union> named base k_seen_file) d e \<and> ls_count ls \<le> ls_count ls' \<and>
    (\<forall>i. find_meta ls i \<noteq> None \<longrightarrow> find_meta ls' i \<noteq> None) \<and>
    (\<forall>l \<in> set L. l_id l \<in> set (sr_ring sr) \<or> find_meta ls' (l_id l) \<noteq> None) \<and>
    (\<forall>i \<in> set (sr_ring sr'). i \<in> set (sr_ring sr) \<or> find_meta ls' i \<noteq> None)"
  using assms
proof (induction L arbitrary: st dup ls sr d)
  case (Cons l L)
  let ?S = "in_dir base k_letters_dir \<union> named base k_seen_file"
  show ?case
  proof (cases "seen_contains sr (l_id l)")
    case True
    with Cons.IH [OF Cons.prems(1-3), of st "dup + 1"] Cons.prems(4) show ?thesis
      by (fastforce simp: seen_contains_def)
  next
    case False
    note R = Cons.prems(2) [unfolded letters_loaded_def]
    have safe: "name_is_safe (l_id l)" "is_i64 (l_date l)" using Cons.prems(4) by simp_all
    obtain ls1 d1 where p: "ls_put l ls d = (True, ls1, d1)" "script d1 = []"
      using ls_put_no_faults [of d l ls] Cons.prems(1) safe by blast
    obtain sr1 d2 where a: "seen_add (l_id l) sr d1 = (True, sr1, d2)" "script d2 = []" "sr_ring sr1 = after_add (l_id l) sr"
      using seen_add_no_faults [OF p(2) safe(1)] by blast
    have agr: "ls_agrees ls (files d)" "ls_dir ls = join base k_letters_dir" using R by simp_all
    have P: "ls_agrees ls1 (files d1)" "ls_dir ls1 = join base k_letters_dir"
      using ls_put_spec [OF p(1) agr(1) safe(2)] agr(2) by simp_all
    have O1: "only_in ?S d d1" by (rule only_in_mono [OF ls_put_only [OF p(1) Cons.prems(3) agr(2)]]) simp
    have sp: "sr_path sr = join base k_seen_file" using R by simp
    have O: "only_in (named base k_seen_file) d1 d2" by (rule seen_add_only [OF a(1) sp Cons.prems(3)])
    have O2: "only_in ?S d d2" by (rule only_in_trans [OF O1 only_in_mono [OF O]]) simp
    have "ls_agrees ls1 (files d2)"
      using ls_agrees_cong(1) [OF only_in_files [OF O] P(2) letters_not_seen [OF Cons.prems(3)]] P(1) by simp
    then have L1: "letters_loaded base ls1 sr1 (files d2)"
      using P(2) sp sr_path_add [OF a(1)] by (simp add: letters_loaded_def)
    note ix = ls_put_index [OF p(1)]
    have sub: "set (sr_ring sr1) \<subseteq> insert (l_id l) (set (sr_ring sr))"
      using set_push_subset [of "sr_capacity sr" "l_id l" "sr_ring sr"] by (auto simp: a(3) after_add_def)
    have "\<forall>l \<in> set L. is_i64 (l_date l) \<and> name_is_safe (l_id l)" using Cons.prems(4) by simp
    from Cons.IH [OF a(2) L1 Cons.prems(3) this, of "st + 1" dup]
    obtain st' dup' ls' sr' e where I: "apply_letters L (st + 1) dup ls1 sr1 d2 = (True, st', dup', ls', sr', e)"
      "script e = []" "letters_loaded base ls' sr' (files e)" "st' + dup' = st + 1 + dup + length L"
      "only_in ?S d2 e" "ls_count ls1 \<le> ls_count ls'" "\<And>i. find_meta ls1 i \<noteq> None \<Longrightarrow> find_meta ls' i \<noteq> None"
      "\<forall>m \<in> set L. l_id m \<in> set (sr_ring sr1) \<or> find_meta ls' (l_id m) \<noteq> None"
      "\<forall>i \<in> set (sr_ring sr'). i \<in> set (sr_ring sr1) \<or> find_meta ls' i \<noteq> None" by metis
    have run: "apply_letters (l # L) st dup ls sr d = (True, st', dup', ls', sr', e)"
      using False p(1) a(1) I(1) by simp
    have new: "find_meta ls' (l_id l) \<noteq> None" using I(7) ix by blast
    have "\<forall>m \<in> set (l # L). l_id m \<in> set (sr_ring sr) \<or> find_meta ls' (l_id m) \<noteq> None"
      using I(8) sub new by (metis insertE set_ConsD subsetD)
    moreover have "\<forall>i \<in> set (sr_ring sr'). i \<in> set (sr_ring sr) \<or> find_meta ls' i \<noteq> None"
      using I(9) sub new by (metis insertE subsetD)
    moreover have "\<forall>i. find_meta ls i \<noteq> None \<longrightarrow> find_meta ls' i \<noteq> None" using I(7) ix by blast
    moreover have "ls_count ls \<le> ls_count ls'" using I(6) ix by (metis order_trans)
    ultimately show ?thesis
      using run I(2,3,4) only_in_trans [OF O2 I(5)] by (intro exI conjI) (assumption | simp)+
  qed
qed simp

lemma evict_beyond_no_faults:
  assumes "script d = []" "ls_agrees s (files d)" "ls_dir s = join base k_letters_dir"
  shows "\<exists>n s' e. evict_beyond keep s d = (n, s', e) \<and> script e = [] \<and> ls_agrees s' (files e) \<and>
    ls_dir s' = ls_dir s \<and> only_in (in_dir base k_letters_dir) d e \<and>
    (s' = s \<or> evict_keep keep \<le> ls_count s')"
proof -
  let ?k = "evict_keep keep"
  obtain n s' e where run: "evict_beyond keep s d = (n, s', e)" using prod_cases3 by blast
  have only: "only_in (in_dir base k_letters_dir) d e"
    using evict_beyond_only [OF run assms(3)] doomed_safe [OF assms(2)] by blast
  show ?thesis
  proof (cases "ls_count s \<le> ?k")
    case True
    then have "s' = s" "e = d" using run by (auto simp: evict_beyond_def evict_keep_def ls_count_def Let_def)
    with run only assms show ?thesis by simp
  next
    case False
    let ?is = "map m_id (drop ?k (ordered s))"
    have ev: "evict_loop ?is 0 s d = (n, s', e)"
      using run False by (auto simp: evict_beyond_def evict_keep_def ls_count_def Let_def)
    have e: "n = ls_count s - ?k" "script e = []"
      using evict_loop_no_faults [OF assms(1), of ?is 0 s] ev by (auto simp: ls_count_def)
    have agr: "ls_agrees s' (files e)" using evict_beyond_states(3) [OF run assms(2) e(1)] by simp
    have safe: "name_is_safe i" if "i \<in> set ?is" for i
      using that doomed_safe [OF assms(2)] by (auto dest!: in_set_dropD)
    have "evict_states (ls_dir s) (set ?is) (letters_on (ls_dir s) (files d)) (files d)"
      by (simp add: evict_states_def)
    from evict_loop_states [OF ev _ safe this] assms(2) e(1)
    have s': "ls_dir s' = ls_dir s" "ls_index s' = filter (\<lambda>x. m_id x \<notin> doomed s keep) (ls_index s)"
      by (simp_all add: ls_agrees_def ls_count_def doomed_def)
    have dist: "distinct (map m_id (ls_index s))" using assms(2) by (simp add: ls_agrees_def)
    have "?k = length (take ?k (ordered s))" using False by (simp add: ls_count_def)
    also have "\<dots> = length (filter (\<lambda>x. m_id x \<notin> doomed s keep) (take ?k (ordered s)))"
      using kept_not_doomed [OF dist] by (metis (no_types, lifting) filter_True)
    also have "\<dots> \<le> length (filter (\<lambda>x. m_id x \<notin> doomed s keep) (take ?k (ordered s) @ drop ?k (ordered s)))"
      unfolding filter_append by simp
    also have "\<dots> = ls_count s'"
    proof -
      have "mset (filter P (ls_index s)) = mset (filter P (ordered s))" for P
        by (simp add: ordered_def rev_filter [symmetric] filter_sort)
      then show ?thesis unfolding ls_count_def s'(2) append_take_drop_id by (metis size_mset)
    qed
    finally show ?thesis using run agr e(2) s'(1) only by blast
  qed
qed

subsection \<open>A response\<close>

definition stores_open :: "string \<Rightarrow> world \<Rightarrow> bool" where
  "stores_open base w \<longleftrightarrow> script (w_io w) = [] \<and> letters_loaded base (w_letters w) (w_seen w) (files (w_io w)) \<and>
     outbox_loaded base (w_outbox w) \<and> st_path (w_state w) = join base k_state_file \<and>
     ay_snapshot_path (w_contacts w) = join base k_snapshot_file \<and>
     sg_path (w_settings w) = join base k_settings_file"

text \<open>A letter the child has or had: its id was already in the ring of ids \<open>S\<close>, or it is in the window.\<close>

definition delivered :: "string set \<Rightarrow> nat \<Rightarrow> world \<Rightarrow> string \<Rightarrow> bool" where
  "delivered S keep w i \<longleftrightarrow> i \<in> S \<or> in_window keep (w_letters w) i"

lemma letters_loaded_only:
  assumes "letters_loaded base ls sr (files d)" "only_in S d e" "S \<inter> in_dir base k_letters_dir = {}"
  shows "letters_loaded base ls sr (files e)"
  using assms(1) ls_agrees_cong(1) [OF only_in_files [OF assms(2)] _ assms(3), of ls]
  by (simp add: letters_loaded_def)

lemma step_acks_no_faults:
  assumes "stores_open base w" "dir_ok base"
  shows "\<exists>w'. step_acks r out w = (True, out\<lparr>oc_acks_applied := length (rs_acks r)\<rparr>, w') \<and> stores_open base w' \<and>
    set (sendable (w_outbox w')) = {x \<in> set (sendable (w_outbox w)). oe_local_id x \<notin> ack_local_id ` set (rs_acks r)} \<and>
    w_letters w' = w_letters w \<and> w_seen w' = w_seen w \<and> w_contacts w' = w_contacts w \<and>
    w_state w' = w_state w \<and> only_in (in_dir base k_outbox_dir) (w_io w) (w_io w')"
proof -
  note W = assms(1) [unfolded stores_open_def]
  from W obtain ox d1 where a: "apply_acks (rs_acks r) 0 (w_outbox w) (w_io w) = (True, length (rs_acks r), ox, d1)"
    "script d1 = []" "outbox_loaded base ox" "only_in (in_dir base k_outbox_dir) (w_io w) d1"
    "set (sendable ox) = {x \<in> set (sendable (w_outbox w)). oe_local_id x \<notin> ack_local_id ` set (rs_acks r)}"
    using apply_acks_no_faults [of "w_io w" base "w_outbox w" "rs_acks r" 0] assms(2) by auto
  have "letters_loaded base (w_letters w) (w_seen w) (files d1)"
    by (rule letters_loaded_only [OF _ a(4)]) (use W files_apart [OF assms(2)] in auto)
  with W a show ?thesis by (simp add: step_acks_def stores_open_def)
qed

text \<open>The cursor on the medium is the first line of the record, whatever the numbers behind it are.\<close>

lemma cursor_of_encoded: "ss_cursor (decode_state (encode_state x)) = ss_cursor x"
proof -
  have "decode_record (encode_state x) = state_record x"
    unfolding encode_state_def
    by (rule decode_encode_record) (auto simp: state_record_def key_ok_def newline_def)
  then show ?thesis by (simp add: decode_state_def state_record_def find_key_def or_else_def Let_def)
qed

lemma state_set_cursor_on:
  assumes "state_set f st d = (True, st', e)" "st_path st = join base k_state_file"
  shows "cursor_on base (files e) = ss_cursor (f (st_state st))"
proof -
  have "write_atomic (join base k_state_file) (encode_state (f (st_state st))) d = (True, e)"
    using assms by (auto simp: state_set_def split: prod.splits)
  from wa.wr_ok [OF this] show ?thesis
    by (simp add: cursor_on_def slot_on_def or_else_def whole_def cursor_of_encoded)
qed

lemma state_set_cursor_kept:
  assumes "state_set f st d = (True, st', e)" "st_path st = join base k_state_file"
  shows "cursor_kept base (ss_cursor (f (st_state st))) (files e)"
proof -
  have "write_atomic (join base k_state_file) (encode_state (f (st_state st))) d = (True, e)"
    using assms by (auto simp: state_set_def split: prod.splits)
  from wa.wr_ok [OF this] state_set_cursor_on [OF assms] show ?thesis
    by (simp add: cursor_kept_def durable_file_def whole_def)
qed

lemma apply_ayllu_no_faults:
  assumes "stores_open base w" "dir_ok base"
  shows "\<exists>w'. apply_ayllu ay w = (True, w') \<and> stores_open base w' \<and> w_outbox w' = w_outbox w \<and>
    w_letters w' = w_letters w \<and> w_seen w' = w_seen w \<and>
    ay_snapshot (w_contacts w') = (case ay of None \<Rightarrow> ay_snapshot (w_contacts w) | Some a \<Rightarrow> a) \<and>
    ss_cursor (st_state (w_state w')) = ss_cursor (st_state (w_state w)) \<and>
    only_in (named base k_snapshot_file \<union> named base k_state_file) (w_io w) (w_io w') \<and>
    (cursor_kept base (ss_cursor (st_state (w_state w))) (files (w_io w)) \<longrightarrow>
     cursor_kept base (ss_cursor (st_state (w_state w))) (files (w_io w')))"
proof (cases ay)
  case None
  with assms show ?thesis by (simp add: apply_ayllu_def)
next
  case (Some a)
  note W = assms(1) [unfolded stores_open_def]
  obtain d1 where r: "write_atomic (ay_snapshot_path (w_contacts w)) (encode_snapshot a) (w_io w) = (True, d1)" "script d1 = []"
    using write_atomic_no_faults W by blast
  then have s: "apply_snapshot a (w_contacts w) (w_io w) = (True, (w_contacts w)\<lparr>ay_snapshot := a\<rparr>, d1)"
    by (simp add: apply_snapshot_def)
  let ?f = "\<lambda>x. x\<lparr>ss_ayllu_version := wa_version a\<rparr>"
  obtain d2 where v: "set_ayllu_version (wa_version a) (w_state w) d1 =
      (True, (w_state w)\<lparr>st_state := ?f (st_state (w_state w))\<rparr>, d2)" "script d2 = []"
    using state_set_no_faults [OF r(2), of ?f "w_state w"] unfolding setters by blast
  have ap: "ay_snapshot_path (w_contacts w) = join base k_snapshot_file" and sp: "st_path (w_state w) = join base k_state_file"
    using W by simp_all
  note O1 = apply_snapshot_only [OF s ap assms(2)] and O2 = state_set_only [OF v(1) [unfolded setters] sp assms(2)]
  have O: "only_in (named base k_snapshot_file \<union> named base k_state_file) (w_io w) d2"
    by (rule only_in_trans [OF only_in_mono [OF O1] only_in_mono [OF O2]]) auto
  have "letters_loaded base (w_letters w) (w_seen w) (files d2)"
    by (rule letters_loaded_only [OF _ O]) (use W files_apart [OF assms(2)] in auto)
  with W v(2) O state_set_cursor_kept [OF v(1) [unfolded setters] sp] show ?thesis
    by (simp add: apply_ayllu_def Some s v(1) stores_open_def)
qed

lemma step_letters_no_faults:
  assumes "stores_open base w" "dir_ok base"
    and "\<forall>l \<in> set (rs_letters r). is_i64 (l_date l) \<and> name_is_safe (l_id l)"
    and "\<forall>i \<in> set (sr_ring (w_seen w)). delivered S keep w i"
  shows "\<exists>out' w'. step_letters keep r out w = (True, out', w') \<and> stores_open base w' \<and>
    oc_letters_stored out' + oc_letters_deduped out' = length (rs_letters r) \<and>
    oc_acks_applied out' = oc_acks_applied out \<and> oc_apply_incomplete out' = oc_apply_incomplete out \<and>
    w_outbox w' = w_outbox w \<and> w_contacts w' = w_contacts w \<and>
    w_state w' = w_state w \<and> only_in (in_dir base k_letters_dir \<union> named base k_seen_file) (w_io w) (w_io w') \<and>
    (\<forall>i. delivered S keep w i \<longrightarrow> delivered S keep w' i) \<and>
    (\<forall>l \<in> set (rs_letters r). delivered S keep w' (l_id l)) \<and>
    (\<forall>i \<in> set (sr_ring (w_seen w')). delivered S keep w' i)"
proof -
  note W = assms(1) [unfolded stores_open_def]
  from W obtain st dup ls sr d where a:
    "apply_letters (rs_letters r) 0 0 (w_letters w) (w_seen w) (w_io w) = (True, st, dup, ls, sr, d)" "script d = []"
    "letters_loaded base ls sr (files d)" "st + dup = length (rs_letters r)" "ls_count (w_letters w) \<le> ls_count ls"
    "only_in (in_dir base k_letters_dir \<union> named base k_seen_file) (w_io w) d"
    "\<And>i. find_meta (w_letters w) i \<noteq> None \<Longrightarrow> find_meta ls i \<noteq> None"
    "\<And>l. l \<in> set (rs_letters r) \<Longrightarrow> l_id l \<in> set (sr_ring (w_seen w)) \<or> find_meta ls (l_id l) \<noteq> None"
    "\<And>i. i \<in> set (sr_ring sr) \<Longrightarrow> i \<in> set (sr_ring (w_seen w)) \<or> find_meta ls i \<noteq> None"
    using apply_letters_no_faults [of "w_io w" base "w_letters w" "w_seen w" "rs_letters r" 0 0] assms(2,3) by fastforce
  note A = a(3) [unfolded letters_loaded_def]
  have ag: "ls_agrees ls (files d)" "ls_dir ls = join base k_letters_dir" using A by simp_all
  obtain n ls2 d2 where v: "evict_beyond keep ls d = (n, ls2, d2)" "script d2 = []" "ls_agrees ls2 (files d2)"
    "ls_dir ls2 = ls_dir ls" "only_in (in_dir base k_letters_dir) d d2" "ls2 = ls \<or> evict_keep keep \<le> ls_count ls2"
    using evict_beyond_no_faults [OF a(2) ag, of keep] by metis
  have L2: "letters_loaded base ls2 sr (files d2)" using A v(3,4) by (simp add: letters_loaded_def)
  define w' where "w' = w\<lparr>w_letters := if 0 < st then ls2 else ls, w_seen := sr, w_io := if 0 < st then d2 else d\<rparr>"
  have run: "step_letters keep r out w = (True, out\<lparr>oc_letters_stored := st, oc_letters_deduped := dup\<rparr>, w')"
    by (simp add: step_letters_def a(1) v(1) w'_def)
  have win: "in_window keep (w_letters w') i" if "find_meta ls i \<noteq> None \<or> evict_keep keep \<le> ls_count ls" for i
    using that v(6) by (auto simp: w'_def in_window_def)
  have mono: "delivered S keep w' i" if "delivered S keep w i" for i
    using that a(5,7) win [of i] by (auto simp: delivered_def in_window_def simp del: not_None_eq)
  have "stores_open base w'" using W a(2,3) v(2) L2 by (simp add: stores_open_def w'_def)
  moreover have "delivered S keep w' (l_id l)" if "l \<in> set (rs_letters r)" for l
    using a(8) [OF that] assms(4) mono win by (elim disjE) (blast, simp add: delivered_def)
  moreover have "delivered S keep w' i" if "i \<in> set (sr_ring (w_seen w'))" for i
  proof -
    have "i \<in> set (sr_ring (w_seen w)) \<or> find_meta ls i \<noteq> None" using that a(9) by (simp add: w'_def)
    then show ?thesis using assms(4) mono win by (elim disjE) (blast, simp add: delivered_def)
  qed
  moreover have "only_in (in_dir base k_letters_dir \<union> named base k_seen_file) (w_io w) (w_io w')"
    using a(6) only_in_trans [OF a(6) only_in_mono [OF v(5)]] by (simp add: w'_def)
  ultimately show ?thesis using run a(4) mono by (simp add: w'_def)
qed

lemma set_state_no_faults:
  assumes "stores_open base w" "dir_ok base"
  shows "\<exists>e. state_set f (w_state w) (w_io w) = (True, (w_state w)\<lparr>st_state := f (st_state (w_state w))\<rparr>, e) \<and>
    stores_open base (w\<lparr>w_state := (w_state w)\<lparr>st_state := f (st_state (w_state w))\<rparr>, w_io := e\<rparr>) \<and>
    cursor_on base (files e) = ss_cursor (f (st_state (w_state w)))"
proof -
  note W = assms(1) [unfolded stores_open_def]
  obtain e where s: "state_set f (w_state w) (w_io w) = (True, (w_state w)\<lparr>st_state := f (st_state (w_state w))\<rparr>, e)" "script e = []"
    using state_set_no_faults W by blast
  have p: "st_path (w_state w) = join base k_state_file" using W by simp
  have "letters_loaded base (w_letters w) (w_seen w) (files e)"
    by (rule letters_loaded_only [OF _ state_set_only [OF s(1) p assms(2)]]) (use W files_apart [OF assms(2)] in auto)
  with W s state_set_cursor_on [OF s(1) p] show ?thesis by (simp add: stores_open_def)
qed

lemma session_on_config_rest:
  "w_outbox (session_on_config c w) = w_outbox w" "w_contacts (session_on_config c w) = w_contacts w"
  "w_seen (session_on_config c w) = w_seen w" "w_letters (session_on_config c w) = w_letters w"
  "w_state (session_on_config c w) = w_state w"
  "sg_path (w_settings (session_on_config c w)) = sg_path (w_settings w)"
  by (simp_all add: session_on_config_def apply_config_def settings_commit_def Let_def split: prod.splits)

lemma session_on_config_open:
  assumes "stores_open base w" "dir_ok base"
  shows "stores_open base (session_on_config c w)"
proof -
  note W = assms(1) [unfolded stores_open_def]
  have p: "sg_path (w_settings w) = join base k_settings_file" using W by simp
  have "named base k_settings_file \<inter> in_dir base k_letters_dir = {}"
    using in_dir_named_apart [OF assms(2), of k_letters_dir k_settings_file] plain_names by blast
  then have "letters_loaded base (w_letters w) (w_seen w) (files (w_io (session_on_config c w)))"
    using letters_loaded_only [OF _ session_on_config_only(1) [OF p assms(2)]] W by blast
  moreover have "script (w_io (session_on_config c w)) = []" using session_on_config_no_faults W by blast
  ultimately show ?thesis using W by (simp add: stores_open_def session_on_config_rest)
qed

lemma apply_response_completes:
  assumes "stores_open base w" "dir_ok base" "dp_wired dp" "dp_on_config dp = session_on_config"
    and "\<forall>l \<in> set (rs_letters r). is_i64 (l_date l) \<and> name_is_safe (l_id l)"
    and "\<forall>i \<in> set (sr_ring (w_seen w)). delivered S (op_letters_keep (en_options en)) w i"
  shows "\<exists>out w'. apply_response dp en r w = (out, w') \<and> stores_open base w' \<and> \<not> oc_apply_incomplete out \<and>
    oc_letters_stored out + oc_letters_deduped out = length (rs_letters r) \<and>
    oc_acks_applied out = length (rs_acks r) \<and>
    ss_cursor (st_state (w_state w')) = rs_cursor r \<and> cursor_on base (files (w_io w')) = rs_cursor r \<and>
    set (sendable (w_outbox w')) = {x \<in> set (sendable (w_outbox w)). oe_local_id x \<notin> ack_local_id ` set (rs_acks r)} \<and>
    ay_snapshot (w_contacts w') = (case rs_ayllu r of None \<Rightarrow> ay_snapshot (w_contacts w) | Some a \<Rightarrow> a) \<and>
    (\<forall>i. delivered S (op_letters_keep (en_options en)) w i \<longrightarrow> delivered S (op_letters_keep (en_options en)) w' i) \<and>
    (\<forall>l \<in> set (rs_letters r). delivered S (op_letters_keep (en_options en)) w' (l_id l)) \<and>
    (\<forall>i \<in> set (sr_ring (w_seen w')). delivered S (op_letters_keep (en_options en)) w' i)"
proof -
  let ?keep = "op_letters_keep (en_options en)"
  note W = assms(1) [unfolded stores_open_def]
  define w0 where "w0 = step_clock r w"
  have w0: "w_io w0 = w_io w" "w_outbox w0 = w_outbox w" "w_letters w0 = w_letters w" "w_seen w0 = w_seen w"
    "w_state w0 = w_state w" "w_contacts w0 = w_contacts w" "w_settings w0 = w_settings w"
    by (simp_all add: w0_def step_clock_def)
  have o0: "stores_open base w0" using W by (simp add: stores_open_def w0)
  let ?out1 = "no_outcome\<lparr>oc_acks_applied := length (rs_acks r)\<rparr>"
  obtain w1 where acks: "step_acks r no_outcome w0 = (True, ?out1, w1)" and o1: "stores_open base w1"
    and sent: "set (sendable (w_outbox w1)) = {x \<in> set (sendable (w_outbox w)). oe_local_id x \<notin> ack_local_id ` set (rs_acks r)}"
    and m1: "w_letters w1 = w_letters w" "w_seen w1 = w_seen w" "w_contacts w1 = w_contacts w"
    using step_acks_no_faults [OF o0 assms(2), of r no_outcome] by (auto simp: w0)
  obtain w2 where y: "apply_ayllu (rs_ayllu r) w1 = (True, w2)" "stores_open base w2" "w_outbox w2 = w_outbox w1"
    "w_letters w2 = w_letters w" "w_seen w2 = w_seen w"
    "ay_snapshot (w_contacts w2) = (case rs_ayllu r of None \<Rightarrow> ay_snapshot (w_contacts w) | Some a \<Rightarrow> a)"
    using apply_ayllu_no_faults [OF o1 assms(2), of "rs_ayllu r", unfolded m1] by blast
  let ?out2 = "no_outcome\<lparr>oc_acks_applied := length (rs_acks r), oc_ayllu_updated := rs_ayllu r \<noteq> None\<rparr>"
  have d2: "delivered S ?keep w2 i = delivered S ?keep w i" for i by (simp add: delivered_def y(4))
  obtain out3 w3 where l: "step_letters ?keep r ?out2 w2 = (True, out3, w3)" "stores_open base w3"
    "oc_letters_stored out3 + oc_letters_deduped out3 = length (rs_letters r)"
    "oc_acks_applied out3 = length (rs_acks r)" "\<not> oc_apply_incomplete out3"
    "w_outbox w3 = w_outbox w1" "w_contacts w3 = w_contacts w2"
    "\<And>i. delivered S ?keep w i \<Longrightarrow> delivered S ?keep w3 i"
    "\<And>l. l \<in> set (rs_letters r) \<Longrightarrow> delivered S ?keep w3 (l_id l)"
    "\<And>i. i \<in> set (sr_ring (w_seen w3)) \<Longrightarrow> delivered S ?keep w3 i"
    using step_letters_no_faults [OF y(2) assms(2,5), of S ?keep ?out2] assms(6) unfolding d2 y(5)
    by (auto simp: y(3) no_outcome_def)
  obtain out4 w4 where c: "step_config dp r out3 w3 = (out4, w4)" by fastforce
  have out4: "oc_letters_stored out4 = oc_letters_stored out3" "oc_letters_deduped out4 = oc_letters_deduped out3"
    "oc_acks_applied out4 = oc_acks_applied out3" "oc_apply_incomplete out4 = oc_apply_incomplete out3"
    using c by (auto simp: step_config_def split: option.splits)
  have c4: "w4 = w3 \<or> (\<exists>k. w4 = session_on_config k w3)"
    using c assms(4) by (auto simp: step_config_def split: option.splits)
  have same4: "w_outbox w4 = w_outbox w1" "w_contacts w4 = w_contacts w2" "w_seen w4 = w_seen w3" "w_letters w4 = w_letters w3"
    using c4 session_on_config_rest l(6,7) by auto
  have o4: "stores_open base w4" using c4 l(2) session_on_config_open [OF l(2) assms(2)] by auto
  let ?f = "\<lambda>x. x\<lparr>ss_cursor := rs_cursor r\<rparr>"
  obtain d5 where s: "set_cursor (rs_cursor r) (w_state w4) (w_io w4) =
      (True, (w_state w4)\<lparr>st_state := ?f (st_state (w_state w4))\<rparr>, d5)"
    "stores_open base (w4\<lparr>w_state := (w_state w4)\<lparr>st_state := ?f (st_state (w_state w4))\<rparr>, w_io := d5\<rparr>)"
    "cursor_on base (files d5) = rs_cursor r"
    using set_state_no_faults [OF o4 assms(2), of ?f] unfolding setters by auto
  let ?w5 = "w4\<lparr>w_state := (w_state w4)\<lparr>st_state := ?f (st_state (w_state w4))\<rparr>, w_io := d5\<rparr>"
  have B: "apply_before_cursor dp en r w = (True, out4, w4)"
    by (simp add: apply_before_cursor_def Let_def w0_def [symmetric] acks y(1) l(1) c del: not_None_eq)
  have run: "apply_response dp en r w = (out4\<lparr>oc_more := rs_more r\<rparr>, ?w5)"
    using assms(3) by (simp add: apply_response_def B s(1))
  have d5: "delivered S ?keep ?w5 i = delivered S ?keep w3 i" for i by (simp add: delivered_def same4)
  show ?thesis
    using run s(2,3) l(3-5) l(8-10) out4 sent y(6)
    by (intro exI [of _ "out4\<lparr>oc_more := rs_more r\<rparr>"] exI [of _ ?w5]) (simp add: d5 same4)
qed

subsection \<open>The drain loop\<close>

text \<open>
  A network that carries these responses, one to an exchange, whatever is asked and whenever: each
  answer is a 200 with a body that decodes, and says there is more until the last.
\<close>

fun serves :: "(string \<Rightarrow> json option) \<Rightarrow> 'n network \<Rightarrow> response list \<Rightarrow> 'n \<Rightarrow> bool" where
  "serves parse net [] n \<longleftrightarrow> True"
| "serves parse net (r # rs) n \<longleftrightarrow> (rs_more r \<longleftrightarrow> rs \<noteq> []) \<and> (\<forall>b t. case net b t n of (res, t', n') \<Rightarrow>
     tr_outcome res = TrOk \<and> tr_http_status res = 200 \<and> decode_response parse (tr_body res) = Some (Some r) \<and>
     serves parse net rs n')"

definition letter_ids_safe :: "response \<Rightarrow> bool" where
  "letter_ids_safe r \<longleftrightarrow> (\<forall>l \<in> set (rs_letters r). name_is_safe (l_id l))"

lemma decoded_dates: "decode_response parse b = Some (Some r) \<Longrightarrow> l \<in> set (rs_letters r) \<Longrightarrow> is_i64 (l_date l)"
  using decode_tree_ok by (fastforce simp: decode_response_def Wire.response_ok_def split: option.splits)

lemma build_request_no_faults:
  assumes "script (w_io w) = []" "dp_wired dp"
  shows "\<exists>rq. build_request dp w = (rq, w)"
proof -
  have "\<exists>st. st_snapshot (w_state w) (w_io w) = (st, w_io w)"
    using assms(1) by (auto simp: st_snapshot_def read_all_no_faults split: option.splits)
  with assms(2) show ?thesis by (auto simp: build_request_def)
qed

text \<open>What a run of responses leaves, from a world \<open>w\<close> with an outcome \<open>out\<close>.\<close>

definition all_applied :: "string \<Rightarrow> string set \<Rightarrow> nat \<Rightarrow> response list \<Rightarrow> outcome \<Rightarrow> world \<Rightarrow> outcome \<Rightarrow> world \<Rightarrow> bool" where
  "all_applied base S keep rs out w out' w' \<longleftrightarrow> stores_open base w' \<and>
     oc_fault out' = oc_fault out \<and> \<not> oc_apply_incomplete out' \<and> oc_rounds out' = oc_rounds out + length rs \<and>
     oc_letters_stored out' + oc_letters_deduped out' =
       oc_letters_stored out + oc_letters_deduped out + sum_list (map (\<lambda>r. length (rs_letters r)) rs) \<and>
     ss_cursor (st_state (w_state w')) = rs_cursor (last rs) \<and> cursor_on base (files (w_io w')) = rs_cursor (last rs) \<and>
     set (sendable (w_outbox w')) =
       {x \<in> set (sendable (w_outbox w)). \<forall>r \<in> set rs. oe_local_id x \<notin> ack_local_id ` set (rs_acks r)} \<and>
     (\<forall>i. delivered S keep w i \<longrightarrow> delivered S keep w' i) \<and>
     (\<forall>r \<in> set rs. \<forall>l \<in> set (rs_letters r). delivered S keep w' (l_id l)) \<and>
     (\<forall>i \<in> set (sr_ring (w_seen w')). delivered S keep w' i)"

lemma round_completes:
  assumes "serves (dp_parse dp) net (r # rs) n" "letter_ids_safe r" "stores_open base w" "dir_ok base" "dp_wired dp"
    and "dp_on_config dp = session_on_config" "\<not> oc_apply_incomplete out" "oc_rounds out = rnd"
    and "\<forall>i \<in> set (sr_ring (w_seen w)). delivered S (op_letters_keep (en_options en)) w i"
  shows "\<exists>out' w' n'. drain_round dp net rnd out ap en w n = Some (rs \<noteq> [], out', True, en, w', n') \<and>
    serves (dp_parse dp) net rs n' \<and> all_applied base S (op_letters_keep (en_options en)) [r] out w out' w'"
proof -
  let ?keep = "op_letters_keep (en_options en)"
  have "script (w_io w) = []" using assms(3) by (simp add: stores_open_def)
  then obtain rq where b: "build_request dp w = (rq, w)" using build_request_no_faults assms(5) by blast
  obtain res now n1 where x: "net (encode_request (dp_print dp) rq) (ck_now (w_clock w)) n = (res, now, n1)"
    using prod_cases3 by blast
  have a: "tr_outcome res = TrOk \<and> tr_http_status res = 200 \<and> decode_response (dp_parse dp) (tr_body res) = Some (Some r) \<and>
      serves (dp_parse dp) net rs n1" "rs_more r \<longleftrightarrow> rs \<noteq> []"
    using assms(1) x by (auto split: prod.splits)
  let ?w1 = "w\<lparr>w_clock := (w_clock w)\<lparr>ck_now := now\<rparr>\<rparr>"
  have o1: "stores_open base ?w1" using assms(3) by (simp add: stores_open_def)
  have d1: "delivered S ?keep ?w1 i = delivered S ?keep w i" for i by (simp add: delivered_def)
  have ls: "\<forall>l \<in> set (rs_letters r). is_i64 (l_date l) \<and> name_is_safe (l_id l)"
    using a(1) decoded_dates assms(2) unfolding letter_ids_safe_def by blast
  have ring: "\<forall>i \<in> set (sr_ring (w_seen ?w1)). delivered S ?keep ?w1 i" using assms(9) d1 by simp
  obtain o2 w2 where R: "apply_response dp en r ?w1 = (o2, w2)" "stores_open base w2" "\<not> oc_apply_incomplete o2"
    "oc_letters_stored o2 + oc_letters_deduped o2 = length (rs_letters r)"
    "ss_cursor (st_state (w_state w2)) = rs_cursor r" "cursor_on base (files (w_io w2)) = rs_cursor r"
    "set (sendable (w_outbox w2)) = {x \<in> set (sendable (w_outbox w)). oe_local_id x \<notin> ack_local_id ` set (rs_acks r)}"
    "\<And>i. delivered S ?keep w i \<Longrightarrow> delivered S ?keep w2 i"
    "\<And>l. l \<in> set (rs_letters r) \<Longrightarrow> delivered S ?keep w2 (l_id l)"
    "\<And>i. i \<in> set (sr_ring (w_seen w2)) \<Longrightarrow> delivered S ?keep w2 i"
    using apply_response_completes [OF o1 assms(4-6) ls ring] unfolding d1 by auto
  have f: "fault_for res = kNone" using a(1) by (simp add: fault_for_def)
  let ?out = "out\<lparr>oc_rounds := rnd + 1, oc_letters_stored := oc_letters_stored out + oc_letters_stored o2,
    oc_letters_deduped := oc_letters_deduped out + oc_letters_deduped o2,
    oc_acks_applied := oc_acks_applied out + oc_acks_applied o2,
    oc_ayllu_updated := oc_ayllu_updated out \<or> oc_ayllu_updated o2,
    oc_config_updated := oc_config_updated out \<or> oc_config_updated o2, oc_more := rs_more r\<rparr>"
  have run: "drain_round dp net rnd out ap en w n = Some (rs \<noteq> [], ?out, True, en, w2, n1)"
    using a R(3) by (simp add: drain_round_def Let_def b x f R(1))
  have "all_applied base S ?keep [r] out w ?out w2"
    using R assms(7,8) by (simp add: all_applied_def)
  with run a(1) show ?thesis by blast
qed

lemma all_applied_trans:
  assumes "all_applied base S keep rs out w out1 w1" "all_applied base S keep rs' out1 w1 out2 w2" "rs' \<noteq> []"
  shows "all_applied base S keep (rs @ rs') out w out2 w2"
  using assms by (auto simp: all_applied_def)

lemma drain_completes:
  assumes "serves (dp_parse dp) net rs n" "rs \<noteq> []" "length rs \<le> left" "\<forall>r \<in> set rs. letter_ids_safe r"
    and "stores_open base w" "dir_ok base" "dp_wired dp" "dp_on_config dp = session_on_config"
    and "\<not> oc_apply_incomplete out" "oc_rounds out = rnd"
    and "\<forall>i \<in> set (sr_ring (w_seen w)). delivered S (op_letters_keep (en_options en)) w i"
  shows "\<exists>out' w' n'. drain dp net left rnd out ap en w n = Some (out', True, en, w', n') \<and>
    all_applied base S (op_letters_keep (en_options en)) rs out w out' w'"
  using assms
proof (induction rs arbitrary: left rnd out ap w n)
  case (Cons r rs)
  let ?all = "all_applied base S (op_letters_keep (en_options en))"
  obtain m where m: "left = Suc m" "length rs \<le> m" using Cons.prems(3) by (cases left) auto
  have "letter_ids_safe r" using Cons.prems(4) by simp
  from round_completes [OF Cons.prems(1) this Cons.prems(5-10), of S en ap] Cons.prems(11)
  obtain out1 w1 n1 where R: "drain_round dp net rnd out ap en w n = Some (rs \<noteq> [], out1, True, en, w1, n1)"
    "serves (dp_parse dp) net rs n1" "?all [r] out w out1 w1" by blast
  show ?case
  proof (cases "rs = []")
    case True
    with R(1,3) m show ?thesis by simp
  next
    case False
    note A = R(3) [unfolded all_applied_def]
    have "\<forall>r \<in> set rs. letter_ids_safe r" using Cons.prems(4) by simp
    from Cons.IH [OF R(2) False m(2) this _ Cons.prems(6-8), of w1 out1 "rnd + 1" True] A Cons.prems(10)
    obtain out' w' n' where I: "drain dp net m (rnd + 1) out1 True en w1 n1 = Some (out', True, en, w', n')"
      "?all rs out1 w1 out' w'" by auto
    from all_applied_trans [OF R(3) I(2) False] I(1) R(1) False m show ?thesis by simp
  qed
qed simp

lemma run_once_completes:
  assumes "serves (dp_parse dp) net rs n" "rs \<noteq> []" "length rs \<le> drain_cap en" "\<forall>r \<in> set rs. letter_ids_safe r"
    and "stores_open base w" "dir_ok base" "dp_wired dp" "dp_on_config dp = session_on_config"
    and "\<forall>i \<in> set (sr_ring (w_seen w)). delivered S (op_letters_keep (en_options en)) w i"
  shows "\<exists>out en' w' n'. run_once dp net t en w n = Some (out, en', w', n') \<and> next_backoff_ms en' = 0 \<and>
    all_applied base S (op_letters_keep (en_options en)) rs no_outcome w out w'"
proof -
  let ?all = "all_applied base S (op_letters_keep (en_options en)) rs no_outcome w"
  define en0 where "en0 = (if t = kUserKey then reset_backoff en else en)"
  have opt: "en_options en0 = en_options en" "drain_cap en0 = drain_cap en" by (simp_all add: en0_def drain_cap_def)
  have "\<not> oc_apply_incomplete no_outcome" "oc_rounds no_outcome = 0" by (simp_all add: no_outcome_def)
  from drain_completes [OF assms(1,2) _ assms(4-8) this, of "drain_cap en0" S en0 False] assms(3,9)
  obtain out w1 n' where D: "drain dp net (drain_cap en0) 0 no_outcome False en0 w n = Some (out, True, en0, w1, n')"
    "?all out w1" unfolding opt by auto
  note A = D(2) [unfolded all_applied_def]
  have "oc_fault out = kNone" using A by (simp add: no_outcome_def)
  then have run: "run_once dp net t en w n = (if ck_valid (w_clock w1)
      then let (_, st, d) = set_last_sync_at (now_epoch (w_clock w1)) (w_state w1) (w_io w1)
           in Some (out, reset_backoff en0, w1\<lparr>w_state := st, w_io := d\<rparr>, n')
      else Some (out, reset_backoff en0, w1, n'))"
    using assms(7) by (simp add: run_once_def Let_def en0_def [symmetric] D(1))
  let ?f = "\<lambda>x. x\<lparr>ss_last_sync_at := now_epoch (w_clock w1)\<rparr>"
  have "stores_open base w1" using A by simp
  from set_state_no_faults [OF this assms(6), of ?f] obtain e where
    e: "set_last_sync_at (now_epoch (w_clock w1)) (w_state w1) (w_io w1) =
        (True, (w_state w1)\<lparr>st_state := ?f (st_state (w_state w1))\<rparr>, e)"
      "stores_open base (w1\<lparr>w_state := (w_state w1)\<lparr>st_state := ?f (st_state (w_state w1))\<rparr>, w_io := e\<rparr>)"
      "cursor_on base (files e) = ss_cursor (st_state (w_state w1))"
    unfolding setters by auto
  have "?all out (w1\<lparr>w_state := (w_state w1)\<lparr>st_state := ?f (st_state (w_state w1))\<rparr>, w_io := e\<rparr>)"
    using A e(2,3) by (simp add: all_applied_def delivered_def)
  with run e(1) D(2) next_backoff_reset show ?thesis by (cases "ck_valid (w_clock w1)") simp_all
qed

lemma load_token_keeps:
  "se_io (load_device_token api s) = se_io s" "se_stores (load_device_token api s) = se_stores s"
  by (simp_all add: load_device_token_def Let_def split: prod.splits)

lemma build_engine_engine:
  "se_engine (build_engine api dev s) = Some en \<Longrightarrow> en = new_engine default_options \<and> se_transport (build_engine api dev s) \<noteq> None"
  by (auto simp: build_engine_def Let_def split: if_splits prod.splits)

subsection \<open>From a power cut to a finished sync\<close>

lemma seen_compact_no_faults:
  assumes "script d = []" "sr_path s = join base k_seen_file" "dir_ok base"
  shows "\<exists>e. seen_compact s d = (True, s\<lparr>sr_lines := length (sr_ring s)\<rparr>, e) \<and> script e = [] \<and> only_in (named base k_seen_file) d e"
proof -
  obtain e where w: "write_atomic (sr_path s) (concat (map (\<lambda>i. i @ [newline]) (sr_ring s))) d = (True, e)" "script e = []"
    using write_atomic_no_faults [OF assms(1)] by blast
  with write_named [OF w(1) [unfolded assms(2)] assms(3) plain_names(4)] show ?thesis
    by (simp add: seen_compact_def)
qed

lemma seen_load_no_faults:
  assumes "script d = []" "sr_path s = join base k_seen_file" "dir_ok base"
  shows "\<exists>s' d'. seen_load s d = (s', d') \<and> script d' = [] \<and> sr_path s' = sr_path s \<and> only_in (named base k_seen_file) d d'"
proof (cases "lookup (files d) (sr_path s)")
  case None
  then show ?thesis using assms(1) by (simp add: seen_load_def read_all_no_faults)
next
  case (Some f)
  let ?lines = "split_complete_lines (content f)"
  define s1 where "s1 = s\<lparr>sr_lines := length ?lines, sr_ring := load_ring (sr_ring s)
    (drop (if sr_capacity s < length ?lines then length ?lines - sr_capacity s else 0) ?lines)\<rparr>"
  have p: "sr_path s1 = sr_path s" by (simp add: s1_def)
  obtain e where c: "seen_compact s1 d = (True, s1\<lparr>sr_lines := length (sr_ring s1)\<rparr>, e)" "script e = []"
    "only_in (named base k_seen_file) d e"
    using seen_compact_no_faults [OF assms(1) p [unfolded assms(2)] assms(3)] by blast
  have "seen_load s d = (if sr_capacity s1 + seen_slack s1 < sr_lines s1
      then let (_, s, d) = seen_compact s1 d in (s, d) else (s1, d))"
    unfolding seen_load_def read_all_no_faults [OF assms(1)] Some option.map option.case prod.case Let_def s1_def [symmetric]
    by (simp add: s1_def)
  then show ?thesis using assms(1) p c by (cases "sr_capacity s1 + seen_slack s1 < sr_lines s1") simp_all
qed

lemma opened_outbox:
  assumes "script d = []" "distinct (map fst (files d))" "dir_ok base"
  shows "\<exists>s. open_outbox base d = (s, d) \<and> outbox_loaded base s"
proof -
  obtain s e where o: "open_outbox base d = (s, e)" by fastforce
  note S = open_outbox_spec [OF o assms(1,3,2)]
  have "name_is_safe (oe_local_id x)" if "x \<in> set (ox_entries s)" for x
  proof -
    have "outbox_on (join base k_outbox_dir) (files d) (oe_local_id x) = Some x"
      using S(5) [OF that] by (simp add: ox_on_def)
    from outbox_on_safe [OF this] show ?thesis by simp
  qed
  moreover have "ox_dir s = join base k_outbox_dir" using S(2) by (simp add: ox_rooted_def)
  moreover have "distinct (map oe_local_id (ox_entries s))" using S(4) unfolding ox_agrees_def by blast
  ultimately have "outbox_loaded base s" by (simp add: outbox_loaded_def)
  with S(1) o show ?thesis by blast
qed

lemma letter_root_ok: "dir_ok k_letter_root" by (simp add: dir_ok_def k_letter_root_def slash_def)

lemma opened_stores:
  assumes "script (se_io s) = []" "distinct (map fst (files (se_io s)))"
  shows "\<exists>st. se_stores (open_stores s) = Some st \<and> stores_open k_letter_root (session_world st (open_stores s)) \<and>
    only_in (named k_letter_root k_seen_file) (se_io s) (se_io (open_stores s)) \<and>
    ss_cursor (st_state (so_state st)) = cursor_on k_letter_root (files (se_io (open_stores s)))"
proof -
  let ?r = k_letter_root and ?d = "se_io s"
  note root = letter_root_ok
  obtain ls e where "open_letter_store ?r ?d = (ls, e)" by fastforce
  then have l: "open_letter_store ?r ?d = (ls, ?d)" "ls_agrees ls (files ?d)" "ls_dir ls = join ?r k_letters_dir"
    using open_agrees [OF _ assms root] by auto
  obtain ox where o: "open_outbox ?r ?d = (ox, ?d)" "outbox_loaded ?r ox"
    using opened_outbox [OF assms root] by blast
  let ?new = "\<lparr>sr_path = join ?r k_seen_file, sr_capacity = max k_min_seen_ids k_min_seen_ids, sr_lines = 0, sr_ring = []\<rparr>"
  obtain sr d' where sr: "seen_load ?new ?d = (sr, d')" "script d' = []" "sr_path sr = join ?r k_seen_file"
    "only_in (named ?r k_seen_file) ?d d'"
    using seen_load_no_faults [OF assms(1), of ?new ?r] root by auto
  have open_sr: "open_seen_ring ?r k_min_seen_ids ?d = (sr, d')" using sr(1) by (simp add: open_seen_ring_def)
  have rd: "read_all p d' = (map_option content (lookup (files d') p), d')" for p
    by (rule read_all_no_faults [OF sr(2)])
  obtain st where st: "open_state_store ?r d' = (st, d')" "st_path st = join ?r k_state_file"
    by (simp add: open_state_store_def rd)
  have cur: "ss_cursor (st_state st) = cursor_on ?r (files d')"
    using open_state_slot [OF sr(2), of ?r] st(1) by (simp add: cursor_on_def)
  obtain sg where sg: "open_settings_store ?r d' = (sg, d')" "sg_path sg = join ?r k_settings_file"
    by (simp add: open_settings_store_def rd)
  obtain dr where dr: "open_draft_store ?r d' = (dr, d')"
    by (cases "lookup (files d') (join ?r k_draft_file)") (simp_all add: open_draft_store_def draft_load_def rd)
  obtain ct where ct: "open_ayllu ?r d' = (ct, d')" "ay_snapshot_path ct = join ?r k_snapshot_file"
    by (simp add: open_ayllu_def rd)
  have "ls_agrees ls (files d')"
    using ls_agrees_cong(1) [OF only_in_files [OF sr(4)] l(3) letters_not_seen [OF root]] l(2) by simp
  then have "letters_loaded ?r ls sr (files d')" using l(3) sr(3) by (simp add: letters_loaded_def)
  with o(2) sr(2,4) st(2) sg(2) ct(2) cur show ?thesis
    by (simp add: open_stores_def Let_def l(1) o(1) open_sr st(1) sg(1) dr ct(1) session_world_def stores_open_def)
qed

lemma session_opened:
  assumes "session_open api dev s0 = (True, s)" "se_engine s = Some en" "se_stores s = Some st"
    and "ve_littlefs_register api (se_io s0) = (True, d)" "script d = []" "distinct (map fst (files d))"
  shows "stores_open k_letter_root (session_world st s)" "en = new_engine default_options" "se_transport s \<noteq> None"
    "only_in (named k_letter_root k_seen_file) d (se_io s)"
    "ss_cursor (st_state (so_state st)) = cursor_on k_letter_root (files (se_io s))"
proof -
  obtain v where s: "s = build_engine api dev (load_device_token api (open_stores (s0\<lparr>se_vendor := v, se_io := d, se_fs_mounted := True\<rparr>)))"
    using assms(1,4) by (auto simp: session_open_def Let_def split: prod.splits if_splits)
  define s1 where "s1 = s0\<lparr>se_vendor := v, se_io := d, se_fs_mounted := True\<rparr>"
  obtain st1 where op: "se_stores (open_stores s1) = Some st1" "stores_open k_letter_root (session_world st1 (open_stores s1))"
    "only_in (named k_letter_root k_seen_file) d (se_io (open_stores s1))"
    "ss_cursor (st_state (so_state st1)) = cursor_on k_letter_root (files (se_io (open_stores s1)))"
    using opened_stores [of s1] assms(5,6) by (auto simp: s1_def)
  have "se_stores s = Some st1" "se_io s = se_io (open_stores s1)"
    using s op(1) by (simp_all add: s1_def [symmetric] build_engine_keeps load_token_keeps)
  with op(2-4) assms(3) show "stores_open k_letter_root (session_world st s)"
    "only_in (named k_letter_root k_seen_file) d (se_io s)"
    "ss_cursor (st_state (so_state st)) = cursor_on k_letter_root (files (se_io s))"
    by (simp_all add: stores_open_def session_world_def)
  show "en = new_engine default_options" "se_transport s \<noteq> None"
    using assms(2) build_engine_engine s by metis+
qed

lemma delivered_on:
  assumes "stores_open base w" "delivered S k_default_letters_keep w i"
  shows "i \<in> S \<or> letters_on (join base k_letters_dir) (files (w_io w)) i \<noteq> None \<or> k_default_letters_keep \<le> ls_count (w_letters w)"
proof -
  have "ls_agrees (w_letters w) (files (w_io w))" "ls_dir (w_letters w) = join base k_letters_dir"
    using assms(1) by (simp_all add: stores_open_def letters_loaded_def)
  then have "letters_on (join base k_letters_dir) (files (w_io w)) i \<noteq> None" if "find_meta (w_letters w) i \<noteq> None"
    using that by (auto simp: ls_agrees_def)
  with assms(2) show ?thesis
    unfolding delivered_def in_window_def by (elim disjE) (simp_all add: evict_keep_def k_default_letters_keep_def)
qed

text \<open>
  C2: What a power cut interrupted, the next sync finishes. Whatever files a cut or earlier faults left
  behind, boot on them with a card that now answers, and let a server answer one sync with any responses
  that decode, up to ten of them, whose letter ids are safe names. The sync of that boot makes exactly
  those exchanges and ends without a fault and complete: every letter of them was stored or recognised,
  and is in the window unless the ring knew it at boot or the window is full; no acknowledged letter is
  still to be sent; the cursor on the medium is the last response's, and the radio waits for nothing but
  the next scheduled wake.\<close>

theorem next_sync_finishes:
  assumes "session_open api dev s0 = (True, s)" "se_engine s = Some en" "se_stores s = Some st"
    and "ve_littlefs_register api (se_io s0) = (True, d)" "script d = []" "distinct (map fst (files d))"
    and "serves parse net rs n" "rs \<noteq> []" "length rs \<le> 10" "\<forall>r \<in> set rs. letter_ids_safe r"
  shows "case run_sync api parse print net t s n of None \<Rightarrow> False | Some (rep, s', _) \<Rightarrow>
    (case se_stores s' of None \<Rightarrow> False | Some st' \<Rightarrow> re_attempted rep \<and> re_backoff_ms rep = 0 \<and> oc_fault (re_outcome rep) = kNone \<and>
    \<not> oc_apply_incomplete (re_outcome rep) \<and> oc_rounds (re_outcome rep) = length rs \<and>
    oc_letters_stored (re_outcome rep) + oc_letters_deduped (re_outcome rep) = sum_list (map (\<lambda>r. length (rs_letters r)) rs) \<and>
    (\<forall>r \<in> set rs. \<forall>l \<in> set (rs_letters r). seen_contains (so_seen st) (l_id l) \<or>
       letters_on (join k_letter_root k_letters_dir) (files (se_io s')) (l_id l) \<noteq> None \<or>
       k_default_letters_keep \<le> ls_count (so_letters st')) \<and>
    (\<forall>r \<in> set rs. \<forall>a \<in> set (rs_acks r). \<forall>x \<in> set (sendable (so_outbox st')). oe_local_id x \<noteq> ack_local_id a) \<and>
    cursor_on k_letter_root (files (se_io s')) = rs_cursor (last rs))"
proof -
  let ?r = k_letter_root
  note O = session_opened [OF assms(1-6)]
  have opt: "drain_cap en = 10" "op_letters_keep (en_options en) = k_default_letters_keep" "next_backoff_ms en = 0"
    by (simp_all add: O(2) new_engine_def default_options_def drain_cap_def next_backoff_ms_def k_backoff_next_scheduled_wake_def)
  let ?dp = "session_deps api parse print s" and ?w = "session_world st s" and ?S = "set (sr_ring (so_seen st))"
  have dp: "dp_wired ?dp" "dp_on_config ?dp = session_on_config" "dp_parse ?dp = parse"
    using O(3) assms(3) by (simp_all add: session_deps_def)
  have sv: "serves (dp_parse ?dp) net rs n" and len: "length rs \<le> drain_cap en" using assms(7,9) dp(3) opt(1) by simp_all
  have ring: "\<forall>i \<in> set (sr_ring (w_seen ?w)). delivered ?S (op_letters_keep (en_options en)) ?w i"
    by (simp add: delivered_def session_world_def)
  obtain out en' w' n' where R: "run_once ?dp net t en ?w n = Some (out, en', w', n')" "next_backoff_ms en' = 0"
    "all_applied ?r ?S k_default_letters_keep rs no_outcome ?w out w'"
    using run_once_completes [OF sv assms(8) len assms(10) O(1) letter_root_ok dp(1,2) ring, of t, unfolded opt(2)] by blast
  note A = R(3) [unfolded all_applied_def]
  have run: "run_sync api parse print net t s n = Some (no_report\<lparr>re_attempted := True, re_outcome := out, re_backoff_ms := 0\<rparr>,
      (put_world w' st s)\<lparr>se_engine := Some en'\<rparr>, n')"
    using R(1,2) opt(3) by (simp add: run_sync_def assms(2,3) k_backoff_halted_def)
  have letters: "seen_contains (so_seen st) (l_id l) \<or> letters_on (join ?r k_letters_dir) (files (w_io w')) (l_id l) \<noteq> None \<or>
      k_default_letters_keep \<le> ls_count (w_letters w')" if "r \<in> set rs" "l \<in> set (rs_letters r)" for r l
    using A delivered_on [of ?r w' ?S "l_id l"] that unfolding seen_contains_def by blast
  show ?thesis
    using A letters by (auto simp: run put_world_def no_report_def no_outcome_def simp del: not_None_eq)
qed

text \<open>A card whose last append to the ring was cut, and a server with one letter for it.\<close>

definition torn_card :: io where
  "torn_card = \<lparr>files = [(join k_letter_root k_seen_file, whole (as_lines [''n1''] @ ''n''))], trail = [], script = []\<rparr>"

definition one_letter :: response where
  "one_letter = \<lparr>rs_server_time = 0, rs_cursor = ''c1'', rs_pututu_counter = 0, rs_acks = [],
     rs_letters = [\<lparr>l_id = ''n2'', l_contact_id = [], l_subject = [], l_date = 7, l_body = ''hola'',
       l_trimmed = False, l_truncated = False, l_degraded = False\<rparr>],
     rs_more = False, rs_ayllu = None, rs_config = None\<rparr>"

definition one_letter_parse :: "string \<Rightarrow> json option" where
  "one_letter_parse b = Some (JObj [(''cursor'', JStr ''c1''), (''letters'', JArr [JObj [(''id'', JStr ''n2''),
     (''date'', JNum 7 7), (''body'', JStr ''hola'')]])])"

definition good_answer :: "unit network" where
  "good_answer body now n = (\<lparr>tr_outcome = TrOk, tr_http_status = 200, tr_body = [], tr_retry_after_s = 0\<rparr>, now + 1, n)"

lemma one_letter_decoded: "decode_response one_letter_parse b = Some (Some one_letter)"
  by (simp add: decode_response_def one_letter_parse_def decode_tree_def one_letter_def
      is_object_def reader_defs trunc_rat_def is_i64_def decode_letter_def)

lemma one_letter_served: "serves one_letter_parse good_answer [one_letter] ()"
  by (simp add: good_answer_def one_letter_decoded) (simp add: one_letter_def)

lemma one_string_boot:
  "session_open one_string_vendor dev s0 = (True, build_engine one_string_vendor dev
     (load_device_token one_string_vendor (open_stores (s0\<lparr>se_fs_mounted := True\<rparr>))))"
  by (simp add: session_open_def Let_def) (simp add: one_string_vendor_def)

lemma one_string_engine: "se_engine (build_engine one_string_vendor True s) = Some (new_engine default_options)"
  by (simp add: build_engine_def Let_def) (simp add: one_string_vendor_def)

lemma next_sync_finishes_witness:
  "\<exists>s. session_open one_string_vendor True (new_session [] torn_card 0) = (True, s) \<and>
     (case run_sync one_string_vendor one_letter_parse (\<lambda>_. []) good_answer kScheduled s () of None \<Rightarrow> False
      | Some (rep, s', _) \<Rightarrow> cursor_on k_letter_root (files (se_io s')) = ''c1'' \<and> oc_rounds (re_outcome rep) = 1)"
proof -
  let ?boot = "new_session [] torn_card 0"
  let ?s = "snd (session_open one_string_vendor True ?boot)"
  have o: "session_open one_string_vendor True ?boot = (True, ?s)" "se_engine ?s = Some (new_engine default_options)"
    by (simp_all only: one_string_boot snd_conv one_string_engine)
  obtain st where st: "se_stores ?s = Some st"
    using opened_stores [of "?boot\<lparr>se_fs_mounted := True\<rparr>"]
    by (auto simp: one_string_boot build_engine_keeps load_token_keeps new_session_def torn_card_def)
  have c: "ve_littlefs_register one_string_vendor (se_io ?boot) = (True, torn_card)" "script torn_card = []"
    "distinct (map fst (files torn_card))"
    by (simp_all add: one_string_vendor_def new_session_def torn_card_def)
  have r: "[one_letter] \<noteq> []" "length [one_letter] \<le> 10" "\<forall>r \<in> set [one_letter]. letter_ids_safe r"
    by (simp_all add: letter_ids_safe_def one_letter_def name_is_safe_def name_char_ok_def)
  from next_sync_finishes [OF o(1,2) st c one_letter_served r, where t = kScheduled and print = "\<lambda>_. []"]
  have "case run_sync one_string_vendor one_letter_parse (\<lambda>_. []) good_answer kScheduled ?s () of None \<Rightarrow> False
      | Some (rep, s', _) \<Rightarrow> cursor_on k_letter_root (files (se_io s')) = ''c1'' \<and> oc_rounds (re_outcome rep) = 1"
    by (auto simp: one_letter_def split: option.splits prod.splits)
  with o(1) show ?thesis by blast
qed

end
