(* ===== verification/Sync_Cut.thy ===== *)
theory Sync_Cut
  imports Sync_Recovery
begin

text \<open>
  The restart a development build can arm inside a sync: \<^verbatim>\<open>Hook\<close> of \<^verbatim>\<open>components/syncengine/syncengine.cpp\<close> at the
  numbered steps of \<^verbatim>\<open>ApplyResponse\<close>, the hook \<^verbatim>\<open>main/session.cpp\<close> installs, and \<^verbatim>\<open>RunSync\<close> under it. A run that
  restarts ends in \<open>Inl\<close> with the medium of that moment; the memory is gone. The theorems show that an unarmed
  hook changes nothing and that a restart at any step leaves the old cursor.
\<close>

subsection \<open>The hook\<close>

definition hook_cuts :: "int \<Rightarrow> int \<Rightarrow> bool" where
  "hook_cuts cut_at step \<longleftrightarrow> \<not> (cut_at \<le> 0 \<or> step \<noteq> cut_at)"

definition apply_response_cut :: "int \<Rightarrow> deps \<Rightarrow> engine \<Rightarrow> response \<Rightarrow> world \<Rightarrow> io + outcome \<times> world" where
  "apply_response_cut cut_at dp en r w =
     (if \<not> dp_wired dp then Inr (no_outcome\<lparr>oc_apply_incomplete := True\<rparr>, w)
      else if hook_cuts cut_at 1 then Inl (w_io w)
      else let w = step_clock r w
      in if hook_cuts cut_at 2 then Inl (w_io w)
      else let (ok, out, w) = step_acks r no_outcome w
      in if \<not> ok then Inr (out\<lparr>oc_apply_incomplete := True\<rparr>, w)
      else if hook_cuts cut_at 3 then Inl (w_io w)
      else let (ok, w) = apply_ayllu (rs_ayllu r) w
      in if \<not> ok then Inr (out\<lparr>oc_apply_incomplete := True\<rparr>, w)
      else let out = out\<lparr>oc_ayllu_updated := rs_ayllu r \<noteq> None\<rparr>
      in if hook_cuts cut_at 4 then Inl (w_io w)
      else let (ok, out, w) = step_letters (op_letters_keep (en_options en)) r out w
      in if \<not> ok then Inr (out\<lparr>oc_apply_incomplete := True\<rparr>, w)
      else if hook_cuts cut_at 5 then Inl (w_io w)
      else let (out, w) = step_config dp r out w
      in if hook_cuts cut_at 6 then Inl (w_io w)
      else let (ok, st, d) = set_cursor (rs_cursor r) (w_state w) (w_io w);
               w = w\<lparr>w_state := st, w_io := d\<rparr>
      in if \<not> ok then Inr (out\<lparr>oc_apply_incomplete := True\<rparr>, w)
      else Inr (out\<lparr>oc_more := rs_more r\<rparr>, w))"

subsection \<open>A sync under the hook\<close>

definition drain_round_cut ::
  "int \<Rightarrow> deps \<Rightarrow> 'n network \<Rightarrow> nat \<Rightarrow> outcome \<Rightarrow> bool \<Rightarrow> engine \<Rightarrow> world \<Rightarrow> 'n \<Rightarrow>
   (io + bool \<times> outcome \<times> bool \<times> engine \<times> world \<times> 'n) option" where
  "drain_round_cut cut_at dp net rnd out applied_any en w n =
     (let (rq, w) = build_request dp w;
          (res, now, n) = net (encode_request (dp_print dp) rq) (ck_now (w_clock w)) n;
          w = w\<lparr>w_clock := (w_clock w)\<lparr>ck_now := now\<rparr>\<rparr>;
          out = out\<lparr>oc_rounds := rnd + 1\<rparr>;
          f = fault_for res
      in if f \<noteq> kNone
         then Some (Inr (False, out\<lparr>oc_fault := f\<rparr>, applied_any, note_failure f (tr_retry_after_s res) en, w, n))
      else case decode_response (dp_parse dp) (tr_body res) of
        None \<Rightarrow> None
      | Some None \<Rightarrow>
          Some (Inr (False, out\<lparr>oc_fault := kServerFault\<rparr>, applied_any, note_failure kServerFault 0 en, w, n))
      | Some (Some resp) \<Rightarrow> (case apply_response_cut cut_at dp en resp w of
          Inl d \<Rightarrow> Some (Inl d)
        | Inr (ap, w) \<Rightarrow>
          let out = out\<lparr>oc_letters_stored := oc_letters_stored out + oc_letters_stored ap,
                        oc_letters_deduped := oc_letters_deduped out + oc_letters_deduped ap,
                        oc_acks_applied := oc_acks_applied out + oc_acks_applied ap,
                        oc_ayllu_updated := oc_ayllu_updated out \<or> oc_ayllu_updated ap,
                        oc_config_updated := oc_config_updated out \<or> oc_config_updated ap,
                        oc_more := rs_more resp\<rparr>
          in if oc_apply_incomplete ap
             then Some (Inr (False, out\<lparr>oc_apply_incomplete := True\<rparr>, True, en, w, n))
             else Some (Inr (rs_more resp, out, True, en, w, n))))"

fun drain_cut ::
  "int \<Rightarrow> deps \<Rightarrow> 'n network \<Rightarrow> nat \<Rightarrow> nat \<Rightarrow> outcome \<Rightarrow> bool \<Rightarrow> engine \<Rightarrow> world \<Rightarrow> 'n \<Rightarrow>
   (io + outcome \<times> bool \<times> engine \<times> world \<times> 'n) option" where
  "drain_cut cut_at dp net 0 rnd out applied_any en w n = Some (Inr (out, applied_any, en, w, n))"
| "drain_cut cut_at dp net (Suc left) rnd out applied_any en w n =
     (case drain_round_cut cut_at dp net rnd out applied_any en w n of
        None \<Rightarrow> None
      | Some (Inl d) \<Rightarrow> Some (Inl d)
      | Some (Inr (go_on, out, applied_any, en, w, n)) \<Rightarrow>
          if go_on then drain_cut cut_at dp net left (rnd + 1) out applied_any en w n
          else Some (Inr (out, applied_any, en, w, n)))"

definition run_once_cut ::
  "int \<Rightarrow> deps \<Rightarrow> 'n network \<Rightarrow> trigger \<Rightarrow> engine \<Rightarrow> world \<Rightarrow> 'n \<Rightarrow> (io + outcome \<times> engine \<times> world \<times> 'n) option" where
  "run_once_cut cut_at dp net t en w n =
     (if \<not> dp_wired dp then Some (Inr (no_outcome\<lparr>oc_apply_incomplete := True\<rparr>, en, w, n))
      else let en = (if t = kUserKey then reset_backoff en else en)
      in case drain_cut cut_at dp net (drain_cap en) 0 no_outcome False en w n of
           None \<Rightarrow> None
         | Some (Inl d) \<Rightarrow> Some (Inl d)
         | Some (Inr (out, applied_any, en, w, n)) \<Rightarrow>
             let en = (if oc_fault out = kNone then reset_backoff en else en)
             in if applied_any \<and> ck_valid (w_clock w)
                then let (_, st, d) = set_last_sync_at (now_epoch (w_clock w)) (w_state w) (w_io w)
                     in Some (Inr (out, en, w\<lparr>w_state := st, w_io := d\<rparr>, n))
                else Some (Inr (out, en, w, n)))"

definition run_sync_cut ::
  "int \<Rightarrow> 'v vendor_api \<Rightarrow> (string \<Rightarrow> json option) \<Rightarrow> (json \<Rightarrow> string) \<Rightarrow> 'n network \<Rightarrow> trigger \<Rightarrow> 'v session \<Rightarrow> 'n \<Rightarrow>
   (io + sync_report \<times> 'v session \<times> 'n) option" where
  "run_sync_cut cut_at api parse print net t s n = (case se_engine s of
      None \<Rightarrow> Some (Inr (no_report\<lparr>re_outcome := no_outcome\<lparr>oc_fault := kNoSignal\<rparr>\<rparr>, s, n))
    | Some en \<Rightarrow>
        if t \<noteq> kUserKey \<and> next_backoff_ms en = k_backoff_halted
        then Some (Inr (no_report\<lparr>re_outcome := no_outcome\<lparr>oc_fault := kProvisioningFault\<rparr>, re_backoff_ms := k_backoff_halted\<rparr>, s, n))
        else case se_stores s of
          None \<Rightarrow> Some (Inr (no_report\<lparr>re_attempted := True, re_outcome := no_outcome\<lparr>oc_apply_incomplete := True\<rparr>,
            re_backoff_ms := next_backoff_ms en\<rparr>, s, n))
        | Some st \<Rightarrow> (case run_once_cut cut_at (session_deps api parse print s) net t en (session_world st s) n of
            None \<Rightarrow> None
          | Some (Inl d) \<Rightarrow> Some (Inl d)
          | Some (Inr (out, en, w, n)) \<Rightarrow>
              Some (Inr (no_report\<lparr>re_attempted := True, re_outcome := out, re_backoff_ms := next_backoff_ms en\<rparr>,
                (put_world w st s)\<lparr>se_engine := Some en\<rparr>, n))))"

subsection \<open>An unarmed hook\<close>

definition armed :: "int \<Rightarrow> bool" where
  "armed cut_at \<longleftrightarrow> 1 \<le> cut_at \<and> cut_at \<le> 6"

lemma unarmed_hook: "\<not> armed cut_at \<Longrightarrow> 1 \<le> k \<Longrightarrow> k \<le> 6 \<Longrightarrow> \<not> hook_cuts cut_at k"
  by (auto simp: armed_def hook_cuts_def)

lemma apply_response_unarmed:
  "\<not> armed cut_at \<Longrightarrow> apply_response_cut cut_at dp en r w = Inr (apply_response dp en r w)"
  by (simp add: apply_response_cut_def apply_response_def apply_before_cursor_def unarmed_hook Let_def split: prod.splits)

lemma drain_round_unarmed:
  "\<not> armed cut_at \<Longrightarrow> drain_round_cut cut_at dp net rnd out ap en w n = map_option Inr (drain_round dp net rnd out ap en w n)"
  by (simp add: drain_round_cut_def drain_round_def apply_response_unarmed Let_def split: prod.splits option.splits)

lemma drain_unarmed:
  "\<not> armed cut_at \<Longrightarrow> drain_cut cut_at dp net left rnd out ap en w n = map_option Inr (drain dp net left rnd out ap en w n)"
  by (induction left arbitrary: rnd out ap en w n) (simp_all add: drain_round_unarmed split: option.splits prod.splits)

lemma run_sync_unarmed:
  "\<not> armed cut_at \<Longrightarrow> run_sync_cut cut_at api parse print net t s n = map_option Inr (run_sync api parse print net t s n)"
  by (simp add: run_sync_cut_def run_sync_def run_once_cut_def run_once_def drain_unarmed Let_def
      split: option.splits prod.splits)

subsection \<open>A restart at a step\<close>

lemma ls_count_card:
  assumes "ls_agrees s fs"
  shows "ls_count s = card (dom (letters_on (ls_dir s) fs))"
proof -
  have d: "distinct (map m_id (ls_index s))" and f: "\<And>i. find_meta s i = map_option meta_of_stored (letters_on (ls_dir s) fs i)"
    using assms unfolding ls_agrees_def by blast+
  have "i \<in> dom (letters_on (ls_dir s) fs) \<longleftrightarrow> i \<in> set (map m_id (ls_index s))" for i
    using f [of i] by (cases "letters_on (ls_dir s) fs i") (force simp: find_meta_def find_None_iff find_Some_iff)+
  then have "dom (letters_on (ls_dir s) fs) = set (map m_id (ls_index s))" by blast
  with distinct_card [OF d] show ?thesis by (simp add: ls_count_def)
qed

text \<open>The world of a run that still has the old cursor, in memory and on the medium.\<close>

definition cursor_stands :: "string \<Rightarrow> string \<Rightarrow> world \<Rightarrow> bool" where
  "cursor_stands base c w \<longleftrightarrow> stores_open base w \<and> cursor_kept base c (files (w_io w)) \<and> ss_cursor (st_state (w_state w)) = c"

lemma cursor_stands_only:
  assumes "cursor_stands base c w" "stores_open base w'" "only_in S (w_io w) (w_io w')" "w_state w' = w_state w"
    and "join base k_state_file \<notin> S"
  shows "cursor_stands base c w'"
  using assms through_files [OF cursor_kept_only [OF assms(3,5)]] by (simp add: cursor_stands_def)

text \<open>What the hook of each step finds: the steps before it are done, those behind it are not.\<close>

definition cut_medium :: "string \<Rightarrow> string set \<Rightarrow> nat \<Rightarrow> string \<Rightarrow> response \<Rightarrow> int \<Rightarrow> fs \<Rightarrow> fs \<Rightarrow> bool" where
  "cut_medium base S keep c r cut_at fs fs' \<longleftrightarrow>
     (let dir = join base k_letters_dir in cursor_kept base c fs' \<and>
       (cut_at \<le> 4 \<longrightarrow> letters_on dir fs' = letters_on dir fs) \<and>
       (5 \<le> cut_at \<longrightarrow> (\<forall>l \<in> set (rs_letters r). l_id l \<in> S \<or> letters_on dir fs' (l_id l) \<noteq> None \<or>
          keep \<le> card (dom (letters_on dir fs')))))"

lemma letters_on_only:
  assumes "only_in S d e" "S \<inter> in_dir base k_letters_dir = {}"
  shows "letters_on (join base k_letters_dir) (files e) = letters_on (join base k_letters_dir) (files d)"
  using ls_agrees_cong(2) [OF only_in_files [OF assms(1)] _ assms(2), of "\<lparr>ls_dir = join base k_letters_dir, ls_index = []\<rparr>"]
  by simp

lemma apply_response_restarts:
  assumes "cursor_stands base c w" "dir_ok base" "dp_wired dp" "dp_on_config dp = session_on_config"
    and "\<forall>l \<in> set (rs_letters r). is_i64 (l_date l) \<and> name_is_safe (l_id l)"
    and "S = set (sr_ring (w_seen w))" "op_letters_keep (en_options en) = k_default_letters_keep" "armed cut_at"
  shows "\<exists>e. apply_response_cut cut_at dp en r w = Inl e \<and>
    cut_medium base S k_default_letters_keep c r cut_at (files (w_io w)) (files e)"
proof -
  let ?dir = "join base k_letters_dir"
  note C = assms(1) [unfolded cursor_stands_def] and apart = files_apart [OF assms(2)]
  define w0 where "w0 = step_clock r w"
  have w0: "w_io w0 = w_io w" "w_letters w0 = w_letters w" "w_seen w0 = w_seen w" "w_state w0 = w_state w"
    "w_outbox w0 = w_outbox w" "w_contacts w0 = w_contacts w" "w_settings w0 = w_settings w"
    by (simp_all add: w0_def step_clock_def)
  have c0: "cursor_stands base c w0" using C by (simp add: cursor_stands_def stores_open_def w0)
  have o0: "stores_open base w0" using c0 by (simp add: cursor_stands_def)
  obtain w1 where a: "step_acks r no_outcome w0 = (True, no_outcome\<lparr>oc_acks_applied := length (rs_acks r)\<rparr>, w1)"
    "stores_open base w1" "w_seen w1 = w_seen w" "w_letters w1 = w_letters w" "w_state w1 = w_state w0"
    "only_in (in_dir base k_outbox_dir) (w_io w0) (w_io w1)"
    using step_acks_no_faults [OF o0 assms(2), of r no_outcome] by (auto simp: w0)
  have c1: "cursor_stands base c w1" by (rule cursor_stands_only [OF c0 a(2,6,5)]) (rule apart)
  have l1: "letters_on ?dir (files (w_io w1)) = letters_on ?dir (files (w_io w))"
    using letters_on_only [OF a(6)] apart by (simp add: w0)
  obtain w2 where y: "apply_ayllu (rs_ayllu r) w1 = (True, w2)" "stores_open base w2" "w_letters w2 = w_letters w1"
    "w_seen w2 = w_seen w1" "cursor_stands base c w2"
    "only_in (named base k_snapshot_file \<union> named base k_state_file) (w_io w1) (w_io w2)"
    using apply_ayllu_no_faults [OF a(2) assms(2), of "rs_ayllu r"] c1 unfolding cursor_stands_def by blast
  have l2: "letters_on ?dir (files (w_io w2)) = letters_on ?dir (files (w_io w))"
    using letters_on_only [OF y(6), of base] apart l1 by (simp add: Int_Un_distrib2)
  let ?out2 = "no_outcome\<lparr>oc_acks_applied := length (rs_acks r), oc_ayllu_updated := rs_ayllu r \<noteq> None\<rparr>"
  have ring: "\<forall>i \<in> set (sr_ring (w_seen w2)). delivered S k_default_letters_keep w2 i"
    by (simp add: delivered_def assms(6) y(4) a(3))
  obtain out3 w3 where l: "step_letters k_default_letters_keep r ?out2 w2 = (True, out3, w3)" "stores_open base w3"
    "w_state w3 = w_state w2" "only_in (in_dir base k_letters_dir \<union> named base k_seen_file) (w_io w2) (w_io w3)"
    "\<And>l. l \<in> set (rs_letters r) \<Longrightarrow> delivered S k_default_letters_keep w3 (l_id l)"
    using step_letters_no_faults [OF y(2) assms(2,5) ring, of ?out2] by blast
  have c3: "cursor_stands base c w3" by (rule cursor_stands_only [OF y(5) l(2,4,3)]) (rule apart)
  have on: "l_id l \<in> S \<or> letters_on ?dir (files (w_io w3)) (l_id l) \<noteq> None \<or>
      k_default_letters_keep \<le> card (dom (letters_on ?dir (files (w_io w3))))" if "l \<in> set (rs_letters r)" for l
  proof -
    have "ls_agrees (w_letters w3) (files (w_io w3))" "ls_dir (w_letters w3) = ?dir"
      using l(2) by (simp_all add: stores_open_def letters_loaded_def)
    with delivered_on [OF l(2) l(5) [OF that]] ls_count_card show ?thesis by metis
  qed
  obtain out4 w4 where g: "step_config dp r out3 w3 = (out4, w4)" by fastforce
  have g4: "w4 = w3 \<or> (\<exists>k. w4 = session_on_config k w3)"
    using g assms(4) by (auto simp: step_config_def split: option.splits)
  have sg: "sg_path (w_settings w3) = join base k_settings_file" using l(2) by (simp add: stores_open_def)
  have o4: "stores_open base w4" "only_in (named base k_settings_file) (w_io w3) (w_io w4)" "w_state w4 = w_state w3"
    using g4 l(2) session_on_config_open [OF l(2) assms(2)] session_on_config_only(1) [OF sg assms(2)] session_on_config_rest(5)
    by auto
  have c4: "cursor_stands base c w4" by (rule cursor_stands_only [OF c3 o4]) (rule apart)
  have "named base k_settings_file \<inter> in_dir base k_letters_dir = {}"
    using in_dir_named_apart [OF assms(2), of k_letters_dir k_settings_file] plain_names by blast
  with letters_on_only [OF o4(2)] have l4: "letters_on ?dir (files (w_io w4)) = letters_on ?dir (files (w_io w3))" by blast
  have six: "cut_at = 1 \<or> cut_at = 2 \<or> cut_at = 3 \<or> cut_at = 4 \<or> cut_at = 5 \<or> cut_at = 6"
    using assms(8) by (auto simp: armed_def)
  have run: "apply_response_cut cut_at dp en r w = Inl (w_io (if cut_at = 1 then w else if cut_at = 2 then w0
      else if cut_at = 3 then w1 else if cut_at = 4 then w2 else if cut_at = 5 then w3 else w4))"
    using six by (elim disjE) (simp_all add: apply_response_cut_def hook_cuts_def Let_def assms(3,7) w0_def [symmetric]
      a(1) y(1) l(1) g del: not_None_eq)
  show ?thesis unfolding run
    using six C c0 c1 y(5) c3 c4 l1 l2 l4 on
    by (elim disjE) (simp_all add: cut_medium_def Let_def cursor_stands_def w0)
qed

lemma run_once_restarts:
  assumes "serves (dp_parse dp) net (r # rs) n" "letter_ids_safe r" "cursor_stands base c w" "dir_ok base" "dp_wired dp"
    and "dp_on_config dp = session_on_config" "op_letters_keep (en_options en) = k_default_letters_keep" "armed cut_at"
  shows "\<exists>e. run_once_cut cut_at dp net t en w n = Some (Inl e) \<and>
    cut_medium base (set (sr_ring (w_seen w))) k_default_letters_keep c r cut_at (files (w_io w)) (files e)"
proof -
  define en0 where "en0 = (if t = kUserKey then reset_backoff en else en)"
  have keep: "op_letters_keep (en_options en0) = k_default_letters_keep" using assms(7) by (simp add: en0_def)
  obtain m where m: "drain_cap en0 = Suc m" by (cases "drain_cap en0") (auto simp: drain_cap_def split: if_splits)
  note C = assms(3) [unfolded cursor_stands_def stores_open_def]
  obtain rq where b: "build_request dp w = (rq, w)" using build_request_no_faults C assms(5) by blast
  obtain res now n1 where x: "net (encode_request (dp_print dp) rq) (ck_now (w_clock w)) n = (res, now, n1)"
    using prod_cases3 by blast
  have a: "tr_outcome res = TrOk \<and> tr_http_status res = 200 \<and> decode_response (dp_parse dp) (tr_body res) = Some (Some r)"
    using assms(1) x by (auto split: prod.splits)
  let ?w1 = "w\<lparr>w_clock := (w_clock w)\<lparr>ck_now := now\<rparr>\<rparr>"
  have c1: "cursor_stands base c ?w1" using assms(3) by (simp add: cursor_stands_def stores_open_def)
  have ls: "\<forall>l \<in> set (rs_letters r). is_i64 (l_date l) \<and> name_is_safe (l_id l)"
    using a decoded_dates assms(2) unfolding letter_ids_safe_def by blast
  obtain e where R: "apply_response_cut cut_at dp en0 r ?w1 = Inl e"
    "cut_medium base (set (sr_ring (w_seen w))) k_default_letters_keep c r cut_at (files (w_io w)) (files e)"
    using apply_response_restarts [OF c1 assms(4-6) ls refl keep assms(8)] by auto
  have f: "fault_for res = kNone" using a by (simp add: fault_for_def)
  have "drain_round_cut cut_at dp net 0 no_outcome False en0 w n = Some (Inl e)"
    using a by (simp add: drain_round_cut_def Let_def b x f R(1))
  with R(2) assms(5) show ?thesis by (simp add: run_once_cut_def Let_def en0_def [symmetric] m)
qed



end
