(* ===== verification/Sync_Replay.thy ===== *)
theory Sync_Replay
  imports Sync_Cut
begin

text \<open>
  What makes delivering twice safe: a response that is applied a second time, because the answer to it or
  the cursor was lost, finds its letters in the seen ring and its acknowledgements resolved.
\<close>

subsection \<open>Letters that are known\<close>

lemma apply_letters_known:
  "\<forall>l \<in> set L. seen_contains sr (l_id l) \<Longrightarrow> apply_letters L st dup ls sr d = (True, st, dup + length L, ls, sr, d)"
  by (induction L arbitrary: dup) simp_all

lemma step_letters_known:
  "\<forall>l \<in> set (rs_letters r). seen_contains (w_seen w) (l_id l) \<Longrightarrow>
   step_letters keep r out w = (True, out\<lparr>oc_letters_stored := 0, oc_letters_deduped := length (rs_letters r)\<rparr>, w)"
  by (simp add: step_letters_def apply_letters_known)

text \<open>A ring with room for all of them forgets none.\<close>

lemma after_add_room:
  assumes "length (sr_ring sr) < sr_capacity sr"
  shows "set (after_add i sr) = insert i (set (sr_ring sr))" "length (after_add i sr) \<le> length (sr_ring sr) + 1"
  using assms by (auto simp: after_add_def push_bounded_def Let_def)

lemma apply_letters_ring:
  assumes "apply_letters L st dup ls sr d = (True, st', dup', ls', sr', e)" "script d = []"
    and "\<forall>l \<in> set L. name_is_safe (l_id l)" "length (sr_ring sr) + length L \<le> sr_capacity sr"
  shows "set (sr_ring sr') = set (sr_ring sr) \<union> l_id ` set L"
  using assms
proof (induction L arbitrary: st dup ls sr d)
  case (Cons l L)
  show ?case
  proof (cases "seen_contains sr (l_id l)")
    case True
    with Cons.prems(1) have "apply_letters L st (dup + 1) ls sr d = (True, st', dup', ls', sr', e)" by simp
    from Cons.IH [OF this Cons.prems(2)] Cons.prems(3,4) True show ?thesis
      by (auto simp: seen_contains_def)
  next
    case False
    have safe: "name_is_safe (l_id l)" using Cons.prems(3) by simp
    obtain ls1 d1 where p: "ls_put l ls d = (True, ls1, d1)" "script d1 = []"
      using ls_put_no_faults [OF Cons.prems(2) safe] by blast
    obtain sr1 d2 where a: "seen_add (l_id l) sr d1 = (True, sr1, d2)" "script d2 = []" "sr_ring sr1 = after_add (l_id l) sr"
      using seen_add_no_faults [OF p(2) safe] by blast
    have "apply_letters L (st + 1) dup ls1 sr1 d2 = (True, st', dup', ls', sr', e)"
      using Cons.prems(1) False p(1) a(1) by simp
    moreover have "length (sr_ring sr) < sr_capacity sr" using Cons.prems(4) by simp
    note R = after_add_room [OF this, of "l_id l"]
    ultimately have "set (sr_ring sr') = set (sr_ring sr1) \<union> l_id ` set L"
      using Cons.IH [of "st + 1" dup ls1 sr1 d2] a Cons.prems(3,4) R(2) sr_path_add [OF a(1)] by simp
    with R(1) a(3) show ?thesis by auto
  qed
qed simp

subsection \<open>A response around its letters\<close>

definition acked :: "response \<Rightarrow> string set" where
  "acked r = ack_local_id ` set (rs_acks r)"

lemma keeps_settings:
  "step_acks r out w = (ok, out', w') \<Longrightarrow> w_settings w' = w_settings w"
  "apply_ayllu ay w = (ok, w') \<Longrightarrow> w_settings w' = w_settings w"
  "step_letters keep r out w = (ok, out', w') \<Longrightarrow> w_settings w' = w_settings w"
  by (auto simp: step_acks_def apply_ayllu_def step_letters_def Let_def split: prod.splits option.splits if_splits)

definition configured :: "response \<Rightarrow> settings \<Rightarrow> settings" where
  "configured r x = (case rs_config r of None \<Rightarrow> x | Some c \<Rightarrow> sanitise (pushed c x))"

lemma sanitise_fields:
  "se_max_letter_chars (sanitise x) = (if se_max_letter_chars x \<le> 0 then k_default_max_letter_chars else se_max_letter_chars x)"
  "se_sync_interval_s (sanitise x) = max (se_sync_interval_s x) k_min_sync_interval_s"
  "se_font_step (sanitise x) = min (max (se_font_step x) 0) (k_font_step_count - 1)"
  "se_frontlight_step (sanitise x) = max (se_frontlight_step x) 0"
  "se_rat (sanitise x) = se_rat x" "se_cover (sanitise x) = se_cover x"
  "se_pin_enabled (sanitise x) = se_pin_enabled x"
  by (simp_all add: sanitise_def Let_def max_def)

lemma pushed_fields:
  "se_max_letter_chars (pushed c x) = or_else (dc_max_letter_chars c) (se_max_letter_chars x)"
  "se_sync_interval_s (pushed c x) = or_else (dc_sync_interval_s c) (se_sync_interval_s x)"
  "se_font_step (pushed c x) = se_font_step x" "se_frontlight_step (pushed c x) = se_frontlight_step x"
  "se_rat (pushed c x) = or_else (dc_rat c) (se_rat x)" "se_cover (pushed c x) = or_else (dc_cover c) (se_cover x)"
  "se_pin_enabled (pushed c x) = se_pin_enabled x"
  by (simp_all add: pushed_def)

lemma configured_twice: "configured r (configured r x) = configured r x"
proof (cases "rs_config r")
  case (Some c)
  have "sanitise (pushed c (sanitise (pushed c x))) = sanitise (pushed c x)"
    by (rule settings.equality)
      (cases "dc_max_letter_chars c"; cases "dc_sync_interval_s c"; cases "dc_rat c"; cases "dc_cover c";
        simp add: sanitise_fields pushed_fields or_else_def k_default_max_letter_chars_def)+
  then show ?thesis by (simp add: configured_def Some)
qed (simp add: configured_def)

lemma session_on_config_settings:
  assumes "script (w_io w) = []"
  shows "sg_settings (w_settings (session_on_config c w)) = sanitise (pushed c (sg_settings (w_settings w)))"
proof -
  let ?x = "sanitise (pushed c (sg_settings (w_settings w)))"
  obtain e where "write_atomic (sg_path (w_settings w)) (encode_settings ?x) (w_io w) = (True, e)"
    using write_atomic_no_faults [OF assms] by blast
  then show ?thesis by (simp add: session_on_config_def apply_config_def settings_commit_def)
qed

text \<open>What the steps before the letters leave.\<close>

lemma before_letters:
  assumes "stores_open base w" "dir_ok base"
  shows "\<exists>out w1 w2. step_acks r no_outcome (step_clock r w) = (True, out, w1) \<and> apply_ayllu (rs_ayllu r) w1 = (True, w2) \<and>
    stores_open base w2 \<and> w_letters w2 = w_letters w \<and> w_seen w2 = w_seen w \<and> w_settings w2 = w_settings w \<and>
    set (sendable (w_outbox w2)) = {x \<in> set (sendable (w_outbox w)). oe_local_id x \<notin> acked r} \<and>
    ay_snapshot (w_contacts w2) = (case rs_ayllu r of None \<Rightarrow> ay_snapshot (w_contacts w) | Some a \<Rightarrow> a) \<and>
    letters_on (join base k_letters_dir) (files (w_io w2)) = letters_on (join base k_letters_dir) (files (w_io w))"
proof -
  define w0 where "w0 = step_clock r w"
  have w0: "w_io w0 = w_io w" "w_letters w0 = w_letters w" "w_seen w0 = w_seen w" "w_state w0 = w_state w"
    "w_outbox w0 = w_outbox w" "w_contacts w0 = w_contacts w" "w_settings w0 = w_settings w"
    by (simp_all add: w0_def step_clock_def)
  have o0: "stores_open base w0" using assms(1) by (simp add: stores_open_def w0)
  obtain w1 where a: "step_acks r no_outcome w0 = (True, no_outcome\<lparr>oc_acks_applied := length (rs_acks r)\<rparr>, w1)"
    "stores_open base w1" "w_seen w1 = w_seen w" "w_letters w1 = w_letters w" "w_contacts w1 = w_contacts w"
    "set (sendable (w_outbox w1)) = {x \<in> set (sendable (w_outbox w)). oe_local_id x \<notin> acked r}"
    "only_in (in_dir base k_outbox_dir) (w_io w0) (w_io w1)"
    using step_acks_no_faults [OF o0 assms(2), of r no_outcome] by (auto simp: w0 acked_def)
  obtain w2 where y: "apply_ayllu (rs_ayllu r) w1 = (True, w2)" "stores_open base w2" "w_outbox w2 = w_outbox w1"
    "w_letters w2 = w_letters w" "w_seen w2 = w_seen w"
    "ay_snapshot (w_contacts w2) = (case rs_ayllu r of None \<Rightarrow> ay_snapshot (w_contacts w) | Some a \<Rightarrow> a)"
    "only_in (named base k_snapshot_file \<union> named base k_state_file) (w_io w1) (w_io w2)"
    using apply_ayllu_no_faults [OF a(2) assms(2), of "rs_ayllu r", unfolded a(3-5)] by blast
  note apart = files_apart [OF assms(2)]
  have "letters_on (join base k_letters_dir) (files (w_io w2)) = letters_on (join base k_letters_dir) (files (w_io w))"
    using letters_on_only [OF a(7)] letters_on_only [OF y(7), of base] apart by (simp add: w0 Int_Un_distrib2)
  with a y keeps_settings(1) [OF a(1)] keeps_settings(2) [OF y(1)] w0(7) show ?thesis
    unfolding w0_def [symmetric] by auto
qed

text \<open>What the steps behind them leave.\<close>

lemma after_letters:
  assumes "stores_open base w" "dir_ok base" "dp_on_config dp = session_on_config"
  shows "\<exists>w4 st d5 w5. step_config dp r out w = (out\<lparr>oc_config_updated := oc_config_updated out \<or> rs_config r \<noteq> None\<rparr>, w4) \<and>
    set_cursor (rs_cursor r) (w_state w4) (w_io w4) = (True, st, d5) \<and> w5 = w4\<lparr>w_state := st, w_io := d5\<rparr> \<and>
    stores_open base w5 \<and> w_letters w5 = w_letters w \<and> w_seen w5 = w_seen w \<and> w_outbox w5 = w_outbox w \<and>
    w_contacts w5 = w_contacts w \<and> cursor_on base (files d5) = rs_cursor r \<and>
    sg_settings (w_settings w5) = configured r (sg_settings (w_settings w)) \<and>
    letters_on (join base k_letters_dir) (files d5) = letters_on (join base k_letters_dir) (files (w_io w))"
proof -
  note apart = files_apart [OF assms(2)]
  obtain out4 w4 where c: "step_config dp r out w = (out4, w4)" by fastforce
  have out4: "out4 = out\<lparr>oc_config_updated := oc_config_updated out \<or> rs_config r \<noteq> None\<rparr>"
    using c by (auto simp: step_config_def split: option.splits)
  have c4: "w4 = w \<or> (\<exists>k. w4 = session_on_config k w)"
    using c assms(3) by (auto simp: step_config_def split: option.splits)
  have "script (w_io w) = []" using assms(1) by (simp add: stores_open_def)
  then have x4: "sg_settings (w_settings w4) = configured r (sg_settings (w_settings w))"
    using c assms(3) by (auto simp: step_config_def configured_def session_on_config_settings split: option.splits)
  have sg: "sg_path (w_settings w) = join base k_settings_file" using assms(1) by (simp add: stores_open_def)
  have o4: "stores_open base w4" "only_in (named base k_settings_file) (w_io w) (w_io w4)"
    "w_letters w4 = w_letters w" "w_seen w4 = w_seen w" "w_outbox w4 = w_outbox w" "w_contacts w4 = w_contacts w"
    using c4 assms(1) session_on_config_open [OF assms(1,2)] session_on_config_only(1) [OF sg assms(2)] session_on_config_rest
    by auto
  have "named base k_settings_file \<inter> in_dir base k_letters_dir = {}"
    using in_dir_named_apart [OF assms(2), of k_letters_dir k_settings_file] plain_names by blast
  with letters_on_only [OF o4(2)] have l4: "letters_on (join base k_letters_dir) (files (w_io w4)) =
      letters_on (join base k_letters_dir) (files (w_io w))" by blast
  let ?f = "\<lambda>x. x\<lparr>ss_cursor := rs_cursor r\<rparr>"
  let ?st = "(w_state w4)\<lparr>st_state := ?f (st_state (w_state w4))\<rparr>"
  obtain d5 where s: "set_cursor (rs_cursor r) (w_state w4) (w_io w4) = (True, ?st, d5)"
    "stores_open base (w4\<lparr>w_state := ?st, w_io := d5\<rparr>)" "cursor_on base (files d5) = rs_cursor r"
    using set_state_no_faults [OF o4(1) assms(2), of ?f] unfolding setters by auto
  have sp: "st_path (w_state w4) = join base k_state_file" using o4(1) by (simp add: stores_open_def)
  have "named base k_state_file \<inter> in_dir base k_letters_dir = {}"
    using in_dir_named_apart [OF assms(2), of k_letters_dir k_state_file] plain_names by blast
  with letters_on_only [OF state_set_only [OF s(1) [unfolded setters] sp assms(2)]] l4
  have "letters_on (join base k_letters_dir) (files d5) = letters_on (join base k_letters_dir) (files (w_io w))" by simp
  with s o4 c out4 x4 show ?thesis by auto
qed

lemma response_around_letters:
  assumes "step_acks r no_outcome (step_clock r w) = (True, out, w1)" "apply_ayllu (rs_ayllu r) w1 = (True, w2)"
    and "step_letters (op_letters_keep (en_options en)) r (out\<lparr>oc_ayllu_updated := rs_ayllu r \<noteq> None\<rparr>) w2 = (True, out3, w3)"
    and "step_config dp r out3 w3 = (out4, w4)" "set_cursor (rs_cursor r) (w_state w4) (w_io w4) = (True, st, d5)" "dp_wired dp"
  shows "apply_response dp en r w = (out4\<lparr>oc_more := rs_more r\<rparr>, w4\<lparr>w_state := st, w_io := d5\<rparr>)"
  by (simp add: apply_response_def apply_before_cursor_def Let_def assms del: not_None_eq)

text \<open>One application, with room in the ring for every letter: afterwards all of them are known.\<close>

lemma applied_once:
  assumes "stores_open base w" "dir_ok base" "dp_wired dp" "dp_on_config dp = session_on_config"
    and "\<forall>l \<in> set (rs_letters r). is_i64 (l_date l) \<and> name_is_safe (l_id l)"
    and "length (sr_ring (w_seen w)) + length (rs_letters r) \<le> sr_capacity (w_seen w)"
  shows "\<exists>out w'. apply_response dp en r w = (out, w') \<and> \<not> oc_apply_incomplete out \<and> stores_open base w' \<and>
    set (sr_ring (w_seen w')) = set (sr_ring (w_seen w)) \<union> l_id ` set (rs_letters r) \<and>
    set (sendable (w_outbox w')) = {x \<in> set (sendable (w_outbox w)). oe_local_id x \<notin> acked r} \<and>
    ay_snapshot (w_contacts w') = (case rs_ayllu r of None \<Rightarrow> ay_snapshot (w_contacts w) | Some a \<Rightarrow> a) \<and>
    sg_settings (w_settings w') = configured r (sg_settings (w_settings w)) \<and> cursor_on base (files (w_io w')) = rs_cursor r"
proof -
  obtain out1 w1 w2 where b: "step_acks r no_outcome (step_clock r w) = (True, out1, w1)" "apply_ayllu (rs_ayllu r) w1 = (True, w2)"
    "stores_open base w2" "w_letters w2 = w_letters w" "w_seen w2 = w_seen w" "w_settings w2 = w_settings w"
    "set (sendable (w_outbox w2)) = {x \<in> set (sendable (w_outbox w)). oe_local_id x \<notin> acked r}"
    "ay_snapshot (w_contacts w2) = (case rs_ayllu r of None \<Rightarrow> ay_snapshot (w_contacts w) | Some a \<Rightarrow> a)"
    using before_letters [OF assms(1,2), of r] by blast
  have ok1: "\<not> oc_apply_incomplete out1" using b(1) by (auto simp: step_acks_def no_outcome_def Let_def split: prod.splits)
  let ?out2 = "out1\<lparr>oc_ayllu_updated := rs_ayllu r \<noteq> None\<rparr>" and ?keep = "op_letters_keep (en_options en)"
  have "\<forall>i \<in> set (sr_ring (w_seen w2)). delivered (set (sr_ring (w_seen w2))) ?keep w2 i" by (simp add: delivered_def)
  from step_letters_no_faults [OF b(3) assms(2,5) this, of ?out2]
  obtain out3 w3 where l: "step_letters ?keep r ?out2 w2 = (True, out3, w3)" "stores_open base w3"
    "oc_apply_incomplete out3 = oc_apply_incomplete ?out2" "w_outbox w3 = w_outbox w2" "w_contacts w3 = w_contacts w2" by blast
  obtain n m ls sr d where al: "apply_letters (rs_letters r) 0 0 (w_letters w2) (w_seen w2) (w_io w2) = (True, n, m, ls, sr, d)"
    "w_seen w3 = sr"
    using l(1) by (auto simp: step_letters_def Let_def split: prod.splits if_splits)
  have ring: "set (sr_ring (w_seen w3)) = set (sr_ring (w_seen w)) \<union> l_id ` set (rs_letters r)"
    using apply_letters_ring [OF al(1)] b(3,5) assms(5,6) by (simp add: stores_open_def al(2))
  obtain w4 st d5 w5 where g: "step_config dp r out3 w3 = (out3\<lparr>oc_config_updated := oc_config_updated out3 \<or> rs_config r \<noteq> None\<rparr>, w4)"
    "set_cursor (rs_cursor r) (w_state w4) (w_io w4) = (True, st, d5)" "w5 = w4\<lparr>w_state := st, w_io := d5\<rparr>"
    "stores_open base w5" "w_seen w5 = w_seen w3" "w_outbox w5 = w_outbox w3" "w_contacts w5 = w_contacts w3"
    "cursor_on base (files d5) = rs_cursor r" "sg_settings (w_settings w5) = configured r (sg_settings (w_settings w3))"
    using after_letters [OF l(2) assms(2,4), of r out3] by blast
  note run = response_around_letters [OF b(1,2) l(1) g(1,2) assms(3), folded g(3)]
  show ?thesis
    using run g(4-9) l(3-5) ok1 ring b(6-8) keeps_settings(3) [OF l(1)] g(3) by simp
qed

text \<open>An application that finds every letter known.\<close>

lemma applied_again:
  assumes "stores_open base w" "dir_ok base" "dp_wired dp" "dp_on_config dp = session_on_config"
    and "\<forall>l \<in> set (rs_letters r). seen_contains (w_seen w) (l_id l)"
  shows "\<exists>out w'. apply_response dp en r w = (out, w') \<and> \<not> oc_apply_incomplete out \<and>
    oc_letters_stored out = 0 \<and> oc_letters_deduped out = length (rs_letters r) \<and>
    w_letters w' = w_letters w \<and> w_seen w' = w_seen w \<and>
    letters_on (join base k_letters_dir) (files (w_io w')) = letters_on (join base k_letters_dir) (files (w_io w)) \<and>
    set (sendable (w_outbox w')) = {x \<in> set (sendable (w_outbox w)). oe_local_id x \<notin> acked r} \<and>
    ay_snapshot (w_contacts w') = (case rs_ayllu r of None \<Rightarrow> ay_snapshot (w_contacts w) | Some a \<Rightarrow> a) \<and>
    sg_settings (w_settings w') = configured r (sg_settings (w_settings w)) \<and> cursor_on base (files (w_io w')) = rs_cursor r"
proof -
  obtain out1 w1 w2 where b: "step_acks r no_outcome (step_clock r w) = (True, out1, w1)" "apply_ayllu (rs_ayllu r) w1 = (True, w2)"
    "stores_open base w2" "w_letters w2 = w_letters w" "w_seen w2 = w_seen w" "w_settings w2 = w_settings w"
    "set (sendable (w_outbox w2)) = {x \<in> set (sendable (w_outbox w)). oe_local_id x \<notin> acked r}"
    "ay_snapshot (w_contacts w2) = (case rs_ayllu r of None \<Rightarrow> ay_snapshot (w_contacts w) | Some a \<Rightarrow> a)"
    "letters_on (join base k_letters_dir) (files (w_io w2)) = letters_on (join base k_letters_dir) (files (w_io w))"
    using before_letters [OF assms(1,2), of r] by blast
  have ok1: "\<not> oc_apply_incomplete out1" using b(1) by (auto simp: step_acks_def no_outcome_def Let_def split: prod.splits)
  have "\<forall>l \<in> set (rs_letters r). seen_contains (w_seen w2) (l_id l)" using assms(5) b(5) by simp
  note l = step_letters_known [OF this, of "op_letters_keep (en_options en)" "out1\<lparr>oc_ayllu_updated := rs_ayllu r \<noteq> None\<rparr>"]
  define out3 where "out3 = out1\<lparr>oc_ayllu_updated := rs_ayllu r \<noteq> None, oc_letters_stored := 0,
    oc_letters_deduped := length (rs_letters r)\<rparr>"
  have l3: "step_letters (op_letters_keep (en_options en)) r (out1\<lparr>oc_ayllu_updated := rs_ayllu r \<noteq> None\<rparr>) w2 = (True, out3, w2)"
    using l by (simp add: out3_def)
  obtain w4 st d5 w5 where g: "step_config dp r out3 w2 = (out3\<lparr>oc_config_updated := oc_config_updated out3 \<or> rs_config r \<noteq> None\<rparr>, w4)"
    "set_cursor (rs_cursor r) (w_state w4) (w_io w4) = (True, st, d5)" "w5 = w4\<lparr>w_state := st, w_io := d5\<rparr>"
    "w_letters w5 = w_letters w2" "w_seen w5 = w_seen w2" "w_outbox w5 = w_outbox w2" "w_contacts w5 = w_contacts w2"
    "cursor_on base (files d5) = rs_cursor r" "sg_settings (w_settings w5) = configured r (sg_settings (w_settings w2))"
    "letters_on (join base k_letters_dir) (files d5) = letters_on (join base k_letters_dir) (files (w_io w2))"
    using after_letters [OF b(3) assms(2,4), of r out3] by blast
  note run = response_around_letters [OF b(1,2) l3 g(1,2) assms(3), folded g(3)]
  show ?thesis using run g(4-10) ok1 b(4-9) g(3) by (simp add: out3_def)
qed

subsection \<open>The property\<close>

text \<open>
  C7: Delivering a response twice is the same as delivering it once. On a card whose calls go through,
  with room in the seen ring for its letters, a response applied a second time, because the server did
  not learn of the first, completes and stores none of its letters: the letter window in memory and on
  the medium, the seen ring, what is still to be sent, the contacts and the settings are those of the first time, and
  the cursor on the medium is the response's after either.\<close>

theorem replay_is_harmless:
  assumes "stores_open base w" "dir_ok base" "dp_wired dp" "dp_on_config dp = session_on_config"
    and "\<forall>l \<in> set (rs_letters r). is_i64 (l_date l) \<and> name_is_safe (l_id l)"
    and "length (sr_ring (w_seen w)) + length (rs_letters r) \<le> sr_capacity (w_seen w)"
  shows "case apply_response dp en r w of (out, w1) \<Rightarrow> case apply_response dp en r w1 of (again, w2) \<Rightarrow>
    \<not> oc_apply_incomplete out \<and> \<not> oc_apply_incomplete again \<and>
    oc_letters_stored again = 0 \<and> oc_letters_deduped again = length (rs_letters r) \<and>
    w_letters w2 = w_letters w1 \<and> w_seen w2 = w_seen w1 \<and>
    letters_on (join base k_letters_dir) (files (w_io w2)) = letters_on (join base k_letters_dir) (files (w_io w1)) \<and>
    set (sendable (w_outbox w2)) = set (sendable (w_outbox w1)) \<and>
    ay_snapshot (w_contacts w2) = ay_snapshot (w_contacts w1) \<and> sg_settings (w_settings w2) = sg_settings (w_settings w1) \<and>
    cursor_on base (files (w_io w1)) = rs_cursor r \<and> cursor_on base (files (w_io w2)) = rs_cursor r"
proof -
  obtain out w1 where R: "apply_response dp en r w = (out, w1)" "\<not> oc_apply_incomplete out" "stores_open base w1"
    "set (sr_ring (w_seen w1)) = set (sr_ring (w_seen w)) \<union> l_id ` set (rs_letters r)"
    "set (sendable (w_outbox w1)) = {x \<in> set (sendable (w_outbox w)). oe_local_id x \<notin> acked r}"
    "ay_snapshot (w_contacts w1) = (case rs_ayllu r of None \<Rightarrow> ay_snapshot (w_contacts w) | Some a \<Rightarrow> a)"
    "sg_settings (w_settings w1) = configured r (sg_settings (w_settings w))" "cursor_on base (files (w_io w1)) = rs_cursor r"
    using applied_once [OF assms, of en] by blast
  have "\<forall>l \<in> set (rs_letters r). seen_contains (w_seen w1) (l_id l)" using R(4) by (simp add: seen_contains_def)
  from applied_again [OF R(3) assms(2-4) this, of en] R show ?thesis
    by (auto simp: configured_twice split: option.splits)
qed

lemma fresh_world_open: "dir_ok base \<Longrightarrow> stores_open base (fresh_world base)"
  using sub_dir_ok [OF _ plain_names(1), of base]
  by (simp add: stores_open_def fresh_world_def letters_loaded_def ls_agrees_def find_meta_def letters_on_def records_on_def
      lookup_def outbox_loaded_def empty_outbox_def boot_io_def)

lemma replay_is_harmless_witness:
  "\<exists>out w1 again w2. apply_response demo_deps demo_engine demo_response (fresh_world ''/d'') = (out, w1) \<and>
     apply_response demo_deps demo_engine demo_response w1 = (again, w2) \<and> oc_letters_stored again = 0 \<and>
     oc_letters_deduped again = 1 \<and> cursor_on ''/d'' (files (w_io w2)) = ''c9''"
proof -
  have d: "dir_ok ''/d''" by (simp add: dir_ok_def slash_def)
  have c: "dp_wired demo_deps" "dp_on_config demo_deps = session_on_config"
    "\<forall>l \<in> set (rs_letters demo_response). is_i64 (l_date l) \<and> name_is_safe (l_id l)"
    "length (sr_ring (w_seen (fresh_world ''/d''))) + length (rs_letters demo_response) \<le> sr_capacity (w_seen (fresh_world ''/d''))"
    by (simp_all add: demo_deps_def demo_response_def is_i64_def name_is_safe_def name_char_ok_def fresh_world_def)
  from replay_is_harmless [OF fresh_world_open [OF d] d c, of demo_engine] show ?thesis
    by (auto simp: demo_response_def split: prod.splits)
qed

end
