(* ===== verification/App_Main.thy ===== *)
theory App_Main
  imports Session
begin

text \<open>
  The wake dispatcher, \<^verbatim>\<open>main/app_main.cpp\<close>: what a wake of the board does between reset and deep sleep, with
  the jobs of the wake policy wired to the session. The seams whose hardware is not written yet do nothing
  here as they do there. The bench control channel that a dev build serves before it sleeps is not part of
  this theory.
\<close>

subsection \<open>Names of wakes\<close>

datatype wakeup_cause = WakeupUndefined | WakeupTimer | WakeupExt0 | WakeupExt1 | WakeupGpio | WakeupOther

definition wake_reason :: "wakeup_cause \<Rightarrow> reason" where
  "wake_reason c = (case c of WakeupTimer \<Rightarrow> TimerWake | WakeupExt0 \<Rightarrow> Keypress | WakeupExt1 \<Rightarrow> Keypress
     | WakeupGpio \<Rightarrow> Keypress | WakeupUndefined \<Rightarrow> ColdBoot | WakeupOther \<Rightarrow> UnknownWake)"

definition reason_name :: "reason \<Rightarrow> string" where
  "reason_name r = (case r of ColdBoot \<Rightarrow> ''cold'' | TimerWake \<Rightarrow> ''timer'' | Keypress \<Rightarrow> ''key'' | UsbAttach \<Rightarrow> ''usb''
     | UnknownWake \<Rightarrow> ''unknown'')"

definition trigger_for :: "sync_cause \<Rightarrow> trigger" where
  "trigger_for c = (case c of CauseUserKey \<Rightarrow> kUserKey | CauseDoorbell \<Rightarrow> kPututu | CauseOutboundQueued \<Rightarrow> kOutboundQueued
     | CauseNone \<Rightarrow> kScheduled | CauseFirstBoot \<Rightarrow> kScheduled | CauseScheduled \<Rightarrow> kScheduled)"

subsection \<open>The board's jobs\<close>

text \<open>
  The state the jobs work on: the session, the report of the last sync and the network; \<open>None\<close> once a
  response reached the undefined conversion of the decoder.
\<close>

type_synonym ('v, 'n) board = "('v session \<times> sync_report \<times> 'n) option"

definition any_unread :: "'v session \<Rightarrow> bool" where
  "any_unread s = (case se_stores s of None \<Rightarrow> False | Some st \<Rightarrow> 0 < unread_count (so_letters st))"

definition board_sync ::
  "'v vendor_api \<Rightarrow> (string \<Rightarrow> json option) \<Rightarrow> (json \<Rightarrow> string) \<Rightarrow> 'n network \<Rightarrow> sync_cause \<Rightarrow> ('v, 'n) board \<Rightarrow> ('v, 'n) board" where
  "board_sync api parse print net c b = (case b of None \<Rightarrow> None
     | Some (s, rep, n) \<Rightarrow> map_option (\<lambda>(rep, s, n). (s, rep, n)) (run_sync api parse print net (trigger_for c) s n))"

definition board_jobs ::
  "'v vendor_api \<Rightarrow> (string \<Rightarrow> json option) \<Rightarrow> (json \<Rightarrow> string) \<Rightarrow> 'n network \<Rightarrow> (('v, 'n) board) wake_jobs" where
  "board_jobs api parse print net = \<lparr>
     wj_poll_doorbell = (\<lambda>b. (\<lparr>db_received = False, db_accepted = False\<rparr>, b)),
     wj_sync = board_sync api parse print net,
     wj_open_ui_session = (\<lambda>b. b),
     wj_any_unread = (\<lambda>b. (case b of None \<Rightarrow> False | Some (s, rep, n) \<Rightarrow> any_unread s, b)),
     wj_render_cover = (\<lambda>u b. b),
     wj_render_charge_me = (\<lambda>b. b)\<rparr>"

subsection \<open>One wake\<close>

definition k_timer_wake_interval_s :: int where "k_timer_wake_interval_s = 900"

definition wake_inputs :: "reason \<Rightarrow> int \<Rightarrow> bool \<Rightarrow> rtc_state \<Rightarrow> 'v session \<Rightarrow> inputs" where
  "wake_inputs r uptime rtc_intact rtc s = \<lparr>in_reason = r, in_uptime_ms = uptime, in_rtc_intact = rtc_intact,
     in_next_sync_due_ms = rs_next_sync_due_ms rtc,
     in_outbound_queued = (case se_stores s of None \<Rightarrow> False | Some st \<Rightarrow> 0 < sendable_count (so_outbox st)),
     in_below_battery_floor = False\<rparr>"

definition sync_interval :: "'v session \<Rightarrow> int" where
  "sync_interval s = (case se_stores s of None \<Rightarrow> k_min_sync_interval_s
     | Some st \<Rightarrow> let cfg = sg_settings (so_settings st)
         in if k_min_sync_interval_s < se_sync_interval_s cfg then se_sync_interval_s cfg else k_min_sync_interval_s)"

text \<open>From reset to sleep: the RTC segment, what the wake did, and the state of the board.\<close>

definition app_main ::
  "'v vendor_api \<Rightarrow> bool \<Rightarrow> (string \<Rightarrow> json option) \<Rightarrow> (json \<Rightarrow> string) \<Rightarrow> 'n network \<Rightarrow> wakeup_cause \<Rightarrow> rtc_state \<Rightarrow>
   'v session \<Rightarrow> 'n \<Rightarrow> rtc_state \<times> run_result option \<times> ('v, 'n) board" where
  "app_main api dev_build parse print net cause rtc s n = (let
     uptime = ck_now (se_clock s);
     r = wake_reason cause;
     rtc_intact = intact rtc;
     rtc = (if \<not> rtc_intact then reconstruct uptime else rtc);
     rtc = note_wake r rtc;
     (ok, s) = session_open api dev_build s
   in if \<not> ok then (rtc, None, Some (s, no_report, n))
   else let (result, rtc, b) = wake_run (wake_inputs r uptime rtc_intact rtc s) (board_jobs api parse print net) rtc
              (Some (s, no_report, n));
            rtc = (case b of None \<Rightarrow> rtc
              | Some (s, rep, n) \<Rightarrow> if rr_synced result then schedule_next_sync (ck_now (se_clock s)) (sync_interval s) rtc else rtc)
     in (rtc, Some result, b))"

subsection \<open>The radio is spent when it is due\<close>

lemma wake_run_board:
  fixes b :: "('v, 'n) board"
  assumes "\<not> in_below_battery_floor i" "wake_run i (board_jobs api parse print net) rtc b = (res, rtc', b')"
  shows "rr_synced res \<longleftrightarrow> in_reason i = ColdBoot \<or> in_reason i \<in> {TimerWake, UsbAttach, UnknownWake} \<and> sync_due i"
    and "b' = (if rr_synced res then board_sync api parse print net (rr_cause res) b else b)"
    and "rs_magic rtc' = rs_magic rtc \<and> rs_boot_count rtc' = rs_boot_count rtc \<and> rs_next_sync_due_ms rtc' = rs_next_sync_due_ms rtc \<and>
      rs_last_reason rtc' = rs_last_reason rtc"
proof -
  let ?jobs = "board_jobs api parse print net :: (('v, 'n) board) wake_jobs"
  have p: "poll_step i (decide i) ?jobs rtc b = (pl_sync (decide i), empty_result\<lparr>rr_cause := pl_cause (decide i)\<rparr>, rtc, b)"
    by (simp add: poll_step_def board_jobs_def Let_def)
  define b1 where "b1 = (if pl_sync (decide i) then board_sync api parse print net (pl_cause (decide i)) b else b)"
  define out where "out = empty_result\<lparr>rr_cause := pl_cause (decide i), rr_synced := pl_sync (decide i)\<rparr>"
  have r: "wake_run i ?jobs rtc b = (if pl_open_ui (decide i) then (out\<lparr>rr_ui_opened := True\<rparr>, rtc, b1)
      else cover_step ?jobs out rtc b1)"
  proof -
    have j: "wj_sync ?jobs = board_sync api parse print net" "wj_open_ui_session ?jobs x = x" for x
      by (simp_all add: board_jobs_def)
    show ?thesis using assms(1) by (cases "pl_sync (decide i)")
      (simp_all add: wake_run_def decide_flags(1) p Let_def b1_def out_def j empty_result_def)
  qed
  have c: "\<exists>u. fst (cover_step ?jobs out rtc b1) = out\<lparr>rr_cover_rendered := rr_cover_rendered (fst (cover_step ?jobs out rtc b1))\<rparr> \<and>
      snd (cover_step ?jobs out rtc b1) = (set_unread_mirror u rtc, b1)"
    by (cases "wj_any_unread ?jobs b1"; cases "cover_needs_rerender rtc (fst (wj_any_unread ?jobs b1))")
      (auto simp: cover_step_def board_jobs_def out_def empty_result_def Let_def)
  have syn: "rr_synced res = pl_sync (decide i) \<and> rr_cause res = pl_cause (decide i) \<and> b' = b1 \<and>
      (rtc' = rtc \<or> (\<exists>u. rtc' = set_unread_mirror u rtc))"
  proof (cases "pl_open_ui (decide i)")
    case True
    with r assms(2) show ?thesis by (auto simp: out_def empty_result_def)
  next
    case False
    then have "cover_step ?jobs out rtc b1 = (res, rtc', b')" using r assms(2) by simp
    with c obtain u x where "res = out\<lparr>rr_cover_rendered := x\<rparr>" "rtc' = set_unread_mirror u rtc" "b' = b1" by auto
    then show ?thesis by (auto simp: out_def empty_result_def)
  qed
  show "rr_synced res \<longleftrightarrow> in_reason i = ColdBoot \<or> in_reason i \<in> {TimerWake, UsbAttach, UnknownWake} \<and> sync_due i"
    using syn assms(1) by (simp add: decide_flags)
  show "b' = (if rr_synced res then board_sync api parse print net (rr_cause res) b else b)"
    using syn by (simp add: b1_def)
  show "rs_magic rtc' = rs_magic rtc \<and> rs_boot_count rtc' = rs_boot_count rtc \<and> rs_next_sync_due_ms rtc' = rs_next_sync_due_ms rtc \<and>
      rs_last_reason rtc' = rs_last_reason rtc"
    using syn by (auto simp: set_unread_mirror_def)
qed

lemma sync_interval_min: "k_min_sync_interval_s \<le> sync_interval s"
  by (simp add: sync_interval_def Let_def split: option.splits)


end
