(* ===== verification/Utf8proc.thy ===== *)
theory Utf8proc
  imports Prelude
begin

text \<open>
  The part of the vendored \<^verbatim>\<open>components/utf8proc/utf8proc.c\<close> the layout rests on: decoding and encoding one code
  point, looking a property up, and the state machine that finds grapheme breaks. The generated Unicode
  tables are a parameter. The reference for the breaks are the rules GB3 to GB999 of Unicode Annex 29,
  written as a condition on the whole text before the position.
\<close>

subsection \<open>Bound classes\<close>

datatype boundclass = BcStart | BcOther | BcCr | BcLf | BcControl | BcExtend | BcL | BcV | BcT | BcLv | BcLvt
  | BcRegionalIndicator | BcSpacingMark | BcPrepend | BcZwj | BcEBase | BcEModifier | BcGlueAfterZwj | BcEBaseGaz
  | BcExtendedPictographic | BcEZwg

definition boundclass_code :: "boundclass \<Rightarrow> nat" where
  "boundclass_code c = (case c of BcStart \<Rightarrow> 0 | BcOther \<Rightarrow> 1 | BcCr \<Rightarrow> 2 | BcLf \<Rightarrow> 3 | BcControl \<Rightarrow> 4 | BcExtend \<Rightarrow> 5
     | BcL \<Rightarrow> 6 | BcV \<Rightarrow> 7 | BcT \<Rightarrow> 8 | BcLv \<Rightarrow> 9 | BcLvt \<Rightarrow> 10 | BcRegionalIndicator \<Rightarrow> 11 | BcSpacingMark \<Rightarrow> 12
     | BcPrepend \<Rightarrow> 13 | BcZwj \<Rightarrow> 14 | BcEBase \<Rightarrow> 15 | BcEModifier \<Rightarrow> 16 | BcGlueAfterZwj \<Rightarrow> 17 | BcEBaseGaz \<Rightarrow> 18
     | BcExtendedPictographic \<Rightarrow> 19 | BcEZwg \<Rightarrow> 20)"

lemma boundclass_code_inject: "boundclass_code a = boundclass_code b \<longleftrightarrow> a = b"
  by (cases a; cases b; simp add: boundclass_code_def)

text \<open>The enumeration is compared with \<open>\<le>\<close> in the code, by its numbers.\<close>

instantiation boundclass :: linorder
begin

definition less_eq_boundclass :: "boundclass \<Rightarrow> boundclass \<Rightarrow> bool" where
  "less_eq_boundclass a b \<longleftrightarrow> boundclass_code a \<le> boundclass_code b"

definition less_boundclass :: "boundclass \<Rightarrow> boundclass \<Rightarrow> bool" where
  "less_boundclass a b \<longleftrightarrow> boundclass_code a < boundclass_code b"

instance
  by standard (auto simp: less_eq_boundclass_def less_boundclass_def boundclass_code_inject [symmetric])

end

lemma control_range: "BcCr \<le> c \<and> c \<le> BcControl \<longleftrightarrow> c = BcCr \<or> c = BcLf \<or> c = BcControl"
  by (cases c) (simp_all add: less_eq_boundclass_def boundclass_code_def)

subsection \<open>Properties\<close>

record property =
  pr_category :: nat
  pr_charwidth :: nat
  pr_boundclass :: boundclass

record property_table =
  pt_default :: property
  pt_lookup :: "int \<Rightarrow> property"

definition k_category_zs :: nat where "k_category_zs = 23"

definition get_property :: "property_table \<Rightarrow> int \<Rightarrow> property" where
  "get_property pt uc = (if uc < 0 \<or> 0x110000 \<le> uc then pt_default pt else pt_lookup pt uc)"

definition utf8proc_category :: "property_table \<Rightarrow> int \<Rightarrow> nat" where
  "utf8proc_category pt c = pr_category (get_property pt c)"

definition utf8proc_charwidth :: "property_table \<Rightarrow> int \<Rightarrow> nat" where
  "utf8proc_charwidth pt c = pr_charwidth (get_property pt c)"

subsection \<open>Grapheme breaks\<close>

definition grapheme_break_simple :: "boundclass \<Rightarrow> boundclass \<Rightarrow> bool" where
  "grapheme_break_simple lbc tbc =
     (if lbc = BcStart then True
      else if lbc = BcCr \<and> tbc = BcLf then False
      else if BcCr \<le> lbc \<and> lbc \<le> BcControl then True
      else if BcCr \<le> tbc \<and> tbc \<le> BcControl then True
      else if lbc = BcL \<and> (tbc = BcL \<or> tbc = BcV \<or> tbc = BcLv \<or> tbc = BcLvt) then False
      else if (lbc = BcLv \<or> lbc = BcV) \<and> (tbc = BcV \<or> tbc = BcT) then False
      else if (lbc = BcLvt \<or> lbc = BcT) \<and> tbc = BcT then False
      else if tbc = BcExtend \<or> tbc = BcZwj \<or> tbc = BcSpacingMark \<or> lbc = BcPrepend then False
      else if lbc = BcEZwg \<and> tbc = BcExtendedPictographic then False
      else if lbc = BcRegionalIndicator \<and> tbc = BcRegionalIndicator then False
      else True)"

definition next_break_state :: "boundclass \<Rightarrow> boundclass \<Rightarrow> boundclass" where
  "next_break_state st tbc =
     (if st = tbc \<and> tbc = BcRegionalIndicator then BcOther
      else if st = BcExtendedPictographic then
        (if tbc = BcExtend then BcExtendedPictographic else if tbc = BcZwj then BcEZwg else tbc)
      else tbc)"

definition grapheme_break_extended :: "boundclass \<Rightarrow> boundclass \<Rightarrow> boundclass \<Rightarrow> bool \<times> boundclass" where
  "grapheme_break_extended lbc tbc st =
     (let st = (if st = BcStart then lbc else st); lbc_override = st
      in (grapheme_break_simple lbc_override tbc, next_break_state st tbc))"

definition grapheme_break_stateful :: "property_table \<Rightarrow> int \<Rightarrow> int \<Rightarrow> boundclass \<Rightarrow> bool \<times> boundclass" where
  "grapheme_break_stateful pt c1 c2 st =
     grapheme_break_extended (pr_boundclass (get_property pt c1)) (pr_boundclass (get_property pt c2)) st"

definition grapheme_break :: "property_table \<Rightarrow> int \<Rightarrow> int \<Rightarrow> bool" where
  "grapheme_break pt c1 c2 =
     grapheme_break_simple (pr_boundclass (get_property pt c1)) (pr_boundclass (get_property pt c2))"

subsection \<open>One code point\<close>

definition byte :: "char \<Rightarrow> nat" where "byte c = of_char c"

definition utf_cont :: "char \<Rightarrow> bool" where "utf_cont c \<longleftrightarrow> byte c div 64 = 2"

definition error_invalidutf8 :: int where "error_invalidutf8 = -3"

text \<open>The length of the code point at the head, or an error, and the code point.\<close>

definition utf8proc_iterate :: "string \<Rightarrow> int \<times> int" where
  "utf8proc_iterate s = (case s of [] \<Rightarrow> (0, -1) | c # str \<Rightarrow> let uc = byte c; bad = (error_invalidutf8, -1) in
     if uc < 0x80 then (1, int uc)
     else if uc < 0xC2 \<or> 0xF4 < uc then bad
     else if uc < 0xE0 then
       (if length str < 1 \<or> \<not> utf_cont (str ! 0) then bad
        else (2, int (uc mod 32 * 64 + byte (str ! 0) mod 64)))
     else if uc < 0xF0 then
       (if length str < 2 \<or> \<not> utf_cont (str ! 0) \<or> \<not> utf_cont (str ! 1) then bad
        else if uc = 0xED \<and> 0x9F < byte (str ! 0) then bad
        else let v = uc mod 16 * 4096 + byte (str ! 0) mod 64 * 64 + byte (str ! 1) mod 64
          in if v < 0x800 then bad else (3, int v))
     else if length str < 3 \<or> \<not> utf_cont (str ! 0) \<or> \<not> utf_cont (str ! 1) \<or> \<not> utf_cont (str ! 2) then bad
     else if uc = 0xF0 \<and> byte (str ! 0) < 0x90 then bad
     else if uc = 0xF4 \<and> 0x8F < byte (str ! 0) then bad
     else (4, int (uc mod 8 * 262144 + byte (str ! 0) mod 64 * 4096 + byte (str ! 1) mod 64 * 64 + byte (str ! 2) mod 64)))"

definition codepoint_valid :: "int \<Rightarrow> bool" where
  "codepoint_valid uc \<longleftrightarrow> 0x7FF < (uc - 0xD800) mod 2 ^ 32 \<and> uc mod 2 ^ 32 < 0x110000"

definition utf8proc_encode_char :: "int \<Rightarrow> string" where
  "utf8proc_encode_char uc = (let n = nat uc; b = (\<lambda>v. char_of (v mod 256)) in
     if uc < 0 then []
     else if uc < 0x80 then [b n]
     else if uc < 0x800 then [b (0xC0 + n div 64), b (0x80 + n mod 64)]
     else if uc < 0x10000 then [b (0xE0 + n div 4096), b (0x80 + n div 64 mod 64), b (0x80 + n mod 64)]
     else if uc < 0x110000 then [b (0xF0 + n div 262144), b (0x80 + n div 4096 mod 64), b (0x80 + n div 64 mod 64), b (0x80 + n mod 64)]
     else [])"

subsection \<open>The rules of Annex 29\<close>

text \<open>
  Whether there is a break before a class, given the classes before it, newest first: GB1, GB3, GB4 and GB5,
  GB6 to GB8, GB9 to GB9b, GB11, GB12 and GB13, GB999.
\<close>

definition after_emoji :: "boundclass list \<Rightarrow> bool" where
  "after_emoji past \<longleftrightarrow> (case dropWhile (\<lambda>c. c = BcExtend) past of [] \<Rightarrow> False | c # _ \<Rightarrow> c = BcExtendedPictographic)"

definition indicators :: "boundclass list \<Rightarrow> nat" where
  "indicators past = length (takeWhile (\<lambda>c. c = BcRegionalIndicator) past)"

definition uax29_break :: "boundclass list \<Rightarrow> boundclass \<Rightarrow> bool" where
  "uax29_break past tbc = (case past of [] \<Rightarrow> True | lbc # older \<Rightarrow>
     if lbc = BcCr \<and> tbc = BcLf then False
     else if lbc \<in> {BcCr, BcLf, BcControl} \<or> tbc \<in> {BcCr, BcLf, BcControl} then True
     else if lbc = BcL \<and> tbc \<in> {BcL, BcV, BcLv, BcLvt} then False
     else if lbc \<in> {BcLv, BcV} \<and> tbc \<in> {BcV, BcT} then False
     else if lbc \<in> {BcLvt, BcT} \<and> tbc = BcT then False
     else if tbc \<in> {BcExtend, BcZwj, BcSpacingMark} \<or> lbc = BcPrepend then False
     else if lbc = BcZwj \<and> after_emoji older \<and> tbc = BcExtendedPictographic then False
     else if tbc = BcRegionalIndicator \<and> odd (indicators past) then False
     else True)"

text \<open>The classes a table gives to code points: the start and emoji-joiner classes belong to the machine.\<close>

definition table_class :: "boundclass \<Rightarrow> bool" where
  "table_class c \<longleftrightarrow> c \<noteq> BcStart \<and> c \<noteq> BcEZwg"

text \<open>What the machine remembers of a text.\<close>

definition break_state :: "boundclass list \<Rightarrow> boundclass" where
  "break_state past = (case past of [] \<Rightarrow> BcStart | lbc # older \<Rightarrow>
     if lbc = BcZwj \<and> after_emoji older then BcEZwg
     else if lbc = BcExtend \<and> after_emoji older then BcExtendedPictographic
     else if lbc = BcRegionalIndicator then (if odd (indicators past) then BcRegionalIndicator else BcOther)
     else lbc)"

lemma after_emoji_Cons: "after_emoji (c # cs) \<longleftrightarrow> c = BcExtendedPictographic \<or> c = BcExtend \<and> after_emoji cs"
  by (simp add: after_emoji_def)

lemma indicators_Cons: "indicators (c # cs) = (if c = BcRegionalIndicator then indicators cs + 1 else 0)"
  by (simp add: indicators_def)

lemma next_state:
  assumes "past \<noteq> []" "\<forall>c \<in> set past. table_class c" "table_class tbc"
  shows "next_break_state (break_state past) tbc = break_state (tbc # past)"
proof -
  obtain lbc older where p: "past = lbc # older" using assms(1) by (cases past) auto
  then have "lbc \<noteq> BcStart" "lbc \<noteq> BcEZwg" "tbc \<noteq> BcEZwg" using assms(2,3) by (simp_all add: table_class_def)
  then show ?thesis
    by (cases "after_emoji older"; cases "lbc = BcRegionalIndicator"; cases "tbc = BcRegionalIndicator")
      (auto simp: p next_break_state_def break_state_def after_emoji_Cons indicators_Cons)
qed

lemmas break_simple_unfold = grapheme_break_simple_def [unfolded control_range]

lemma break_simple_uax29:
  assumes "past \<noteq> []" "\<forall>c \<in> set past. table_class c"
  shows "grapheme_break_simple (break_state past) tbc = uax29_break past tbc"
proof -
  obtain lbc older where p: "past = lbc # older" using assms(1) by (cases past) auto
  then have l: "lbc \<noteq> BcStart" "lbc \<noteq> BcEZwg" using assms(2) by (simp_all add: table_class_def)
  show ?thesis
  proof (cases "lbc \<in> {BcZwj, BcExtend, BcRegionalIndicator}")
    case True
    then show ?thesis
      by (elim insertE emptyE; cases "after_emoji older"; cases "even (indicators older)")
        (auto simp: p break_simple_unfold uax29_break_def break_state_def indicators_Cons)
  next
    case False
    with l show ?thesis
      by (auto simp: p break_simple_unfold uax29_break_def break_state_def indicators_Cons)
  qed
qed

text \<open>The breaks of a text, asked for as the interface demands: in order, from the start state.\<close>

fun stateful_breaks :: "boundclass \<Rightarrow> boundclass \<Rightarrow> boundclass list \<Rightarrow> bool list" where
  "stateful_breaks st lbc [] = []"
| "stateful_breaks st lbc (tbc # cs) = (case grapheme_break_extended lbc tbc st of (b, st) \<Rightarrow> b # stateful_breaks st tbc cs)"

fun uax29_breaks :: "boundclass list \<Rightarrow> boundclass list \<Rightarrow> bool list" where
  "uax29_breaks past [] = []"
| "uax29_breaks past (tbc # cs) = uax29_break past tbc # uax29_breaks (tbc # past) cs"

lemma stateful_breaks_from:
  assumes "\<forall>c \<in> set cs. table_class c" "\<forall>c \<in> set (lbc # older). table_class c"
    and "st = break_state (lbc # older) \<or> st = BcStart \<and> older = []"
  shows "stateful_breaks st lbc cs = uax29_breaks (lbc # older) cs"
  using assms
proof (induction cs arbitrary: st lbc older)
  case (Cons tbc cs)
  let ?past = "lbc # older"
  have one: "break_state [lbc] = lbc"
    by (simp add: break_state_def after_emoji_def indicators_def)
  have "break_state ?past \<noteq> BcStart"
    using Cons.prems(2) by (auto simp: break_state_def table_class_def)
  then have e: "grapheme_break_extended lbc tbc st = (grapheme_break_simple (break_state ?past) tbc, next_break_state (break_state ?past) tbc)"
    using Cons.prems(3) one by (auto simp: grapheme_break_extended_def)
  have "table_class tbc" using Cons.prems(1) by simp
  then have "stateful_breaks (break_state (tbc # ?past)) tbc cs = uax29_breaks (tbc # ?past) cs"
    using Cons.IH [of tbc ?past] Cons.prems by simp
  with e show ?case
    using next_state [of ?past tbc] break_simple_uax29 [of ?past tbc] Cons.prems \<open>table_class tbc\<close> by simp
qed simp

text \<open>
  C19: The grapheme state machine is Annex 29. For every text, given by the classes of its code points, the
  breaks the one-state machine reports from the start state, pair by pair, are those the rules GB3 to
  GB999 give on the whole text before each position: flags come in pairs however many stand in a row, an
  emoji sequence joined by zero-width joiners holds together whatever extends it, and no other sequence
  is joined by mistake.\<close>

theorem grapheme_breaks_are_uax29:
  assumes "table_class c" "\<forall>x \<in> set cs. table_class x"
  shows "stateful_breaks BcStart c cs = uax29_breaks [c] cs"
  using assms by (intro stateful_breaks_from) simp_all

lemma grapheme_breaks_are_uax29_witness:
  "stateful_breaks BcStart BcRegionalIndicator [BcRegionalIndicator, BcRegionalIndicator, BcExtendedPictographic, BcExtend, BcZwj,
     BcExtendedPictographic] = [False, True, True, False, False, False]"
  by (subst grapheme_breaks_are_uax29)
    (simp_all add: table_class_def uax29_break_def after_emoji_def indicators_def)

subsection \<open>Decoding is the inverse of encoding\<close>

lemma byte_lt: "byte c < 256"
  by (simp add: byte_def)

lemma byte_char [simp]: "n < 256 \<Longrightarrow> byte (char_of n) = n"
  by (simp add: byte_def)

lemma char_byte [simp]: "char_of (byte c) = c"
  by (simp add: byte_def)

lemma cont_byteE:
  assumes "utf_cont x"
  obtains m :: nat where "m < 64" "x = char_of (128 + m)"
proof -
  have "byte x = 128 + byte x mod 64" using assms div_mult_mod_eq [of "byte x" 64] by (simp add: utf_cont_def)
  then have "x = char_of (128 + byte x mod 64)" by (metis char_byte)
  with that [of "byte x mod 64"] show ?thesis by simp
qed

lemma lead_byteE:
  assumes "k \<le> byte x" "byte x < k + w"
  obtains a where "a < w" "x = char_of (k + a)"
proof -
  have "char_of (byte x) = x" by simp
  then have "x = char_of (k + (byte x - k))" using assms(1) by simp
  with that [of "byte x - k"] assms show ?thesis by simp
qed

lemma div_mod_sum: "(d :: nat) < k \<Longrightarrow> (q * k + d) div k = q \<and> (q * k + d) mod k = d"
  by simp

lemma lead_mods:
  "(m :: nat) < 64 \<Longrightarrow> (128 + m) mod 64 = m" "a < 32 \<Longrightarrow> (192 + a) mod 32 = (a :: nat)"
  "a < 16 \<Longrightarrow> (224 + a) mod 16 = (a :: nat)" "a \<le> 4 \<Longrightarrow> (240 + a) mod 8 = (a :: nat)"
  using div_mod_sum [of m 64 2] div_mod_sum [of a 32 6] div_mod_sum [of a 16 14] div_mod_sum [of a 8 30] by simp_all

lemma cont_char [simp]: "(m :: nat) < 64 \<Longrightarrow> utf_cont (char_of (128 + m))"
  using div_mod_sum [of m 64 2] by (simp add: utf_cont_def)

lemma encode2:
  assumes "2 \<le> a" "a < 32" "d < 64" and n: "n = a * 64 + d"
  shows "utf8proc_encode_char (int n) = [char_of (192 + a), char_of (128 + d)]"
proof -
  have "n div 64 = a" "n mod 64 = d" "0x80 \<le> n" "n < 0x800" using div_mod_sum [of d 64 a] assms by simp_all
  with assms(2,3) show ?thesis by (simp add: utf8proc_encode_char_def Let_def)
qed

lemma encode3:
  assumes "a < 16" "b < 64" "d < 64" "0x800 \<le> n" and n: "n = a * 4096 + b * 64 + d"
  shows "utf8proc_encode_char (int n) = [char_of (224 + a), char_of (128 + b), char_of (128 + d)]"
proof -
  have q: "n = (a * 64 + b) * 64 + d" "n = a * 4096 + (b * 64 + d)" using n by simp_all
  have "n div 64 = a * 64 + b" "n mod 64 = d" using div_mod_sum [of d 64 "a * 64 + b"] assms(3) unfolding q(1) by blast+
  moreover from this(1) have "n div 64 mod 64 = b" using div_mod_sum [of b 64 a] assms(2) by simp
  moreover have "n div 4096 = a" using div_mod_sum [of "b * 64 + d" 4096 a] assms(2,3) unfolding q(2) by simp
  moreover have "n < 0x10000" using assms(1-3) n by simp
  ultimately show ?thesis using assms(1-4) by (simp add: utf8proc_encode_char_def Let_def)
qed

lemma encode4:
  assumes "a \<le> 4" "b < 64" "c < 64" "d < 64" "0x10000 \<le> n" "n < 0x110000" and n: "n = a * 262144 + b * 4096 + c * 64 + d"
  shows "utf8proc_encode_char (int n) = [char_of (240 + a), char_of (128 + b), char_of (128 + c), char_of (128 + d)]"
proof -
  have q: "n = (a * 4096 + b * 64 + c) * 64 + d" "n = (a * 64 + b) * 4096 + (c * 64 + d)"
    "n = a * 262144 + (b * 4096 + c * 64 + d)" "a * 4096 + b * 64 + c = (a * 64 + b) * 64 + c" using n by simp_all
  have "n div 64 = a * 4096 + b * 64 + c" "n mod 64 = d"
    using div_mod_sum [of d 64 "a * 4096 + b * 64 + c"] assms(4) unfolding q(1) by blast+
  moreover from this(1) have "n div 64 mod 64 = c" using div_mod_sum [of c 64 "a * 64 + b"] assms(3) unfolding q(4) by simp
  moreover have "n div 4096 mod 64 = b"
  proof -
    have "n div 4096 = a * 64 + b" using div_mod_sum [of "c * 64 + d" 4096 "a * 64 + b"] assms(3,4) unfolding q(2) by simp
    then show ?thesis using div_mod_sum [of b 64 a] assms(2) by simp
  qed
  moreover have "n div 262144 = a" using div_mod_sum [of "b * 4096 + c * 64 + d" 262144 a] assms(2-4) unfolding q(3) by simp
  ultimately show ?thesis using assms(1-6) by (simp add: utf8proc_encode_char_def Let_def)
qed

lemma iterate2:
  "2 \<le> a \<Longrightarrow> a < 32 \<Longrightarrow> d < 64 \<Longrightarrow> utf8proc_iterate (char_of (192 + a) # char_of (128 + d) # rest) = (2, int (a * 64 + d))"
  by (simp add: utf8proc_iterate_def Let_def lead_mods)

lemma iterate3:
  assumes "a < 16" "b < 64" "d < 64"
  shows "utf8proc_iterate (char_of (224 + a) # char_of (128 + b) # char_of (128 + d) # rest) =
    (if a = 13 \<and> 32 \<le> b \<or> a * 4096 + b * 64 + d < 0x800 then (error_invalidutf8, -1) else (3, int (a * 4096 + b * 64 + d)))"
  using assms by (auto simp: utf8proc_iterate_def Let_def lead_mods)

lemma iterate4:
  assumes "a \<le> 4" "b < 64" "c < 64" "d < 64"
  shows "utf8proc_iterate (char_of (240 + a) # char_of (128 + b) # char_of (128 + c) # char_of (128 + d) # rest) =
    (if a = 0 \<and> b < 16 \<or> a = 4 \<and> 16 \<le> b then (error_invalidutf8, -1)
     else (4, int (a * 262144 + b * 4096 + c * 64 + d)))"
  using assms by (auto simp: utf8proc_iterate_def Let_def lead_mods)

definition scalar :: "int \<Rightarrow> bool" where
  "scalar cp \<longleftrightarrow> 0 \<le> cp \<and> cp < 0x110000 \<and> (cp < 0xD800 \<or> 0xDFFF < cp)"

lemma scalar_nat: "scalar (int v) \<longleftrightarrow> v < 0x110000 \<and> (v < 0xD800 \<or> 0xDFFF < v)"
  by (auto simp: scalar_def)

lemma codepoint_valid_scalar:
  assumes "is_i32 cp"
  shows "codepoint_valid cp \<longleftrightarrow> scalar cp"
proof (cases "0 \<le> cp")
  case True
  then have "cp mod 2 ^ 32 = cp" using assms by (simp add: is_i32_def)
  moreover have "(cp - 0xD800) mod 2 ^ 32 = (if cp < 0xD800 then cp - 0xD800 + 2 ^ 32 else cp - 0xD800)"
  proof (cases "cp < 0xD800")
    case True
    have "(cp - 0xD800) mod 2 ^ 32 = (cp - 0xD800 + 2 ^ 32) mod 2 ^ 32" by (rule mod_add_self2 [symmetric])
    also have "\<dots> = cp - 0xD800 + 2 ^ 32" using True \<open>0 \<le> cp\<close> by (intro mod_pos_pos_trivial) simp_all
    finally show ?thesis using True by simp
  next
    case False
    then show ?thesis using assms by (simp add: is_i32_def)
  qed
  ultimately show ?thesis using True by (auto simp: codepoint_valid_def scalar_def)
next
  case False
  have "cp mod 2 ^ 32 = (cp + 2 ^ 32) mod 2 ^ 32" by (rule mod_add_self2 [symmetric])
  also have "\<dots> = cp + 2 ^ 32" using False assms by (intro mod_pos_pos_trivial) (simp_all add: is_i32_def)
  finally show ?thesis using False assms by (simp add: codepoint_valid_def scalar_def is_i32_def)
qed

lemma iterate_encode:
  assumes "scalar cp"
  shows "utf8proc_iterate (utf8proc_encode_char cp @ rest) = (int (length (utf8proc_encode_char cp)), cp)"
proof -
  define n where "n = nat cp"
  have cp: "cp = int n" using assms by (simp add: n_def scalar_def)
  have top: "n < 0x110000" and sur: "n < 0xD800 \<or> 0xDFFF < n" using assms by (auto simp: cp scalar_def)
  define d where "d = n mod 64"
  define c where "c = n div 64 mod 64"
  define b where "b = n div 4096 mod 64"
  have lt: "d < 64" "c < 64" "b < 64" by (simp_all add: d_def c_def b_def)
  have n2: "n = n div 64 * 64 + d" by (simp add: d_def)
  have d64: "n div 64 = n div 4096 * 64 + c" unfolding c_def using div_mult2_eq [of n 64 64] by simp
  have d4096: "n div 4096 = n div 262144 * 64 + b" unfolding b_def using div_mult2_eq [of n 4096 64] by simp
  have n3: "n = n div 4096 * 4096 + c * 64 + d" using n2 d64 by linarith
  have n4: "n = n div 262144 * 262144 + b * 4096 + c * 64 + d" using n3 d4096 by linarith
  consider "n < 0x80" | "0x80 \<le> n" "n < 0x800" | "0x800 \<le> n" "n < 0x10000" | "0x10000 \<le> n" by linarith
  then show ?thesis
  proof cases
    case 1
    then show ?thesis by (simp add: cp utf8proc_encode_char_def utf8proc_iterate_def)
  next
    case 2
    then have a: "2 \<le> n div 64" "n div 64 < 32" by auto
    show ?thesis unfolding cp encode2 [OF a lt(1) n2] using iterate2 [OF a lt(1)] n2 by simp
  next
    case 3
    then have a: "n div 4096 < 16" by auto
    have "\<not> (n div 4096 = 13 \<and> 32 \<le> c) \<and> \<not> n < 0x800" using 3 sur n3 lt by auto
    then show ?thesis unfolding cp encode3 [OF a lt(2,1) 3(1) n3] using iterate3 [OF a lt(2,1)] n3 by auto
  next
    case 4
    have a: "n div 262144 \<le> 4" using top by auto
    have "\<not> (n div 262144 = 0 \<and> b < 16) \<and> \<not> (n div 262144 = 4 \<and> 16 \<le> b)" using 4 top n4 lt by auto
    then show ?thesis unfolding cp encode4 [OF a lt(3,2,1) 4 top n4] using iterate4 [OF a lt(3,2,1)] n4 by auto
  qed
qed

lemma iterate_accepts:
  assumes "utf8proc_iterate s = (n, cp)" "0 < n"
  shows "scalar cp \<and> n = int (length (utf8proc_encode_char cp)) \<and> s = utf8proc_encode_char cp @ drop (nat n) s"
proof -
  obtain x str where s: "s = x # str" using assms by (cases s) (auto simp: utf8proc_iterate_def)
  have bad: "\<not> 0 < error_invalidutf8" by (simp add: error_invalidutf8_def)
  have lt: "byte x < 256" by (rule byte_lt)
  have "byte x < 0x80 \<or> 0xC2 \<le> byte x \<and> byte x \<le> 0xF4"
  proof (rule ccontr)
    assume "\<not> ?thesis"
    then have "\<not> byte x < 0x80" "byte x < 0xC2 \<or> 0xF4 < byte x" by auto
    then have "utf8proc_iterate s = (error_invalidutf8, -1)" unfolding s utf8proc_iterate_def by simp
    with assms bad show False by simp
  qed
  then consider "byte x < 0x80" | "0xC2 \<le> byte x" "byte x < 0xE0" | "0xE0 \<le> byte x" "byte x < 0xF0" | "0xF0 \<le> byte x" "byte x \<le> 0xF4"
    by linarith
  then show ?thesis
  proof cases
    case 1
    then have "n = 1" "cp = int (byte x)" using assms(1) s by (auto simp: utf8proc_iterate_def)
    with 1 s show ?thesis by (simp add: scalar_def utf8proc_encode_char_def)
  next
    case 2
    then obtain a :: nat where a: "a < 32" "x = char_of (192 + a)" using lead_byteE [of 192 x 32] by auto
    have a2: "2 \<le> a" using 2 a by simp
    obtain y r where y: "str = y # r" "utf_cont y"
      using assms bad s 2 by (cases str) (auto simp: utf8proc_iterate_def Let_def split: if_splits)
    obtain d :: nat where d: "d < 64" "y = char_of (128 + d)" using cont_byteE [OF y(2)] .
    have "n = 2" "cp = int (a * 64 + d)" using assms(1) iterate2 [OF a2 a(1) d(1), of r] s y a d by simp_all
    with encode2 [OF a2 a(1) d(1) refl] s y a d a2 show ?thesis by (simp add: scalar_def)
  next
    case 3
    then obtain a :: nat where a: "a < 16" "x = char_of (224 + a)" using lead_byteE [of 224 x 16] by auto
    obtain y z r where y: "str = y # z # r" "utf_cont y" "utf_cont z"
      using assms bad s 3 by (cases str; cases "tl str") (auto simp: utf8proc_iterate_def Let_def split: if_splits)
    obtain b :: nat where b: "b < 64" "y = char_of (128 + b)" using cont_byteE [OF y(2)] .
    obtain d :: nat where d: "d < 64" "z = char_of (128 + d)" using cont_byteE [OF y(3)] .
    let ?v = "a * 4096 + b * 64 + d"
    have v: "\<not> (a = 13 \<and> 32 \<le> b)" "0x800 \<le> ?v" "n = 3" "cp = int ?v"
      using assms bad iterate3 [OF a(1) b(1) d(1), of r] s y a b d by (auto split: if_splits)
    moreover have "?v < 0xD800 \<or> 0xDFFF < ?v"
    proof (cases "a = 13")
      case True
      with v(1) b(1) d(1) show ?thesis by simp
    next
      case False
      then have "a \<le> 12 \<or> 14 \<le> a" by linarith
      with b(1) d(1) show ?thesis by auto
    qed
    moreover have "?v < 0x10000" using a(1) b(1) d(1) by simp
    ultimately have "scalar (int ?v)" unfolding scalar_nat by linarith
    with encode3 [OF a(1) b(1) d(1) v(2) refl] s y a b d v(3,4) show ?thesis by (simp del: of_nat_add of_nat_mult)
  next
    case 4
    then obtain a :: nat where a: "a < 5" "x = char_of (240 + a)" using lead_byteE [of 240 x 5] by auto
    obtain y z w r where y: "str = y # z # w # r" "utf_cont y" "utf_cont z" "utf_cont w"
      using assms bad s 4
      by (cases str; cases "tl str"; cases "tl (tl str)") (auto simp: utf8proc_iterate_def Let_def split: if_splits)
    obtain b :: nat where b: "b < 64" "y = char_of (128 + b)" using cont_byteE [OF y(2)] .
    obtain c :: nat where c: "c < 64" "z = char_of (128 + c)" using cont_byteE [OF y(3)] .
    obtain d :: nat where d: "d < 64" "w = char_of (128 + d)" using cont_byteE [OF y(4)] .
    let ?v = "a * 262144 + b * 4096 + c * 64 + d"
    have a4: "a \<le> 4" using a(1) by simp
    have v: "\<not> (a = 0 \<and> b < 16)" "\<not> (a = 4 \<and> 16 \<le> b)" "n = 4" "cp = int ?v"
      using assms bad iterate4 [OF a4 b(1) c(1) d(1), of r] s y a b c d by (auto split: if_splits)
    then have r: "0x10000 \<le> ?v" "?v < 0x110000" using a4 b c d by auto
    then have "scalar (int ?v)" unfolding scalar_nat by simp
    with encode4 [OF a4 b(1) c(1) d(1) r refl] s y a b c d v(3,4) show ?thesis by (simp del: of_nat_add of_nat_mult)
  qed
qed

text \<open>
  Decoding is the exact inverse of encoding. The decoder reads a code point off the head of a text
  exactly when the text starts with the encoding of a valid one (no surrogate, nothing above U+10FFFF), and
  then returns that code point and the length of its encoding: what is encoded is read back whatever
  follows, and overlong, truncated and surrogate forms are refused.\<close>

theorem utf8_decode_exact:
  "(0 < fst (utf8proc_iterate s)) = (\<exists>cp rest. scalar cp \<and> s = utf8proc_encode_char cp @ rest) \<and>
   (if 0 < fst (utf8proc_iterate s) then s = utf8proc_encode_char (snd (utf8proc_iterate s)) @ drop (nat (fst (utf8proc_iterate s))) s \<and>
      codepoint_valid (snd (utf8proc_iterate s))
    else snd (utf8proc_iterate s) = -1) \<and>
   (if scalar cp' then utf8proc_iterate (utf8proc_encode_char cp' @ rest') = (int (length (utf8proc_encode_char cp')), cp') else True)"
proof -
  obtain n cp where i: "utf8proc_iterate s = (n, cp)" by fastforce
  have fail: "cp = -1" if "\<not> 0 < n"
    using i that by (auto simp: utf8proc_iterate_def Let_def split: list.splits if_splits)
  have len: "0 < length (utf8proc_encode_char c)" if "scalar c" for c
    using that by (auto simp: utf8proc_encode_char_def scalar_def Let_def split: if_splits)
  note A = iterate_accepts [OF i]
  have valid: "codepoint_valid cp" if "0 < n"
    using A [OF that] codepoint_valid_scalar [of cp] by (simp add: scalar_def is_i32_def)
  have starts: "0 < n \<longleftrightarrow> (\<exists>cp rest. scalar cp \<and> s = utf8proc_encode_char cp @ rest)"
  proof
    assume "\<exists>cp rest. scalar cp \<and> s = utf8proc_encode_char cp @ rest"
    then obtain c rest where c: "scalar c" "s = utf8proc_encode_char c @ rest" by blast
    then have "n = int (length (utf8proc_encode_char c))" using iterate_encode [OF c(1), of rest] i c(2) by (auto dest: sym)
    with len [OF c(1)] show "0 < n" by linarith
  qed (use A in blast)
  have rev: "if scalar cp' then utf8proc_iterate (utf8proc_encode_char cp' @ rest') = (int (length (utf8proc_encode_char cp')), cp') else True"
    using iterate_encode [of cp' rest'] by simp
  have mid: "if 0 < n then s = utf8proc_encode_char cp @ drop (nat n) s \<and> codepoint_valid cp else cp = -1"
    using A valid fail by (meson if_split)
  show ?thesis unfolding i fst_conv snd_conv using starts mid rev by blast
qed

end
