(* ===== verification/Layout.thy ===== *)
theory Layout
  imports Utf8proc "HOL-Library.Signed_Division" "HOL-Library.Sublist"
begin

text \<open>
  Pagination, \<^verbatim>\<open>components/layout/layout.cpp\<close>: grapheme boundaries, counting and truncating by clusters,
  breaking a letter into lines and lines into pages. Offsets into a text are natural numbers, as in the
  code; the Unicode tables are the parameter of \<^verbatim>\<open>Utf8proc\<close>.
\<close>

subsection \<open>Metrics\<close>

record metrics =
  me_panel_w_px :: int
  me_panel_h_px :: int
  me_glyph_w_px :: int
  me_glyph_h_px :: int
  me_margin_px :: int
  me_reserved_top_rows :: int
  me_reserved_bottom_rows :: int

definition default_metrics :: metrics where
  "default_metrics = \<lparr>me_panel_w_px = 264, me_panel_h_px = 176, me_glyph_w_px = 6, me_glyph_h_px = 13, me_margin_px = 2,
     me_reserved_top_rows = 1, me_reserved_bottom_rows = 1\<rparr>"

datatype font_size = FontSmall | FontLarge

definition metrics_for :: "font_size \<Rightarrow> metrics" where
  "metrics_for s = (let m = default_metrics
     in if s = FontLarge then m\<lparr>me_glyph_w_px := 8, me_glyph_h_px := 16\<rparr> else m)"

definition metrics_chars_per_line :: "metrics \<Rightarrow> int" where
  "metrics_chars_per_line m = (if me_glyph_w_px m \<le> 0 then 0
     else let usable_px = me_panel_w_px m - 2 * me_margin_px m; n = usable_px sdiv me_glyph_w_px m
     in if 0 < n then n else 0)"

definition metrics_lines_per_page :: "metrics \<Rightarrow> int" where
  "metrics_lines_per_page m = (if me_glyph_h_px m \<le> 0 then 0
     else let reserved_px = (me_reserved_top_rows m + me_reserved_bottom_rows m) * me_glyph_h_px m;
              usable_px = me_panel_h_px m - reserved_px; n = usable_px sdiv me_glyph_h_px m
     in if 0 < n then n else 0)"

subsection \<open>Clusters\<close>

definition decode_at :: "string \<Rightarrow> nat \<Rightarrow> int \<times> nat" where
  "decode_at s pos = (let (len, cp) = utf8proc_iterate (drop pos s) in if len \<le> 0 then (0xFFFD, 1) else (cp, nat len))"

lemma decode_at_pos: "decode_at s pos = (cp, len) \<Longrightarrow> 0 < len"
  by (auto simp: decode_at_def split: prod.splits if_splits)

function boundaries_loop :: "property_table \<Rightarrow> string \<Rightarrow> nat \<Rightarrow> int \<Rightarrow> boundclass \<Rightarrow> nat list" where
  "boundaries_loop pt s pos cp state =
     (if length s \<le> pos then [length s]
      else case decode_at s pos of (next_cp, next_len) \<Rightarrow>
        case grapheme_break_stateful pt cp next_cp state of (b, state) \<Rightarrow>
          (if b then [pos] else []) @ boundaries_loop pt s (pos + next_len) next_cp state)"
  by pat_completeness auto
termination
  by (relation "measure (\<lambda>(pt, s, pos, cp, state). length s - pos)") (auto dest!: decode_at_pos [OF sym])

declare boundaries_loop.simps [simp del]

definition grapheme_boundaries :: "property_table \<Rightarrow> string \<Rightarrow> nat list" where
  "grapheme_boundaries pt s = (if s = [] then [0]
     else case decode_at s 0 of (cp, len) \<Rightarrow> 0 # boundaries_loop pt s len cp BcStart)"

definition count_graphemes :: "property_table \<Rightarrow> string \<Rightarrow> nat" where
  "count_graphemes pt s = length (grapheme_boundaries pt s) - 1"

definition truncate_graphemes :: "property_table \<Rightarrow> string \<Rightarrow> nat \<Rightarrow> string" where
  "truncate_graphemes pt s n = (let bounds = grapheme_boundaries pt s; idx = min n (length bounds - 1)
     in take (bounds ! idx) s)"

definition is_newline_cluster :: "string \<Rightarrow> bool" where
  "is_newline_cluster c \<longleftrightarrow> c \<noteq> [] \<and> list_all (\<lambda>ch. ch = newline \<or> ch = cr) c"

definition is_space_cluster :: "property_table \<Rightarrow> string \<Rightarrow> bool" where
  "is_space_cluster pt c \<longleftrightarrow>
     (if length c = 1 \<and> (c ! 0 = CHR '' '' \<or> c ! 0 = CHR 0x09) then True
      else let (len, cp) = utf8proc_iterate c
      in if len \<noteq> int (length c) then False else utf8proc_category pt cp = k_category_zs)"

definition substr :: "string \<Rightarrow> nat \<Rightarrow> nat \<Rightarrow> string" where
  "substr s pos n = take n (drop pos s)"

subsection \<open>Breaking lines\<close>

record breaker =
  bk_lines :: "string list"
  bk_line :: string
  bk_line_len :: nat
  bk_pending_space :: bool
  bk_word :: string
  bk_word_len :: nat

definition new_breaker :: breaker where
  "new_breaker = \<lparr>bk_lines = [], bk_line = [], bk_line_len = 0, bk_pending_space = False, bk_word = [], bk_word_len = 0\<rparr>"

text \<open>The hard wrap of one long word; the caller has made \<open>cpl\<close> positive.\<close>

function hard_wrap :: "nat \<Rightarrow> string \<Rightarrow> nat list \<Rightarrow> nat \<Rightarrow> nat \<Rightarrow> string list \<Rightarrow> string list \<times> nat" where
  "hard_wrap cpl word wb word_len start_g lines =
     (if cpl < word_len - start_g \<and> 0 < cpl
      then let end_g = start_g + cpl
        in hard_wrap cpl word wb word_len end_g (lines @ [substr word (wb ! start_g) (wb ! end_g - wb ! start_g)])
      else (lines, start_g))"
  by pat_completeness auto
termination
  by (relation "measure (\<lambda>(cpl, word, wb, word_len, start_g, lines). word_len - start_g)") auto

declare hard_wrap.simps [simp del]

definition place_word :: "property_table \<Rightarrow> nat \<Rightarrow> breaker \<Rightarrow> breaker" where
  "place_word pt cpl b =
     (if bk_word_len b = 0 then b\<lparr>bk_pending_space := False\<rparr>
      else let sep = (if bk_pending_space b \<and> 0 < bk_line_len b then 1 else 0);
               flush = 0 < bk_line_len b \<and> cpl < bk_line_len b + sep + bk_word_len b;
               b = (if flush then b\<lparr>bk_lines := bk_lines b @ [bk_line b], bk_line := [], bk_line_len := 0\<rparr> else b);
               sep = (if flush then 0 else sep);
               b = (if sep \<noteq> 0 then b\<lparr>bk_line := bk_line b @ '' '', bk_line_len := bk_line_len b + 1\<rparr> else b);
               b = (if bk_word_len b \<le> cpl
                 then b\<lparr>bk_line := bk_line b @ bk_word b, bk_line_len := bk_line_len b + bk_word_len b\<rparr>
                 else let wb = grapheme_boundaries pt (bk_word b);
                          (lines, start_g) = hard_wrap cpl (bk_word b) wb (bk_word_len b) 0 (bk_lines b)
                   in b\<lparr>bk_lines := lines, bk_line := drop (wb ! start_g) (bk_word b), bk_line_len := bk_word_len b - start_g\<rparr>)
        in b\<lparr>bk_word := [], bk_word_len := 0, bk_pending_space := False\<rparr>)"

definition break_cluster :: "property_table \<Rightarrow> nat \<Rightarrow> string \<Rightarrow> breaker \<Rightarrow> breaker" where
  "break_cluster pt cpl cluster b =
     (if is_newline_cluster cluster
      then let b = place_word pt cpl b
        in b\<lparr>bk_lines := bk_lines b @ [bk_line b], bk_line := [], bk_line_len := 0, bk_pending_space := False\<rparr>
      else if is_space_cluster pt cluster
      then let b = place_word pt cpl b in if 0 < bk_line_len b then b\<lparr>bk_pending_space := True\<rparr> else b
      else b\<lparr>bk_word := bk_word b @ cluster, bk_word_len := bk_word_len b + 1\<rparr>)"

definition break_lines :: "property_table \<Rightarrow> string \<Rightarrow> int \<Rightarrow> string list" where
  "break_lines pt body chars_per_line =
     (let cpl = nat (if chars_per_line < 1 then 1 else chars_per_line)
      in if body = [] then []
      else let bounds = grapheme_boundaries pt body; total = length bounds - 1;
               b = fold (\<lambda>i. break_cluster pt cpl (substr body (bounds ! i) (bounds ! (i + 1) - bounds ! i))) [0..<total] new_breaker;
               b = place_word pt cpl b
      in if 0 < bk_line_len b \<or> bk_lines b = [] then bk_lines b @ [bk_line b] else bk_lines b)"

function pages_loop :: "nat \<Rightarrow> string list \<Rightarrow> nat \<Rightarrow> string list list" where
  "pages_loop page_size lines i =
     (if i < length lines \<and> 0 < page_size
      then let end' = min (length lines) (i + page_size)
        in take (end' - i) (drop i lines) # pages_loop page_size lines (i + page_size)
      else [])"
  by pat_completeness auto
termination
  by (relation "measure (\<lambda>(page_size, lines, i). length lines - i)") auto

declare pages_loop.simps [simp del]

definition paginate :: "property_table \<Rightarrow> string \<Rightarrow> metrics \<Rightarrow> string list list" where
  "paginate pt body m = (let cpl = metrics_chars_per_line m; lpp = metrics_lines_per_page m
     in if cpl \<le> 0 \<or> lpp \<le> 0 then []
     else let lines = break_lines pt body cpl
     in if lines = [] then [[]] else pages_loop (nat lpp) lines 0)"

end
