(* ===== verification/Layout_Lines.thy ===== *)
theory Layout_Lines
  imports Layout
begin

text \<open>
  What the layout guarantees: a text is cut into units (one decoded code point each), the units into
  clusters by the break machine, and lines into whole clusters. Every offset of \<^verbatim>\<open>Layout\<close> is the start of a
  cluster, cutting at one changes no other, and the lines carry exactly the clusters of the letter.
\<close>

subsection \<open>Units\<close>

type_synonym unit_cp = "int \<times> string"

function units :: "string \<Rightarrow> unit_cp list" where
  "units s = (if s = [] then [] else case decode_at s 0 of (cp, len) \<Rightarrow> (cp, take len s) # units (drop len s))"
  by pat_completeness auto
termination
  by (relation "measure length") (auto dest!: decode_at_pos [OF sym])

declare units.simps [simp del]

lemma units_Nil [simp]: "units [] = []"
  by (simp add: units.simps)

definition text_of :: "unit_cp list \<Rightarrow> string" where
  "text_of us = concat (map snd us)"

lemma text_of_simps [simp]:
  "text_of [] = []" "text_of (u # us) = snd u @ text_of us" "text_of (us @ vs) = text_of us @ text_of vs"
  by (simp_all add: text_of_def)

lemma units_step:
  assumes "s \<noteq> []" "decode_at s 0 = (cp, len)"
  shows "units s = (cp, take len s) # units (drop len s)"
  using assms by (subst units.simps) simp

lemma text_of_units: "text_of (units s) = s"
proof (induction s rule: units.induct)
  case (1 s)
  obtain cp len where "decode_at s 0 = (cp, len)" by fastforce
  with 1 show ?case by (cases "s = []") (simp_all add: units_step)
qed

lemma units_nonempty: "u \<in> set (units s) \<Longrightarrow> snd u \<noteq> []"
proof (induction s rule: units.induct)
  case (1 s)
  obtain cp len where d: "decode_at s 0 = (cp, len)" by fastforce
  with 1 decode_at_pos [OF d] show ?case by (cases "s = []") (auto simp: units_step)
qed

text \<open>Reading one unit looks at no byte beyond it, and a shorter text reads no more than a longer one.\<close>

lemma iterate_acceptsE:
  assumes "utf8proc_iterate s = (n, cp)" "0 < n"
  obtains e rest where "s = e @ rest" "nat n = length e" "\<And>r. utf8proc_iterate (e @ r) = (n, cp)"
proof -
  note A = iterate_accepts [OF assms]
  have "s = utf8proc_encode_char cp @ drop (nat n) s" "nat n = length (utf8proc_encode_char cp)" using A by auto
  moreover have "utf8proc_iterate (utf8proc_encode_char cp @ r) = (n, cp)" for r using A iterate_encode [of cp r] by simp
  ultimately show ?thesis by (rule that)
qed

lemma iterate_bounds: "utf8proc_iterate s = (n, cp) \<Longrightarrow> 0 < n \<Longrightarrow> nat n \<le> length s"
  by (erule iterate_acceptsE) simp_all

lemma iterate_extends: "utf8proc_iterate t = (n, cp) \<Longrightarrow> 0 < n \<Longrightarrow> utf8proc_iterate (t @ r) = (n, cp)"
  by (erule iterate_acceptsE) simp_all

lemma iterate_shrinks:
  assumes "utf8proc_iterate (t @ r) = (n, cp)" "0 < n" "nat n \<le> length t"
  shows "utf8proc_iterate t = (n, cp)"
proof -
  obtain e rest where e: "t @ r = e @ rest" "nat n = length e" "\<And>r. utf8proc_iterate (e @ r) = (n, cp)"
    using iterate_acceptsE [OF assms(1,2)] by metis
  then obtain us where "t = e @ us" using assms(3) by (auto simp: append_eq_append_conv2)
  with e(3) show ?thesis by simp
qed

lemma decode_prefix:
  assumes "decode_at (t @ r) 0 = (cp, len)" "len \<le> length t" "t \<noteq> []"
  shows "decode_at t 0 = (cp, len)"
proof -
  obtain n c where i: "utf8proc_iterate (t @ r) = (n, c)" by fastforce
  obtain n' c' where i': "utf8proc_iterate t = (n', c')" by fastforce
  show ?thesis
  proof (cases "0 < n")
    case True
    then have "cp = c" "len = nat n" using assms(1) i by (simp_all add: decode_at_def)
    with iterate_shrinks [OF i True] assms(2) True show ?thesis by (simp add: decode_at_def)
  next
    case False
    have "\<not> 0 < n'" using iterate_extends [OF i', of r] i False by auto
    then show ?thesis using False assms(1) i i' by (simp add: decode_at_def)
  qed
qed

lemma decode_at_le:
  assumes "decode_at s 0 = (cp, len)" "s \<noteq> []"
  shows "len \<le> length s"
proof -
  have "Suc 0 \<le> length s" using assms(2) by (cases s) simp_all
  moreover obtain n c where i: "utf8proc_iterate s = (n, c)" by fastforce
  ultimately show ?thesis using iterate_bounds [OF i] assms(1) by (cases "0 < n") (simp_all add: decode_at_def)
qed

lemma units_suffix: "units s = us @ vs \<Longrightarrow> units (text_of vs) = vs"
proof (induction us arbitrary: s)
  case Nil
  then show ?case using text_of_units [of s] by simp
next
  case (Cons u us)
  then have "s \<noteq> []" by auto
  moreover obtain cp len where d: "decode_at s 0 = (cp, len)" by fastforce
  ultimately have "units s = (cp, take len s) # units (drop len s)" by (rule units_step)
  with Cons.prems have "units (drop len s) = us @ vs" by simp
  then show ?case by (rule Cons.IH)
qed

lemma units_prefix: "units s = us @ vs \<Longrightarrow> units (text_of us) = us"
proof (induction us arbitrary: s)
  case (Cons u us)
  then have ne: "s \<noteq> []" by auto
  obtain cp len where d: "decode_at s 0 = (cp, len)" by fastforce
  have s: "units s = (cp, take len s) # units (drop len s)" by (rule units_step [OF ne d])
  with Cons.prems have u: "u = (cp, take len s)" and r: "units (drop len s) = us @ vs" by simp_all
  have "s = snd u @ text_of us @ text_of vs" using text_of_units [of s] Cons.prems by simp
  then have sp: "s = text_of (u # us) @ text_of vs" by simp
  have pos: "0 < len" by (rule decode_at_pos [OF d])
  have len: "len \<le> length s" by (rule decode_at_le [OF d ne])
  have lu: "length (snd u) = len" using len u by simp
  have ne': "text_of (u # us) \<noteq> []" using lu pos by auto
  have "decode_at (text_of (u # us)) 0 = (cp, len)"
    using decode_prefix [of "text_of (u # us)" "text_of vs" cp len] d ne' lu unfolding sp [symmetric] by simp
  moreover have "take len (text_of (u # us)) = snd u" "drop len (text_of (u # us)) = text_of us" using lu by simp_all
  ultimately have "units (text_of (u # us)) = (cp, snd u) # units (text_of us)"
    using units_step [OF ne'] by metis
  with Cons.IH [OF r] u show ?case by simp
qed simp

subsection \<open>Clusters\<close>

definition class_of :: "property_table \<Rightarrow> unit_cp \<Rightarrow> boundclass" where
  "class_of pt u = pr_boundclass (get_property pt (fst u))"

text \<open>
  The clusters of a run of units: \<open>e\<close> is the state the machine compares the next class with, \<open>cur\<close> the cluster
  being collected.
\<close>

fun group :: "property_table \<Rightarrow> boundclass \<Rightarrow> unit_cp list \<Rightarrow> unit_cp list \<Rightarrow> unit_cp list list" where
  "group pt e cur [] = [cur]"
| "group pt e cur (v # us) =
     (if grapheme_break_simple e (class_of pt v)
      then cur # group pt (next_break_state e (class_of pt v)) [v] us
      else group pt (next_break_state e (class_of pt v)) (cur @ [v]) us)"

definition unit_clusters :: "property_table \<Rightarrow> unit_cp list \<Rightarrow> unit_cp list list" where
  "unit_clusters pt us = (case us of [] \<Rightarrow> [] | u # us \<Rightarrow> group pt (class_of pt u) [u] us)"

definition clusters :: "property_table \<Rightarrow> string \<Rightarrow> string list" where
  "clusters pt s = map text_of (unit_clusters pt (units s))"

fun offsets :: "nat \<Rightarrow> string list \<Rightarrow> nat list" where
  "offsets k [] = [k]"
| "offsets k (c # cs) = k # offsets (k + length c) cs"

definition table_ok :: "property_table \<Rightarrow> bool" where
  "table_ok pt \<longleftrightarrow> (\<forall>cp. table_class (pr_boundclass (get_property pt cp))) \<and>
     (\<forall>cp. utf8proc_category pt cp = k_category_zs \<longrightarrow> pr_boundclass (get_property pt cp) = BcOther) \<and>
     (\<forall>cp \<in> {9, 10, 13, 32}. pr_boundclass (get_property pt cp) \<in> {BcCr, BcLf, BcControl, BcOther})"

lemma table_class_of: "table_ok pt \<Longrightarrow> class_of pt u \<noteq> BcStart"
  by (simp add: table_ok_def class_of_def table_class_def)

lemma concat_group: "concat (group pt e cur us) = cur @ us"
  by (induction us arbitrary: e cur) simp_all

lemma group_nonempty: "cur \<noteq> [] \<Longrightarrow> c \<in> set (group pt e cur us) \<Longrightarrow> c \<noteq> []"
  by (induction us arbitrary: e cur) (auto split: if_splits)

lemma group_neq_Nil [simp]: "group pt e cur us \<noteq> []"
  by (induction us arbitrary: e cur) simp_all

lemma concat_unit_clusters: "concat (unit_clusters pt us) = us"
  by (cases us) (simp_all add: unit_clusters_def concat_group)

lemma concat_clusters: "concat (clusters pt s) = s"
proof -
  have "concat (map text_of cs) = text_of (concat cs)" for cs by (induction cs) simp_all
  then show ?thesis by (simp add: clusters_def concat_unit_clusters text_of_units)
qed

text \<open>A cut at the start of a cluster leaves the clusters before it as they are.\<close>

lemma group_cut:
  "group pt e cur us = xs @ ys \<Longrightarrow> xs \<noteq> [] \<Longrightarrow> ys \<noteq> [] \<Longrightarrow>
   \<exists>us1 v us2. us = us1 @ v # us2 \<and> group pt e cur us1 = xs \<and>
     ys = group pt (next_break_state (fold (\<lambda>u e. next_break_state e (class_of pt u)) us1 e) (class_of pt v)) [v] us2"
proof (induction us arbitrary: e cur xs)
  case Nil
  then show ?case by (cases xs) auto
next
  case (Cons u us)
  let ?e = "next_break_state e (class_of pt u)"
  show ?case
  proof (cases "grapheme_break_simple e (class_of pt u)")
    case True
    with Cons.prems obtain xs' where xs: "xs = cur # xs'" and g: "group pt ?e [u] us = xs' @ ys" by (cases xs) auto
    show ?thesis
    proof (cases "xs' = []")
      case True
      with g xs show ?thesis by (intro exI [of _ "[]"] exI [of _ u] exI [of _ us]) simp
    next
      case False
      from Cons.IH [OF g False Cons.prems(3)] obtain us1 v us2 where
        "us = us1 @ v # us2" "group pt ?e [u] us1 = xs'"
        "ys = group pt (next_break_state (fold (\<lambda>u e. next_break_state e (class_of pt u)) us1 ?e) (class_of pt v)) [v] us2" by blast
      with True xs show ?thesis by (intro exI [of _ "u # us1"] exI [of _ v] exI [of _ us2]) simp
    qed
  next
    case False
    with Cons.prems have g: "group pt ?e (cur @ [u]) us = xs @ ys" by simp
    from Cons.IH [OF g Cons.prems(2,3)] obtain us1 v us2 where
      "us = us1 @ v # us2" "group pt ?e (cur @ [u]) us1 = xs"
      "ys = group pt (next_break_state (fold (\<lambda>u e. next_break_state e (class_of pt u)) us1 ?e) (class_of pt v)) [v] us2" by blast
    with False show ?thesis by (intro exI [of _ "u # us1"] exI [of _ v] exI [of _ us2]) simp
  qed
qed

lemma unit_clusters_prefix:
  assumes "unit_clusters pt us = xs @ ys"
  shows "unit_clusters pt (concat xs) = xs"
proof (cases "xs = [] \<or> ys = []")
  case True
  with assms concat_unit_clusters [of pt us] show ?thesis by (auto simp: unit_clusters_def)
next
  case False
  with assms obtain u us' where us: "us = u # us'" by (cases us) (auto simp: unit_clusters_def)
  with assms False obtain us1 where "group pt (class_of pt u) [u] us1 = xs"
    using group_cut [of pt "class_of pt u" "[u]" us' xs ys] by (auto simp: unit_clusters_def)
  moreover from this have "concat xs = u # us1" using concat_group [of pt "class_of pt u" "[u]" us1] by simp
  ultimately show ?thesis by (simp add: unit_clusters_def)
qed

lemma clusters_prefix:
  assumes "clusters pt s = xs @ ys"
  shows "clusters pt (concat xs) = xs"
proof -
  let ?u = "unit_clusters pt (units s)" and ?n = "length xs"
  have u: "?u = take ?n ?u @ drop ?n ?u" by simp
  have xs: "xs = map text_of (take ?n ?u)" using assms by (simp add: clusters_def flip: take_map)
  have "concat (map text_of cs) = text_of (concat cs)" for cs by (induction cs) simp_all
  then have "concat xs = text_of (concat (take ?n ?u))" using xs by metis
  moreover have "units s = concat (take ?n ?u) @ concat (drop ?n ?u)"
    using concat_unit_clusters [of pt "units s"] by (simp flip: concat_append)
  ultimately have "units (concat xs) = concat (take ?n ?u)" using units_prefix by metis
  with unit_clusters_prefix [OF u] xs show ?thesis by (simp add: clusters_def)
qed

subsection \<open>Boundaries are cluster starts\<close>

lemma offsets_tl: "cs \<noteq> [] \<Longrightarrow> offsets k cs = k # tl (offsets k cs)"
  by (cases cs) simp_all

lemma next_not_start: "k \<noteq> BcStart \<Longrightarrow> next_break_state e k \<noteq> BcStart"
  by (simp add: next_break_state_def)

lemma boundaries_loop_offsets:
  "table_ok pt \<Longrightarrow> s = pre @ rest \<Longrightarrow> length pre = pos \<Longrightarrow> k + length (text_of cur) = pos \<Longrightarrow>
    boundaries_loop pt s pos cp state =
      tl (offsets k (map text_of (group pt (if state = BcStart then class_of pt (cp, []) else state) cur (units rest))))"
proof (induction pt s pos cp state arbitrary: pre rest k cur rule: boundaries_loop.induct)
  case (1 pt s pos cp state)
  let ?e = "if state = BcStart then class_of pt (cp, []) else state"
  show ?case
  proof (cases "length s \<le> pos")
    case True
    with "1.prems" have "rest = []" by simp
    with True "1.prems" show ?thesis by (simp add: boundaries_loop.simps)
  next
    case False
    obtain ncp len where d: "decode_at s pos = (ncp, len)" by fastforce
    have dr: "decode_at rest 0 = (ncp, len)" using d "1.prems" by (simp add: decode_at_def)
    have ne: "rest \<noteq> []" using False "1.prems" by auto
    define b where "b = grapheme_break_simple ?e (class_of pt (ncp, []))"
    define st where "st = next_break_state ?e (class_of pt (ncp, []))"
    have g: "grapheme_break_stateful pt cp ncp state = (b, st)"
      by (simp add: grapheme_break_stateful_def grapheme_break_extended_def b_def st_def class_of_def Let_def)
    have u: "units rest = (ncp, take len rest) # units (drop len rest)" by (rule units_step [OF ne dr])
    have k: "class_of pt (ncp, take len rest) = class_of pt (ncp, [])" by (simp add: class_of_def)
    have "class_of pt (ncp, []) \<noteq> BcStart" using "1.prems"(1) by (rule table_class_of)
    then have stn: "st \<noteq> BcStart" by (simp add: st_def next_not_start)
    have eq: "boundaries_loop pt s pos cp state = (if b then [pos] else []) @ boundaries_loop pt s (pos + len) ncp st"
      using False d g by (subst boundaries_loop.simps) simp
    have len: "len \<le> length rest" by (rule decode_at_le [OF dr ne])
    have ih: "boundaries_loop pt s (pos + len) ncp st = tl (offsets k' (map text_of (group pt st cur' (units (drop len rest)))))"
      if "k' + length (text_of cur') = pos + len" for k' cur'
    proof -
      have "s = (pre @ take len rest) @ drop len rest" "length (pre @ take len rest) = pos + len"
        using "1.prems" len by simp_all
      from "1.IH" [OF False d [symmetric] g [symmetric] "1.prems"(1) this that] stn show ?thesis by simp
    qed
    show ?thesis
    proof (cases b)
      case True
      have "boundaries_loop pt s (pos + len) ncp st = tl (offsets pos (map text_of (group pt st [(ncp, take len rest)] (units (drop len rest)))))"
        by (rule ih) (use len in simp)
      then show ?thesis using True eq u k "1.prems"
        by (simp add: b_def [symmetric] st_def [symmetric]) (subst offsets_tl, simp_all)
    next
      case False
      have "boundaries_loop pt s (pos + len) ncp st =
          tl (offsets k (map text_of (group pt st (cur @ [(ncp, take len rest)]) (units (drop len rest)))))"
        by (rule ih) (use len "1.prems" in simp)
      then show ?thesis using False eq u k by (simp add: b_def [symmetric] st_def [symmetric])
    qed
  qed
qed

lemma boundaries_offsets:
  assumes "table_ok pt"
  shows "grapheme_boundaries pt s = offsets 0 (clusters pt s)"
proof (cases "s = []")
  case True
  then show ?thesis by (simp add: grapheme_boundaries_def clusters_def unit_clusters_def)
next
  case False
  obtain cp len where d: "decode_at s 0 = (cp, len)" by fastforce
  have len: "len \<le> length s" by (rule decode_at_le [OF d False])
  have u: "units s = (cp, take len s) # units (drop len s)" by (rule units_step [OF False d])
  have "boundaries_loop pt s len cp BcStart =
      tl (offsets 0 (map text_of (group pt (class_of pt (cp, [])) [(cp, take len s)] (units (drop len s)))))"
    using boundaries_loop_offsets [OF assms, of s "take len s" "drop len s" len 0 "[(cp, take len s)]" cp BcStart] len by simp
  moreover have "class_of pt (cp, take len s) = class_of pt (cp, [])" by (simp add: class_of_def)
  ultimately show ?thesis
    using False d u by (simp add: grapheme_boundaries_def clusters_def unit_clusters_def) (subst offsets_tl, simp_all)
qed

lemma length_offsets [simp]: "length (offsets k cs) = length cs + 1"
  by (induction cs arbitrary: k) simp_all

lemma nth_offsets: "i \<le> length cs \<Longrightarrow> offsets k cs ! i = k + length (concat (take i cs))"
proof (induction cs arbitrary: k i)
  case (Cons c cs)
  then show ?case by (cases i) simp_all
qed simp

lemma slice_offsets:
  assumes "i < length cs" "j \<le> length cs" "i \<le> j"
  shows "substr (concat cs) (offsets 0 cs ! i) (offsets 0 cs ! j - offsets 0 cs ! i) = concat (take (j - i) (drop i cs))"
proof -
  have "cs = take i cs @ take (j - i) (drop i cs) @ drop j cs"
    using assms by (metis append_take_drop_id drop_drop le_add_diff_inverse2)
  then have c: "concat cs = concat (take i cs) @ concat (take (j - i) (drop i cs)) @ concat (drop j cs)"
    by (metis concat_append)
  have "take j cs = take i cs @ take (j - i) (drop i cs)" using assms(3) by (metis le_add_diff_inverse take_add)
  then have "length (concat (take j cs)) = length (concat (take i cs)) + length (concat (take (j - i) (drop i cs)))"
    by (metis concat_append length_append)
  with assms c show ?thesis by (simp add: nth_offsets substr_def del: concat_append)
qed

text \<open>Counting and truncating.\<close>

lemma count_clusters: "table_ok pt \<Longrightarrow> count_graphemes pt s = length (clusters pt s)"
  by (simp add: count_graphemes_def boundaries_offsets)

lemma truncate_clusters:
  assumes "table_ok pt"
  shows "truncate_graphemes pt s n = concat (take n (clusters pt s))"
proof -
  let ?cs = "clusters pt s" and ?i = "min n (length (clusters pt s))"
  have "concat ?cs = s" by (rule concat_clusters)
  moreover have "concat ?cs = concat (take ?i ?cs) @ concat (drop ?i ?cs)" by (metis append_take_drop_id concat_append)
  ultimately have "take (length (concat (take ?i ?cs))) s = concat (take ?i ?cs)" by (metis append_eq_conv_conj)
  moreover have "take ?i ?cs = take n ?cs" by (simp add: min_def)
  ultimately show ?thesis by (simp add: truncate_graphemes_def boundaries_offsets [OF assms] nth_offsets Let_def)
qed

lemma cluster_nonempty:
  assumes "c \<in> set (clusters pt s)"
  shows "c \<noteq> []"
proof -
  obtain us where us: "us \<in> set (unit_clusters pt (units s))" "c = text_of us" using assms by (auto simp: clusters_def)
  have "us \<noteq> []"
  proof (cases "units s")
    case (Cons u vs)
    with us(1) have "us \<in> set (group pt (class_of pt u) [u] vs)" by (simp add: unit_clusters_def)
    then show ?thesis by (rule group_nonempty [rotated]) simp
  qed (use us(1) in \<open>simp add: unit_clusters_def\<close>)
  then obtain u where u: "u \<in> set us" by (cases us) auto
  have "set us \<subseteq> set (concat (unit_clusters pt (units s)))" using us(1) by auto
  with u have "snd u \<noteq> []" unfolding concat_unit_clusters using units_nonempty by blast
  with u us(2) show ?thesis by (auto simp: text_of_def)
qed

lemma sorted_offsets:
  "\<forall>c \<in> set cs. c \<noteq> [] \<Longrightarrow> sorted_wrt (<) (offsets k cs) \<and> (\<forall>x \<in> set (offsets k cs). k \<le> x)"
proof (induction cs arbitrary: k)
  case (Cons c cs)
  have "k < k + length c" using Cons.prems by simp
  moreover have "sorted_wrt (<) (offsets (k + length c) cs)" "\<forall>x \<in> set (offsets (k + length c) cs). k + length c \<le> x"
    using Cons.IH [of "k + length c"] Cons.prems by simp_all
  ultimately have "\<forall>x \<in> set (offsets (k + length c) cs). k < x" by (meson order.strict_trans2)
  with \<open>sorted_wrt (<) (offsets (k + length c) cs)\<close> show ?case by (auto intro: less_imp_le)
qed simp

lemma last_offsets: "last (offsets k cs) = k + length (concat cs)"
proof (induction cs arbitrary: k)
  case (Cons c cs)
  have "offsets (k + length c) cs \<noteq> []" by (cases cs) simp_all
  with Cons show ?case by simp
qed simp

lemma clusters_truncate: "table_ok pt \<Longrightarrow> clusters pt (truncate_graphemes pt s n) = take n (clusters pt s)"
  using clusters_prefix [of pt s "take n (clusters pt s)" "drop n (clusters pt s)"] by (simp add: truncate_clusters)

subsection \<open>Words stand on their own\<close>

text \<open>
  A separator ends in a class the machine forgets, so the clusters after it are those of the rest of the
  text taken alone.
\<close>

definition is_separator :: "property_table \<Rightarrow> string \<Rightarrow> bool" where
  "is_separator pt c \<longleftrightarrow> is_newline_cluster c \<or> is_space_cluster pt c"

definition forgotten :: "boundclass \<Rightarrow> bool" where
  "forgotten k \<longleftrightarrow> k \<in> {BcCr, BcLf, BcControl, BcOther}"

lemma next_forgotten: "forgotten k \<Longrightarrow> next_break_state e k = k" "forgotten e \<Longrightarrow> next_break_state e k = k"
  by (auto simp: forgotten_def next_break_state_def)

lemma unit_clusters_suffix:
  assumes u: "unit_clusters pt us = xs @ ys" and ne: "xs \<noteq> []" "ys \<noteq> []" and f: "forgotten (class_of pt (last (concat xs)))"
  shows "unit_clusters pt (concat ys) = ys"
proof -
  from u ne obtain v vs where us: "us = v # vs" by (cases us) (auto simp: unit_clusters_def)
  let ?e = "class_of pt v"
  have g: "group pt ?e [v] vs = xs @ ys" using u us by (simp add: unit_clusters_def)
  from group_cut [OF g ne] obtain vs1 z vs2 where v: "vs = vs1 @ z # vs2" "group pt ?e [v] vs1 = xs"
    "ys = group pt (next_break_state (fold (\<lambda>u e. next_break_state e (class_of pt u)) vs1 ?e) (class_of pt z)) [z] vs2" by blast
  have c: "concat xs = v # vs1" using v(2) concat_group [of pt ?e "[v]" vs1] by simp
  have "forgotten (fold (\<lambda>u e. next_break_state e (class_of pt u)) vs1 ?e)"
  proof (cases vs1 rule: rev_cases)
    case Nil
    with f c show ?thesis by simp
  next
    case (snoc vs' y)
    with f c show ?thesis by (simp add: next_forgotten(1))
  qed
  then have "ys = group pt (class_of pt z) [z] vs2" using v(3) next_forgotten(2) by simp
  moreover from this have "concat ys = z # vs2" using concat_group [of pt "class_of pt z" "[z]" vs2] by simp
  ultimately show ?thesis by (simp add: unit_clusters_def)
qed

lemma units_single_byte: "byte c < 0x80 \<Longrightarrow> decode_at (c # r) 0 = (int (byte c), 1)"
  by (simp add: decode_at_def utf8proc_iterate_def)

lemma separator_forgotten:
  assumes "table_ok pt" "c \<noteq> []" "is_separator pt c"
  shows "forgotten (class_of pt (last (units c)))"
proof -
  have ws: "forgotten (class_of pt (cp, r))" if "cp \<in> {9, 10, 13, 32}" for cp r
    using assms(1) that by (auto simp: table_ok_def class_of_def forgotten_def)
  consider (nl) "is_newline_cluster c" | (one) x where "c = [x]" "x = CHR '' '' \<or> x = CHR 0x09"
    | (zs) cp where "utf8proc_iterate c = (int (length c), cp)" "utf8proc_category pt cp = k_category_zs"
    using assms(3) unfolding is_separator_def is_space_cluster_def
    by (cases "length c = 1 \<and> (c ! 0 = CHR '' '' \<or> c ! 0 = CHR 0x09)"; cases c) (auto split: prod.splits if_splits)
  then show ?thesis
  proof cases
    case nl
    obtain us z where us: "units c = us @ [z]" using assms(2) units_step [of c] by (cases "units c" rule: rev_cases) (auto simp: units.simps split: prod.splits)
    have "units (snd z) = [z]" using units_suffix [OF us] by simp
    moreover have "snd z \<noteq> []" using units_nonempty [of z c] us by simp
    then obtain x r where x: "snd z = x # r" by (cases "snd z") auto
    moreover have "x \<in> set c" using text_of_units [of c] us x by (metis Un_iff list.set_intros(1) set_append text_of_simps(2,3))
    then have "x = newline \<or> x = cr" using nl by (auto simp: is_newline_cluster_def list_all_iff)
    then have b: "byte x = 10 \<or> byte x = 13" by (auto simp: newline_def cr_def byte_def)
    then have "decode_at (x # r) 0 = (int (byte x), 1)" by (intro units_single_byte) auto
    from units_step [OF _ this] have "hd (units (snd z)) = (int (byte x), [x])" using x by simp
    ultimately have "z = (int (byte x), [x])" by simp
    with us b ws show ?thesis by auto
  next
    case one
    then have b: "byte x = 32 \<or> byte x = 9" by (auto simp: byte_def)
    then have "decode_at [x] 0 = (int (byte x), 1)" by (intro units_single_byte) auto
    with units_step [of "[x]"] one have "units c = [(int (byte x), [x])]" by simp
    with b ws show ?thesis by auto
  next
    case zs
    have "decode_at c 0 = (cp, length c)" using zs(1) assms(2) by (simp add: decode_at_def)
    then have "units c = [(cp, c)]" using units_step [of c cp "length c"] assms(2) by simp
    moreover have "pr_boundclass (get_property pt cp) = BcOther" using assms(1) zs(2) by (simp add: table_ok_def)
    ultimately show ?thesis by (simp add: class_of_def forgotten_def)
  qed
qed

lemma clusters_segment:
  assumes "table_ok pt" "clusters pt s = xs @ ws @ ys" "xs = [] \<or> is_separator pt (last xs)"
  shows "clusters pt (concat ws) = ws"
proof (cases "xs = [] \<or> ws = []")
  case True
  with assms(2) clusters_prefix [of pt s ws ys] show ?thesis by (auto simp: clusters_def unit_clusters_def)
next
  case False
  let ?u = "unit_clusters pt (units s)"
  define ux where "ux = take (length xs) ?u"
  define ut where "ut = drop (length xs) ?u"
  have u: "?u = ux @ ut" by (simp add: ux_def ut_def)
  have m: "xs = map text_of ux" "ws @ ys = map text_of ut" using assms(2)
    by (auto simp: clusters_def ux_def ut_def simp flip: take_map drop_map)
  have ne: "ux \<noteq> []" "ut \<noteq> []" using m False by auto
  have cu: "units s = concat ux @ concat ut" using concat_unit_clusters [of pt "units s"] u by simp
  have "concat ux = concat (butlast ux) @ last ux" using ne(1) by (metis append_butlast_last_id concat.simps concat_append append_Nil2)
  then have "units s = concat (butlast ux) @ last ux @ concat ut" using cu by simp
  then have "units (text_of (last ux @ concat ut)) = last ux @ concat ut" by (rule units_suffix)
  then have l: "units (text_of (last ux)) = last ux" by (rule units_prefix)
  have lx: "last xs = text_of (last ux)" using m(1) ne(1) by (simp add: last_map)
  have nx: "last xs \<noteq> []" using cluster_nonempty [of "last xs" pt s] assms(2) False by simp
  then have "last ux \<noteq> []" using lx by auto
  then have "last (concat ux) = last (last ux)" using \<open>concat ux = concat (butlast ux) @ last ux\<close> by simp
  moreover have "forgotten (class_of pt (last (units (last xs))))"
    using separator_forgotten [OF assms(1) nx] assms(3) False by blast
  ultimately have "forgotten (class_of pt (last (concat ux)))" using l lx by simp
  then have "unit_clusters pt (concat ut) = ut" by (rule unit_clusters_suffix [OF u ne])
  moreover have "units (text_of (concat ut)) = concat ut" by (rule units_suffix [OF cu])
  moreover have "text_of (concat ut) = concat (ws @ ys)"
  proof -
    have "concat (map text_of cs) = text_of (concat cs)" for cs by (induction cs) simp_all
    then show ?thesis using m(2) by metis
  qed
  ultimately have "clusters pt (concat (ws @ ys)) = ws @ ys" using m(2) by (simp add: clusters_def)
  then show ?thesis by (rule clusters_prefix)
qed

text \<open>
  Cutting never splits a character. The boundaries of any text, well-formed UTF-8 or not, start at zero
  and end at its length, strictly increasing; truncating to n clusters returns the longest prefix that
  ends at a boundary and holds at most n: it counts n clusters, or the whole text is returned when it
  has no more, and truncating twice is truncating to the smaller number.\<close>

theorem truncation_keeps_clusters:
  assumes "table_ok pt"
  shows "hd (grapheme_boundaries pt s) = 0 \<and> last (grapheme_boundaries pt s) = length s \<and>
    sorted_wrt (<) (grapheme_boundaries pt s) \<and>
    prefix (truncate_graphemes pt s n) s \<and> length (truncate_graphemes pt s n) \<in> set (grapheme_boundaries pt s) \<and>
    count_graphemes pt (truncate_graphemes pt s n) = min n (count_graphemes pt s) \<and>
    (if count_graphemes pt s \<le> n then truncate_graphemes pt s n = s else True) \<and>
    truncate_graphemes pt (truncate_graphemes pt s n) m = truncate_graphemes pt s (min n m)"
proof -
  let ?cs = "clusters pt s" and ?t = "truncate_graphemes pt s n"
  note b = boundaries_offsets [OF assms, of s] and t = truncate_clusters [OF assms, of s]
  have s: "s = concat (take n ?cs) @ concat (drop n ?cs)" using concat_clusters [of pt s] by (metis append_take_drop_id concat_append)
  have "hd (grapheme_boundaries pt s) = 0" unfolding b by (cases ?cs) simp_all
  moreover have "last (grapheme_boundaries pt s) = length s" unfolding b last_offsets by (simp add: concat_clusters)
  moreover have "sorted_wrt (<) (grapheme_boundaries pt s)"
    unfolding b using sorted_offsets cluster_nonempty by blast
  moreover have "prefix ?t s" unfolding t using s by (metis prefixI)
  moreover have "length ?t \<in> set (grapheme_boundaries pt s)"
  proof -
    let ?i = "min n (length ?cs)"
    have "offsets 0 ?cs ! ?i = length ?t" unfolding t by (subst nth_offsets) (simp_all add: min_def)
    moreover have "?i < length (offsets 0 ?cs)" by simp
    ultimately show ?thesis unfolding b by (metis nth_mem)
  qed
  moreover have "count_graphemes pt ?t = min n (count_graphemes pt s)"
    by (simp add: count_clusters [OF assms] clusters_truncate [OF assms] min.commute)
  moreover have "if count_graphemes pt s \<le> n then ?t = s else True"
    by (simp add: count_clusters [OF assms] t concat_clusters)
  moreover have "truncate_graphemes pt ?t m = truncate_graphemes pt s (min n m)"
  proof -
    have "truncate_graphemes pt ?t m = concat (take m (clusters pt ?t))" by (rule truncate_clusters [OF assms])
    also have "\<dots> = concat (take (min n m) ?cs)" by (simp only: clusters_truncate [OF assms] take_take min.commute)
    finally show ?thesis by (simp only: truncate_clusters [OF assms])
  qed
  ultimately show ?thesis by blast
qed

text \<open>A table of five characters: a space, a line feed, an accent that combines, a flag letter, and letters.\<close>

definition tiny_table :: property_table where
  "tiny_table = \<lparr>pt_default = \<lparr>pr_category = 0, pr_charwidth = 1, pr_boundclass = BcOther\<rparr>,
     pt_lookup = (\<lambda>cp. if cp = 32 then \<lparr>pr_category = k_category_zs, pr_charwidth = 1, pr_boundclass = BcOther\<rparr>
       else if cp = 13 then \<lparr>pr_category = 26, pr_charwidth = 0, pr_boundclass = BcCr\<rparr>
       else if cp = 10 then \<lparr>pr_category = 26, pr_charwidth = 0, pr_boundclass = BcLf\<rparr>
       else if cp = 0x301 then \<lparr>pr_category = 6, pr_charwidth = 0, pr_boundclass = BcExtend\<rparr>
       else \<lparr>pr_category = 2, pr_charwidth = 1, pr_boundclass = BcOther\<rparr>)\<rparr>"

lemma tiny_table_ok: "table_ok tiny_table"
  by (auto simp: table_ok_def tiny_table_def get_property_def table_class_def utf8proc_category_def k_category_zs_def)

lemma truncation_keeps_clusters_witness:
  "prefix (truncate_graphemes tiny_table ''mama'' 2) ''mama'' \<and>
   truncate_graphemes tiny_table (truncate_graphemes tiny_table ''mama'' 2) 1 = truncate_graphemes tiny_table ''mama'' (min 2 1)"
  using truncation_keeps_clusters [OF tiny_table_ok] by blast

subsection \<open>Lines of clusters\<close>

text \<open>The same algorithm on clusters: lines, the current line, a pending space and the current word.\<close>

type_synonym line_state = "string list list \<times> string list \<times> bool \<times> string list"

function wrap :: "nat \<Rightarrow> string list \<Rightarrow> string list list \<times> string list" where
  "wrap cpl w = (if cpl < length w \<and> 0 < cpl
     then case wrap cpl (drop cpl w) of (a, b) \<Rightarrow> (take cpl w # a, b) else ([], w))"
  by pat_completeness auto
termination
  by (relation "measure (\<lambda>(cpl, w). length w)") auto

declare wrap.simps [simp del]

definition place :: "nat \<Rightarrow> line_state \<Rightarrow> line_state" where
  "place cpl = (\<lambda>(L, l, p, w). if w = [] then (L, l, False, [])
     else if l \<noteq> [] \<and> cpl < length l + (if p then 1 else 0) + length w
       then (case wrap cpl w of (a, b) \<Rightarrow> (L @ [l] @ a, b, False, []))
     else if l = [] then (case wrap cpl w of (a, b) \<Rightarrow> (L @ a, b, False, []))
     else (L, l @ (if p then ['' ''] else []) @ w, False, []))"

definition put_cluster :: "property_table \<Rightarrow> nat \<Rightarrow> string \<Rightarrow> line_state \<Rightarrow> line_state" where
  "put_cluster pt cpl c S =
     (if is_newline_cluster c then (case place cpl S of (L, l, p, w) \<Rightarrow> (L @ [l], [], False, w))
      else if is_space_cluster pt c then (case place cpl S of (L, l, p, w) \<Rightarrow> (L, l, p \<or> l \<noteq> [], w))
      else (case S of (L, l, p, w) \<Rightarrow> (L, l, p, w @ [c])))"

definition represents :: "breaker \<Rightarrow> line_state \<Rightarrow> bool" where
  "represents b = (\<lambda>(L, l, p, w). b = \<lparr>bk_lines = map concat L, bk_line = concat l, bk_line_len = length l,
     bk_pending_space = p, bk_word = concat w, bk_word_len = length w\<rparr>)"

lemma wrap_facts:
  "0 < cpl \<Longrightarrow> wrap cpl w = (a, b) \<Longrightarrow> concat a @ b = w \<and> (\<forall>x \<in> set a. length x = cpl) \<and> length b \<le> cpl \<and> (w \<noteq> [] \<longrightarrow> b \<noteq> [])"
proof (induction cpl w arbitrary: a b rule: wrap.induct)
  case (1 cpl w)
  show ?case
  proof (cases "cpl < length w \<and> 0 < cpl")
    case True
    obtain a' b' where d: "wrap cpl (drop cpl w) = (a', b')" by fastforce
    with "1.prems"(2) True have ab: "a = take cpl w # a'" "b = b'" by (subst (asm) wrap.simps, simp)+
    from "1.IH" [OF True "1.prems"(1) d] True show ?thesis unfolding ab by (simp add: append_take_drop_id)
  next
    case False
    with "1.prems"(2) have "a = [] \<and> b = w" by (subst (asm) wrap.simps) auto
    with False "1.prems"(1) show ?thesis by auto
  qed
qed

lemma wrap_short: "length w \<le> cpl \<Longrightarrow> wrap cpl w = ([], w)"
  by (subst wrap.simps) simp

lemma hard_wrap_wrap:
  "g \<le> length w \<Longrightarrow> wrap cpl (drop g w) = (a, b) \<Longrightarrow>
   hard_wrap cpl (concat w) (offsets 0 w) (length w) g lines = (lines @ map concat a, length w - length b) \<and> b = drop (length w - length b) w"
proof (induction "length w - g" arbitrary: g a b lines rule: less_induct)
  case less
  show ?case
  proof (cases "cpl < length w - g \<and> 0 < cpl")
    case True
    obtain a' b' where d: "wrap cpl (drop cpl (drop g w)) = (a', b')" by fastforce
    with less.prems True have ab: "a = take cpl (drop g w) # a'" "b = b'" by (subst (asm) wrap.simps, simp)+
    have sl: "substr (concat w) (offsets 0 w ! g) (offsets 0 w ! (g + cpl) - offsets 0 w ! g) = concat (take cpl (drop g w))"
    proof -
      have "g < length w" "g + cpl \<le> length w" "g \<le> g + cpl" using True by auto
      from slice_offsets [OF this] show ?thesis by simp
    qed
    have "drop cpl (drop g w) = drop (g + cpl) w" by (simp add: add.commute)
    with d have d': "wrap cpl (drop (g + cpl) w) = (a', b')" by simp
    have "length w - (g + cpl) < length w - g" "g + cpl \<le> length w" using True by auto
    from less.hyps [OF this d', of "lines @ [concat (take cpl (drop g w))]"] True sl show ?thesis
      unfolding ab by (subst hard_wrap.simps) (simp add: Let_def)
  next
    case False
    with less.prems have ab: "a = []" "b = drop g w" by (subst (asm) wrap.simps, auto)+
    from False less.prems(1) show ?thesis unfolding ab by (subst hard_wrap.simps) auto
  qed
qed

lemma place_word_place:
  assumes "represents b (L, l, p, w)" "0 < cpl" "table_ok pt" "clusters pt (concat w) = w"
  shows "represents (place_word pt cpl b) (place cpl (L, l, p, w))"
proof -
  have b: "b = \<lparr>bk_lines = map concat L, bk_line = concat l, bk_line_len = length l,
     bk_pending_space = p, bk_word = concat w, bk_word_len = length w\<rparr>" using assms(1) by (simp add: represents_def)
  obtain u v where wr: "wrap cpl w = (u, v)" by fastforce
  have wb: "grapheme_boundaries pt (concat w) = offsets 0 w" using boundaries_offsets [OF assms(3)] assms(4) by simp
  have hw: "hard_wrap cpl (concat w) (offsets 0 w) (length w) 0 lines = (lines @ map concat u, length w - length v)" for lines
    using hard_wrap_wrap [of 0 w cpl u v lines] wr by simp
  have v: "v = drop (length w - length v) w" using hard_wrap_wrap [of 0 w cpl u v] wr by simp
  have dr: "drop (offsets 0 w ! (length w - length v)) (concat w) = concat v"
  proof -
    let ?k = "length w - length v"
    have "concat w = concat (take ?k w) @ concat v" using v by (metis append_take_drop_id concat_append)
    moreover have "offsets 0 w ! ?k = length (concat (take ?k w))" by (simp add: nth_offsets)
    ultimately show ?thesis by (metis append_eq_conv_conj)
  qed
  have lv: "length w - (length w - length v) = length v" using v by (metis length_drop diff_diff_cancel diff_le_self)
  show ?thesis
  proof (cases "w = []")
    case True
    then show ?thesis by (simp add: b place_word_def place_def represents_def)
  next
    case w: False
    consider (flush) "l \<noteq> []" "cpl < length l + (if p then 1 else 0) + length w" | (empty) "l = []"
      | (fits) "l \<noteq> []" "\<not> cpl < length l + (if p then 1 else 0) + length w" by blast
    then show ?thesis
    proof cases
      case flush
      then show ?thesis using w wr wb hw [of "map concat L @ [concat l]"] dr lv
        by (cases "length w \<le> cpl") (auto simp: b place_word_def place_def represents_def wrap_short Let_def)
    next
      case empty
      then show ?thesis using w wr wb hw [of "map concat L"] dr lv
        by (cases "length w \<le> cpl") (auto simp: b place_word_def place_def represents_def wrap_short Let_def)
    next
      case fits
      then have "length w \<le> cpl" by simp
      with fits w show ?thesis by (cases p) (auto simp: b place_word_def place_def represents_def Let_def)
    qed
  qed
qed

lemma break_cluster_put:
  assumes "represents b (L, l, p, w)" "0 < cpl" "table_ok pt" "clusters pt (concat w) = w"
  shows "represents (break_cluster pt cpl c b) (put_cluster pt cpl c (L, l, p, w))"
proof -
  obtain L' l' p' w' where pl: "place cpl (L, l, p, w) = (L', l', p', w')" using prod_cases4 by blast
  have r: "represents (place_word pt cpl b) (L', l', p', w')" using place_word_place [OF assms] pl by simp
  show ?thesis
  proof (cases "is_newline_cluster c")
    case True
    with r pl show ?thesis by (simp add: break_cluster_def put_cluster_def represents_def Let_def)
  next
    case nl: False
    show ?thesis
    proof (cases "is_space_cluster pt c")
      case True
      with nl r pl show ?thesis
        by (cases "l' = []") (simp_all add: break_cluster_def put_cluster_def represents_def Let_def)
    next
      case False
      with nl assms(1) show ?thesis by (simp add: break_cluster_def put_cluster_def represents_def)
    qed
  qed
qed

subsection \<open>What a line state keeps\<close>

definition inked :: "property_table \<Rightarrow> string list \<Rightarrow> string list" where
  "inked pt = filter (\<lambda>c. \<not> is_separator pt c)"

lemma inked_simps [simp]: "inked pt [] = []" "inked pt (xs @ ys) = inked pt xs @ inked pt ys"
  by (simp_all add: inked_def)

lemma space_separator: "is_separator pt '' ''"
  by (simp add: is_separator_def is_space_cluster_def)

definition line_inv :: "property_table \<Rightarrow> nat \<Rightarrow> string list \<Rightarrow> line_state \<Rightarrow> bool" where
  "line_inv pt cpl past = (\<lambda>(L, l, p, w). (\<forall>x \<in> set L. length x \<le> cpl) \<and> length l \<le> cpl \<and>
     inked pt (concat L) @ inked pt l @ w = inked pt past \<and>
     (\<exists>pre. past = pre @ w \<and> (pre = [] \<or> is_separator pt (last pre))))"

lemma place_inv:
  assumes "line_inv pt cpl past (L, l, p, w)" "0 < cpl" "place cpl (L, l, p, w) = (L', l', p', w')"
  shows "(\<forall>x \<in> set L'. length x \<le> cpl) \<and> length l' \<le> cpl \<and> inked pt (concat L') @ inked pt l' = inked pt past \<and> w' = [] \<and> p' = False"
proof -
  obtain a b where wr: "wrap cpl w = (a, b)" by fastforce
  note W = wrap_facts [OF assms(2) wr]
  have k: "inked pt w = w"
  proof -
    have "set (inked pt (concat L) @ inked pt l @ w) \<subseteq> {c. \<not> is_separator pt c}"
      using assms(1) by (simp add: line_inv_def) (auto simp: inked_def)
    then show ?thesis by (auto simp: inked_def intro!: filter_True)
  qed
  have w2: "inked pt (concat a) @ inked pt b = w" using k W by (metis inked_simps(2))
  have sp: "inked pt ('' '' # ws) = inked pt ws" for ws using space_separator by (simp add: inked_def)
  show ?thesis
    using assms(1,3) W wr w2 k sp
    by (auto simp: place_def line_inv_def split: if_splits)
qed

lemma put_cluster_inv:
  assumes "line_inv pt cpl past (L, l, p, w)" "0 < cpl" "put_cluster pt cpl c (L, l, p, w) = (L', l', p', w')"
  shows "line_inv pt cpl (past @ [c]) (L', l', p', w')"
proof -
  obtain L1 l1 p1 w1 where pl: "place cpl (L, l, p, w) = (L1, l1, p1, w1)" using prod_cases4 by blast
  note P = place_inv [OF assms(1,2) pl]
  show ?thesis
  proof (cases "is_separator pt c")
    case True
    then have i: "inked pt [c] = []" by (simp add: inked_def)
    have "(L', l', w') \<in> {(L1 @ [l1], [], []), (L1, l1, [])}"
      using True assms(3) pl P by (auto simp: put_cluster_def is_separator_def split: if_splits)
    with True P i show ?thesis by (auto simp: line_inv_def)
  next
    case False
    then have "L' = L" "l' = l" "w' = w @ [c]" "inked pt [c] = [c]"
      using assms(3) by (auto simp: put_cluster_def is_separator_def inked_def)
    with assms(1) show ?thesis by (auto simp: line_inv_def)
  qed
qed

lemma fold_break_clusters:
  assumes "table_ok pt" "0 < cpl" "clusters pt s = past @ cs"
    and "represents b S" "line_inv pt cpl past S"
  shows "\<exists>S'. represents (fold (break_cluster pt cpl) cs b) S' \<and> line_inv pt cpl (past @ cs) S'"
  using assms(3-5)
proof (induction cs arbitrary: past b S)
  case (Cons c cs)
  obtain L l p w where S: "S = (L, l, p, w)" using prod_cases4 by blast
  obtain pre where pre: "past = pre @ w" "pre = [] \<or> is_separator pt (last pre)"
    using Cons.prems(3) S by (auto simp: line_inv_def)
  have "clusters pt s = pre @ w @ c # cs" using Cons.prems(1) pre(1) by simp
  then have cw: "clusters pt (concat w) = w" by (rule clusters_segment [OF assms(1) _ pre(2)])
  obtain L' l' p' w' where pc: "put_cluster pt cpl c S = (L', l', p', w')" using prod_cases4 by blast
  have "represents (break_cluster pt cpl c b) (put_cluster pt cpl c S)"
    using break_cluster_put [OF _ assms(2,1) cw] Cons.prems(2) unfolding S by blast
  moreover have "line_inv pt cpl (past @ [c]) (put_cluster pt cpl c S)"
    using put_cluster_inv [OF _ assms(2)] Cons.prems(3) pc unfolding S by metis
  ultimately show ?case using Cons.IH [of "past @ [c]"] Cons.prems(1) by simp
qed (auto)

text \<open>The clusters of a text as the code cuts them.\<close>

definition slices :: "property_table \<Rightarrow> string \<Rightarrow> string list" where
  "slices pt s = (let b = grapheme_boundaries pt s in map (\<lambda>i. substr s (b ! i) (b ! (i + 1) - b ! i)) [0..<length b - 1])"

lemma slices_clusters:
  assumes "table_ok pt"
  shows "slices pt s = clusters pt s"
proof -
  let ?cs = "clusters pt s"
  have "substr s (offsets 0 ?cs ! i) (offsets 0 ?cs ! (i + 1) - offsets 0 ?cs ! i) = ?cs ! i" if "i < length ?cs" for i
  proof -
    have "i + 1 \<le> length ?cs" "i \<le> i + 1" using that by simp_all
    from slice_offsets [OF that this] have "substr s (offsets 0 ?cs ! i) (offsets 0 ?cs ! (i + 1) - offsets 0 ?cs ! i) = concat (take 1 (drop i ?cs))"
      by (simp add: concat_clusters)
    also have "take 1 (drop i ?cs) = [?cs ! i]" using that by (simp add: take_Suc_conv_app_nth hd_drop_conv_nth take_Suc)
    finally show ?thesis by simp
  qed
  then show ?thesis unfolding slices_def boundaries_offsets [OF assms] Let_def
    by (intro nth_equalityI) simp_all
qed

lemma break_lines_fold:
  "break_lines pt body n = (let cpl = nat (if n < 1 then 1 else n) in if body = [] then []
    else let b = place_word pt cpl (fold (break_cluster pt cpl) (slices pt body) new_breaker)
    in if 0 < bk_line_len b \<or> bk_lines b = [] then bk_lines b @ [bk_line b] else bk_lines b)"
  unfolding break_lines_def slices_def Let_def fold_map comp_def ..

lemma break_lines_clusters:
  assumes "table_ok pt"
  shows "\<exists>ls. break_lines pt body n = map concat ls \<and> (\<forall>x \<in> set ls. length x \<le> nat (max n 1)) \<and>
    inked pt (concat ls) = inked pt (clusters pt body) \<and> (body \<noteq> [] \<longrightarrow> ls \<noteq> [])"
proof (cases "body = []")
  case True
  then show ?thesis by (intro exI [of _ "[]"]) (simp add: break_lines_def Let_def clusters_def unit_clusters_def)
next
  case False
  let ?cpl = "nat (if n < 1 then 1 else n)"
  have cpl: "0 < ?cpl" "?cpl = nat (max n 1)" by (simp_all add: max_def)
  have "represents new_breaker ([], [], False, [])" "line_inv pt ?cpl [] ([], [], False, [])"
    by (simp_all add: represents_def new_breaker_def line_inv_def)
  from fold_break_clusters [OF assms cpl(1) _ this, of body "clusters pt body"] obtain S where
    r: "represents (fold (break_cluster pt ?cpl) (clusters pt body) new_breaker) S" and i: "line_inv pt ?cpl (clusters pt body) S"
    by auto
  obtain L l p w where S: "S = (L, l, p, w)" using prod_cases4 by blast
  obtain L' l' p' w' where pl: "place ?cpl (L, l, p, w) = (L', l', p', w')" using prod_cases4 by blast
  obtain pre where pre: "clusters pt body = pre @ w @ []" "pre = [] \<or> is_separator pt (last pre)"
    using i S by (auto simp: line_inv_def)
  have cw: "clusters pt (concat w) = w" by (rule clusters_segment [OF assms pre])
  define b where "b = place_word pt ?cpl (fold (break_cluster pt ?cpl) (clusters pt body) new_breaker)"
  have rb: "represents b (L', l', p', w')"
    unfolding b_def using place_word_place [OF r [unfolded S] cpl(1) assms cw] unfolding pl .
  note P = place_inv [OF i [unfolded S] cpl(1) pl]
  let ?ls = "if l' \<noteq> [] \<or> L' = [] then L' @ [l'] else L'"
  have "break_lines pt body n = map concat ?ls"
    unfolding break_lines_fold slices_clusters [OF assms] Let_def b_def [symmetric]
    using rb False by (auto simp: represents_def)
  moreover have "\<forall>x \<in> set ?ls. length x \<le> nat (max n 1)" using P unfolding cpl(2) [symmetric] by auto
  moreover have "inked pt (concat ?ls) = inked pt (clusters pt body)" using P by auto
  ultimately show ?thesis using False by (intro exI [of _ ?ls]) auto
qed

text \<open>
  C20: Breaking a letter into lines loses no character and splits none. For any text and any width, the lines
  are made of whole clusters, none longer than the width (at least one); reading the lines in order gives
  exactly the clusters of the letter that are not white space, and a letter that is not empty has a line.
  The word the code wraps is cut at the same places as the letter it came from.\<close>

theorem lines_keep_every_cluster:
  assumes "table_ok pt"
  shows "\<exists>ls. break_lines pt body n = map concat ls \<and> filter (\<lambda>l. nat (max n 1) < length l) ls = [] \<and>
    inked pt (concat ls) = inked pt (slices pt body) \<and> concat (slices pt body) = body \<and>
    (if body = [] then break_lines pt body n = [] else ls \<noteq> [])"
proof -
  obtain ls where "break_lines pt body n = map concat ls" "\<forall>x \<in> set ls. length x \<le> nat (max n 1)"
    "inked pt (concat ls) = inked pt (clusters pt body)" "body \<noteq> [] \<longrightarrow> ls \<noteq> []"
    using break_lines_clusters [OF assms] by blast
  then show ?thesis
    by (intro exI [of _ ls]) (auto simp: slices_clusters [OF assms] concat_clusters filter_empty_conv not_less break_lines_def Let_def)
qed

lemma lines_keep_every_cluster_witness:
  "\<exists>ls. break_lines tiny_table ''la casa'' 3 = map concat ls \<and>
     inked tiny_table (concat ls) = inked tiny_table (slices tiny_table ''la casa'')"
  using lines_keep_every_cluster [OF tiny_table_ok, of "''la casa''" 3] by auto

subsection \<open>Pages\<close>

lemma pages_loop_facts:
  assumes "0 < k"
  shows "concat (pages_loop k ls i) = drop i ls \<and> (\<forall>p \<in> set (pages_loop k ls i). p \<noteq> [] \<and> length p \<le> k) \<and>
    (\<forall>p \<in> set (butlast (pages_loop k ls i)). length p = k) \<and> (i < length ls \<longrightarrow> pages_loop k ls i \<noteq> [])"
  using assms
proof (induction k ls i rule: pages_loop.induct)
  case (1 k ls i)
  show ?case
  proof (cases "i < length ls")
    case True
    let ?n = "min (length ls) (i + k) - i"
    have eq: "pages_loop k ls i = take ?n (drop i ls) # pages_loop k ls (i + k)"
      using True 1(2) by (subst pages_loop.simps) simp
    have t: "take ?n (drop i ls) = take k (drop i ls)" by (cases "i + k \<le> length ls") (simp_all add: min_def)
    have ih: "concat (pages_loop k ls (i + k)) = drop (i + k) ls"
      "\<forall>p \<in> set (pages_loop k ls (i + k)). p \<noteq> [] \<and> length p \<le> k"
      "\<forall>p \<in> set (butlast (pages_loop k ls (i + k))). length p = k"
      "i + k < length ls \<longrightarrow> pages_loop k ls (i + k) \<noteq> []"
      using 1(1) [OF _ refl] True 1(2) by simp_all
    have full: "length (take k (drop i ls)) = k" if "pages_loop k ls (i + k) \<noteq> []"
    proof -
      have "i + k < length ls" using that by (subst (asm) pages_loop.simps) (auto split: if_splits)
      then show ?thesis by simp
    qed
    have "take k (drop i ls) @ drop (i + k) ls = drop i ls" by (metis add.commute append_take_drop_id drop_drop)
    then show ?thesis unfolding eq t using ih full True 1(2) by auto
  next
    case False
    then have "pages_loop k ls i = []" by (subst pages_loop.simps) simp
    with False show ?thesis by simp
  qed
qed

text \<open>
  A letter is shown whole, page by page. With a usable panel the pages hold exactly the lines of the
  letter at its width, in order; each page but the last is full and none is longer than the panel; an
  empty letter is one blank page; with no usable area there is no page. The reference panel has 43
  characters and 11 lines, 32 and 9 in the large face.\<close>

theorem pages_hold_every_line:
  "(if metrics_chars_per_line m \<le> 0 \<or> metrics_lines_per_page m \<le> 0 then paginate pt body m = []
    else concat (paginate pt body m) = break_lines pt body (metrics_chars_per_line m) \<and> paginate pt body m \<noteq> [] \<and>
      filter (\<lambda>p. nat (metrics_lines_per_page m) < length p) (paginate pt body m) = [] \<and>
      filter (\<lambda>p. length p \<noteq> nat (metrics_lines_per_page m)) (butlast (paginate pt body m)) = []) \<and>
   metrics_chars_per_line (metrics_for FontSmall) = 43 \<and> metrics_lines_per_page (metrics_for FontSmall) = 11 \<and>
   metrics_chars_per_line (metrics_for FontLarge) = 32 \<and> metrics_lines_per_page (metrics_for FontLarge) = 9"
proof -
  let ?cpl = "metrics_chars_per_line m" and ?lpp = "metrics_lines_per_page m"
  have "concat (paginate pt body m) = break_lines pt body ?cpl \<and> paginate pt body m \<noteq> [] \<and>
      filter (\<lambda>p. nat ?lpp < length p) (paginate pt body m) = [] \<and>
      filter (\<lambda>p. length p \<noteq> nat ?lpp) (butlast (paginate pt body m)) = []" if "\<not> (?cpl \<le> 0 \<or> ?lpp \<le> 0)"
  proof (cases "break_lines pt body ?cpl")
    case Nil
    with that show ?thesis by (simp add: paginate_def Let_def)
  next
    case (Cons l ls)
    have k: "0 < nat ?lpp" using that by simp
    have p: "paginate pt body m = pages_loop (nat ?lpp) (break_lines pt body ?cpl) 0"
      using that Cons by (simp add: paginate_def Let_def)
    have "0 < length (break_lines pt body ?cpl)" using Cons by simp
    with pages_loop_facts [OF k, of "break_lines pt body ?cpl" 0] show ?thesis
      unfolding p by (auto simp: filter_empty_conv not_less)
  qed
  moreover have "metrics_chars_per_line (metrics_for FontSmall) = 43 \<and> metrics_lines_per_page (metrics_for FontSmall) = 11 \<and>
      metrics_chars_per_line (metrics_for FontLarge) = 32 \<and> metrics_lines_per_page (metrics_for FontLarge) = 9"
    by (simp add: metrics_chars_per_line_def metrics_lines_per_page_def metrics_for_def default_metrics_def Let_def signed_divide_int_def)
  ultimately show ?thesis by (simp add: paginate_def)
qed

end
