(* ===== verification/Strings.thy ===== *)
theory Strings
  imports Prelude "HOL-Library.Sublist"
begin

text \<open>
  Every word a child reads, \<^verbatim>\<open>main/chaski_strings.h\<close> and \<^verbatim>\<open>main/chaski_strings.c\<close>: the enumerators of
  \<^verbatim>\<open>chaski_string_id_t\<close>, the table with its designated initialisers and the two lookups. The screens take
  the lookup as the function \<^verbatim>\<open>Deps::text\<close>, which may be missing; the theories of the screens do the same.
\<close>

subsection \<open>Ids\<close>

definition str_app_name :: int where "str_app_name = 0"
definition str_system_sender :: int where "str_system_sender = 1"
definition str_contact_unknown :: int where "str_contact_unknown = 2"
definition str_state_waiting :: int where "str_state_waiting = 3"
definition str_state_on_the_road :: int where "str_state_on_the_road = 4"
definition str_state_arrived :: int where "str_state_arrived = 5"
definition str_state_couldnt_send :: int where "str_state_couldnt_send = 6"
definition str_inbox_title :: int where "str_inbox_title = 7"
definition str_inbox_empty :: int where "str_inbox_empty = 8"
definition str_read_trimmed :: int where "str_read_trimmed = 9"
definition str_read_truncated :: int where "str_read_truncated = 10"
definition str_read_page_fmt :: int where "str_read_page_fmt = 11"
definition str_compose_pick_title :: int where "str_compose_pick_title = 12"
definition str_compose_pick_empty :: int where "str_compose_pick_empty = 13"
definition str_compose_write_title :: int where "str_compose_write_title = 14"
definition str_compose_subject_hint :: int where "str_compose_subject_hint = 15"
definition str_compose_too_long :: int where "str_compose_too_long = 16"
definition str_compose_empty :: int where "str_compose_empty = 17"
definition str_compose_sent :: int where "str_compose_sent = 18"
definition str_compose_counter_fmt :: int where "str_compose_counter_fmt = 19"
definition str_draft_resume :: int where "str_draft_resume = 20"
definition str_draft_let_it_go :: int where "str_draft_let_it_go = 21"
definition str_outbox_full :: int where "str_outbox_full = 22"
definition str_draft_conflict_prompt :: int where "str_draft_conflict_prompt = 23"
definition str_draft_keep_writing :: int where "str_draft_keep_writing = 24"
definition str_draft_start_new :: int where "str_draft_start_new = 25"
definition str_outbox_title :: int where "str_outbox_title = 26"
definition str_outbox_empty :: int where "str_outbox_empty = 27"
definition str_send_failed :: int where "str_send_failed = 28"
definition str_send_failed_action :: int where "str_send_failed_action = 29"
definition str_storage_failed :: int where "str_storage_failed = 30"
definition str_fault_cant_reach_home :: int where "str_fault_cant_reach_home = 31"
definition str_fault_ask_guardians :: int where "str_fault_ask_guardians = 32"
definition str_fault_road_busy :: int where "str_fault_road_busy = 33"
definition str_fault_charge_me :: int where "str_fault_charge_me = 34"
definition str_fault_diagnostic_fmt :: int where "str_fault_diagnostic_fmt = 35"
definition str_pin_prompt :: int where "str_pin_prompt = 36"
definition str_pin_wrong :: int where "str_pin_wrong = 37"
definition str_pin_try_again_soon :: int where "str_pin_try_again_soon = 38"
definition str_pin_digit_mark :: int where "str_pin_digit_mark = 39"
definition str_settings_title :: int where "str_settings_title = 40"
definition str_settings_font_size :: int where "str_settings_font_size = 41"
definition str_settings_font_normal :: int where "str_settings_font_normal = 42"
definition str_settings_font_bigger :: int where "str_settings_font_bigger = 43"
definition str_settings_frontlight :: int where "str_settings_frontlight = 44"
definition str_settings_light_off :: int where "str_settings_light_off = 45"
definition str_settings_light_step_fmt :: int where "str_settings_light_step_fmt = 46"
definition str_settings_contacts :: int where "str_settings_contacts = 47"
definition str_settings_nickname :: int where "str_settings_nickname = 48"
definition str_settings_keep_at_top :: int where "str_settings_keep_at_top = 49"
definition str_settings_what_it_tells :: int where "str_settings_what_it_tells = 50"
definition str_settings_log_empty :: int where "str_settings_log_empty = 51"
definition str_settings_about :: int where "str_settings_about = 52"
definition str_about_version_fmt :: int where "str_about_version_fmt = 53"
definition str_about_battery_fmt :: int where "str_about_battery_fmt = 54"
definition str_about_signal_fmt :: int where "str_about_signal_fmt = 55"
definition str_log_line_fmt :: int where "str_log_line_fmt = 56"
definition str_log_battery_fmt :: int where "str_log_battery_fmt = 57"
definition str_log_charging :: int where "str_log_charging = 58"
definition str_log_signal_good :: int where "str_log_signal_good = 59"
definition str_log_signal_weak :: int where "str_log_signal_weak = 60"
definition str_log_signal_none :: int where "str_log_signal_none = 61"
definition str_log_nothing_waiting :: int where "str_log_nothing_waiting = 62"
definition str_log_one_waiting :: int where "str_log_one_waiting = 63"
definition str_log_many_waiting_fmt :: int where "str_log_many_waiting_fmt = 64"
definition str_list_separator :: int where "str_list_separator = 65"
definition str_time_fmt :: int where "str_time_fmt = 66"
definition str_day_mon :: int where "str_day_mon = 67"
definition str_day_tue :: int where "str_day_tue = 68"
definition str_day_wed :: int where "str_day_wed = 69"
definition str_day_thu :: int where "str_day_thu = 70"
definition str_day_fri :: int where "str_day_fri = 71"
definition str_day_sat :: int where "str_day_sat = 72"
definition str_day_sun :: int where "str_day_sun = 73"
definition str_count :: int where "str_count = 74"

lemmas string_ids =
  str_app_name_def str_system_sender_def str_contact_unknown_def str_state_waiting_def
  str_state_on_the_road_def str_state_arrived_def str_state_couldnt_send_def str_inbox_title_def
  str_inbox_empty_def str_read_trimmed_def str_read_truncated_def str_read_page_fmt_def
  str_compose_pick_title_def str_compose_pick_empty_def str_compose_write_title_def str_compose_subject_hint_def
  str_compose_too_long_def str_compose_empty_def str_compose_sent_def str_compose_counter_fmt_def
  str_draft_resume_def str_draft_let_it_go_def str_outbox_full_def str_draft_conflict_prompt_def
  str_draft_keep_writing_def str_draft_start_new_def str_outbox_title_def str_outbox_empty_def
  str_send_failed_def str_send_failed_action_def str_storage_failed_def str_fault_cant_reach_home_def
  str_fault_ask_guardians_def str_fault_road_busy_def str_fault_charge_me_def str_fault_diagnostic_fmt_def
  str_pin_prompt_def str_pin_wrong_def str_pin_try_again_soon_def str_pin_digit_mark_def
  str_settings_title_def str_settings_font_size_def str_settings_font_normal_def str_settings_font_bigger_def
  str_settings_frontlight_def str_settings_light_off_def str_settings_light_step_fmt_def str_settings_contacts_def
  str_settings_nickname_def str_settings_keep_at_top_def str_settings_what_it_tells_def str_settings_log_empty_def
  str_settings_about_def str_about_version_fmt_def str_about_battery_fmt_def str_about_signal_fmt_def
  str_log_line_fmt_def str_log_battery_fmt_def str_log_charging_def str_log_signal_good_def
  str_log_signal_weak_def str_log_signal_none_def str_log_nothing_waiting_def str_log_one_waiting_def
  str_log_many_waiting_fmt_def str_list_separator_def str_time_fmt_def str_day_mon_def
  str_day_tue_def str_day_wed_def str_day_thu_def str_day_fri_def
  str_day_sat_def str_day_sun_def str_count_def

subsection \<open>The table\<close>

definition k_strings :: "(int \<times> string) list" where
  "k_strings =
    [(str_app_name, ''Chaski''),
     (str_system_sender, ''Wasi''),
     (str_contact_unknown, ''Someone''),
     (str_state_waiting, ''waiting''),
     (str_state_on_the_road, ''on the road''),
     (str_state_arrived, ''arrived''),
     (str_state_couldnt_send, ''couldn'' @ [CHR 0x27] @ ''t send''),
     (str_inbox_title, ''Letters''),
     (str_inbox_empty, ''No letters yet.''),
     (str_read_trimmed, ''...''),
     (str_read_truncated, ''This letter continues in the archive at home.''),
     (str_read_page_fmt, ''{} of {}''),
     (str_compose_pick_title, ''Write to''),
     (str_compose_pick_empty, ''No one to write to yet.''),
     (str_compose_write_title, ''Your letter''),
     (str_compose_subject_hint, ''About (you can skip this)''),
     (str_compose_too_long, ''That'' @ [CHR 0x27] @ ''s as long as a letter can be.''),
     (str_compose_empty, ''Write something first.''),
     (str_compose_sent, ''Your letter is waiting for the runner.''),
     (str_compose_counter_fmt, ''{}/{}''),
     (str_draft_resume, ''Keep writing the letter you started?''),
     (str_draft_let_it_go, ''Let it go''),
     (str_outbox_full, ''The bag is full. Send these first.''),
     (str_draft_conflict_prompt, ''You'' @ [CHR 0x27] @ ''re still writing another letter.''),
     (str_draft_keep_writing, ''Keep writing that one''),
     (str_draft_start_new, ''Start a new one instead''),
     (str_outbox_title, ''On the road''),
     (str_outbox_empty, ''Nothing is waiting.''),
     (str_send_failed, ''This letter couldn'' @ [CHR 0x27] @ ''t be sent. Ask your guardians about it.''),
     (str_send_failed_action, ''Write it again''),
     (str_storage_failed, ''That didn'' @ [CHR 0x27] @ ''t save. Try again.''),
     (str_fault_cant_reach_home, ''Can'' @ [CHR 0x27] @ ''t reach home.''),
     (str_fault_ask_guardians, ''Something needs a grown-up. Ask your guardians.''),
     (str_fault_road_busy, ''The road is busy. Trying again soon.''),
     (str_fault_charge_me, ''Nearly out of power. Please charge me.''),
     (str_fault_diagnostic_fmt, ''For a grown-up: {}''),
     (str_pin_prompt, ''Your number''),
     (str_pin_wrong, ''Not quite. Try again.''),
     (str_pin_try_again_soon, ''Wait a moment, then try again.''),
     (str_pin_digit_mark, ''*''),
     (str_settings_title, ''Settings''),
     (str_settings_font_size, ''Text size''),
     (str_settings_font_normal, ''Normal''),
     (str_settings_font_bigger, ''Bigger''),
     (str_settings_frontlight, ''Light''),
     (str_settings_light_off, ''Off''),
     (str_settings_light_step_fmt, ''Step {}''),
     (str_settings_contacts, ''Names and faces''),
     (str_settings_nickname, ''What you call them''),
     (str_settings_keep_at_top, ''Keep at the top''),
     (str_settings_what_it_tells, ''What my Chaski tells home''),
     (str_settings_log_empty, ''Nothing has been told yet.''),
     (str_settings_about, ''About this Chaski''),
     (str_about_version_fmt, ''Version {}''),
     (str_about_battery_fmt, ''Battery {}%''),
     (str_about_signal_fmt, ''Signal {}''),
     (str_log_line_fmt, ''{} - {}''),
     (str_log_battery_fmt, ''battery {}%''),
     (str_log_charging, ''charging''),
     (str_log_signal_good, ''good signal''),
     (str_log_signal_weak, ''weak signal''),
     (str_log_signal_none, ''no signal''),
     (str_log_nothing_waiting, ''nothing waiting''),
     (str_log_one_waiting, ''1 letter waiting''),
     (str_log_many_waiting_fmt, ''{} letters waiting''),
     (str_list_separator, '', ''),
     (str_time_fmt, ''{} {}:{}''),
     (str_day_mon, ''Mon''),
     (str_day_tue, ''Tue''),
     (str_day_wed, ''Wed''),
     (str_day_thu, ''Thu''),
     (str_day_fri, ''Fri''),
     (str_day_sat, ''Sat''),
     (str_day_sun, ''Sun'')]"

definition S_text :: "int \<Rightarrow> string" where
  "S_text i = (if i < 0 \<or> str_count \<le> i then [] else case map_of k_strings i of None \<Rightarrow> [] | Some t \<Rightarrow> t)"

definition chaski_text :: "int \<Rightarrow> string" where
  "chaski_text i = S_text i"

end
