(* ===== verification/Text_Util.thy ===== *)
theory Text_Util
  imports Layout_Lines Strings
begin

text \<open>
  Text assembly for the screens, \<^verbatim>\<open>components/ui/text_util.cpp\<close>: placeholder substitution, numbers and clock
  labels, and the grapheme edits of a text field. A C string is the list of its characters; the table
  lookup the screens are given is \<open>text_fn option\<close>. \<^verbatim>\<open>gmtime_r\<close> is written out as calendar arithmetic.
\<close>

type_synonym text_fn = "int \<Rightarrow> string"

definition k_day_ids :: "int list" where
  "k_day_ids = [str_day_sun, str_day_mon, str_day_tue, str_day_wed, str_day_thu, str_day_fri, str_day_sat]"

subsection \<open>Substitution and numbers\<close>

text \<open>The loop of \<^verbatim>\<open>Format\<close> from the rest of the template on, with the next argument and the output so far.\<close>

fun format_loop :: "string list \<Rightarrow> string \<Rightarrow> nat \<Rightarrow> string \<Rightarrow> string" where
  "format_loop args [] nxt out = out"
| "format_loop args [c] nxt out = out @ [c]"
| "format_loop args (c # c' # p) nxt out =
     (if c = CHR ''{'' \<and> c' = CHR ''}''
      then format_loop args p (nxt + 1) (if nxt < length args then out @ args ! nxt else out)
      else format_loop args (c' # p) nxt (out @ [c]))"

definition format_text :: "string option \<Rightarrow> string list \<Rightarrow> string" where
  "format_text tmpl args = (case tmpl of None \<Rightarrow> [] | Some t \<Rightarrow> format_loop args t 0 [])"

text \<open>The digits of \<^verbatim>\<open>Int\<close>, least significant first, into a buffer of 24 bytes.\<close>

fun int_digits :: "nat \<Rightarrow> nat \<Rightarrow> string" where
  "int_digits 0 m = []"
| "int_digits (Suc room) m = (if m = 0 then [] else char_of (48 + m mod 10) # int_digits room (m div 10))"

definition text_int :: "int \<Rightarrow> string" where
  "text_int v =
     (if v = 0 then ''0''
      else let neg = v < 0;
               m = (if neg then nat ((0 - v mod 2 ^ 64) mod 2 ^ 64) else nat (v mod 2 ^ 64));
               buf = int_digits 24 m
      in (if neg then ''-'' else []) @ rev buf)"

definition pad2 :: "int \<Rightarrow> string" where
  "pad2 v = (let s = text_int v in if length s < 2 then CHR ''0'' # s else s)"

subsection \<open>The clock label\<close>

record tm =
  tm_wday :: int
  tm_hour :: int
  tm_min :: int

text \<open>The fields of \<^verbatim>\<open>gmtime_r\<close> the label reads; the call fails once the year leaves an \<^verbatim>\<open>int\<close>.\<close>

definition k_gmtime_last :: int where "k_gmtime_last = 67768036191676799"

definition gmtime :: "int \<Rightarrow> tm option" where
  "gmtime t = (if k_gmtime_last < t then None
     else Some \<lparr>tm_wday = (t div 86400 + 4) mod 7, tm_hour = t mod 86400 div 3600, tm_min = t mod 3600 div 60\<rparr>)"

definition time_label :: "int \<Rightarrow> bool \<Rightarrow> text_fn option \<Rightarrow> string" where
  "time_label epoch clock_valid text = (case text of None \<Rightarrow> []
     | Some T \<Rightarrow> if \<not> clock_valid \<or> epoch \<le> 0 then []
       else case gmtime epoch of None \<Rightarrow> []
       | Some t \<Rightarrow> let wday = (if 0 \<le> tm_wday t \<and> tm_wday t < 7 then tm_wday t else 0)
         in format_text (Some (T str_time_fmt)) [T (k_day_ids ! nat wday), pad2 (tm_hour t), pad2 (tm_min t)])"

subsection \<open>Editing by characters\<close>

definition append_codepoint :: "string \<Rightarrow> nat \<Rightarrow> string" where
  "append_codepoint s cp =
     (if cp < 0x80 then s @ [char_of cp]
      else if cp < 0x800 then s @ [char_of (0xC0 + cp div 64), char_of (0x80 + cp mod 64)]
      else if cp < 0x10000
      then s @ [char_of (0xE0 + cp div 4096), char_of (0x80 + cp div 64 mod 64), char_of (0x80 + cp mod 64)]
      else if cp \<le> 0x10FFFF
      then s @ [char_of (0xF0 + cp div 262144), char_of (0x80 + cp div 4096 mod 64), char_of (0x80 + cp div 64 mod 64),
                char_of (0x80 + cp mod 64)]
      else s)"

definition erase_last_grapheme :: "property_table \<Rightarrow> string \<Rightarrow> string" where
  "erase_last_grapheme pt s =
     (if s = [] then s
      else let b = grapheme_boundaries pt s
      in if length b < 2 then [] else take (b ! (length b - 2)) s)"

definition ellipsize :: "property_table \<Rightarrow> string \<Rightarrow> nat \<Rightarrow> string" where
  "ellipsize pt s max_graphemes =
     (if count_graphemes pt s \<le> max_graphemes then s else truncate_graphemes pt s max_graphemes)"

subsection \<open>Facts\<close>

fun filled :: "string list \<Rightarrow> string \<Rightarrow> nat \<Rightarrow> string" where
  "filled args [] nxt = []"
| "filled args [c] nxt = [c]"
| "filled args (c # c' # p) nxt =
     (if c = CHR ''{'' \<and> c' = CHR ''}'' then (if nxt < length args then args ! nxt else []) @ filled args p (nxt + 1)
      else c # filled args (c' # p) nxt)"

lemma format_loop_filled: "format_loop args t n out = out @ filled args t n"
  by (induction args t n out rule: format_loop.induct) auto

lemma int_digits_dec: "0 < m \<Longrightarrow> m < 10 ^ room \<Longrightarrow> rev (int_digits room m) = dec m"
proof (induction room arbitrary: m)
  case (Suc room)
  show ?case
  proof (cases "m < 10")
    case True
    then have "int_digits room (m div 10) = []" by (cases room) simp_all
    with True Suc.prems show ?thesis by (subst dec.simps) (simp add: digit_chr_def)
  next
    case False
    then have "rev (int_digits room (m div 10)) = dec (m div 10)" using Suc.prems by (intro Suc.IH) auto
    with False Suc.prems show ?thesis by (subst dec.simps) (simp add: digit_chr_def)
  qed
qed simp

lemma text_int_dec: "is_i64 v \<Longrightarrow> text_int v = dec_int v"
proof -
  assume v: "is_i64 v"
  define m where "m = (if v < 0 then nat ((0 - v mod 2 ^ 64) mod 2 ^ 64) else nat (v mod 2 ^ 64))"
  show ?thesis
  proof (cases "v = 0")
    case True
    have "char_of (48::nat) = CHR ''0''" by code_simp
    with True show ?thesis by (simp add: text_int_def dec_int_def dec.simps digit_chr_def)
  next
    case False
    have "m = nat \<bar>v\<bar>"
    proof (cases "v < 0")
      case True
      have "(0 - v mod 2 ^ 64) mod 2 ^ 64 = - v" using True v False by (simp add: is_i64_def mod_minus_eq mod_pos_pos_trivial)
      with True show ?thesis by (simp add: m_def)
    qed (use v in \<open>simp add: m_def is_i64_def\<close>)
    moreover have "rev (int_digits 24 m) = dec m"
      using calculation v False by (intro int_digits_dec) (auto simp: is_i64_def)
    ultimately show ?thesis using False by (auto simp: text_int_def dec_int_def m_def [symmetric] Let_def)
  qed
qed

lemma append_codepoint_encode: "append_codepoint s cp = s @ utf8proc_encode_char (int cp)"
proof -
  have b: "char_of (v mod 256) = (char_of v :: char)" if "v < 256" for v :: nat using that by simp
  have m: "n mod 64 < 64" for n :: nat by simp
  consider "cp < 0x80" | "0x80 \<le> cp" "cp < 0x800" | "0x800 \<le> cp" "cp < 0x10000" | "0x10000 \<le> cp" "cp < 0x110000" | "0x110000 \<le> cp"
    by linarith
  then show ?thesis
    by cases (simp_all add: append_codepoint_def utf8proc_encode_char_def Let_def)
qed

subsection \<open>Adding and erasing a character\<close>

lemma encode_tail_cont:
  assumes "scalar cp" "utf8proc_encode_char cp = c # cs" "d \<in> set cs"
  shows "utf_cont d"
proof -
  have b: "byte (char_of (v mod 256)) = v mod 256" for v :: nat by (simp add: byte_def)
  have k: "(0x80 + n mod 64) mod 256 div 64 = 2" for n :: nat
  proof -
    have "n mod 64 < 64" by simp
    then show ?thesis by simp
  qed
  show ?thesis
    using assms(2,3) by (auto simp: utf8proc_encode_char_def Let_def utf_cont_def b k split: if_splits)
qed

lemma encode_head_start:
  assumes "scalar cp"
  shows "utf8proc_encode_char cp \<noteq> [] \<and> \<not> utf_cont (hd (utf8proc_encode_char cp))"
proof -
  have b: "byte (char_of (v mod 256)) = v mod 256" for v :: nat by (simp add: byte_def)
  show ?thesis
    using assms by (auto simp: utf8proc_encode_char_def Let_def utf_cont_def b scalar_def split: if_splits)
qed

lemma decode_before_start:
  assumes "t \<noteq> []" "r = [] \<or> \<not> utf_cont (hd r)"
  shows "decode_at (t @ r) 0 = decode_at t 0"
proof -
  obtain n c where i: "utf8proc_iterate (t @ r) = (n, c)" by fastforce
  obtain n' c' where i': "utf8proc_iterate t = (n', c')" by fastforce
  show ?thesis
  proof (cases "0 < n")
    case True
    note A = iterate_accepts [OF i True]
    have "nat n \<le> length t"
    proof (rule ccontr)
      assume long: "\<not> nat n \<le> length t"
      obtain x xs where t: "t = x # xs" using assms(1) by (cases t) auto
      let ?e = "utf8proc_encode_char c"
      have e: "t @ r = ?e @ drop (nat n) (t @ r)" "nat n = length ?e" using A by auto
      from long e(2) have l: "length t < length ?e" by simp
      have "take (length ?e) (t @ r) = ?e" using e(1) by (metis append_eq_conv_conj)
      with l have te: "?e = t @ take (length ?e - length t) r" by simp
      have "r \<noteq> []" using te l by auto
      then obtain y ys where r: "r = y # ys" by (cases r) auto
      obtain j where j: "length ?e - length t = Suc j" using l by (metis Suc_diff_Suc)
      have "?e = x # (xs @ y # take j ys)" using te t r j by simp
      moreover have "scalar c" using A by simp
      ultimately have "utf_cont y" by (metis encode_tail_cont in_set_conv_decomp)
      with assms(2) r show False by simp
    qed
    with iterate_shrinks [OF i True] i show ?thesis by (simp add: decode_at_def)
  next
    case False
    have "\<not> 0 < n'" using iterate_extends [OF i', of r] i False by auto
    then show ?thesis using False i i' by (simp add: decode_at_def)
  qed
qed

lemma units_before_start: "r = [] \<or> \<not> utf_cont (hd r) \<Longrightarrow> units (t @ r) = units t @ units r"
proof (induction t rule: units.induct)
  case (1 t)
  show ?case
  proof (cases "t = []")
    case False
    obtain cp len where d: "decode_at t 0 = (cp, len)" by fastforce
    have d': "decode_at (t @ r) 0 = (cp, len)" using decode_before_start [OF False "1.prems"] d by simp
    have len: "len \<le> length t" by (rule decode_at_le [OF d False])
    have "units (t @ r) = (cp, take len (t @ r)) # units (drop len (t @ r))" by (rule units_step) (use False d' in auto)
    then show ?thesis using "1.IH" [OF False d [symmetric] "1.prems"] len units_step [OF False d] by simp
  qed simp
qed

lemma units_encode: "scalar cp \<Longrightarrow> units (utf8proc_encode_char cp) = [(cp, utf8proc_encode_char cp)]"
proof -
  assume sc: "scalar cp"
  let ?e = "utf8proc_encode_char cp"
  have "utf8proc_iterate ?e = (int (length ?e), cp)" using iterate_encode [OF sc, of "[]"] by simp
  moreover have ne: "?e \<noteq> []" using encode_head_start [OF sc] by simp
  ultimately have "decode_at ?e 0 = (cp, length ?e)" by (simp add: decode_at_def)
  from units_step [OF ne this] show ?thesis by simp
qed

lemma group_snoc:
  "\<exists>b. group pt e cur (us @ [v]) =
     (if b then group pt e cur us @ [[v]] else butlast (group pt e cur us) @ [last (group pt e cur us) @ [v]])"
proof (induction us arbitrary: e cur)
  case (Cons u us)
  show ?case
  proof (cases "grapheme_break_simple e (class_of pt u)")
    case True
    let ?g = "group pt (next_break_state e (class_of pt u)) [u]"
    obtain b where "?g (us @ [v]) = (if b then ?g us @ [[v]] else butlast (?g us) @ [last (?g us) @ [v]])"
      using Cons.IH by blast
    then show ?thesis using True by (intro exI [of _ b]) (cases b; simp)
  next
    case False
    let ?h = "group pt (next_break_state e (class_of pt u)) (cur @ [u])"
    have eq: "group pt e cur ((u # us) @ [v]) = ?h (us @ [v])" "group pt e cur (u # us) = ?h us" using False by simp_all
    show ?thesis unfolding eq by (rule Cons.IH)
  qed
next
  case Nil
  show ?case by (intro exI [of _ "grapheme_break_simple e (class_of pt v)"]) simp
qed

text \<open>A code point typed after any text joins its last cluster or starts one of its own.\<close>

lemma clusters_append:
  assumes "scalar cp"
  shows "\<exists>b. clusters pt (s @ utf8proc_encode_char cp) =
    (if b \<or> s = [] then clusters pt s @ [utf8proc_encode_char cp]
     else butlast (clusters pt s) @ [last (clusters pt s) @ utf8proc_encode_char cp])"
proof (cases "units s")
  case Nil
  then have "s = []" using text_of_units [of s] by simp
  then show ?thesis by (simp add: clusters_def unit_clusters_def units_encode [OF assms])
next
  case (Cons u us)
  let ?e = "utf8proc_encode_char cp" and ?g = "group pt (class_of pt u) [u] us"
  have us: "units (s @ ?e) = u # us @ [(cp, ?e)]"
    using units_before_start [of ?e s] encode_head_start [OF assms] units_encode [OF assms] Cons by simp
  obtain b where "group pt (class_of pt u) [u] (us @ [(cp, ?e)]) =
      (if b then ?g @ [[(cp, ?e)]] else butlast ?g @ [last ?g @ [(cp, ?e)]])" using group_snoc by blast
  then have "clusters pt (s @ ?e) = (if b then map text_of ?g @ [?e] else map text_of (butlast ?g) @ [text_of (last ?g) @ ?e])"
    using us by (simp add: clusters_def unit_clusters_def)
  moreover have "clusters pt s = map text_of ?g" using Cons by (simp add: clusters_def unit_clusters_def)
  moreover have "s \<noteq> []" using Cons by auto
  ultimately show ?thesis by (intro exI [of _ b]) (simp add: map_butlast last_map)
qed

lemma count_append:
  assumes "table_ok pt" "scalar (int cp)"
  shows "count_graphemes pt (append_codepoint s cp) \<in> {count_graphemes pt s, count_graphemes pt s + 1}"
proof -
  have "clusters pt s \<noteq> []" if "s \<noteq> []" using that concat_clusters [of pt s] by auto
  with clusters_append [OF assms(2), of pt s] show ?thesis
    by (auto simp: count_clusters [OF assms(1)] append_codepoint_encode)
qed

lemma erase_clusters:
  assumes "table_ok pt"
  shows "erase_last_grapheme pt s = concat (butlast (clusters pt s)) \<and>
    clusters pt (erase_last_grapheme pt s) = butlast (clusters pt s)"
proof (cases "s = []")
  case True
  then show ?thesis by (simp add: erase_last_grapheme_def clusters_def unit_clusters_def)
next
  case False
  let ?cs = "clusters pt s"
  have ne: "?cs \<noteq> []" using False concat_clusters [of pt s] by auto
  then obtain n where n: "length ?cs = Suc n" by (cases ?cs) auto
  have "offsets 0 ?cs ! n = length (concat (take n ?cs))" by (simp add: nth_offsets n)
  then have "erase_last_grapheme pt s = take (length (concat (take n ?cs))) s"
    using False by (simp add: erase_last_grapheme_def boundaries_offsets [OF assms] n Let_def)
  also have "\<dots> = concat (take n ?cs)"
    using concat_clusters [of pt s] by (metis append_eq_conv_conj append_take_drop_id concat_append)
  finally have e: "erase_last_grapheme pt s = concat (butlast ?cs)" by (simp add: butlast_conv_take n)
  moreover have "clusters pt (concat (butlast ?cs)) = butlast ?cs"
    by (rule clusters_prefix [of pt s _ "[last ?cs]"]) (simp add: ne)
  ultimately show ?thesis by simp
qed

text \<open>
  A text field is edited by the characters the reader sees. On any text, erasing removes exactly its last
  cluster and leaves the others as they were, and typing a code point adds at most one cluster and
  never cuts one; what was typed as a cluster of its own is what erasing takes back. Shortening a row
  returns a prefix of whole clusters within the limit.\<close>

theorem edits_whole_characters:
  assumes "table_ok pt" "scalar (int cp)"
  shows "clusters pt (erase_last_grapheme pt s) = butlast (clusters pt s) \<and>
    count_graphemes pt (erase_last_grapheme pt s) = count_graphemes pt s - 1 \<and>
    count_graphemes pt (append_codepoint s cp) \<in> {count_graphemes pt s, count_graphemes pt s + 1} \<and>
    (if count_graphemes pt (append_codepoint s cp) = count_graphemes pt s + 1
     then erase_last_grapheme pt (append_codepoint s cp) = s
     else erase_last_grapheme pt (append_codepoint s cp) = erase_last_grapheme pt s) \<and>
    count_graphemes pt (ellipsize pt s n) = min n (count_graphemes pt s) \<and> prefix (ellipsize pt s n) s"
proof -
  let ?e = "utf8proc_encode_char (int cp)" and ?cs = "clusters pt s"
  note E = erase_clusters [OF assms(1)] and C = count_clusters [OF assms(1)] and A = append_codepoint_encode
  obtain b where b: "clusters pt (s @ ?e) = (if b \<or> s = [] then ?cs @ [?e] else butlast ?cs @ [last ?cs @ ?e])"
    using clusters_append [OF assms(2)] by blast
  have ne: "?cs \<noteq> []" if "s \<noteq> []" using that concat_clusters [of pt s] by auto
  have "count_graphemes pt (append_codepoint s cp) \<in> {count_graphemes pt s, count_graphemes pt s + 1}"
    by (rule count_append [OF assms])
  moreover have "if count_graphemes pt (append_codepoint s cp) = count_graphemes pt s + 1
     then erase_last_grapheme pt (append_codepoint s cp) = s
     else erase_last_grapheme pt (append_codepoint s cp) = erase_last_grapheme pt s"
  proof (cases "b \<or> s = []")
    case True
    then have "clusters pt (s @ ?e) = ?cs @ [?e]" using b by simp
    then show ?thesis using E [of "s @ ?e"] concat_clusters [of pt s] by (simp add: A C)
  next
    case False
    then have c: "clusters pt (s @ ?e) = butlast ?cs @ [last ?cs @ ?e]" using b by simp
    have l: "length (butlast ?cs @ [last ?cs @ ?e]) = length ?cs" using ne False by simp
    show ?thesis using E [of "s @ ?e"] E [of s] l unfolding A C c by simp
  qed
  moreover have "count_graphemes pt (ellipsize pt s n) = min n (count_graphemes pt s)"
    by (simp add: ellipsize_def C clusters_truncate [OF assms(1)])
  moreover have "prefix (ellipsize pt s n) s"
  proof -
    have "concat (take n ?cs) @ concat (drop n ?cs) = s"
      using concat_clusters [of pt s] by (simp flip: concat_append)
    then have "prefix (concat (take n ?cs)) s" by (metis prefixI)
    then show ?thesis by (simp add: ellipsize_def truncate_clusters [OF assms(1)])
  qed
  moreover have "count_graphemes pt (erase_last_grapheme pt s) = count_graphemes pt s - 1"
    unfolding C E [THEN conjunct2] by simp
  ultimately show ?thesis using E by blast
qed

lemma edits_whole_characters_witness:
  "erase_last_grapheme tiny_table (append_codepoint ''la'' 115) = ''la'' \<or>
   erase_last_grapheme tiny_table (append_codepoint ''la'' 115) = erase_last_grapheme tiny_table ''la''"
  using edits_whole_characters [OF tiny_table_ok, of 115 "''la''" 0] by (auto simp: scalar_def split: if_splits)

end
