(* ===== verification/Cover.thy ===== *)
theory Cover
  imports Text_Util Panel
begin

text \<open>
  The cover a stranger sees, \<^verbatim>\<open>components/ui/cover.cpp\<close>. The painter is an interface of \<^verbatim>\<open>ui.h\<close> with no
  implementation in the repository, so it is a record of functions on the frame; what a screen asks of it is
  the list of calls the code makes, in order, and painting applies them.
\<close>

datatype glyph = GlyphWordmark | GlyphMailFlag | GlyphBattery | GlyphCharging | GlyphUnread | GlyphSelected
  | GlyphMark | GlyphPortrait | GlyphSubstitute

record painter =
  pn_clear :: "int \<Rightarrow> int \<Rightarrow> framebuf \<Rightarrow> framebuf"
  pn_draw_text :: "int \<Rightarrow> int \<Rightarrow> string \<Rightarrow> framebuf \<Rightarrow> framebuf"
  pn_draw_glyph :: "int \<Rightarrow> int \<Rightarrow> glyph \<Rightarrow> framebuf \<Rightarrow> framebuf"

datatype paint_call = Clear int int | DrawText int int string | DrawGlyph int int glyph

fun paint :: "painter \<Rightarrow> paint_call \<Rightarrow> framebuf \<Rightarrow> framebuf" where
  "paint p (Clear w h) = pn_clear p w h"
| "paint p (DrawText row col utf8) = pn_draw_text p row col utf8"
| "paint p (DrawGlyph row col g) = pn_draw_glyph p row col g"

text \<open>The calls of \<^verbatim>\<open>RenderCover\<close>; without the table only the frame is cleared.\<close>

definition cover_calls :: "cover_state \<Rightarrow> text_fn option \<Rightarrow> paint_call list" where
  "cover_calls s text = (let m = metrics_for FontSmall in
     Clear (me_panel_w_px m) (me_panel_h_px m) # (case text of None \<Rightarrow> []
     | Some T \<Rightarrow> let last_row = (if 0 < metrics_lines_per_page m then metrics_lines_per_page m - 1 else 0) in
         [DrawGlyph 0 0 GlyphWordmark,
          DrawText 0 2 (T str_app_name),
          DrawGlyph last_row 0 (if cs_charging s then GlyphCharging else GlyphBattery),
          DrawText last_row 2 (format_text (Some (T str_about_battery_fmt)) [text_int (cs_battery_pct s)])] @
         (if cs_any_unread s then [DrawGlyph 0 (metrics_chars_per_line m - 1) GlyphMailFlag] else [])))"

definition ui_render_cover :: "cover_state \<Rightarrow> painter \<Rightarrow> text_fn option \<Rightarrow> framebuf \<Rightarrow> framebuf" where
  "ui_render_cover s p text fb = fold (paint p) (cover_calls s text) fb"

definition cover_renderer :: "painter option \<Rightarrow> text_fn option \<Rightarrow> cover_state \<Rightarrow> framebuf \<Rightarrow> framebuf" where
  "cover_renderer painter text s fb = (case painter of None \<Rightarrow> fb | Some p \<Rightarrow> ui_render_cover s p text fb)"

subsection \<open>The table\<close>

fun contains :: "string \<Rightarrow> string \<Rightarrow> bool" where
  "contains w [] = (w = [])"
| "contains w (c # t) = (prefix w (c # t) \<or> contains w t)"

fun placeholders :: "string \<Rightarrow> nat" where
  "placeholders [] = 0"
| "placeholders [c] = 0"
| "placeholders (c # c' # t) = (if c = CHR ''{'' \<and> c' = CHR ''}'' then Suc (placeholders t) else placeholders (c' # t))"

definition lower :: "char \<Rightarrow> char" where
  "lower c = (if 65 \<le> byte c \<and> byte c \<le> 90 then char_of (byte c + 32) else c)"

definition printable_text :: "string \<Rightarrow> bool" where
  "printable_text t \<longleftrightarrow> t \<noteq> [] \<and> list_all (\<lambda>c. 0x20 \<le> byte c \<and> byte c < 0x7F) t"

definition internal_words :: "string list" where
  "internal_words = [''pututu'', ''ayllu'', ''kipu'']"

definition word_ok :: "string \<Rightarrow> bool" where
  "word_ok t \<longleftrightarrow> printable_text t \<and> \<not> list_ex (\<lambda>w. contains w (map lower t)) internal_words"

lemma table_printable: "list_all (\<lambda>(i, t). printable_text t) k_strings"
  by (simp add: k_strings_def printable_text_def byte_def)

lemma table_lower:
  "list_all (\<lambda>(i, t). \<not> list_ex (\<lambda>w. contains w (map lower t)) internal_words) k_strings"
  by (simp add: k_strings_def internal_words_def lower_def byte_def)

lemma table_ids: "sort (map fst k_strings) = [0..str_count - 1]"
  by code_simp

lemma table_lookup:
  assumes "0 \<le> i" "i < str_count"
  shows "map_of k_strings i = Some (S_text i) \<and> word_ok (S_text i)"
proof -
  have "i \<in> set (sort (map fst k_strings))" unfolding table_ids using assms by simp
  then have "i \<in> fst ` set k_strings" by simp
  then obtain t where t: "map_of k_strings i = Some t" by (metis map_of_eq_None_iff not_None_eq)
  then have "S_text i = t" using assms by (simp add: S_text_def)
  moreover have "word_ok t"
    using map_of_SomeD [OF t] table_printable table_lower by (auto simp: word_ok_def list_all_iff)
  ultimately show ?thesis using t by simp
qed

text \<open>
  The table is complete and speaks the child's language. The designated initialisers name every id once;
  every id reads as a non-empty printable text that contains none of the internal names, whatever its
  case; any other integer reads as the empty text; and only the texts meant as templates have
  placeholders, as many as the screens fill.\<close>

theorem strings_complete_and_clean:
  "sort (map fst k_strings) = [0..str_count - 1] \<and>
   (if 0 \<le> i \<and> i < str_count then map_of k_strings i = Some (S_text i) \<and> word_ok (S_text i) else S_text i = []) \<and>
   filter (\<lambda>p. 0 < snd p) (map (\<lambda>p. (fst p, placeholders (snd p))) k_strings) =
     [(str_read_page_fmt, 2), (str_compose_counter_fmt, 2), (str_fault_diagnostic_fmt, 1), (str_settings_light_step_fmt, 1),
      (str_about_version_fmt, 1), (str_about_battery_fmt, 1), (str_about_signal_fmt, 1), (str_log_line_fmt, 2),
      (str_log_battery_fmt, 1), (str_log_many_waiting_fmt, 1), (str_time_fmt, 3)]"
proof -
  have "filter (\<lambda>p. 0 < snd p) (map (\<lambda>p. (fst p, placeholders (snd p))) k_strings) =
     [(str_read_page_fmt, 2), (str_compose_counter_fmt, 2), (str_fault_diagnostic_fmt, 1), (str_settings_light_step_fmt, 1),
      (str_about_version_fmt, 1), (str_about_battery_fmt, 1), (str_about_signal_fmt, 1), (str_log_line_fmt, 2),
      (str_log_battery_fmt, 1), (str_log_many_waiting_fmt, 1), (str_time_fmt, 3)]"
    by (simp add: k_strings_def)
  then show ?thesis using table_ids table_lookup [of i] by (simp add: S_text_def)
qed

text \<open>
  The cover shows the name, the battery and one flag, and nothing else. With the table, the calls it makes
  of the painter are exactly these, inside the panel for any charge of at most four digits; the flag is
  drawn exactly when something is unread, and the kind of cover changes nothing.\<close>

theorem cover_shows_only_state:
  assumes "0 \<le> cs_battery_pct s" "cs_battery_pct s \<le> 9999"
  shows "cover_calls s (Some chaski_text) =
    [Clear 264 176, DrawGlyph 0 0 GlyphWordmark, DrawText 0 2 ''Chaski'',
     DrawGlyph 10 0 (if cs_charging s then GlyphCharging else GlyphBattery),
     DrawText 10 2 (''Battery '' @ dec_int (cs_battery_pct s) @ ''%'')] @
    (if cs_any_unread s then [DrawGlyph 0 42 GlyphMailFlag] else []) \<and>
   length (''Battery '' @ dec_int (cs_battery_pct s) @ ''%'') \<le> 41 \<and>
   cover_calls (s\<lparr>cs_kind := CoverChargeMe\<rparr>) text = cover_calls (s\<lparr>cs_kind := CoverResting\<rparr>) text"
proof -
  have m: "metrics_lines_per_page (metrics_for FontSmall) = 11" "metrics_chars_per_line (metrics_for FontSmall) = 43"
    "me_panel_w_px (metrics_for FontSmall) = 264" "me_panel_h_px (metrics_for FontSmall) = 176"
    by (simp_all add: metrics_chars_per_line_def metrics_lines_per_page_def metrics_for_def default_metrics_def Let_def signed_divide_int_def)
  have t: "chaski_text str_app_name = ''Chaski''" "chaski_text str_about_battery_fmt = ''Battery {}%''" by code_simp+
  have d: "text_int (cs_battery_pct s) = dec_int (cs_battery_pct s)" using assms by (simp add: text_int_dec is_i64_def)
  have f: "format_text (Some ''Battery {}%'') [x] = ''Battery '' @ x @ ''%''" for x
    by (simp add: format_text_def format_loop_filled)
  have "length (dec (nat (cs_battery_pct s))) \<le> 4" using assms by (intro length_dec_le) auto
  then have "length (''Battery '' @ dec_int (cs_battery_pct s) @ ''%'') \<le> 41" using assms by (simp add: dec_int_def)
  then show ?thesis by (cases "text") (simp_all add: cover_calls_def m t d f Let_def)
qed

lemma cover_shows_only_state_witness:
  "cover_calls \<lparr>cs_kind = CoverResting, cs_battery_pct = 64, cs_charging = False, cs_any_unread = True\<rparr> (Some chaski_text) =
    [Clear 264 176, DrawGlyph 0 0 GlyphWordmark, DrawText 0 2 ''Chaski'', DrawGlyph 10 0 GlyphBattery,
     DrawText 10 2 (''Battery '' @ dec_int 64 @ ''%''), DrawGlyph 0 42 GlyphMailFlag]"
  using cover_shows_only_state [of "\<lparr>cs_kind = CoverResting, cs_battery_pct = 64, cs_charging = False, cs_any_unread = True\<rparr>"]
  by simp

end
