(* ===== verification/Ui_State.thy ===== *)
theory Ui_State
  imports Cover Draft Outbox Letter_Store Settings Ayllu Kipu Input
begin

text \<open>
  The state of the screens, \<^verbatim>\<open>AppImpl\<close> of \<^verbatim>\<open>components/ui/ui.cpp\<close>, with the small helpers every screen uses. The
  stores the screens call are the ones of the store theories, over one medium; a store, clock or table
  that was not injected is \<open>None\<close>. A clock answers the same during one event. The record \<open>ui_world\<close> is what
  lies behind the dependencies, and \<open>uw_calls\<close> logs what was drawn and what the panel was told.
\<close>

subsection \<open>Data\<close>

datatype screen = CoverScreen | PinScreen | InboxScreen | ReadScreen | PickScreen | WriteScreen | OutboxScreen
  | SettingsScreen | FaultScreen | ConflictScreen | ContactsScreen | LogScreen | AboutScreen

datatype fault_kind = NoFault | CantReachHome | AskYourGuardians | RoadBusy | ChargeMe

datatype refresh = PartialPaint | FastPaint | FullPaint

datatype pending_kind = NothingPending | Resume | NewLetter | Recompose

record pending =
  pe_kind :: pending_kind
  pe_contact_id :: string
  pe_subject :: string
  pe_body :: string
  pe_local_id :: string

definition no_pending :: pending where
  "no_pending = \<lparr>pe_kind = NothingPending, pe_contact_id = [], pe_subject = [], pe_body = [], pe_local_id = []\<rparr>"

record row =
  rw_primary :: string
  rw_secondary :: string
  rw_meta :: string
  rw_unread :: bool
  rw_marked :: bool

definition plain_row :: "string \<Rightarrow> row" where
  "plain_row t = \<lparr>rw_primary = t, rw_secondary = [], rw_meta = [], rw_unread = False, rw_marked = False\<rparr>"

record view =
  vw_screen :: screen
  vw_title :: string
  vw_message :: "string list"
  vw_rows :: "row list"
  vw_lines :: "string list"
  vw_selected :: int
  vw_page :: int
  vw_page_count :: int
  vw_graphemes_used :: nat
  vw_graphemes_max :: nat
  vw_diagnostic :: string
  vw_fault :: fault_kind
  vw_editing :: bool

definition empty_view :: view where
  "empty_view = \<lparr>vw_screen = CoverScreen, vw_title = [], vw_message = [], vw_rows = [], vw_lines = [], vw_selected = 0,
     vw_page = 0, vw_page_count = 0, vw_graphemes_used = 0, vw_graphemes_max = 0, vw_diagnostic = [],
     vw_fault = NoFault, vw_editing = False\<rparr>"

record about =
  ab_firmware_version :: string
  ab_battery_pct :: int
  ab_charging :: bool
  ab_rssi :: int

definition no_about :: about where
  "no_about = \<lparr>ab_firmware_version = [], ab_battery_pct = 0, ab_charging = False, ab_rssi = 0\<rparr>"

definition k_pin_backoff_first_ms :: int where "k_pin_backoff_first_ms = 1000"
definition k_pin_backoff_max_ms :: int where "k_pin_backoff_max_ms = 60000"
definition k_pin_max_digits :: nat where "k_pin_max_digits = 6"
definition k_inactivity_timeout_ms :: int where "k_inactivity_timeout_ms = 45000"
definition k_compose_idle_refresh_ms :: int where "k_compose_idle_refresh_ms = 200"
definition k_partials_before_full_refresh :: int where "k_partials_before_full_refresh = 8"
definition k_frontlight_step_count :: int where "k_frontlight_step_count = 4"
definition k_max_nickname_graphemes :: nat where "k_max_nickname_graphemes = 24"
definition k_max_subject_graphemes :: nat where "k_max_subject_graphemes = 100"

definition k_tabs :: "screen list" where
  "k_tabs = [InboxScreen, PickScreen, OutboxScreen, SettingsScreen]"

definition k_tab_count :: int where "k_tab_count = 4"

definition signal_string_id :: "int \<Rightarrow> int" where
  "signal_string_id rssi = (if rssi = 0 then str_log_signal_none
     else if -85 \<le> rssi then str_log_signal_good
     else if -105 \<le> rssi then str_log_signal_weak
     else str_log_signal_none)"

subsection \<open>Dependencies and state\<close>

datatype ui_call = Draw paint_call | Glass device_call

record ui_world =
  uw_io :: io
  uw_letters :: "letter_store option"
  uw_outbox :: "outbox option"
  uw_drafts :: "draft_store option"
  uw_settings :: "settings_store option"
  uw_contacts :: "ayllu_store option"
  uw_health_log :: "kipu_log option"
  uw_now_epoch :: "int option"
  uw_clock_valid :: "bool option"
  uw_monotonic_ms :: "int option"
  uw_about :: "about option"
  uw_calls :: "ui_call list"

record ui_deps =
  ud_table :: property_table
  ud_panel :: bool
  ud_painter :: "painter option"
  ud_text :: "text_fn option"
  ud_verify_pin :: "(string \<Rightarrow> bool) option"

record app =
  ap_world :: ui_world
  ap_view :: view
  ap_fb :: framebuf
  ap_screen :: screen
  ap_sel :: "screen \<Rightarrow> int"
  ap_message :: string
  ap_letters :: "stored_letter list"
  ap_queued :: "outbox_entry list"
  ap_picker :: "contact list"
  ap_roster :: "contact list"
  ap_open_letter :: stored_letter
  ap_pages :: "string list list"
  ap_page :: int
  ap_contact_id :: string
  ap_subject :: string
  ap_body :: string
  ap_field :: int
  ap_draft_open :: bool
  ap_compose_max :: nat
  ap_pending :: pending
  ap_editing :: bool
  ap_edit_buf :: string
  ap_pin_entry :: string
  ap_wrong_attempts :: int
  ap_backoff_until_ms :: int
  ap_unlocked :: bool
  ap_fault :: fault_kind
  ap_diagnostic :: string
  ap_charge_me :: bool
  ap_last_key_ms :: int
  ap_last_save_ms :: int
  ap_last_edit_ms :: int
  ap_deferred_paint :: bool
  ap_partials_since_full :: int

definition blank_letter :: stored_letter where
  "blank_letter = \<lparr>sl_letter = \<lparr>l_id = [], l_contact_id = [], l_subject = [], l_date = 0, l_body = [],
     l_trimmed = False, l_truncated = False, l_degraded = False\<rparr>, sl_unread = True\<rparr>"

definition new_app :: "ui_world \<Rightarrow> app" where
  "new_app w = \<lparr>ap_world = w, ap_view = empty_view, ap_fb = empty_framebuf, ap_screen = CoverScreen, ap_sel = (\<lambda>_. 0),
     ap_message = [], ap_letters = [], ap_queued = [], ap_picker = [], ap_roster = [], ap_open_letter = blank_letter,
     ap_pages = [], ap_page = 0, ap_contact_id = [], ap_subject = [], ap_body = [], ap_field = 0, ap_draft_open = False,
     ap_compose_max = nat k_default_max_letter_chars, ap_pending = no_pending, ap_editing = False, ap_edit_buf = [],
     ap_pin_entry = [], ap_wrong_attempts = 0, ap_backoff_until_ms = 0, ap_unlocked = False, ap_fault = NoFault,
     ap_diagnostic = [], ap_charge_me = False, ap_last_key_ms = 0, ap_last_save_ms = 0, ap_last_edit_ms = 0,
     ap_deferred_paint = False, ap_partials_since_full = 0\<rparr>"

subsection \<open>Helpers\<close>

definition ui_text :: "ui_deps \<Rightarrow> int \<Rightarrow> string" where
  "ui_text d i = (case ud_text d of None \<Rightarrow> [] | Some T \<Rightarrow> T i)"

definition ui_now :: "app \<Rightarrow> int" where
  "ui_now a = or_else (uw_monotonic_ms (ap_world a)) 0"

definition ui_now_epoch :: "app \<Rightarrow> int" where
  "ui_now_epoch a = or_else (uw_now_epoch (ap_world a)) 0"

definition ui_clock_valid :: "app \<Rightarrow> bool" where
  "ui_clock_valid a = or_else (uw_clock_valid (ap_world a)) False"

definition pin_required :: "app \<Rightarrow> bool" where
  "pin_required a = (if ap_unlocked a then False
     else case uw_settings (ap_world a) of None \<Rightarrow> False | Some sg \<Rightarrow> se_pin_enabled (sg_settings sg))"

definition ui_metrics :: "app \<Rightarrow> metrics" where
  "ui_metrics a = (let step = (case uw_settings (ap_world a) of None \<Rightarrow> 0 | Some sg \<Rightarrow> se_font_step (sg_settings sg))
     in metrics_for (if 1 \<le> step then FontLarge else FontSmall))"

definition sel :: "app \<Rightarrow> int" where
  "sel a = ap_sel a (ap_screen a)"

text \<open>The conversion of a selection to \<^verbatim>\<open>std::size_t\<close>.\<close>

definition sel_index :: "app \<Rightarrow> nat" where
  "sel_index a = nat (sel a mod 2 ^ 64)"

definition set_sel :: "int \<Rightarrow> app \<Rightarrow> app" where
  "set_sel n a = a\<lparr>ap_sel := (ap_sel a)(ap_screen a := n)\<rparr>"

text \<open>A call of a store that may be absent; \<open>r\<close> is the answer when it is.\<close>

definition call_letters :: "(letter_store \<Rightarrow> io \<Rightarrow> 'r \<times> letter_store \<times> io) \<Rightarrow> 'r \<Rightarrow> app \<Rightarrow> 'r \<times> app" where
  "call_letters f r a = (case uw_letters (ap_world a) of None \<Rightarrow> (r, a)
     | Some s \<Rightarrow> let (x, s, io) = f s (uw_io (ap_world a)) in (x, a\<lparr>ap_world := (ap_world a)\<lparr>uw_letters := Some s, uw_io := io\<rparr>\<rparr>))"

definition call_outbox :: "(outbox \<Rightarrow> io \<Rightarrow> 'r \<times> outbox \<times> io) \<Rightarrow> 'r \<Rightarrow> app \<Rightarrow> 'r \<times> app" where
  "call_outbox f r a = (case uw_outbox (ap_world a) of None \<Rightarrow> (r, a)
     | Some s \<Rightarrow> let (x, s, io) = f s (uw_io (ap_world a)) in (x, a\<lparr>ap_world := (ap_world a)\<lparr>uw_outbox := Some s, uw_io := io\<rparr>\<rparr>))"

definition call_drafts :: "(draft_store \<Rightarrow> io \<Rightarrow> 'r \<times> draft_store \<times> io) \<Rightarrow> 'r \<Rightarrow> app \<Rightarrow> 'r \<times> app" where
  "call_drafts f r a = (case uw_drafts (ap_world a) of None \<Rightarrow> (r, a)
     | Some s \<Rightarrow> let (x, s, io) = f s (uw_io (ap_world a)) in (x, a\<lparr>ap_world := (ap_world a)\<lparr>uw_drafts := Some s, uw_io := io\<rparr>\<rparr>))"

definition call_settings :: "(settings_store \<Rightarrow> io \<Rightarrow> 'r \<times> settings_store \<times> io) \<Rightarrow> 'r \<Rightarrow> app \<Rightarrow> 'r \<times> app" where
  "call_settings f r a = (case uw_settings (ap_world a) of None \<Rightarrow> (r, a)
     | Some s \<Rightarrow> let (x, s, io) = f s (uw_io (ap_world a)) in (x, a\<lparr>ap_world := (ap_world a)\<lparr>uw_settings := Some s, uw_io := io\<rparr>\<rparr>))"

definition call_contacts :: "(ayllu_store \<Rightarrow> io \<Rightarrow> 'r \<times> ayllu_store \<times> io) \<Rightarrow> 'r \<Rightarrow> app \<Rightarrow> 'r \<times> app" where
  "call_contacts f r a = (case uw_contacts (ap_world a) of None \<Rightarrow> (r, a)
     | Some s \<Rightarrow> let (x, s, io) = f s (uw_io (ap_world a)) in (x, a\<lparr>ap_world := (ap_world a)\<lparr>uw_contacts := Some s, uw_io := io\<rparr>\<rparr>))"

subsection \<open>Moving between screens\<close>

definition reload_letters :: "app \<Rightarrow> app" where
  "reload_letters a = (let (ls, a) = call_letters (\<lambda>s io. let (ls, io) = list_newest_first k_default_letters_keep s io in (ls, s, io)) [] a
     in a\<lparr>ap_letters := ls\<rparr>)"

definition reload_outbox :: "app \<Rightarrow> app" where
  "reload_outbox a = a\<lparr>ap_queued := (case uw_outbox (ap_world a) of None \<Rightarrow> [] | Some s \<Rightarrow> ox_all s)\<rparr>"

definition reload_contacts :: "app \<Rightarrow> app" where
  "reload_contacts a = (case uw_contacts (ap_world a) of None \<Rightarrow> a\<lparr>ap_picker := [], ap_roster := []\<rparr>
     | Some s \<Rightarrow> a\<lparr>ap_picker := composable s, ap_roster := merged s\<rparr>)"

definition go :: "screen \<Rightarrow> app \<Rightarrow> app" where
  "go s a = (let a = (if s \<noteq> ap_screen a then a\<lparr>ap_sel := (ap_sel a)(s := 0)\<rparr> else a);
     a = a\<lparr>ap_screen := s, ap_editing := False\<rparr>;
     a = (if s = InboxScreen then reload_letters a else a);
     a = (if s = OutboxScreen then reload_outbox a else a)
     in if s = PickScreen \<or> s = ContactsScreen then reload_contacts a else a)"

definition contact_label :: "ui_deps \<Rightarrow> app \<Rightarrow> string \<Rightarrow> string" where
  "contact_label d a contact_id = (let found = (case uw_contacts (ap_world a) of None \<Rightarrow> None
       | Some s \<Rightarrow> (case ay_lookup s contact_id of (hit, c) \<Rightarrow> if hit \<and> ct_name c \<noteq> [] then Some (ct_name c) else None))
     in case found of Some n \<Rightarrow> n
     | None \<Rightarrow> if contact_id = k_sys_contact_id then ui_text d str_system_sender else ui_text d str_contact_unknown)"

definition move_sel :: "int \<Rightarrow> int \<Rightarrow> app \<Rightarrow> app" where
  "move_sel delta n_rows a = (if n_rows \<le> 0 then set_sel 0 a
     else let n = sel a + delta; n = (if n < 0 then 0 else n); n = (if n_rows \<le> n then n_rows - 1 else n) in set_sel n a)"

definition tab :: "int \<Rightarrow> app \<Rightarrow> app" where
  "tab delta a = (let idx = fold (\<lambda>i idx. if k_tabs ! i = ap_screen a then int i else idx) [0..<nat k_tab_count] 0;
     idx = (idx + delta + k_tab_count) mod k_tab_count
     in go (k_tabs ! nat idx) a)"

end
