(* ===== verification/Ui_Keys.thy ===== *)
theory Ui_Keys
  imports Ui_State
begin

text \<open>
  What each key does on each screen, \<^verbatim>\<open>components/ui/ui.cpp\<close>: the one draft slot and its decision point, sending,
  and the handler of every screen. A handler returns the refresh its update deserves.
\<close>

subsection \<open>Drafts\<close>

definition draft_of :: "string \<Rightarrow> string \<Rightarrow> string \<Rightarrow> app \<Rightarrow> draft" where
  "draft_of contact_id subject body a = \<lparr>dr_contact_id = contact_id, dr_subject = subject, dr_body = body,
     dr_updated_at = (if ui_clock_valid a then ui_now_epoch a else 0)\<rparr>"

definition autosave_draft :: "app \<Rightarrow> app" where
  "autosave_draft a = (if \<not> ap_draft_open a \<or> uw_drafts (ap_world a) = None then a
     else let draft = draft_of (ap_contact_id a) (ap_subject a) (ap_body a) a;
              (_, a) = call_drafts (draft_save draft) False a
     in a\<lparr>ap_last_save_ms := ui_now a\<rparr>)"

definition offer_pending_draft :: "app \<Rightarrow> bool \<times> app" where
  "offer_pending_draft a = (case uw_drafts (ap_world a) of None \<Rightarrow> (False, a)
     | Some s \<Rightarrow> if \<not> ds_pending s then (False, a)
       else (True, go ConflictScreen (a\<lparr>ap_pending := no_pending\<lparr>pe_kind := Resume\<rparr>\<rparr>)))"

definition open_compose :: "string \<Rightarrow> string \<Rightarrow> string \<Rightarrow> app \<Rightarrow> app" where
  "open_compose contact_id subject body a = (let
     a = a\<lparr>ap_contact_id := contact_id, ap_subject := subject, ap_body := body, ap_field := 0, ap_draft_open := True\<rparr>;
     a = a\<lparr>ap_last_save_ms := ui_now a\<rparr>;
     a = a\<lparr>ap_compose_max := (case uw_settings (ap_world a) of None \<Rightarrow> nat k_default_max_letter_chars
       | Some sg \<Rightarrow> nat (max 0 (se_max_letter_chars (sg_settings sg))))\<rparr>
     in go (if contact_id = [] then PickScreen else WriteScreen) a)"

definition start_draft :: "ui_deps \<Rightarrow> pending \<Rightarrow> app \<Rightarrow> app" where
  "start_draft d p a = (if uw_drafts (ap_world a) = None then a\<lparr>ap_message := ui_text d str_storage_failed\<rparr>
     else let draft = draft_of (pe_contact_id p) (pe_subject p) (pe_body p) a;
              (out, a) = call_drafts (draft_start draft) kWriteFailed a
     in case out of
          kStarted \<Rightarrow>
            let a = (if pe_kind p = Recompose then snd (call_outbox (outbox_discard (pe_local_id p)) False a) else a)
            in open_compose (pe_contact_id p) (pe_subject p) (pe_body p) a
        | kDraftPending \<Rightarrow> go ConflictScreen (a\<lparr>ap_pending := p\<rparr>)
        | kWriteFailed \<Rightarrow> a\<lparr>ap_message := ui_text d str_storage_failed\<rparr>)"

definition close_compose :: "app \<Rightarrow> app" where
  "close_compose a = a\<lparr>ap_contact_id := [], ap_subject := [], ap_body := [], ap_draft_open := False, ap_deferred_paint := False\<rparr>"

definition keep_pending_draft :: "app \<Rightarrow> app" where
  "keep_pending_draft a = (let (draft, a) = call_drafts (\<lambda>s io. let (x, io) = draft_load s io in (x, s, io)) None a
     in case draft of
          None \<Rightarrow> go InboxScreen (a\<lparr>ap_pending := no_pending\<rparr>)
        | Some x \<Rightarrow> open_compose (dr_contact_id x) (dr_subject x) (dr_body x) (a\<lparr>ap_pending := no_pending\<rparr>))"

definition drop_pending_draft :: "ui_deps \<Rightarrow> app \<Rightarrow> app" where
  "drop_pending_draft d a = (let (_, a) = call_drafts draft_discard False a;
     p = ap_pending a;
     a = close_compose (a\<lparr>ap_pending := no_pending\<rparr>)
     in if pe_kind p = Resume then go InboxScreen a else start_draft d p a)"

subsection \<open>Sending\<close>

definition send :: "ui_deps \<Rightarrow> app \<Rightarrow> app" where
  "send d a = (if ap_body a = [] then a\<lparr>ap_message := ui_text d str_compose_empty\<rparr>
     else case uw_outbox (ap_world a) of None \<Rightarrow> a\<lparr>ap_message := ui_text d str_storage_failed\<rparr>
     | Some s \<Rightarrow> if k_outbox_cap \<le> sendable_count s
       then go OutboxScreen ((autosave_draft a)\<lparr>ap_message := ui_text d str_outbox_full\<rparr>)
       else let composed_at = (if ui_clock_valid a then ui_now_epoch a else 0);
                (local_id, a) = call_outbox (outbox_add (ap_contact_id a) (ap_subject a) (ap_body a) composed_at) None a
       in if local_id = None then a\<lparr>ap_message := ui_text d str_storage_failed\<rparr>
          else let (_, a) = call_drafts draft_discard False a;
                   a = close_compose a
          in go OutboxScreen (a\<lparr>ap_message := ui_text d str_compose_sent\<rparr>))"

subsection \<open>The lock\<close>

definition open_after_unlock :: "app \<Rightarrow> app" where
  "open_after_unlock a = (let (offered, a) = offer_pending_draft a in if offered then a else go InboxScreen a)"

definition key_cover :: "key_event \<Rightarrow> app \<Rightarrow> refresh \<times> app" where
  "key_cover e a = (if ke_key e = KeyNone then (FastPaint, a)
     else if pin_required a then (FullPaint, go PinScreen a)
     else (FullPaint, open_after_unlock a))"

text \<open>The doubling loop of \<^verbatim>\<open>BackoffMs\<close> with the rounds left.\<close>

fun backoff_loop :: "nat \<Rightarrow> int \<Rightarrow> int" where
  "backoff_loop 0 ms = ms"
| "backoff_loop (Suc n) ms = (if ms < k_pin_backoff_max_ms then backoff_loop n (ms * 2) else ms)"

definition pin_backoff_ms :: "int \<Rightarrow> int" where
  "pin_backoff_ms attempts = min (backoff_loop (nat (attempts - 1)) k_pin_backoff_first_ms) k_pin_backoff_max_ms"

definition key_pin :: "ui_deps \<Rightarrow> key_event \<Rightarrow> app \<Rightarrow> refresh \<times> app" where
  "key_pin d e a = (if ap_backoff_until_ms a \<noteq> 0 \<and> ui_now a < ap_backoff_until_ms a
     then (FastPaint, a\<lparr>ap_message := ui_text d str_pin_try_again_soon\<rparr>)
     else let a = a\<lparr>ap_backoff_until_ms := 0\<rparr> in case ke_key e of
       KeyChar \<Rightarrow> (FastPaint, if 48 \<le> ke_codepoint e \<and> ke_codepoint e \<le> 57 \<and> length (ap_pin_entry a) < k_pin_max_digits
         then a\<lparr>ap_pin_entry := ap_pin_entry a @ [char_of (ke_codepoint e)]\<rparr> else a)
     | KeyBack \<Rightarrow> (FastPaint, if ap_pin_entry a = [] then a else a\<lparr>ap_pin_entry := butlast (ap_pin_entry a)\<rparr>)
     | KeyEnter \<Rightarrow>
         let ok = (case ud_verify_pin d of None \<Rightarrow> False | Some v \<Rightarrow> v (ap_pin_entry a));
             a = a\<lparr>ap_pin_entry := []\<rparr>
         in if ok then (FullPaint, open_after_unlock (a\<lparr>ap_unlocked := True, ap_wrong_attempts := 0, ap_backoff_until_ms := 0\<rparr>))
            else let a = a\<lparr>ap_wrong_attempts := ap_wrong_attempts a + 1\<rparr>
            in (FastPaint, a\<lparr>ap_backoff_until_ms := ui_now a + pin_backoff_ms (ap_wrong_attempts a), ap_message := ui_text d str_pin_wrong\<rparr>)
     | _ \<Rightarrow> (FastPaint, a))"

subsection \<open>Reading\<close>

definition paginate_open :: "ui_deps \<Rightarrow> app \<Rightarrow> app" where
  "paginate_open d a = (let pages = paginate (ud_table d) (l_body (sl_letter (ap_open_letter a))) (ui_metrics a)
     in a\<lparr>ap_pages := (if pages = [] then [[]] else pages)\<rparr>)"

definition open_selected_letter :: "ui_deps \<Rightarrow> app \<Rightarrow> refresh \<times> app" where
  "open_selected_letter d a = (if ap_letters a = [] then (FastPaint, a)
     else let i = sel_index a in if length (ap_letters a) \<le> i then (FastPaint, a)
     else let a = a\<lparr>ap_open_letter := ap_letters a ! i\<rparr>;
              (_, a) = call_letters (mark_read (l_id (sl_letter (ap_open_letter a)))) False a;
              a = a\<lparr>ap_letters := (ap_letters a)[i := (ap_letters a ! i)\<lparr>sl_unread := False\<rparr>]\<rparr>;
              a = a\<lparr>ap_open_letter := (ap_open_letter a)\<lparr>sl_unread := False\<rparr>, ap_page := 0\<rparr>;
              a = paginate_open d a
     in (FullPaint, go ReadScreen a))"

definition key_inbox :: "ui_deps \<Rightarrow> key_event \<Rightarrow> app \<Rightarrow> refresh \<times> app" where
  "key_inbox d e a = (case ke_key e of
       KeyUp \<Rightarrow> (FastPaint, move_sel (-1) (int (length (ap_letters a))) a)
     | KeyDown \<Rightarrow> (FastPaint, move_sel 1 (int (length (ap_letters a))) a)
     | KeyLeft \<Rightarrow> (FastPaint, tab (-1) a)
     | KeyRight \<Rightarrow> (FastPaint, tab 1 a)
     | KeyEnter \<Rightarrow> open_selected_letter d a
     | _ \<Rightarrow> (FastPaint, a))"

definition key_read :: "key_event \<Rightarrow> app \<Rightarrow> refresh \<times> app" where
  "key_read e a = (FastPaint,
     if ke_key e = KeyLeft \<or> ke_key e = KeyUp then (if 0 < ap_page a then a\<lparr>ap_page := ap_page a - 1\<rparr> else a)
     else if ke_key e = KeyRight \<or> ke_key e = KeyDown
     then (if ap_page a + 1 < int (length (ap_pages a)) then a\<lparr>ap_page := ap_page a + 1\<rparr> else a)
     else if ke_key e = KeyBack \<or> ke_key e = KeyEnter then go InboxScreen a
     else a)"

subsection \<open>Writing\<close>

definition key_pick :: "ui_deps \<Rightarrow> key_event \<Rightarrow> app \<Rightarrow> refresh \<times> app" where
  "key_pick d e a = (FastPaint, case ke_key e of
       KeyUp \<Rightarrow> move_sel (-1) (int (length (ap_picker a))) a
     | KeyDown \<Rightarrow> move_sel 1 (int (length (ap_picker a))) a
     | KeyLeft \<Rightarrow> tab (-1) a
     | KeyRight \<Rightarrow> tab 1 a
     | KeyEnter \<Rightarrow> (if ap_picker a = [] then a
         else let i = sel_index a in if length (ap_picker a) \<le> i then a
         else let i' = ct_id (ap_picker a ! i)
         in if ap_draft_open a then go WriteScreen (autosave_draft (a\<lparr>ap_contact_id := i'\<rparr>))
            else start_draft d (no_pending\<lparr>pe_kind := NewLetter, pe_contact_id := i'\<rparr>) a)
     | KeyBack \<Rightarrow> go InboxScreen a
     | _ \<Rightarrow> a)"

definition field_text :: "app \<Rightarrow> string" where
  "field_text a = (if ap_field a = 0 then ap_body a else ap_subject a)"

definition set_field_text :: "string \<Rightarrow> app \<Rightarrow> app" where
  "set_field_text t a = (if ap_field a = 0 then a\<lparr>ap_body := t\<rparr> else a\<lparr>ap_subject := t\<rparr>)"

definition field_cap :: "app \<Rightarrow> nat" where
  "field_cap a = (if ap_field a = 0 then ap_compose_max a else k_max_subject_graphemes)"

definition type_char :: "ui_deps \<Rightarrow> nat \<Rightarrow> app \<Rightarrow> refresh \<times> app" where
  "type_char d cp a = (let pt = ud_table d; cap = field_cap a
     in if cap \<le> count_graphemes pt (field_text a) then (FastPaint, a\<lparr>ap_message := ui_text d str_compose_too_long\<rparr>)
     else let a = set_field_text (append_codepoint (field_text a) cp) a
     in if cap < count_graphemes pt (field_text a)
        then (FastPaint, (set_field_text (truncate_graphemes pt (field_text a) cap) a)\<lparr>ap_message := ui_text d str_compose_too_long\<rparr>)
        else let a = a\<lparr>ap_last_edit_ms := ui_now a\<rparr>
        in if cp = 32 \<or> cp = 10 then (PartialPaint, a\<lparr>ap_deferred_paint := False\<rparr>)
           else (PartialPaint, a\<lparr>ap_deferred_paint := True\<rparr>))"

definition key_write :: "ui_deps \<Rightarrow> key_event \<Rightarrow> app \<Rightarrow> refresh \<times> app" where
  "key_write d e a = (case ke_key e of
       KeyChar \<Rightarrow> type_char d (ke_codepoint e) a
     | KeyErase \<Rightarrow> if field_text a \<noteq> []
         then (PartialPaint, (set_field_text (erase_last_grapheme (ud_table d) (field_text a)) a)
                 \<lparr>ap_last_edit_ms := ui_now a, ap_deferred_paint := True\<rparr>)
         else (FastPaint, a)
     | KeyBack \<Rightarrow> (FastPaint, go PickScreen (autosave_draft a))
     | KeyUp \<Rightarrow> (FastPaint, a\<lparr>ap_field := (if ap_field a = 0 then 1 else 0)\<rparr>)
     | KeyDown \<Rightarrow> (FastPaint, a\<lparr>ap_field := (if ap_field a = 0 then 1 else 0)\<rparr>)
     | KeyEnter \<Rightarrow> (FullPaint, send d a)
     | _ \<Rightarrow> (FastPaint, a))"

definition key_outbox :: "ui_deps \<Rightarrow> key_event \<Rightarrow> app \<Rightarrow> refresh \<times> app" where
  "key_outbox d e a = (FastPaint, case ke_key e of
       KeyUp \<Rightarrow> move_sel (-1) (int (length (ap_queued a))) a
     | KeyDown \<Rightarrow> move_sel 1 (int (length (ap_queued a))) a
     | KeyLeft \<Rightarrow> tab (-1) a
     | KeyRight \<Rightarrow> tab 1 a
     | KeyEnter \<Rightarrow> (if ap_queued a = [] then a
         else let i = sel_index a in if length (ap_queued a) \<le> i \<or> \<not> oe_rejected (ap_queued a ! i) then a
         else let q = ap_queued a ! i
         in start_draft d \<lparr>pe_kind = Recompose, pe_contact_id = oe_contact_id q, pe_subject = oe_subject q, pe_body = oe_body q,
              pe_local_id = oe_local_id q\<rparr> a)
     | KeyBack \<Rightarrow> go InboxScreen a
     | _ \<Rightarrow> a)"

definition key_conflict :: "ui_deps \<Rightarrow> key_event \<Rightarrow> app \<Rightarrow> refresh \<times> app" where
  "key_conflict d e a = (case ke_key e of
       KeyUp \<Rightarrow> (FastPaint, move_sel (-1) 2 a)
     | KeyDown \<Rightarrow> (FastPaint, move_sel 1 2 a)
     | KeyEnter \<Rightarrow> (FullPaint, if sel a = 0 then keep_pending_draft a else drop_pending_draft d a)
     | _ \<Rightarrow> (FastPaint, a))"

subsection \<open>Settings\<close>

definition cycle_font :: "ui_deps \<Rightarrow> app \<Rightarrow> app" where
  "cycle_font d a = (case uw_settings (ap_world a) of None \<Rightarrow> a
     | Some sg \<Rightarrow> let step = (se_font_step (sg_settings sg) + 1) smod k_font_step_count;
           (_, a) = call_settings (set_font_step step) False a
       in if l_id (sl_letter (ap_open_letter a)) \<noteq> []
          then let a = paginate_open d a in
            (if int (length (ap_pages a)) \<le> ap_page a then a\<lparr>ap_page := int (length (ap_pages a)) - 1\<rparr> else a)
          else a)"

definition cycle_frontlight :: "app \<Rightarrow> app" where
  "cycle_frontlight a = (case uw_settings (ap_world a) of None \<Rightarrow> a
     | Some sg \<Rightarrow> let step = (se_frontlight_step (sg_settings sg) + 1) smod k_frontlight_step_count
       in snd (call_settings (set_frontlight_step step) False a))"

definition key_settings :: "ui_deps \<Rightarrow> key_event \<Rightarrow> app \<Rightarrow> refresh \<times> app" where
  "key_settings d e a = (case ke_key e of
       KeyUp \<Rightarrow> (FastPaint, move_sel (-1) 5 a)
     | KeyDown \<Rightarrow> (FastPaint, move_sel 1 5 a)
     | KeyLeft \<Rightarrow> (FastPaint, tab (-1) a)
     | KeyRight \<Rightarrow> (FastPaint, tab 1 a)
     | KeyBack \<Rightarrow> (FastPaint, go InboxScreen a)
     | KeyEnter \<Rightarrow> if sel a = 0 then (FullPaint, cycle_font d a)
         else if sel a = 1 then (FastPaint, cycle_frontlight a)
         else if sel a = 2 then (FastPaint, go ContactsScreen a)
         else if sel a = 3 then (FastPaint, go LogScreen a)
         else (FastPaint, go AboutScreen a)
     | _ \<Rightarrow> (FastPaint, a))"

subsection \<open>Names and faces\<close>

definition overlay_of :: "contact \<Rightarrow> overlay" where
  "overlay_of c = empty_overlay\<lparr>ov_nickname := (if ct_name c \<noteq> ct_server_name c then Some (ct_name c) else None),
     ov_pinned := Some (ct_pinned c)\<rparr>"

definition toggle_pinned :: "app \<Rightarrow> app" where
  "toggle_pinned a = (let i = sel_index a in
     if length (ap_roster a) \<le> i \<or> uw_contacts (ap_world a) = None then a
     else let c = ap_roster a ! i; ov = (overlay_of c)\<lparr>ov_pinned := Some (\<not> ct_pinned c)\<rparr>;
              (_, a) = call_contacts (set_overlay (ct_id c) ov) False a
     in reload_contacts a)"

definition commit_nickname :: "app \<Rightarrow> app" where
  "commit_nickname a = (let i = sel_index a in
     if length (ap_roster a) \<le> i \<or> uw_contacts (ap_world a) = None then a
     else let c = ap_roster a ! i;
              ov = (overlay_of c)\<lparr>ov_nickname := (if ap_edit_buf a \<noteq> [] \<and> ap_edit_buf a \<noteq> ct_server_name c
                then Some (ap_edit_buf a) else None)\<rparr>;
              (_, a) = call_contacts (set_overlay (ct_id c) ov) False a
     in reload_contacts a)"

definition key_nickname_edit :: "ui_deps \<Rightarrow> key_event \<Rightarrow> app \<Rightarrow> refresh \<times> app" where
  "key_nickname_edit d e a = (FastPaint, case ke_key e of
       KeyChar \<Rightarrow> if count_graphemes (ud_table d) (ap_edit_buf a) < k_max_nickname_graphemes
         then a\<lparr>ap_edit_buf := append_codepoint (ap_edit_buf a) (ke_codepoint e)\<rparr> else a
     | KeyBack \<Rightarrow> if ap_edit_buf a = [] then a\<lparr>ap_editing := False\<rparr>
         else a\<lparr>ap_edit_buf := erase_last_grapheme (ud_table d) (ap_edit_buf a)\<rparr>
     | KeyEnter \<Rightarrow> (commit_nickname a)\<lparr>ap_editing := False\<rparr>
     | _ \<Rightarrow> a)"

definition key_contacts :: "ui_deps \<Rightarrow> key_event \<Rightarrow> app \<Rightarrow> refresh \<times> app" where
  "key_contacts d e a = (if ap_editing a then key_nickname_edit d e a
     else (FastPaint, case ke_key e of
       KeyUp \<Rightarrow> move_sel (-1) (int (length (ap_roster a))) a
     | KeyDown \<Rightarrow> move_sel 1 (int (length (ap_roster a))) a
     | KeyRight \<Rightarrow> toggle_pinned a
     | KeyBack \<Rightarrow> go SettingsScreen a
     | KeyEnter \<Rightarrow> (let i = sel_index a in if length (ap_roster a) \<le> i then a
         else a\<lparr>ap_editing := True, ap_edit_buf := ct_name (ap_roster a ! i)\<rparr>)
     | _ \<Rightarrow> a))"

subsection \<open>Faults and lists of lines\<close>

definition key_fault :: "key_event \<Rightarrow> app \<Rightarrow> refresh \<times> app" where
  "key_fault e a = (if ap_fault a = ChargeMe then (FastPaint, a)
     else if ke_key e = KeyBack \<or> ke_key e = KeyEnter
     then (FullPaint, go InboxScreen (a\<lparr>ap_fault := NoFault, ap_diagnostic := []\<rparr>))
     else (FastPaint, a))"

definition key_lines :: "key_event \<Rightarrow> app \<Rightarrow> refresh \<times> app" where
  "key_lines e a = (FastPaint, case ke_key e of
       KeyUp \<Rightarrow> move_sel (-1) (int (length (vw_lines (ap_view a)))) a
     | KeyDown \<Rightarrow> move_sel 1 (int (length (vw_lines (ap_view a)))) a
     | KeyBack \<Rightarrow> go SettingsScreen a
     | KeyEnter \<Rightarrow> go SettingsScreen a
     | _ \<Rightarrow> a)"

end
