(* ===== verification/Ui_View.thy ===== *)
theory Ui_View
  imports Ui_Keys
begin

text \<open>
  What a screen shows and how it is painted, \<^verbatim>\<open>components/ui/ui.cpp\<close>: the view of every screen resolved to text,
  the calls made of the painter for a view, and the refresh that brings them to the glass.
\<close>

subsection \<open>Lines of text\<close>

definition break_text :: "ui_deps \<Rightarrow> metrics \<Rightarrow> string \<Rightarrow> string list" where
  "break_text d m t = break_lines (ud_table d) t (metrics_chars_per_line m)"

definition log_line :: "ui_deps \<Rightarrow> app \<Rightarrow> kipu_entry \<Rightarrow> string" where
  "log_line d a e = (let T = ui_text d; b = ke_block e; sep = T str_list_separator;
     parts = format_text (Some (T str_log_battery_fmt)) [text_int (k_battery_pct b)];
     parts = (if k_charging b then parts @ sep @ T str_log_charging else parts);
     parts = parts @ sep @ T (signal_string_id (k_rssi b)) @ sep;
     parts = parts @ (if k_queue_depth b \<le> 0 then T str_log_nothing_waiting
       else if k_queue_depth b = 1 then T str_log_one_waiting
       else format_text (Some (T str_log_many_waiting_fmt)) [text_int (k_queue_depth b)]);
     when' = time_label (ke_at e) (ui_clock_valid a) (ud_text d)
     in if when' = [] then parts else format_text (Some (T str_log_line_fmt)) [when', parts])"

subsection \<open>The view of each screen\<close>

definition build_pin :: "ui_deps \<Rightarrow> metrics \<Rightarrow> app \<Rightarrow> view \<Rightarrow> view" where
  "build_pin d m a v = v\<lparr>vw_title := ui_text d str_app_name, vw_editing := True,
     vw_message := (if vw_message v = [] then break_text d m (ui_text d str_pin_prompt) else vw_message v),
     vw_lines := vw_lines v @ [concat (map (\<lambda>_. ui_text d str_pin_digit_mark) (ap_pin_entry a))]\<rparr>"

definition build_inbox :: "ui_deps \<Rightarrow> app \<Rightarrow> view \<Rightarrow> view" where
  "build_inbox d a v = (let v = v\<lparr>vw_title := ui_text d str_inbox_title\<rparr>
     in if ap_letters a = [] then v\<lparr>vw_lines := vw_lines v @ [ui_text d str_inbox_empty]\<rparr>
     else v\<lparr>vw_rows := vw_rows v @ map (\<lambda>l. \<lparr>rw_primary = contact_label d a (l_contact_id (sl_letter l)),
         rw_secondary = l_subject (sl_letter l),
         rw_meta = time_label (l_date (sl_letter l)) (ui_clock_valid a) (ud_text d),
         rw_unread = sl_unread l, rw_marked = False\<rparr>) (ap_letters a)\<rparr>)"

definition build_read :: "ui_deps \<Rightarrow> metrics \<Rightarrow> app \<Rightarrow> view \<Rightarrow> view" where
  "build_read d m a v = (let l = sl_letter (ap_open_letter a); n = int (length (ap_pages a));
     last_page = n \<le> ap_page a + 1
     in v\<lparr>vw_title := contact_label d a (l_contact_id l), vw_page := ap_page a, vw_page_count := n,
       vw_lines := (if 0 \<le> ap_page a \<and> ap_page a < n then ap_pages a ! nat (ap_page a) else vw_lines v) @
         (if last_page \<and> l_trimmed l then [ui_text d str_read_trimmed] else []) @
         (if last_page \<and> l_truncated l then break_text d m (ui_text d str_read_truncated) else [])\<rparr>)"

definition build_pick :: "ui_deps \<Rightarrow> app \<Rightarrow> view \<Rightarrow> view" where
  "build_pick d a v = (let v = v\<lparr>vw_title := ui_text d str_compose_pick_title\<rparr>
     in if ap_picker a = [] then v\<lparr>vw_lines := vw_lines v @ [ui_text d str_compose_pick_empty]\<rparr>
     else v\<lparr>vw_rows := vw_rows v @ map (\<lambda>c. (plain_row (ct_name c))\<lparr>rw_marked := ct_pinned c\<rparr>) (ap_picker a)\<rparr>)"

definition build_write :: "ui_deps \<Rightarrow> metrics \<Rightarrow> app \<Rightarrow> view \<Rightarrow> view" where
  "build_write d m a v = v\<lparr>vw_title := contact_label d a (ap_contact_id a), vw_editing := True,
     vw_graphemes_used := count_graphemes (ud_table d) (ap_body a), vw_graphemes_max := ap_compose_max a,
     vw_rows := vw_rows v @ [(plain_row (if ap_subject a = [] then ui_text d str_compose_subject_hint else ap_subject a))
       \<lparr>rw_marked := (ap_field a = 1)\<rparr>],
     vw_lines := break_text d m (ap_body a)\<rparr>"

definition build_outbox :: "ui_deps \<Rightarrow> app \<Rightarrow> view \<Rightarrow> view" where
  "build_outbox d a v = (let v = v\<lparr>vw_title := ui_text d str_outbox_title\<rparr>
     in if ap_queued a = [] then v\<lparr>vw_lines := vw_lines v @ [ui_text d str_outbox_empty]\<rparr>
     else let v = v\<lparr>vw_rows := vw_rows v @ map (\<lambda>q. \<lparr>rw_primary = contact_label d a (oe_contact_id q),
                rw_secondary = oe_subject q,
                rw_meta = (if oe_rejected q then ui_text d str_state_couldnt_send else ui_text d str_state_waiting),
                rw_unread = False, rw_marked = oe_rejected q\<rparr>) (ap_queued a)\<rparr>;
              rejected_selected = list_ex (\<lambda>i. int i = sel a \<and> oe_rejected (ap_queued a ! i)) [0..<length (ap_queued a)]
     in if rejected_selected \<and> ap_message a = []
        then v\<lparr>vw_message := break_text d (ui_metrics a) (ui_text d str_send_failed),
               vw_lines := vw_lines v @ [ui_text d str_send_failed_action]\<rparr>
        else v)"

definition build_settings :: "ui_deps \<Rightarrow> app \<Rightarrow> view \<Rightarrow> view" where
  "build_settings d a v = (let T = ui_text d;
     s = (case uw_settings (ap_world a) of None \<Rightarrow> default_settings | Some sg \<Rightarrow> sg_settings sg)
     in v\<lparr>vw_title := T str_settings_title, vw_rows := vw_rows v @
       [(plain_row (T str_settings_font_size))\<lparr>rw_secondary :=
          (if 1 \<le> se_font_step s then T str_settings_font_bigger else T str_settings_font_normal)\<rparr>,
        (plain_row (T str_settings_frontlight))\<lparr>rw_secondary :=
          (if se_frontlight_step s = 0 then T str_settings_light_off
           else format_text (Some (T str_settings_light_step_fmt)) [text_int (se_frontlight_step s)])\<rparr>,
        plain_row (T str_settings_contacts),
        plain_row (T str_settings_what_it_tells),
        plain_row (T str_settings_about)]\<rparr>)"

definition build_contacts :: "ui_deps \<Rightarrow> app \<Rightarrow> view \<Rightarrow> view" where
  "build_contacts d a v = (let v = v\<lparr>vw_title := ui_text d str_settings_contacts,
       vw_rows := vw_rows v @ map (\<lambda>c. (plain_row (ct_name c))
         \<lparr>rw_secondary := (if ct_pinned c then ui_text d str_settings_keep_at_top else []), rw_marked := ct_pinned c\<rparr>) (ap_roster a)\<rparr>
     in if ap_editing a
        then v\<lparr>vw_lines := vw_lines v @ [ui_text d str_settings_nickname, ap_edit_buf a], vw_editing := True\<rparr>
        else v)"

definition build_log :: "ui_deps \<Rightarrow> app \<Rightarrow> view \<Rightarrow> view" where
  "build_log d a v = (let v = v\<lparr>vw_title := ui_text d str_settings_what_it_tells\<rparr>;
     recent = (case uw_health_log (ap_world a) of None \<Rightarrow> [] | Some lg \<Rightarrow> log_recent k_log_capacity lg)
     in if recent = [] then v\<lparr>vw_lines := vw_lines v @ [ui_text d str_settings_log_empty]\<rparr>
        else v\<lparr>vw_lines := vw_lines v @ map (log_line d a) recent\<rparr>)"

definition build_about :: "ui_deps \<Rightarrow> app \<Rightarrow> view \<Rightarrow> view" where
  "build_about d a v = (let T = ui_text d; ab = or_else (uw_about (ap_world a)) no_about
     in v\<lparr>vw_title := T str_settings_about, vw_lines := vw_lines v @
       [format_text (Some (T str_about_version_fmt)) [ab_firmware_version ab],
        format_text (Some (T str_about_battery_fmt)) [text_int (ab_battery_pct ab)],
        format_text (Some (T str_about_signal_fmt)) [T (signal_string_id (ab_rssi ab))]]\<rparr>)"

definition fault_string_id :: "fault_kind \<Rightarrow> int" where
  "fault_string_id k = (case k of CantReachHome \<Rightarrow> str_fault_cant_reach_home | AskYourGuardians \<Rightarrow> str_fault_ask_guardians
     | RoadBusy \<Rightarrow> str_fault_road_busy | ChargeMe \<Rightarrow> str_fault_charge_me | NoFault \<Rightarrow> str_fault_ask_guardians)"

definition build_fault :: "ui_deps \<Rightarrow> metrics \<Rightarrow> app \<Rightarrow> view \<Rightarrow> view" where
  "build_fault d m a v = v\<lparr>vw_title := ui_text d str_app_name,
     vw_message := break_text d m (ui_text d (fault_string_id (ap_fault a))),
     vw_diagnostic := (if ap_diagnostic a = [] then vw_diagnostic v
       else format_text (Some (ui_text d str_fault_diagnostic_fmt)) [ap_diagnostic a])\<rparr>"

definition build_conflict :: "ui_deps \<Rightarrow> metrics \<Rightarrow> app \<Rightarrow> view \<Rightarrow> view" where
  "build_conflict d m a v = (let T = ui_text d; resume = (pe_kind (ap_pending a) = Resume)
     in v\<lparr>vw_title := T str_compose_write_title,
       vw_message := break_text d m (if resume then T str_draft_resume else T str_draft_conflict_prompt),
       vw_rows := vw_rows v @ [plain_row (T str_draft_keep_writing),
         plain_row (if resume then T str_draft_let_it_go else T str_draft_start_new)]\<rparr>)"

definition build_screen :: "ui_deps \<Rightarrow> metrics \<Rightarrow> app \<Rightarrow> view \<Rightarrow> view" where
  "build_screen d m a v = (case ap_screen a of
       CoverScreen \<Rightarrow> v
     | PinScreen \<Rightarrow> build_pin d m a v
     | InboxScreen \<Rightarrow> build_inbox d a v
     | ReadScreen \<Rightarrow> build_read d m a v
     | PickScreen \<Rightarrow> build_pick d a v
     | WriteScreen \<Rightarrow> build_write d m a v
     | OutboxScreen \<Rightarrow> build_outbox d a v
     | SettingsScreen \<Rightarrow> build_settings d a v
     | FaultScreen \<Rightarrow> build_fault d m a v
     | ConflictScreen \<Rightarrow> build_conflict d m a v
     | ContactsScreen \<Rightarrow> build_contacts d a v
     | LogScreen \<Rightarrow> build_log d a v
     | AboutScreen \<Rightarrow> build_about d a v)"

definition rebuild :: "ui_deps \<Rightarrow> app \<Rightarrow> app" where
  "rebuild d a = (let m = ui_metrics a;
     v = empty_view\<lparr>vw_screen := ap_screen a, vw_fault := ap_fault a, vw_editing := ap_editing a,
       vw_message := (if ap_message a = [] then [] else break_text d m (ap_message a))\<rparr>;
     v = build_screen d m a v;
     n_rows = int (length (vw_rows v));
     a = (if n_rows \<le> sel a then set_sel (if 0 < n_rows then n_rows - 1 else 0) a else a)
     in a\<lparr>ap_view := v\<lparr>vw_selected := sel a\<rparr>\<rparr>)"

subsection \<open>Painting\<close>

text \<open>Lines drawn one under the other until the row reaches the bound: the calls and the next row.\<close>

fun paint_lines :: "int \<Rightarrow> string list \<Rightarrow> int \<Rightarrow> paint_call list \<times> int" where
  "paint_lines bound [] r = ([], r)"
| "paint_lines bound (l # ls) r = (if bound \<le> r then ([], r)
     else let (calls, r') = paint_lines bound ls (r + 1) in (DrawText r 0 l # calls, r'))"

definition row_text :: "ui_deps \<Rightarrow> row \<Rightarrow> string" where
  "row_text d r = (let sep = ui_text d str_list_separator; out = rw_primary r;
     out = (if rw_secondary r = [] then out else out @ sep @ rw_secondary r)
     in if rw_meta r = [] then out else out @ sep @ rw_meta r)"

definition paint_row :: "ui_deps \<Rightarrow> int \<Rightarrow> bool \<Rightarrow> row \<Rightarrow> int \<Rightarrow> paint_call list" where
  "paint_row d cols selected item r =
     (if selected then [DrawGlyph r 0 GlyphSelected] else []) @
     (if rw_unread item then [DrawGlyph r 1 GlyphUnread] else []) @
     (if rw_marked item then [DrawGlyph r 1 GlyphMark] else []) @
     [DrawText r 2 (ellipsize (ud_table d) (row_text d item) (nat (max 0 (cols - 2))))]"

text \<open>The list window: the rows from index \<open>i\<close> on.\<close>

fun paint_rows :: "ui_deps \<Rightarrow> int \<Rightarrow> int \<Rightarrow> int \<Rightarrow> int \<Rightarrow> row list \<Rightarrow> int \<Rightarrow> paint_call list \<times> int" where
  "paint_rows d cols bound selected i [] r = ([], r)"
| "paint_rows d cols bound selected i (item # items) r = (if bound \<le> r then ([], r)
     else let (calls, r') = paint_rows d cols bound selected (i + 1) items (r + 1)
          in (paint_row d cols (i = selected) item r @ calls, r'))"

definition paint_footer :: "ui_deps \<Rightarrow> view \<Rightarrow> int \<Rightarrow> paint_call list" where
  "paint_footer d v r = (if r < 0 then []
     else if vw_diagnostic v \<noteq> [] then [DrawText r 0 (vw_diagnostic v)]
     else if vw_screen v = WriteScreen
     then [DrawText r 0 (format_text (Some (ui_text d str_compose_counter_fmt))
            [text_int (int (vw_graphemes_used v)), text_int (int (vw_graphemes_max v))])]
     else if vw_screen v = ReadScreen \<and> 0 < vw_page_count v
     then [DrawText r 0 (format_text (Some (ui_text d str_read_page_fmt)) [text_int (vw_page v + 1), text_int (vw_page_count v)])]
     else [])"

definition list_rows_from :: "view \<Rightarrow> int \<Rightarrow> int \<Rightarrow> int" where
  "list_rows_from v rows_avail r = (let list_rows = max 0 (rows_avail - r - 1)
     in if 0 < list_rows \<and> list_rows \<le> vw_selected v then vw_selected v - list_rows + 1 else 0)"

definition view_calls :: "ui_deps \<Rightarrow> metrics \<Rightarrow> view \<Rightarrow> paint_call list" where
  "view_calls d m v = (let cols = metrics_chars_per_line m; rows_avail = metrics_lines_per_page m;
     (title, r) = (if vw_title v \<noteq> [] \<and> 0 < rows_avail
       then ([DrawText 0 0 (ellipsize (ud_table d) (vw_title v) (nat cols))], 1) else ([], 0));
     (message, r) = paint_lines rows_avail (vw_message v) r;
     first = list_rows_from v rows_avail r;
     (rows, r) = paint_rows d cols (rows_avail - 1) (vw_selected v) first (drop (nat first) (vw_rows v)) r;
     (ls, r) = paint_lines (rows_avail - 1) (vw_lines v) r
     in Clear (me_panel_w_px m) (me_panel_h_px m) # title @ message @ rows @ ls @ paint_footer d v (rows_avail - 1))"

definition choose_refresh :: "refresh \<Rightarrow> int \<Rightarrow> refresh \<times> int" where
  "choose_refresh r partials = (let
     partials = (if r = PartialPaint then partials + 1 else partials);
     r = (if r = PartialPaint \<and> k_partials_before_full_refresh \<le> partials then FullPaint else r)
     in (r, if r = FullPaint then 0 else partials))"

definition present :: "ui_deps \<Rightarrow> refresh \<Rightarrow> app \<Rightarrow> app" where
  "present d r a = (let a = rebuild d a in case ud_painter d of None \<Rightarrow> a
     | Some p \<Rightarrow> if \<not> ud_panel d then a
       else let m = ui_metrics a; (r, partials) = choose_refresh r (ap_partials_since_full a);
                calls = view_calls d m (ap_view a); fb = fold (paint p) calls (ap_fb a);
                glass = (case r of
                    PartialPaint \<Rightarrow> PartialRefresh \<lparr>rc_x = 0, rc_y = 0, rc_w = me_panel_w_px m, rc_h = me_panel_h_px m\<rparr> fb
                  | FastPaint \<Rightarrow> FastRefresh fb
                  | FullPaint \<Rightarrow> FullRefresh fb)
       in a\<lparr>ap_partials_since_full := partials, ap_fb := fb,
            ap_world := (ap_world a)\<lparr>uw_calls := uw_calls (ap_world a) @ map Draw calls @ [Glass glass]\<rparr>\<rparr>)"

end
