(* ===== verification/Ui.thy ===== *)
theory Ui
  imports Ui_View
begin

text \<open>
  The operations of \<^verbatim>\<open>ui::App\<close>, \<^verbatim>\<open>components/ui/ui.cpp\<close>: starting a session, one key, one tick, a fault, the
  autosave of every wipe trigger, the cover state and the idle test.
\<close>

definition app_start :: "ui_deps \<Rightarrow> screen \<Rightarrow> app \<Rightarrow> app" where
  "app_start d initial a = (let
     a = a\<lparr>ap_last_key_ms := ui_now a\<rparr>;
     a = a\<lparr>ap_last_save_ms := ap_last_key_ms a\<rparr>
     in if pin_required a then present d FullPaint (go PinScreen a)
     else if initial = CoverScreen then present d FullPaint (go CoverScreen a)
     else let (offered, a) = offer_pending_draft a in present d FullPaint (if offered then a else go initial a))"

definition screen_key :: "ui_deps \<Rightarrow> key_event \<Rightarrow> app \<Rightarrow> refresh \<times> app" where
  "screen_key d e a = (case ap_screen a of
       CoverScreen \<Rightarrow> key_cover e a
     | PinScreen \<Rightarrow> key_pin d e a
     | InboxScreen \<Rightarrow> key_inbox d e a
     | ReadScreen \<Rightarrow> key_read e a
     | PickScreen \<Rightarrow> key_pick d e a
     | WriteScreen \<Rightarrow> key_write d e a
     | OutboxScreen \<Rightarrow> key_outbox d e a
     | SettingsScreen \<Rightarrow> key_settings d e a
     | FaultScreen \<Rightarrow> key_fault e a
     | ConflictScreen \<Rightarrow> key_conflict d e a
     | ContactsScreen \<Rightarrow> key_contacts d e a
     | LogScreen \<Rightarrow> key_lines e a
     | AboutScreen \<Rightarrow> key_lines e a)"

definition app_key :: "ui_deps \<Rightarrow> key_event \<Rightarrow> app \<Rightarrow> app" where
  "app_key d e a = (let
     a = a\<lparr>ap_last_key_ms := ui_now a\<rparr>;
     a = (if ke_key e \<noteq> KeyNone then a\<lparr>ap_message := []\<rparr> else a);
     (r, a) = screen_key d e a
     in if ap_deferred_paint a then rebuild d a else present d r a)"

definition app_tick :: "ui_deps \<Rightarrow> app \<Rightarrow> app" where
  "app_tick d a = (let now = ui_now a in
     if ap_screen a = PinScreen \<and> \<not> pin_required a
     then present d FullPaint (open_after_unlock (a\<lparr>ap_unlocked := True\<rparr>))
     else let a = (if ap_draft_open a \<and> k_draft_autosave_interval_ms \<le> now - ap_last_save_ms a then autosave_draft a else a)
     in if ap_deferred_paint a \<and> k_compose_idle_refresh_ms \<le> now - ap_last_edit_ms a
     then present d PartialPaint (a\<lparr>ap_deferred_paint := False\<rparr>)
     else if ap_screen a = PinScreen \<and> ap_backoff_until_ms a \<noteq> 0 \<and> ap_backoff_until_ms a \<le> now
     then present d FastPaint (a\<lparr>ap_backoff_until_ms := 0\<rparr>)
     else a)"

definition show_fault :: "ui_deps \<Rightarrow> fault_kind \<Rightarrow> string \<Rightarrow> app \<Rightarrow> app" where
  "show_fault d k diagnostic a = (let
     a = a\<lparr>ap_fault := k, ap_diagnostic := diagnostic\<rparr>;
     a = (if k = ChargeMe then a\<lparr>ap_charge_me := True\<rparr> else a)
     in present d FullPaint (go FaultScreen a))"

definition app_cover :: "app \<Rightarrow> cover_state" where
  "app_cover a = (let ab = or_else (uw_about (ap_world a)) no_about
     in \<lparr>cs_kind = (if ap_charge_me a then CoverChargeMe else CoverResting),
         cs_battery_pct = ab_battery_pct ab,
         cs_charging = ab_charging ab,
         cs_any_unread = (case uw_letters (ap_world a) of None \<Rightarrow> False | Some s \<Rightarrow> 0 < unread_count s)\<rparr>)"

definition idle_timed_out :: "app \<Rightarrow> bool" where
  "idle_timed_out a \<longleftrightarrow> k_inactivity_timeout_ms \<le> ui_now a - ap_last_key_ms a"

subsection \<open>Runs\<close>

text \<open>
  What can happen to an open session: a call of the interface, or the world behind the dependencies moving
  on (clocks, a background sync, settings), which leaves the screens' own state alone.
\<close>

datatype ui_event = EvKey key_event | EvTick | EvFault fault_kind string | EvAutosave | EvWorld ui_world

fun ui_step :: "ui_deps \<Rightarrow> ui_event \<Rightarrow> app \<Rightarrow> app" where
  "ui_step d (EvKey e) a = app_key d e a"
| "ui_step d EvTick a = app_tick d a"
| "ui_step d (EvFault k diagnostic) a = show_fault d k diagnostic a"
| "ui_step d EvAutosave a = autosave_draft a"
| "ui_step d (EvWorld w) a = a\<lparr>ap_world := w\<lparr>uw_calls := uw_calls (ap_world a)\<rparr>\<rparr>"

definition ui_run :: "ui_deps \<Rightarrow> ui_event list \<Rightarrow> app \<Rightarrow> app" where
  "ui_run d evs a = fold (ui_step d) evs a"

end
