(* ===== verification/Ui_Facts.thy ===== *)
theory Ui_Facts
  imports Ui
begin

text \<open>
  Frame facts of the screens: which fields of the state each helper leaves alone, and what a call of a store
  can change. The proofs of the screens' properties read an operation through these instead of its definition.
\<close>

subsection \<open>Calls of the stores change only the world\<close>


lemma call_letters_frame [simp]:
  "ap_view (snd (call_letters f r a)) = ap_view a"
  "ap_fb (snd (call_letters f r a)) = ap_fb a"
  "ap_screen (snd (call_letters f r a)) = ap_screen a"
  "ap_sel (snd (call_letters f r a)) = ap_sel a"
  "ap_message (snd (call_letters f r a)) = ap_message a"
  "ap_letters (snd (call_letters f r a)) = ap_letters a"
  "ap_queued (snd (call_letters f r a)) = ap_queued a"
  "ap_picker (snd (call_letters f r a)) = ap_picker a"
  "ap_roster (snd (call_letters f r a)) = ap_roster a"
  "ap_open_letter (snd (call_letters f r a)) = ap_open_letter a"
  "ap_pages (snd (call_letters f r a)) = ap_pages a"
  "ap_page (snd (call_letters f r a)) = ap_page a"
  "ap_contact_id (snd (call_letters f r a)) = ap_contact_id a"
  "ap_subject (snd (call_letters f r a)) = ap_subject a"
  "ap_body (snd (call_letters f r a)) = ap_body a"
  "ap_field (snd (call_letters f r a)) = ap_field a"
  "ap_draft_open (snd (call_letters f r a)) = ap_draft_open a"
  "ap_compose_max (snd (call_letters f r a)) = ap_compose_max a"
  "ap_pending (snd (call_letters f r a)) = ap_pending a"
  "ap_editing (snd (call_letters f r a)) = ap_editing a"
  "ap_edit_buf (snd (call_letters f r a)) = ap_edit_buf a"
  "ap_pin_entry (snd (call_letters f r a)) = ap_pin_entry a"
  "ap_wrong_attempts (snd (call_letters f r a)) = ap_wrong_attempts a"
  "ap_backoff_until_ms (snd (call_letters f r a)) = ap_backoff_until_ms a"
  "ap_unlocked (snd (call_letters f r a)) = ap_unlocked a"
  "ap_fault (snd (call_letters f r a)) = ap_fault a"
  "ap_diagnostic (snd (call_letters f r a)) = ap_diagnostic a"
  "ap_charge_me (snd (call_letters f r a)) = ap_charge_me a"
  "ap_last_key_ms (snd (call_letters f r a)) = ap_last_key_ms a"
  "ap_last_save_ms (snd (call_letters f r a)) = ap_last_save_ms a"
  "ap_last_edit_ms (snd (call_letters f r a)) = ap_last_edit_ms a"
  "ap_deferred_paint (snd (call_letters f r a)) = ap_deferred_paint a"
  "ap_partials_since_full (snd (call_letters f r a)) = ap_partials_since_full a"
  by (simp_all add: call_letters_def Let_def case_prod_unfold split: option.splits)

lemma call_letters_world [simp]:
  "uw_outbox (ap_world (snd (call_letters f r a))) = uw_outbox (ap_world a)"
  "uw_drafts (ap_world (snd (call_letters f r a))) = uw_drafts (ap_world a)"
  "uw_settings (ap_world (snd (call_letters f r a))) = uw_settings (ap_world a)"
  "uw_contacts (ap_world (snd (call_letters f r a))) = uw_contacts (ap_world a)"
  "uw_health_log (ap_world (snd (call_letters f r a))) = uw_health_log (ap_world a)"
  "uw_now_epoch (ap_world (snd (call_letters f r a))) = uw_now_epoch (ap_world a)"
  "uw_clock_valid (ap_world (snd (call_letters f r a))) = uw_clock_valid (ap_world a)"
  "uw_monotonic_ms (ap_world (snd (call_letters f r a))) = uw_monotonic_ms (ap_world a)"
  "uw_about (ap_world (snd (call_letters f r a))) = uw_about (ap_world a)"
  "uw_calls (ap_world (snd (call_letters f r a))) = uw_calls (ap_world a)"
  by (simp_all add: call_letters_def Let_def case_prod_unfold split: option.splits)

lemma call_outbox_frame [simp]:
  "ap_view (snd (call_outbox f r a)) = ap_view a"
  "ap_fb (snd (call_outbox f r a)) = ap_fb a"
  "ap_screen (snd (call_outbox f r a)) = ap_screen a"
  "ap_sel (snd (call_outbox f r a)) = ap_sel a"
  "ap_message (snd (call_outbox f r a)) = ap_message a"
  "ap_letters (snd (call_outbox f r a)) = ap_letters a"
  "ap_queued (snd (call_outbox f r a)) = ap_queued a"
  "ap_picker (snd (call_outbox f r a)) = ap_picker a"
  "ap_roster (snd (call_outbox f r a)) = ap_roster a"
  "ap_open_letter (snd (call_outbox f r a)) = ap_open_letter a"
  "ap_pages (snd (call_outbox f r a)) = ap_pages a"
  "ap_page (snd (call_outbox f r a)) = ap_page a"
  "ap_contact_id (snd (call_outbox f r a)) = ap_contact_id a"
  "ap_subject (snd (call_outbox f r a)) = ap_subject a"
  "ap_body (snd (call_outbox f r a)) = ap_body a"
  "ap_field (snd (call_outbox f r a)) = ap_field a"
  "ap_draft_open (snd (call_outbox f r a)) = ap_draft_open a"
  "ap_compose_max (snd (call_outbox f r a)) = ap_compose_max a"
  "ap_pending (snd (call_outbox f r a)) = ap_pending a"
  "ap_editing (snd (call_outbox f r a)) = ap_editing a"
  "ap_edit_buf (snd (call_outbox f r a)) = ap_edit_buf a"
  "ap_pin_entry (snd (call_outbox f r a)) = ap_pin_entry a"
  "ap_wrong_attempts (snd (call_outbox f r a)) = ap_wrong_attempts a"
  "ap_backoff_until_ms (snd (call_outbox f r a)) = ap_backoff_until_ms a"
  "ap_unlocked (snd (call_outbox f r a)) = ap_unlocked a"
  "ap_fault (snd (call_outbox f r a)) = ap_fault a"
  "ap_diagnostic (snd (call_outbox f r a)) = ap_diagnostic a"
  "ap_charge_me (snd (call_outbox f r a)) = ap_charge_me a"
  "ap_last_key_ms (snd (call_outbox f r a)) = ap_last_key_ms a"
  "ap_last_save_ms (snd (call_outbox f r a)) = ap_last_save_ms a"
  "ap_last_edit_ms (snd (call_outbox f r a)) = ap_last_edit_ms a"
  "ap_deferred_paint (snd (call_outbox f r a)) = ap_deferred_paint a"
  "ap_partials_since_full (snd (call_outbox f r a)) = ap_partials_since_full a"
  by (simp_all add: call_outbox_def Let_def case_prod_unfold split: option.splits)

lemma call_outbox_world [simp]:
  "uw_letters (ap_world (snd (call_outbox f r a))) = uw_letters (ap_world a)"
  "uw_drafts (ap_world (snd (call_outbox f r a))) = uw_drafts (ap_world a)"
  "uw_settings (ap_world (snd (call_outbox f r a))) = uw_settings (ap_world a)"
  "uw_contacts (ap_world (snd (call_outbox f r a))) = uw_contacts (ap_world a)"
  "uw_health_log (ap_world (snd (call_outbox f r a))) = uw_health_log (ap_world a)"
  "uw_now_epoch (ap_world (snd (call_outbox f r a))) = uw_now_epoch (ap_world a)"
  "uw_clock_valid (ap_world (snd (call_outbox f r a))) = uw_clock_valid (ap_world a)"
  "uw_monotonic_ms (ap_world (snd (call_outbox f r a))) = uw_monotonic_ms (ap_world a)"
  "uw_about (ap_world (snd (call_outbox f r a))) = uw_about (ap_world a)"
  "uw_calls (ap_world (snd (call_outbox f r a))) = uw_calls (ap_world a)"
  by (simp_all add: call_outbox_def Let_def case_prod_unfold split: option.splits)

lemma call_drafts_frame [simp]:
  "ap_view (snd (call_drafts f r a)) = ap_view a"
  "ap_fb (snd (call_drafts f r a)) = ap_fb a"
  "ap_screen (snd (call_drafts f r a)) = ap_screen a"
  "ap_sel (snd (call_drafts f r a)) = ap_sel a"
  "ap_message (snd (call_drafts f r a)) = ap_message a"
  "ap_letters (snd (call_drafts f r a)) = ap_letters a"
  "ap_queued (snd (call_drafts f r a)) = ap_queued a"
  "ap_picker (snd (call_drafts f r a)) = ap_picker a"
  "ap_roster (snd (call_drafts f r a)) = ap_roster a"
  "ap_open_letter (snd (call_drafts f r a)) = ap_open_letter a"
  "ap_pages (snd (call_drafts f r a)) = ap_pages a"
  "ap_page (snd (call_drafts f r a)) = ap_page a"
  "ap_contact_id (snd (call_drafts f r a)) = ap_contact_id a"
  "ap_subject (snd (call_drafts f r a)) = ap_subject a"
  "ap_body (snd (call_drafts f r a)) = ap_body a"
  "ap_field (snd (call_drafts f r a)) = ap_field a"
  "ap_draft_open (snd (call_drafts f r a)) = ap_draft_open a"
  "ap_compose_max (snd (call_drafts f r a)) = ap_compose_max a"
  "ap_pending (snd (call_drafts f r a)) = ap_pending a"
  "ap_editing (snd (call_drafts f r a)) = ap_editing a"
  "ap_edit_buf (snd (call_drafts f r a)) = ap_edit_buf a"
  "ap_pin_entry (snd (call_drafts f r a)) = ap_pin_entry a"
  "ap_wrong_attempts (snd (call_drafts f r a)) = ap_wrong_attempts a"
  "ap_backoff_until_ms (snd (call_drafts f r a)) = ap_backoff_until_ms a"
  "ap_unlocked (snd (call_drafts f r a)) = ap_unlocked a"
  "ap_fault (snd (call_drafts f r a)) = ap_fault a"
  "ap_diagnostic (snd (call_drafts f r a)) = ap_diagnostic a"
  "ap_charge_me (snd (call_drafts f r a)) = ap_charge_me a"
  "ap_last_key_ms (snd (call_drafts f r a)) = ap_last_key_ms a"
  "ap_last_save_ms (snd (call_drafts f r a)) = ap_last_save_ms a"
  "ap_last_edit_ms (snd (call_drafts f r a)) = ap_last_edit_ms a"
  "ap_deferred_paint (snd (call_drafts f r a)) = ap_deferred_paint a"
  "ap_partials_since_full (snd (call_drafts f r a)) = ap_partials_since_full a"
  by (simp_all add: call_drafts_def Let_def case_prod_unfold split: option.splits)

lemma call_drafts_world [simp]:
  "uw_letters (ap_world (snd (call_drafts f r a))) = uw_letters (ap_world a)"
  "uw_outbox (ap_world (snd (call_drafts f r a))) = uw_outbox (ap_world a)"
  "uw_settings (ap_world (snd (call_drafts f r a))) = uw_settings (ap_world a)"
  "uw_contacts (ap_world (snd (call_drafts f r a))) = uw_contacts (ap_world a)"
  "uw_health_log (ap_world (snd (call_drafts f r a))) = uw_health_log (ap_world a)"
  "uw_now_epoch (ap_world (snd (call_drafts f r a))) = uw_now_epoch (ap_world a)"
  "uw_clock_valid (ap_world (snd (call_drafts f r a))) = uw_clock_valid (ap_world a)"
  "uw_monotonic_ms (ap_world (snd (call_drafts f r a))) = uw_monotonic_ms (ap_world a)"
  "uw_about (ap_world (snd (call_drafts f r a))) = uw_about (ap_world a)"
  "uw_calls (ap_world (snd (call_drafts f r a))) = uw_calls (ap_world a)"
  by (simp_all add: call_drafts_def Let_def case_prod_unfold split: option.splits)

lemma call_settings_frame [simp]:
  "ap_view (snd (call_settings f r a)) = ap_view a"
  "ap_fb (snd (call_settings f r a)) = ap_fb a"
  "ap_screen (snd (call_settings f r a)) = ap_screen a"
  "ap_sel (snd (call_settings f r a)) = ap_sel a"
  "ap_message (snd (call_settings f r a)) = ap_message a"
  "ap_letters (snd (call_settings f r a)) = ap_letters a"
  "ap_queued (snd (call_settings f r a)) = ap_queued a"
  "ap_picker (snd (call_settings f r a)) = ap_picker a"
  "ap_roster (snd (call_settings f r a)) = ap_roster a"
  "ap_open_letter (snd (call_settings f r a)) = ap_open_letter a"
  "ap_pages (snd (call_settings f r a)) = ap_pages a"
  "ap_page (snd (call_settings f r a)) = ap_page a"
  "ap_contact_id (snd (call_settings f r a)) = ap_contact_id a"
  "ap_subject (snd (call_settings f r a)) = ap_subject a"
  "ap_body (snd (call_settings f r a)) = ap_body a"
  "ap_field (snd (call_settings f r a)) = ap_field a"
  "ap_draft_open (snd (call_settings f r a)) = ap_draft_open a"
  "ap_compose_max (snd (call_settings f r a)) = ap_compose_max a"
  "ap_pending (snd (call_settings f r a)) = ap_pending a"
  "ap_editing (snd (call_settings f r a)) = ap_editing a"
  "ap_edit_buf (snd (call_settings f r a)) = ap_edit_buf a"
  "ap_pin_entry (snd (call_settings f r a)) = ap_pin_entry a"
  "ap_wrong_attempts (snd (call_settings f r a)) = ap_wrong_attempts a"
  "ap_backoff_until_ms (snd (call_settings f r a)) = ap_backoff_until_ms a"
  "ap_unlocked (snd (call_settings f r a)) = ap_unlocked a"
  "ap_fault (snd (call_settings f r a)) = ap_fault a"
  "ap_diagnostic (snd (call_settings f r a)) = ap_diagnostic a"
  "ap_charge_me (snd (call_settings f r a)) = ap_charge_me a"
  "ap_last_key_ms (snd (call_settings f r a)) = ap_last_key_ms a"
  "ap_last_save_ms (snd (call_settings f r a)) = ap_last_save_ms a"
  "ap_last_edit_ms (snd (call_settings f r a)) = ap_last_edit_ms a"
  "ap_deferred_paint (snd (call_settings f r a)) = ap_deferred_paint a"
  "ap_partials_since_full (snd (call_settings f r a)) = ap_partials_since_full a"
  by (simp_all add: call_settings_def Let_def case_prod_unfold split: option.splits)

lemma call_settings_world [simp]:
  "uw_letters (ap_world (snd (call_settings f r a))) = uw_letters (ap_world a)"
  "uw_outbox (ap_world (snd (call_settings f r a))) = uw_outbox (ap_world a)"
  "uw_drafts (ap_world (snd (call_settings f r a))) = uw_drafts (ap_world a)"
  "uw_contacts (ap_world (snd (call_settings f r a))) = uw_contacts (ap_world a)"
  "uw_health_log (ap_world (snd (call_settings f r a))) = uw_health_log (ap_world a)"
  "uw_now_epoch (ap_world (snd (call_settings f r a))) = uw_now_epoch (ap_world a)"
  "uw_clock_valid (ap_world (snd (call_settings f r a))) = uw_clock_valid (ap_world a)"
  "uw_monotonic_ms (ap_world (snd (call_settings f r a))) = uw_monotonic_ms (ap_world a)"
  "uw_about (ap_world (snd (call_settings f r a))) = uw_about (ap_world a)"
  "uw_calls (ap_world (snd (call_settings f r a))) = uw_calls (ap_world a)"
  by (simp_all add: call_settings_def Let_def case_prod_unfold split: option.splits)

lemma call_contacts_frame [simp]:
  "ap_view (snd (call_contacts f r a)) = ap_view a"
  "ap_fb (snd (call_contacts f r a)) = ap_fb a"
  "ap_screen (snd (call_contacts f r a)) = ap_screen a"
  "ap_sel (snd (call_contacts f r a)) = ap_sel a"
  "ap_message (snd (call_contacts f r a)) = ap_message a"
  "ap_letters (snd (call_contacts f r a)) = ap_letters a"
  "ap_queued (snd (call_contacts f r a)) = ap_queued a"
  "ap_picker (snd (call_contacts f r a)) = ap_picker a"
  "ap_roster (snd (call_contacts f r a)) = ap_roster a"
  "ap_open_letter (snd (call_contacts f r a)) = ap_open_letter a"
  "ap_pages (snd (call_contacts f r a)) = ap_pages a"
  "ap_page (snd (call_contacts f r a)) = ap_page a"
  "ap_contact_id (snd (call_contacts f r a)) = ap_contact_id a"
  "ap_subject (snd (call_contacts f r a)) = ap_subject a"
  "ap_body (snd (call_contacts f r a)) = ap_body a"
  "ap_field (snd (call_contacts f r a)) = ap_field a"
  "ap_draft_open (snd (call_contacts f r a)) = ap_draft_open a"
  "ap_compose_max (snd (call_contacts f r a)) = ap_compose_max a"
  "ap_pending (snd (call_contacts f r a)) = ap_pending a"
  "ap_editing (snd (call_contacts f r a)) = ap_editing a"
  "ap_edit_buf (snd (call_contacts f r a)) = ap_edit_buf a"
  "ap_pin_entry (snd (call_contacts f r a)) = ap_pin_entry a"
  "ap_wrong_attempts (snd (call_contacts f r a)) = ap_wrong_attempts a"
  "ap_backoff_until_ms (snd (call_contacts f r a)) = ap_backoff_until_ms a"
  "ap_unlocked (snd (call_contacts f r a)) = ap_unlocked a"
  "ap_fault (snd (call_contacts f r a)) = ap_fault a"
  "ap_diagnostic (snd (call_contacts f r a)) = ap_diagnostic a"
  "ap_charge_me (snd (call_contacts f r a)) = ap_charge_me a"
  "ap_last_key_ms (snd (call_contacts f r a)) = ap_last_key_ms a"
  "ap_last_save_ms (snd (call_contacts f r a)) = ap_last_save_ms a"
  "ap_last_edit_ms (snd (call_contacts f r a)) = ap_last_edit_ms a"
  "ap_deferred_paint (snd (call_contacts f r a)) = ap_deferred_paint a"
  "ap_partials_since_full (snd (call_contacts f r a)) = ap_partials_since_full a"
  by (simp_all add: call_contacts_def Let_def case_prod_unfold split: option.splits)

lemma call_contacts_world [simp]:
  "uw_letters (ap_world (snd (call_contacts f r a))) = uw_letters (ap_world a)"
  "uw_outbox (ap_world (snd (call_contacts f r a))) = uw_outbox (ap_world a)"
  "uw_drafts (ap_world (snd (call_contacts f r a))) = uw_drafts (ap_world a)"
  "uw_settings (ap_world (snd (call_contacts f r a))) = uw_settings (ap_world a)"
  "uw_health_log (ap_world (snd (call_contacts f r a))) = uw_health_log (ap_world a)"
  "uw_now_epoch (ap_world (snd (call_contacts f r a))) = uw_now_epoch (ap_world a)"
  "uw_clock_valid (ap_world (snd (call_contacts f r a))) = uw_clock_valid (ap_world a)"
  "uw_monotonic_ms (ap_world (snd (call_contacts f r a))) = uw_monotonic_ms (ap_world a)"
  "uw_about (ap_world (snd (call_contacts f r a))) = uw_about (ap_world a)"
  "uw_calls (ap_world (snd (call_contacts f r a))) = uw_calls (ap_world a)"
  by (simp_all add: call_contacts_def Let_def case_prod_unfold split: option.splits)

subsection \<open>Moving between screens\<close>

lemma reload_letters_frame [simp]:
  "ap_view (reload_letters a) = ap_view a"
  "ap_fb (reload_letters a) = ap_fb a"
  "ap_screen (reload_letters a) = ap_screen a"
  "ap_sel (reload_letters a) = ap_sel a"
  "ap_message (reload_letters a) = ap_message a"
  "ap_queued (reload_letters a) = ap_queued a"
  "ap_picker (reload_letters a) = ap_picker a"
  "ap_roster (reload_letters a) = ap_roster a"
  "ap_open_letter (reload_letters a) = ap_open_letter a"
  "ap_pages (reload_letters a) = ap_pages a"
  "ap_page (reload_letters a) = ap_page a"
  "ap_contact_id (reload_letters a) = ap_contact_id a"
  "ap_subject (reload_letters a) = ap_subject a"
  "ap_body (reload_letters a) = ap_body a"
  "ap_field (reload_letters a) = ap_field a"
  "ap_draft_open (reload_letters a) = ap_draft_open a"
  "ap_compose_max (reload_letters a) = ap_compose_max a"
  "ap_pending (reload_letters a) = ap_pending a"
  "ap_editing (reload_letters a) = ap_editing a"
  "ap_edit_buf (reload_letters a) = ap_edit_buf a"
  "ap_pin_entry (reload_letters a) = ap_pin_entry a"
  "ap_wrong_attempts (reload_letters a) = ap_wrong_attempts a"
  "ap_backoff_until_ms (reload_letters a) = ap_backoff_until_ms a"
  "ap_unlocked (reload_letters a) = ap_unlocked a"
  "ap_fault (reload_letters a) = ap_fault a"
  "ap_diagnostic (reload_letters a) = ap_diagnostic a"
  "ap_charge_me (reload_letters a) = ap_charge_me a"
  "ap_last_key_ms (reload_letters a) = ap_last_key_ms a"
  "ap_last_save_ms (reload_letters a) = ap_last_save_ms a"
  "ap_last_edit_ms (reload_letters a) = ap_last_edit_ms a"
  "ap_deferred_paint (reload_letters a) = ap_deferred_paint a"
  "ap_partials_since_full (reload_letters a) = ap_partials_since_full a"
  by (simp_all add: reload_letters_def Let_def case_prod_unfold split: option.splits)

lemma reload_outbox_frame [simp]:
  "ap_view (reload_outbox a) = ap_view a"
  "ap_fb (reload_outbox a) = ap_fb a"
  "ap_screen (reload_outbox a) = ap_screen a"
  "ap_sel (reload_outbox a) = ap_sel a"
  "ap_message (reload_outbox a) = ap_message a"
  "ap_letters (reload_outbox a) = ap_letters a"
  "ap_picker (reload_outbox a) = ap_picker a"
  "ap_roster (reload_outbox a) = ap_roster a"
  "ap_open_letter (reload_outbox a) = ap_open_letter a"
  "ap_pages (reload_outbox a) = ap_pages a"
  "ap_page (reload_outbox a) = ap_page a"
  "ap_contact_id (reload_outbox a) = ap_contact_id a"
  "ap_subject (reload_outbox a) = ap_subject a"
  "ap_body (reload_outbox a) = ap_body a"
  "ap_field (reload_outbox a) = ap_field a"
  "ap_draft_open (reload_outbox a) = ap_draft_open a"
  "ap_compose_max (reload_outbox a) = ap_compose_max a"
  "ap_pending (reload_outbox a) = ap_pending a"
  "ap_editing (reload_outbox a) = ap_editing a"
  "ap_edit_buf (reload_outbox a) = ap_edit_buf a"
  "ap_pin_entry (reload_outbox a) = ap_pin_entry a"
  "ap_wrong_attempts (reload_outbox a) = ap_wrong_attempts a"
  "ap_backoff_until_ms (reload_outbox a) = ap_backoff_until_ms a"
  "ap_unlocked (reload_outbox a) = ap_unlocked a"
  "ap_fault (reload_outbox a) = ap_fault a"
  "ap_diagnostic (reload_outbox a) = ap_diagnostic a"
  "ap_charge_me (reload_outbox a) = ap_charge_me a"
  "ap_last_key_ms (reload_outbox a) = ap_last_key_ms a"
  "ap_last_save_ms (reload_outbox a) = ap_last_save_ms a"
  "ap_last_edit_ms (reload_outbox a) = ap_last_edit_ms a"
  "ap_deferred_paint (reload_outbox a) = ap_deferred_paint a"
  "ap_partials_since_full (reload_outbox a) = ap_partials_since_full a"
  by (simp_all add: reload_outbox_def Let_def case_prod_unfold split: option.splits)

lemma reload_contacts_frame [simp]:
  "ap_view (reload_contacts a) = ap_view a"
  "ap_fb (reload_contacts a) = ap_fb a"
  "ap_screen (reload_contacts a) = ap_screen a"
  "ap_sel (reload_contacts a) = ap_sel a"
  "ap_message (reload_contacts a) = ap_message a"
  "ap_letters (reload_contacts a) = ap_letters a"
  "ap_queued (reload_contacts a) = ap_queued a"
  "ap_open_letter (reload_contacts a) = ap_open_letter a"
  "ap_pages (reload_contacts a) = ap_pages a"
  "ap_page (reload_contacts a) = ap_page a"
  "ap_contact_id (reload_contacts a) = ap_contact_id a"
  "ap_subject (reload_contacts a) = ap_subject a"
  "ap_body (reload_contacts a) = ap_body a"
  "ap_field (reload_contacts a) = ap_field a"
  "ap_draft_open (reload_contacts a) = ap_draft_open a"
  "ap_compose_max (reload_contacts a) = ap_compose_max a"
  "ap_pending (reload_contacts a) = ap_pending a"
  "ap_editing (reload_contacts a) = ap_editing a"
  "ap_edit_buf (reload_contacts a) = ap_edit_buf a"
  "ap_pin_entry (reload_contacts a) = ap_pin_entry a"
  "ap_wrong_attempts (reload_contacts a) = ap_wrong_attempts a"
  "ap_backoff_until_ms (reload_contacts a) = ap_backoff_until_ms a"
  "ap_unlocked (reload_contacts a) = ap_unlocked a"
  "ap_fault (reload_contacts a) = ap_fault a"
  "ap_diagnostic (reload_contacts a) = ap_diagnostic a"
  "ap_charge_me (reload_contacts a) = ap_charge_me a"
  "ap_last_key_ms (reload_contacts a) = ap_last_key_ms a"
  "ap_last_save_ms (reload_contacts a) = ap_last_save_ms a"
  "ap_last_edit_ms (reload_contacts a) = ap_last_edit_ms a"
  "ap_deferred_paint (reload_contacts a) = ap_deferred_paint a"
  "ap_partials_since_full (reload_contacts a) = ap_partials_since_full a"
  by (simp_all add: reload_contacts_def Let_def case_prod_unfold split: option.splits)

lemma go_frame [simp]:
  "ap_view (go s a) = ap_view a"
  "ap_fb (go s a) = ap_fb a"
  "ap_message (go s a) = ap_message a"
  "ap_open_letter (go s a) = ap_open_letter a"
  "ap_pages (go s a) = ap_pages a"
  "ap_page (go s a) = ap_page a"
  "ap_contact_id (go s a) = ap_contact_id a"
  "ap_subject (go s a) = ap_subject a"
  "ap_body (go s a) = ap_body a"
  "ap_field (go s a) = ap_field a"
  "ap_draft_open (go s a) = ap_draft_open a"
  "ap_compose_max (go s a) = ap_compose_max a"
  "ap_pending (go s a) = ap_pending a"
  "ap_edit_buf (go s a) = ap_edit_buf a"
  "ap_pin_entry (go s a) = ap_pin_entry a"
  "ap_wrong_attempts (go s a) = ap_wrong_attempts a"
  "ap_backoff_until_ms (go s a) = ap_backoff_until_ms a"
  "ap_unlocked (go s a) = ap_unlocked a"
  "ap_fault (go s a) = ap_fault a"
  "ap_diagnostic (go s a) = ap_diagnostic a"
  "ap_charge_me (go s a) = ap_charge_me a"
  "ap_last_key_ms (go s a) = ap_last_key_ms a"
  "ap_last_save_ms (go s a) = ap_last_save_ms a"
  "ap_last_edit_ms (go s a) = ap_last_edit_ms a"
  "ap_deferred_paint (go s a) = ap_deferred_paint a"
  "ap_partials_since_full (go s a) = ap_partials_since_full a"
  by (simp_all add: go_def Let_def case_prod_unfold split: option.splits)

lemma go_screen [simp]: "ap_screen (go s a) = s" "ap_editing (go s a) = False"
  by (simp_all add: go_def Let_def)

lemma set_sel_frame [simp]:
  "ap_view (set_sel n a) = ap_view a"
  "ap_fb (set_sel n a) = ap_fb a"
  "ap_screen (set_sel n a) = ap_screen a"
  "ap_message (set_sel n a) = ap_message a"
  "ap_letters (set_sel n a) = ap_letters a"
  "ap_queued (set_sel n a) = ap_queued a"
  "ap_picker (set_sel n a) = ap_picker a"
  "ap_roster (set_sel n a) = ap_roster a"
  "ap_open_letter (set_sel n a) = ap_open_letter a"
  "ap_pages (set_sel n a) = ap_pages a"
  "ap_page (set_sel n a) = ap_page a"
  "ap_contact_id (set_sel n a) = ap_contact_id a"
  "ap_subject (set_sel n a) = ap_subject a"
  "ap_body (set_sel n a) = ap_body a"
  "ap_field (set_sel n a) = ap_field a"
  "ap_draft_open (set_sel n a) = ap_draft_open a"
  "ap_compose_max (set_sel n a) = ap_compose_max a"
  "ap_pending (set_sel n a) = ap_pending a"
  "ap_editing (set_sel n a) = ap_editing a"
  "ap_edit_buf (set_sel n a) = ap_edit_buf a"
  "ap_pin_entry (set_sel n a) = ap_pin_entry a"
  "ap_wrong_attempts (set_sel n a) = ap_wrong_attempts a"
  "ap_backoff_until_ms (set_sel n a) = ap_backoff_until_ms a"
  "ap_unlocked (set_sel n a) = ap_unlocked a"
  "ap_fault (set_sel n a) = ap_fault a"
  "ap_diagnostic (set_sel n a) = ap_diagnostic a"
  "ap_charge_me (set_sel n a) = ap_charge_me a"
  "ap_last_key_ms (set_sel n a) = ap_last_key_ms a"
  "ap_last_save_ms (set_sel n a) = ap_last_save_ms a"
  "ap_last_edit_ms (set_sel n a) = ap_last_edit_ms a"
  "ap_deferred_paint (set_sel n a) = ap_deferred_paint a"
  "ap_partials_since_full (set_sel n a) = ap_partials_since_full a"
  by (simp_all add: set_sel_def Let_def case_prod_unfold split: option.splits)

lemma move_sel_frame [simp]:
  "ap_view (move_sel delta n a) = ap_view a"
  "ap_fb (move_sel delta n a) = ap_fb a"
  "ap_screen (move_sel delta n a) = ap_screen a"
  "ap_message (move_sel delta n a) = ap_message a"
  "ap_letters (move_sel delta n a) = ap_letters a"
  "ap_queued (move_sel delta n a) = ap_queued a"
  "ap_picker (move_sel delta n a) = ap_picker a"
  "ap_roster (move_sel delta n a) = ap_roster a"
  "ap_open_letter (move_sel delta n a) = ap_open_letter a"
  "ap_pages (move_sel delta n a) = ap_pages a"
  "ap_page (move_sel delta n a) = ap_page a"
  "ap_contact_id (move_sel delta n a) = ap_contact_id a"
  "ap_subject (move_sel delta n a) = ap_subject a"
  "ap_body (move_sel delta n a) = ap_body a"
  "ap_field (move_sel delta n a) = ap_field a"
  "ap_draft_open (move_sel delta n a) = ap_draft_open a"
  "ap_compose_max (move_sel delta n a) = ap_compose_max a"
  "ap_pending (move_sel delta n a) = ap_pending a"
  "ap_editing (move_sel delta n a) = ap_editing a"
  "ap_edit_buf (move_sel delta n a) = ap_edit_buf a"
  "ap_pin_entry (move_sel delta n a) = ap_pin_entry a"
  "ap_wrong_attempts (move_sel delta n a) = ap_wrong_attempts a"
  "ap_backoff_until_ms (move_sel delta n a) = ap_backoff_until_ms a"
  "ap_unlocked (move_sel delta n a) = ap_unlocked a"
  "ap_fault (move_sel delta n a) = ap_fault a"
  "ap_diagnostic (move_sel delta n a) = ap_diagnostic a"
  "ap_charge_me (move_sel delta n a) = ap_charge_me a"
  "ap_last_key_ms (move_sel delta n a) = ap_last_key_ms a"
  "ap_last_save_ms (move_sel delta n a) = ap_last_save_ms a"
  "ap_last_edit_ms (move_sel delta n a) = ap_last_edit_ms a"
  "ap_deferred_paint (move_sel delta n a) = ap_deferred_paint a"
  "ap_partials_since_full (move_sel delta n a) = ap_partials_since_full a"
  by (simp_all add: move_sel_def Let_def case_prod_unfold split: option.splits)

lemma reload_letters_world [simp]:
  "uw_outbox (ap_world (reload_letters a)) = uw_outbox (ap_world a)"
  "uw_drafts (ap_world (reload_letters a)) = uw_drafts (ap_world a)"
  "uw_settings (ap_world (reload_letters a)) = uw_settings (ap_world a)"
  "uw_contacts (ap_world (reload_letters a)) = uw_contacts (ap_world a)"
  "uw_health_log (ap_world (reload_letters a)) = uw_health_log (ap_world a)"
  "uw_now_epoch (ap_world (reload_letters a)) = uw_now_epoch (ap_world a)"
  "uw_clock_valid (ap_world (reload_letters a)) = uw_clock_valid (ap_world a)"
  "uw_monotonic_ms (ap_world (reload_letters a)) = uw_monotonic_ms (ap_world a)"
  "uw_about (ap_world (reload_letters a)) = uw_about (ap_world a)"
  "uw_calls (ap_world (reload_letters a)) = uw_calls (ap_world a)"
  by (simp_all add: reload_letters_def Let_def case_prod_unfold)

lemma reload_world [simp]:
  "ap_world (reload_outbox a) = ap_world a" "ap_world (reload_contacts a) = ap_world a"
  "ap_world (set_sel n a) = ap_world a" "ap_world (move_sel delta n a) = ap_world a"
  by (simp_all add: reload_outbox_def reload_contacts_def set_sel_def move_sel_def Let_def split: option.splits)

lemma go_world [simp]:
  "uw_outbox (ap_world (go s a)) = uw_outbox (ap_world a)"
  "uw_drafts (ap_world (go s a)) = uw_drafts (ap_world a)"
  "uw_settings (ap_world (go s a)) = uw_settings (ap_world a)"
  "uw_contacts (ap_world (go s a)) = uw_contacts (ap_world a)"
  "uw_health_log (ap_world (go s a)) = uw_health_log (ap_world a)"
  "uw_now_epoch (ap_world (go s a)) = uw_now_epoch (ap_world a)"
  "uw_clock_valid (ap_world (go s a)) = uw_clock_valid (ap_world a)"
  "uw_monotonic_ms (ap_world (go s a)) = uw_monotonic_ms (ap_world a)"
  "uw_about (ap_world (go s a)) = uw_about (ap_world a)"
  "uw_calls (ap_world (go s a)) = uw_calls (ap_world a)"
  by (simp_all add: go_def Let_def)


subsection \<open>Showing a screen\<close>

lemma rebuild_frame [simp]:
  "ap_fb (rebuild d a) = ap_fb a"
  "ap_screen (rebuild d a) = ap_screen a"
  "ap_message (rebuild d a) = ap_message a"
  "ap_letters (rebuild d a) = ap_letters a"
  "ap_queued (rebuild d a) = ap_queued a"
  "ap_picker (rebuild d a) = ap_picker a"
  "ap_roster (rebuild d a) = ap_roster a"
  "ap_open_letter (rebuild d a) = ap_open_letter a"
  "ap_pages (rebuild d a) = ap_pages a"
  "ap_page (rebuild d a) = ap_page a"
  "ap_contact_id (rebuild d a) = ap_contact_id a"
  "ap_subject (rebuild d a) = ap_subject a"
  "ap_body (rebuild d a) = ap_body a"
  "ap_field (rebuild d a) = ap_field a"
  "ap_draft_open (rebuild d a) = ap_draft_open a"
  "ap_compose_max (rebuild d a) = ap_compose_max a"
  "ap_pending (rebuild d a) = ap_pending a"
  "ap_editing (rebuild d a) = ap_editing a"
  "ap_edit_buf (rebuild d a) = ap_edit_buf a"
  "ap_pin_entry (rebuild d a) = ap_pin_entry a"
  "ap_wrong_attempts (rebuild d a) = ap_wrong_attempts a"
  "ap_backoff_until_ms (rebuild d a) = ap_backoff_until_ms a"
  "ap_unlocked (rebuild d a) = ap_unlocked a"
  "ap_fault (rebuild d a) = ap_fault a"
  "ap_diagnostic (rebuild d a) = ap_diagnostic a"
  "ap_charge_me (rebuild d a) = ap_charge_me a"
  "ap_last_key_ms (rebuild d a) = ap_last_key_ms a"
  "ap_last_save_ms (rebuild d a) = ap_last_save_ms a"
  "ap_last_edit_ms (rebuild d a) = ap_last_edit_ms a"
  "ap_deferred_paint (rebuild d a) = ap_deferred_paint a"
  "ap_partials_since_full (rebuild d a) = ap_partials_since_full a"
  "ap_world (rebuild d a) = ap_world a"
  by (simp_all add: rebuild_def Let_def set_sel_def)

lemma present_frame [simp]:
  "ap_screen (present d r a) = ap_screen a"
  "ap_message (present d r a) = ap_message a"
  "ap_letters (present d r a) = ap_letters a"
  "ap_queued (present d r a) = ap_queued a"
  "ap_picker (present d r a) = ap_picker a"
  "ap_roster (present d r a) = ap_roster a"
  "ap_open_letter (present d r a) = ap_open_letter a"
  "ap_pages (present d r a) = ap_pages a"
  "ap_page (present d r a) = ap_page a"
  "ap_contact_id (present d r a) = ap_contact_id a"
  "ap_subject (present d r a) = ap_subject a"
  "ap_body (present d r a) = ap_body a"
  "ap_field (present d r a) = ap_field a"
  "ap_draft_open (present d r a) = ap_draft_open a"
  "ap_compose_max (present d r a) = ap_compose_max a"
  "ap_pending (present d r a) = ap_pending a"
  "ap_editing (present d r a) = ap_editing a"
  "ap_edit_buf (present d r a) = ap_edit_buf a"
  "ap_pin_entry (present d r a) = ap_pin_entry a"
  "ap_wrong_attempts (present d r a) = ap_wrong_attempts a"
  "ap_backoff_until_ms (present d r a) = ap_backoff_until_ms a"
  "ap_unlocked (present d r a) = ap_unlocked a"
  "ap_fault (present d r a) = ap_fault a"
  "ap_diagnostic (present d r a) = ap_diagnostic a"
  "ap_charge_me (present d r a) = ap_charge_me a"
  "ap_last_key_ms (present d r a) = ap_last_key_ms a"
  "ap_last_save_ms (present d r a) = ap_last_save_ms a"
  "ap_last_edit_ms (present d r a) = ap_last_edit_ms a"
  "ap_deferred_paint (present d r a) = ap_deferred_paint a"
  by (simp_all add: present_def Let_def case_prod_unfold split: option.splits)

lemma present_view [simp]:
  "ap_view (present d r a) = ap_view (rebuild d a)" "ap_sel (present d r a) = ap_sel (rebuild d a)"
  by (simp_all add: present_def Let_def case_prod_unfold split: option.splits)

lemma present_world [simp]:
  "uw_letters (ap_world (present d r a)) = uw_letters (ap_world a)"
  "uw_outbox (ap_world (present d r a)) = uw_outbox (ap_world a)"
  "uw_drafts (ap_world (present d r a)) = uw_drafts (ap_world a)"
  "uw_settings (ap_world (present d r a)) = uw_settings (ap_world a)"
  "uw_contacts (ap_world (present d r a)) = uw_contacts (ap_world a)"
  "uw_health_log (ap_world (present d r a)) = uw_health_log (ap_world a)"
  "uw_now_epoch (ap_world (present d r a)) = uw_now_epoch (ap_world a)"
  "uw_clock_valid (ap_world (present d r a)) = uw_clock_valid (ap_world a)"
  "uw_monotonic_ms (ap_world (present d r a)) = uw_monotonic_ms (ap_world a)"
  "uw_about (ap_world (present d r a)) = uw_about (ap_world a)"
  "uw_io (ap_world (present d r a)) = uw_io (ap_world a)"
  by (simp_all add: present_def Let_def case_prod_unfold split: option.splits)

text \<open>What a key does first, and how it ends.\<close>

definition touched :: "key_event \<Rightarrow> app \<Rightarrow> app" where
  "touched e a = (let a = a\<lparr>ap_last_key_ms := ui_now a\<rparr> in if ke_key e \<noteq> KeyNone then a\<lparr>ap_message := []\<rparr> else a)"

definition shown :: "ui_deps \<Rightarrow> refresh \<times> app \<Rightarrow> app" where
  "shown d p = (if ap_deferred_paint (snd p) then rebuild d (snd p) else present d (fst p) (snd p))"

lemma app_key_shown: "app_key d e a = shown d (screen_key d e (touched e a))"
  by (simp add: app_key_def shown_def touched_def Let_def case_prod_unfold)

lemma shown_frame [simp]:
  "ap_screen (shown d p) = ap_screen (snd p)"
  "ap_message (shown d p) = ap_message (snd p)"
  "ap_letters (shown d p) = ap_letters (snd p)"
  "ap_queued (shown d p) = ap_queued (snd p)"
  "ap_picker (shown d p) = ap_picker (snd p)"
  "ap_roster (shown d p) = ap_roster (snd p)"
  "ap_open_letter (shown d p) = ap_open_letter (snd p)"
  "ap_pages (shown d p) = ap_pages (snd p)"
  "ap_page (shown d p) = ap_page (snd p)"
  "ap_contact_id (shown d p) = ap_contact_id (snd p)"
  "ap_subject (shown d p) = ap_subject (snd p)"
  "ap_body (shown d p) = ap_body (snd p)"
  "ap_field (shown d p) = ap_field (snd p)"
  "ap_draft_open (shown d p) = ap_draft_open (snd p)"
  "ap_compose_max (shown d p) = ap_compose_max (snd p)"
  "ap_pending (shown d p) = ap_pending (snd p)"
  "ap_editing (shown d p) = ap_editing (snd p)"
  "ap_edit_buf (shown d p) = ap_edit_buf (snd p)"
  "ap_pin_entry (shown d p) = ap_pin_entry (snd p)"
  "ap_wrong_attempts (shown d p) = ap_wrong_attempts (snd p)"
  "ap_backoff_until_ms (shown d p) = ap_backoff_until_ms (snd p)"
  "ap_unlocked (shown d p) = ap_unlocked (snd p)"
  "ap_fault (shown d p) = ap_fault (snd p)"
  "ap_diagnostic (shown d p) = ap_diagnostic (snd p)"
  "ap_charge_me (shown d p) = ap_charge_me (snd p)"
  "ap_last_key_ms (shown d p) = ap_last_key_ms (snd p)"
  "ap_last_save_ms (shown d p) = ap_last_save_ms (snd p)"
  "ap_last_edit_ms (shown d p) = ap_last_edit_ms (snd p)"
  "ap_deferred_paint (shown d p) = ap_deferred_paint (snd p)"
  by (simp_all add: shown_def)

lemma shown_view [simp]:
  "ap_view (shown d p) = ap_view (rebuild d (snd p))" "ap_sel (shown d p) = ap_sel (rebuild d (snd p))"
  by (simp_all add: shown_def)

lemma shown_world [simp]:
  "uw_letters (ap_world (shown d p)) = uw_letters (ap_world (snd p))"
  "uw_outbox (ap_world (shown d p)) = uw_outbox (ap_world (snd p))"
  "uw_drafts (ap_world (shown d p)) = uw_drafts (ap_world (snd p))"
  "uw_settings (ap_world (shown d p)) = uw_settings (ap_world (snd p))"
  "uw_contacts (ap_world (shown d p)) = uw_contacts (ap_world (snd p))"
  "uw_health_log (ap_world (shown d p)) = uw_health_log (ap_world (snd p))"
  "uw_now_epoch (ap_world (shown d p)) = uw_now_epoch (ap_world (snd p))"
  "uw_clock_valid (ap_world (shown d p)) = uw_clock_valid (ap_world (snd p))"
  "uw_monotonic_ms (ap_world (shown d p)) = uw_monotonic_ms (ap_world (snd p))"
  "uw_about (ap_world (shown d p)) = uw_about (ap_world (snd p))"
  "uw_io (ap_world (shown d p)) = uw_io (ap_world (snd p))"
  by (simp_all add: shown_def)

lemma touched_frame [simp]:
  "ap_view (touched e a) = ap_view a"
  "ap_fb (touched e a) = ap_fb a"
  "ap_screen (touched e a) = ap_screen a"
  "ap_sel (touched e a) = ap_sel a"
  "ap_letters (touched e a) = ap_letters a"
  "ap_queued (touched e a) = ap_queued a"
  "ap_picker (touched e a) = ap_picker a"
  "ap_roster (touched e a) = ap_roster a"
  "ap_open_letter (touched e a) = ap_open_letter a"
  "ap_pages (touched e a) = ap_pages a"
  "ap_page (touched e a) = ap_page a"
  "ap_contact_id (touched e a) = ap_contact_id a"
  "ap_subject (touched e a) = ap_subject a"
  "ap_body (touched e a) = ap_body a"
  "ap_field (touched e a) = ap_field a"
  "ap_draft_open (touched e a) = ap_draft_open a"
  "ap_compose_max (touched e a) = ap_compose_max a"
  "ap_pending (touched e a) = ap_pending a"
  "ap_editing (touched e a) = ap_editing a"
  "ap_edit_buf (touched e a) = ap_edit_buf a"
  "ap_pin_entry (touched e a) = ap_pin_entry a"
  "ap_wrong_attempts (touched e a) = ap_wrong_attempts a"
  "ap_backoff_until_ms (touched e a) = ap_backoff_until_ms a"
  "ap_unlocked (touched e a) = ap_unlocked a"
  "ap_fault (touched e a) = ap_fault a"
  "ap_diagnostic (touched e a) = ap_diagnostic a"
  "ap_charge_me (touched e a) = ap_charge_me a"
  "ap_last_save_ms (touched e a) = ap_last_save_ms a"
  "ap_last_edit_ms (touched e a) = ap_last_edit_ms a"
  "ap_deferred_paint (touched e a) = ap_deferred_paint a"
  "ap_partials_since_full (touched e a) = ap_partials_since_full a"
  "ap_world (touched e a) = ap_world a"
  by (simp_all add: touched_def Let_def)

lemma ui_now_cong: "uw_monotonic_ms (ap_world a) = uw_monotonic_ms (ap_world b) \<Longrightarrow> ui_now a = ui_now b"
  by (simp add: ui_now_def)

lemma pin_required_cong:
  "ap_unlocked a = ap_unlocked b \<Longrightarrow> uw_settings (ap_world a) = uw_settings (ap_world b) \<Longrightarrow> pin_required a = pin_required b"
  by (simp add: pin_required_def)

subsection \<open>Saving and offering the draft\<close>

lemma autosave_frame [simp]:
  "ap_view (autosave_draft a) = ap_view a"
  "ap_fb (autosave_draft a) = ap_fb a"
  "ap_screen (autosave_draft a) = ap_screen a"
  "ap_sel (autosave_draft a) = ap_sel a"
  "ap_message (autosave_draft a) = ap_message a"
  "ap_letters (autosave_draft a) = ap_letters a"
  "ap_queued (autosave_draft a) = ap_queued a"
  "ap_picker (autosave_draft a) = ap_picker a"
  "ap_roster (autosave_draft a) = ap_roster a"
  "ap_open_letter (autosave_draft a) = ap_open_letter a"
  "ap_pages (autosave_draft a) = ap_pages a"
  "ap_page (autosave_draft a) = ap_page a"
  "ap_contact_id (autosave_draft a) = ap_contact_id a"
  "ap_subject (autosave_draft a) = ap_subject a"
  "ap_body (autosave_draft a) = ap_body a"
  "ap_field (autosave_draft a) = ap_field a"
  "ap_draft_open (autosave_draft a) = ap_draft_open a"
  "ap_compose_max (autosave_draft a) = ap_compose_max a"
  "ap_pending (autosave_draft a) = ap_pending a"
  "ap_editing (autosave_draft a) = ap_editing a"
  "ap_edit_buf (autosave_draft a) = ap_edit_buf a"
  "ap_pin_entry (autosave_draft a) = ap_pin_entry a"
  "ap_wrong_attempts (autosave_draft a) = ap_wrong_attempts a"
  "ap_backoff_until_ms (autosave_draft a) = ap_backoff_until_ms a"
  "ap_unlocked (autosave_draft a) = ap_unlocked a"
  "ap_fault (autosave_draft a) = ap_fault a"
  "ap_diagnostic (autosave_draft a) = ap_diagnostic a"
  "ap_charge_me (autosave_draft a) = ap_charge_me a"
  "ap_last_key_ms (autosave_draft a) = ap_last_key_ms a"
  "ap_last_edit_ms (autosave_draft a) = ap_last_edit_ms a"
  "ap_deferred_paint (autosave_draft a) = ap_deferred_paint a"
  "ap_partials_since_full (autosave_draft a) = ap_partials_since_full a"
  "uw_letters (ap_world (autosave_draft a)) = uw_letters (ap_world a)"
  "uw_outbox (ap_world (autosave_draft a)) = uw_outbox (ap_world a)"
  "uw_settings (ap_world (autosave_draft a)) = uw_settings (ap_world a)"
  "uw_contacts (ap_world (autosave_draft a)) = uw_contacts (ap_world a)"
  "uw_health_log (ap_world (autosave_draft a)) = uw_health_log (ap_world a)"
  "uw_now_epoch (ap_world (autosave_draft a)) = uw_now_epoch (ap_world a)"
  "uw_clock_valid (ap_world (autosave_draft a)) = uw_clock_valid (ap_world a)"
  "uw_monotonic_ms (ap_world (autosave_draft a)) = uw_monotonic_ms (ap_world a)"
  "uw_about (ap_world (autosave_draft a)) = uw_about (ap_world a)"
  "uw_calls (ap_world (autosave_draft a)) = uw_calls (ap_world a)"
  by (simp_all add: autosave_draft_def Let_def case_prod_unfold)

lemma offer_frame [simp]:
  "ap_view (snd (offer_pending_draft a)) = ap_view a"
  "ap_fb (snd (offer_pending_draft a)) = ap_fb a"
  "ap_message (snd (offer_pending_draft a)) = ap_message a"
  "ap_open_letter (snd (offer_pending_draft a)) = ap_open_letter a"
  "ap_pages (snd (offer_pending_draft a)) = ap_pages a"
  "ap_page (snd (offer_pending_draft a)) = ap_page a"
  "ap_contact_id (snd (offer_pending_draft a)) = ap_contact_id a"
  "ap_subject (snd (offer_pending_draft a)) = ap_subject a"
  "ap_body (snd (offer_pending_draft a)) = ap_body a"
  "ap_field (snd (offer_pending_draft a)) = ap_field a"
  "ap_draft_open (snd (offer_pending_draft a)) = ap_draft_open a"
  "ap_compose_max (snd (offer_pending_draft a)) = ap_compose_max a"
  "ap_edit_buf (snd (offer_pending_draft a)) = ap_edit_buf a"
  "ap_pin_entry (snd (offer_pending_draft a)) = ap_pin_entry a"
  "ap_wrong_attempts (snd (offer_pending_draft a)) = ap_wrong_attempts a"
  "ap_backoff_until_ms (snd (offer_pending_draft a)) = ap_backoff_until_ms a"
  "ap_unlocked (snd (offer_pending_draft a)) = ap_unlocked a"
  "ap_fault (snd (offer_pending_draft a)) = ap_fault a"
  "ap_diagnostic (snd (offer_pending_draft a)) = ap_diagnostic a"
  "ap_charge_me (snd (offer_pending_draft a)) = ap_charge_me a"
  "ap_last_key_ms (snd (offer_pending_draft a)) = ap_last_key_ms a"
  "ap_last_save_ms (snd (offer_pending_draft a)) = ap_last_save_ms a"
  "ap_last_edit_ms (snd (offer_pending_draft a)) = ap_last_edit_ms a"
  "ap_deferred_paint (snd (offer_pending_draft a)) = ap_deferred_paint a"
  "ap_partials_since_full (snd (offer_pending_draft a)) = ap_partials_since_full a"
  "uw_outbox (ap_world (snd (offer_pending_draft a))) = uw_outbox (ap_world a)"
  "uw_drafts (ap_world (snd (offer_pending_draft a))) = uw_drafts (ap_world a)"
  "uw_settings (ap_world (snd (offer_pending_draft a))) = uw_settings (ap_world a)"
  "uw_contacts (ap_world (snd (offer_pending_draft a))) = uw_contacts (ap_world a)"
  "uw_health_log (ap_world (snd (offer_pending_draft a))) = uw_health_log (ap_world a)"
  "uw_now_epoch (ap_world (snd (offer_pending_draft a))) = uw_now_epoch (ap_world a)"
  "uw_clock_valid (ap_world (snd (offer_pending_draft a))) = uw_clock_valid (ap_world a)"
  "uw_monotonic_ms (ap_world (snd (offer_pending_draft a))) = uw_monotonic_ms (ap_world a)"
  "uw_about (ap_world (snd (offer_pending_draft a))) = uw_about (ap_world a)"
  "uw_calls (ap_world (snd (offer_pending_draft a))) = uw_calls (ap_world a)"
  by (simp_all add: offer_pending_draft_def split: option.splits)

lemma unlock_frame [simp]:
  "ap_view (open_after_unlock a) = ap_view a"
  "ap_fb (open_after_unlock a) = ap_fb a"
  "ap_message (open_after_unlock a) = ap_message a"
  "ap_open_letter (open_after_unlock a) = ap_open_letter a"
  "ap_pages (open_after_unlock a) = ap_pages a"
  "ap_page (open_after_unlock a) = ap_page a"
  "ap_contact_id (open_after_unlock a) = ap_contact_id a"
  "ap_subject (open_after_unlock a) = ap_subject a"
  "ap_body (open_after_unlock a) = ap_body a"
  "ap_field (open_after_unlock a) = ap_field a"
  "ap_draft_open (open_after_unlock a) = ap_draft_open a"
  "ap_compose_max (open_after_unlock a) = ap_compose_max a"
  "ap_edit_buf (open_after_unlock a) = ap_edit_buf a"
  "ap_pin_entry (open_after_unlock a) = ap_pin_entry a"
  "ap_wrong_attempts (open_after_unlock a) = ap_wrong_attempts a"
  "ap_backoff_until_ms (open_after_unlock a) = ap_backoff_until_ms a"
  "ap_unlocked (open_after_unlock a) = ap_unlocked a"
  "ap_fault (open_after_unlock a) = ap_fault a"
  "ap_diagnostic (open_after_unlock a) = ap_diagnostic a"
  "ap_charge_me (open_after_unlock a) = ap_charge_me a"
  "ap_last_key_ms (open_after_unlock a) = ap_last_key_ms a"
  "ap_last_save_ms (open_after_unlock a) = ap_last_save_ms a"
  "ap_last_edit_ms (open_after_unlock a) = ap_last_edit_ms a"
  "ap_deferred_paint (open_after_unlock a) = ap_deferred_paint a"
  "ap_partials_since_full (open_after_unlock a) = ap_partials_since_full a"
  "uw_outbox (ap_world (open_after_unlock a)) = uw_outbox (ap_world a)"
  "uw_drafts (ap_world (open_after_unlock a)) = uw_drafts (ap_world a)"
  "uw_settings (ap_world (open_after_unlock a)) = uw_settings (ap_world a)"
  "uw_contacts (ap_world (open_after_unlock a)) = uw_contacts (ap_world a)"
  "uw_health_log (ap_world (open_after_unlock a)) = uw_health_log (ap_world a)"
  "uw_now_epoch (ap_world (open_after_unlock a)) = uw_now_epoch (ap_world a)"
  "uw_clock_valid (ap_world (open_after_unlock a)) = uw_clock_valid (ap_world a)"
  "uw_monotonic_ms (ap_world (open_after_unlock a)) = uw_monotonic_ms (ap_world a)"
  "uw_about (ap_world (open_after_unlock a)) = uw_about (ap_world a)"
  "uw_calls (ap_world (open_after_unlock a)) = uw_calls (ap_world a)"
  by (simp_all add: open_after_unlock_def Let_def case_prod_unfold)

lemma unlock_screen: "ap_screen (open_after_unlock a) = ConflictScreen \<or> ap_screen (open_after_unlock a) = InboxScreen"
  by (auto simp: open_after_unlock_def Let_def case_prod_unfold offer_pending_draft_def split: option.splits)


text \<open>
  The overlay that toggling the pin stores is rebuilt from the merged contact, which has only the nickname and
  the pin of it: an order or portrait the child had set is gone afterwards.
\<close>

lemma pinning_forgets_order:
  assumes "uw_contacts (ap_world a) = Some s" "sel_index a < length (ap_roster a)" "c = ap_roster a ! sel_index a"
    "set_overlay (ct_id c) ((overlay_of c)\<lparr>ov_pinned := Some (\<not> ct_pinned c)\<rparr>) s (uw_io (ap_world a)) = (True, s', e)"
  shows "uw_contacts (ap_world (toggle_pinned a)) = Some s'" "map_option ov_order (overlay_for s' (ct_id c)) = Some None"
    "map_option ov_portrait (overlay_for s' (ct_id c)) = Some None"
proof -
  show "uw_contacts (ap_world (toggle_pinned a)) = Some s'"
    using assms by (simp add: toggle_pinned_def call_contacts_def Let_def)
  have "ay_overlays s' = put_row (ct_id c) ((overlay_of c)\<lparr>ov_pinned := Some (\<not> ct_pinned c)\<rparr>) (ay_overlays s)"
    using assms(4) by (auto simp: set_overlay_def Let_def split: if_splits prod.splits)
  then show "map_option ov_order (overlay_for s' (ct_id c)) = Some None"
    "map_option ov_portrait (overlay_for s' (ct_id c)) = Some None"
    by (simp_all add: overlay_for_def map_of_put_row overlay_of_def empty_overlay_def)
qed

end
