(* ===== verification/Ui_Lock.thy ===== *)
theory Ui_Lock
  imports Ui_Facts
begin

text \<open>
  The lock of \<^verbatim>\<open>components/ui/ui.cpp\<close>: what can open a locked device, what it shows while it is locked, how
  often a guess can be made, and what a fault screen does to all of it.
\<close>

definition locked :: "app \<Rightarrow> bool" where
  "locked a \<longleftrightarrow> ap_screen a = PinScreen \<and> \<not> ap_unlocked a"

definition is_fault_event :: "ui_event \<Rightarrow> bool" where
  "is_fault_event ev \<longleftrightarrow> (case ev of EvFault k g \<Rightarrow> True | _ \<Rightarrow> False)"

text \<open>A guess is an entry the code compares with the PIN: Enter on the lock screen once the backoff is over.\<close>

definition guess_at :: "ui_event \<Rightarrow> app \<Rightarrow> bool" where
  "guess_at ev a \<longleftrightarrow> (case ev of EvKey e \<Rightarrow> ap_screen a = PinScreen \<and> ke_key e = KeyEnter \<and>
     (ap_backoff_until_ms a = 0 \<or> ap_backoff_until_ms a \<le> ui_now a) | _ \<Rightarrow> False)"

definition opens_lock :: "ui_deps \<Rightarrow> ui_event \<Rightarrow> app \<Rightarrow> bool" where
  "opens_lock d ev a \<longleftrightarrow> ev = EvTick \<and> \<not> pin_required a \<or>
     guess_at ev a \<and> (case ud_verify_pin d of None \<Rightarrow> False | Some v \<Rightarrow> v (ap_pin_entry a))"

subsection \<open>One key on the lock screen\<close>

lemma key_pin_cases:
  assumes "ap_screen a = PinScreen" "\<not> opens_lock d (EvKey e) a"
  shows "ap_screen (snd (key_pin d e a)) = PinScreen \<and> ap_unlocked (snd (key_pin d e a)) = ap_unlocked a \<and>
    ap_deferred_paint (snd (key_pin d e a)) = ap_deferred_paint a \<and> ap_draft_open (snd (key_pin d e a)) = ap_draft_open a \<and>
    ap_world (snd (key_pin d e a)) = ap_world a"
  using assms by (auto simp: key_pin_def opens_lock_def guess_at_def Let_def split: key.splits option.splits)

text \<open>The backoff after a wrong guess, and that nothing else starts or shortens it before its time.\<close>

lemma key_pin_guess:
  assumes "guess_at (EvKey e) a" "\<not> opens_lock d (EvKey e) a"
  shows "ap_wrong_attempts (snd (key_pin d e a)) = ap_wrong_attempts a + 1 \<and>
    ap_backoff_until_ms (snd (key_pin d e a)) = ui_now a + pin_backoff_ms (ap_wrong_attempts a + 1)"
  using assms by (auto simp: key_pin_def opens_lock_def guess_at_def Let_def ui_now_def split: option.splits)

lemma key_pin_no_guess:
  assumes "ap_screen a = PinScreen" "\<not> guess_at (EvKey e) a"
  shows "ap_wrong_attempts (snd (key_pin d e a)) = ap_wrong_attempts a \<and>
    ap_backoff_until_ms (snd (key_pin d e a)) =
      (if ap_backoff_until_ms a \<noteq> 0 \<and> ui_now a < ap_backoff_until_ms a then ap_backoff_until_ms a else 0)"
  using assms by (auto simp: key_pin_def guess_at_def Let_def split: key.splits)

subsection \<open>What a locked device shows\<close>

definition lock_words :: "ui_deps \<Rightarrow> string set" where
  "lock_words d = {ui_text d str_pin_prompt, ui_text d str_pin_wrong, ui_text d str_pin_try_again_soon}"

definition lock_view :: "ui_deps \<Rightarrow> app \<Rightarrow> bool" where
  "lock_view d a \<longleftrightarrow> (let v = ap_view a in vw_screen v = PinScreen \<and> vw_title v = ui_text d str_app_name \<and> vw_rows v = [] \<and>
     vw_diagnostic v = [] \<and> vw_lines v = [concat (replicate (length (ap_pin_entry a)) (ui_text d str_pin_digit_mark))] \<and>
     (\<exists>m. \<exists>t \<in> lock_words d. vw_message v = break_text d m t))"

definition lock_message :: "ui_deps \<Rightarrow> app \<Rightarrow> bool" where
  "lock_message d a \<longleftrightarrow> ap_message a = [] \<or> ap_message a \<in> lock_words d"

definition lock_entry :: "app \<Rightarrow> bool" where
  "lock_entry a \<longleftrightarrow> length (ap_pin_entry a) \<le> k_pin_max_digits"

lemma map_const_replicate: "map (\<lambda>_. c) xs = replicate (length xs) c"
  by (induction xs) simp_all

lemma rebuild_lock_view:
  assumes "ap_screen a = PinScreen" "lock_message d a"
  shows "lock_view d (rebuild d a)"
proof -
  have "\<exists>m. \<exists>t \<in> lock_words d. vw_message (ap_view (rebuild d a)) = break_text d m t"
  proof (cases "ap_message a = [] \<or> break_text d (ui_metrics a) (ap_message a) = []")
    case True
    then show ?thesis using assms(1)
      by (intro exI [of _ "ui_metrics a"] bexI [of _ "ui_text d str_pin_prompt"])
        (auto simp: rebuild_def build_screen_def build_pin_def empty_view_def lock_words_def Let_def)
  next
    case False
    with assms show ?thesis
      by (intro exI [of _ "ui_metrics a"] bexI [of _ "ap_message a"])
        (auto simp: rebuild_def build_screen_def build_pin_def empty_view_def lock_message_def Let_def)
  qed
  then show ?thesis using assms(1)
    by (simp add: lock_view_def Let_def rebuild_def build_screen_def build_pin_def empty_view_def map_const_replicate set_sel_def)
qed

lemma lock_view_cong: "ap_view a = ap_view b \<Longrightarrow> ap_pin_entry a = ap_pin_entry b \<Longrightarrow> lock_view d a = lock_view d b"
  by (simp add: lock_view_def)

lemma shown_lock_view: "ap_screen (snd p) = PinScreen \<Longrightarrow> lock_message d (snd p) \<Longrightarrow> lock_view d (shown d p)"
  using lock_view_cong [of "shown d p" "rebuild d (snd p)"] rebuild_lock_view [of "snd p" d] by simp

lemma present_lock_view: "ap_screen a = PinScreen \<Longrightarrow> lock_message d a \<Longrightarrow> lock_view d (present d r a)"
  using lock_view_cong [of "present d r a" "rebuild d a"] rebuild_lock_view [of a d] by simp

subsection \<open>Runs of a locked device\<close>

definition lock_inv :: "ui_deps \<Rightarrow> app \<Rightarrow> bool" where
  "lock_inv d a \<longleftrightarrow> locked a \<and> lock_view d a \<and> lock_message d a \<and> lock_entry a"

lemma key_pin_entry:
  assumes "\<not> opens_lock d (EvKey e) a" "ap_screen a = PinScreen" "lock_message d a" "lock_entry a"
  shows "lock_message d (snd (key_pin d e a)) \<and> lock_entry (snd (key_pin d e a))"
  using assms
  by (auto simp: key_pin_def lock_message_def lock_entry_def lock_words_def opens_lock_def guess_at_def Let_def
      split: key.splits option.splits)

definition ticked :: "app \<Rightarrow> app" where
  "ticked a = (if ap_draft_open a \<and> k_draft_autosave_interval_ms \<le> ui_now a - ap_last_save_ms a then autosave_draft a else a)"

lemma tick_cases:
  assumes "ap_screen a = PinScreen" "pin_required a"
  shows "app_tick d a = ticked a \<or> app_tick d a = present d PartialPaint ((ticked a)\<lparr>ap_deferred_paint := False\<rparr>) \<or>
    app_tick d a = present d FastPaint ((ticked a)\<lparr>ap_backoff_until_ms := 0\<rparr>) \<and>
      ap_backoff_until_ms a \<noteq> 0 \<and> ap_backoff_until_ms a \<le> ui_now a"
proof -
  have c: "(ap_screen a = PinScreen \<and> \<not> pin_required a) = False" using assms(2) by simp
  define b where "b = ticked a"
  have eq: "app_tick d a = (if ap_deferred_paint b \<and> k_compose_idle_refresh_ms \<le> ui_now a - ap_last_edit_ms b
      then present d PartialPaint (b\<lparr>ap_deferred_paint := False\<rparr>)
      else if ap_screen b = PinScreen \<and> ap_backoff_until_ms b \<noteq> 0 \<and> ap_backoff_until_ms b \<le> ui_now a
      then present d FastPaint (b\<lparr>ap_backoff_until_ms := 0\<rparr>) else b)"
    unfolding app_tick_def Let_def c if_False b_def ticked_def by (rule refl)
  have "ap_backoff_until_ms b = ap_backoff_until_ms a" by (simp add: b_def ticked_def)
  with eq show ?thesis unfolding b_def by presburger
qed

lemma ticked_frame [simp]:
  "ap_screen (ticked a) = ap_screen a" "ap_unlocked (ticked a) = ap_unlocked a" "ap_view (ticked a) = ap_view a"
  "ap_message (ticked a) = ap_message a" "ap_pin_entry (ticked a) = ap_pin_entry a" "ui_now (ticked a) = ui_now a"
  "ap_wrong_attempts (ticked a) = ap_wrong_attempts a" "ap_backoff_until_ms (ticked a) = ap_backoff_until_ms a"
  by (simp_all add: ticked_def ui_now_def)

lemma lock_step:
  assumes "lock_inv d a" "\<not> is_fault_event ev" "\<not> opens_lock d ev a"
  shows "lock_inv d (ui_step d ev a)"
proof (cases ev)
  case (EvKey e)
  let ?t = "touched e a"
  have t: "ap_screen ?t = PinScreen" "lock_message d ?t" "lock_entry ?t" "\<not> ap_unlocked ?t"
    using assms(1) by (auto simp: lock_inv_def locked_def touched_def lock_message_def lock_entry_def Let_def)
  have no: "\<not> opens_lock d (EvKey e) ?t" using assms(3) EvKey by (simp add: opens_lock_def guess_at_def ui_now_def split: option.splits)
  note K = key_pin_cases [OF t(1) no] and E = key_pin_entry [OF no t(1-3)]
  have "screen_key d e ?t = key_pin d e ?t" using t(1) by (simp add: screen_key_def)
  with K E t(4) shown_lock_view [of "key_pin d e ?t" d] show ?thesis
    unfolding EvKey by (simp add: app_key_shown lock_inv_def locked_def lock_message_def lock_entry_def)
next
  case EvTick
  have p: "pin_required a" using assms(3) EvTick by (simp add: opens_lock_def)
  have b: "lock_inv d (ticked a)" using assms(1) by (simp add: lock_inv_def locked_def lock_view_def lock_message_def lock_entry_def)
  have s: "lock_inv d (present d r ((ticked a)\<lparr>ap_deferred_paint := x\<rparr>))" "lock_inv d (present d r ((ticked a)\<lparr>ap_backoff_until_ms := y\<rparr>))" for r x y
    using b by (auto simp: lock_inv_def locked_def lock_message_def lock_entry_def intro!: present_lock_view)
  have "ap_screen a = PinScreen" using assms(1) by (simp add: lock_inv_def locked_def)
  from tick_cases [OF this p, of d] b s show ?thesis unfolding EvTick by auto
next
  case EvAutosave
  then show ?thesis using assms(1) by (simp add: lock_inv_def locked_def lock_view_def lock_message_def lock_entry_def)
next
  case (EvWorld w)
  then show ?thesis using assms(1) by (simp add: lock_inv_def locked_def lock_view_def lock_message_def lock_entry_def)
qed (use assms(2) in \<open>simp add: is_fault_event_def\<close>)

lemma lock_run:
  assumes "lock_inv d a" "filter is_fault_event evs = []"
  shows "lock_inv d (ui_run d evs a) \<or>
    (\<exists>pre ev post. evs = pre @ ev # post \<and> lock_inv d (ui_run d pre a) \<and> opens_lock d ev (ui_run d pre a))"
  using assms
proof (induction evs rule: rev_induct)
  case Nil
  then show ?case by (simp add: ui_run_def)
next
  case (snoc ev evs)
  then have "\<not> is_fault_event ev" "filter is_fault_event evs = []" by (auto split: if_splits)
  with snoc.IH [OF snoc.prems(1)] consider "lock_inv d (ui_run d evs a)"
    | pre ev' post where "evs = pre @ ev' # post" "lock_inv d (ui_run d pre a)" "opens_lock d ev' (ui_run d pre a)" by blast
  then show ?case
  proof cases
    case 1
    show ?thesis
    proof (cases "opens_lock d ev (ui_run d evs a)")
      case True
      with 1 show ?thesis by blast
    next
      case False
      from lock_step [OF 1 \<open>\<not> is_fault_event ev\<close> False] show ?thesis by (simp add: ui_run_def)
    qed
  next
    case 2
    then have "evs @ [ev] = pre @ ev' # (post @ [ev])" by simp
    with 2(2,3) show ?thesis by blast
  qed
qed

lemma start_locked:
  assumes "pin_required (new_app w)"
  shows "lock_inv d (app_start d initial (new_app w))"
proof -
  let ?b = "go PinScreen ((new_app w)\<lparr>ap_last_key_ms := ui_now (new_app w), ap_last_save_ms := ui_now (new_app w)\<rparr>)"
  have "pin_required ((new_app w)\<lparr>ap_last_key_ms := x, ap_last_save_ms := y\<rparr>)" for x y
    using assms by (simp add: pin_required_def new_app_def)
  then have "app_start d initial (new_app w) = present d FullPaint ?b" by (simp add: app_start_def Let_def)
  moreover have "lock_message d ?b" "lock_entry ?b" "\<not> ap_unlocked ?b"
    by (simp_all add: lock_message_def lock_entry_def new_app_def)
  ultimately show ?thesis
    using present_lock_view [of ?b d FullPaint] by (simp add: lock_inv_def locked_def lock_message_def lock_entry_def)
qed

subsection \<open>Guessing\<close>

text \<open>The times at which a run compares an entry with the PIN.\<close>

fun guess_times :: "ui_deps \<Rightarrow> ui_event list \<Rightarrow> app \<Rightarrow> int list" where
  "guess_times d [] a = []"
| "guess_times d (ev # evs) a = (if guess_at ev a then [ui_now a] else []) @ guess_times d evs (ui_step d ev a)"

text \<open>The monotonic clock only moves forward while the world moves on.\<close>

fun clock_forward :: "ui_deps \<Rightarrow> ui_event list \<Rightarrow> app \<Rightarrow> bool" where
  "clock_forward d [] a = True"
| "clock_forward d (ev # evs) a = (ui_now a \<le> ui_now (ui_step d ev a) \<and> clock_forward d evs (ui_step d ev a))"

text \<open>No event of the run is the one that opens the lock.\<close>

fun stays_shut :: "ui_deps \<Rightarrow> ui_event list \<Rightarrow> app \<Rightarrow> bool" where
  "stays_shut d [] a = True"
| "stays_shut d (ev # evs) a = (\<not> opens_lock d ev a \<and> stays_shut d evs (ui_step d ev a))"

text \<open>The spacing of guesses: \<open>n\<close> were wrong so far, and the next may not come before \<open>t\<close>.\<close>

fun guesses_spaced :: "nat \<Rightarrow> int \<Rightarrow> int list \<Rightarrow> bool" where
  "guesses_spaced n t [] = True"
| "guesses_spaced n t (g # gs) = (t \<le> g \<and> guesses_spaced (Suc n) (g + pin_backoff_ms (int (Suc n))) gs)"

lemma backoff_loop_power: "backoff_loop n (1000 * 2 ^ k) = 1000 * 2 ^ (if 6 \<le> k then k else min (n + k) 6)"
proof (induction n arbitrary: k)
  case (Suc n)
  show ?case
  proof (cases "k < 6")
    case True
    then have "k = 0 \<or> k = 1 \<or> k = 2 \<or> k = 3 \<or> k = 4 \<or> k = 5" by arith
    then have "1000 * 2 ^ k < k_pin_backoff_max_ms" by (auto simp: k_pin_backoff_max_ms_def)
    moreover have "1000 * 2 ^ k * 2 = (1000 * 2 ^ Suc k :: int)" by simp
    ultimately have "backoff_loop (Suc n) (1000 * 2 ^ k) = backoff_loop n (1000 * 2 ^ Suc k)" by (simp only: backoff_loop.simps if_True)
    also have "\<dots> = 1000 * 2 ^ (if 6 \<le> Suc k then Suc k else min (n + Suc k) 6)" by (rule Suc.IH)
    finally show ?thesis using True by (auto simp: min_def)
  next
    case False
    then have "(2::int) ^ 6 \<le> 2 ^ k" by (intro power_increasing) auto
    with False show ?thesis by (simp add: k_pin_backoff_max_ms_def)
  qed
qed (simp add: min_def)

lemma pin_backoff_eq: "0 < n \<Longrightarrow> pin_backoff_ms (int n) = min (1000 * 2 ^ (n - 1)) 60000"
proof -
  assume n: "0 < n"
  then have i: "nat (int n - 1) = n - 1" by simp
  have "pin_backoff_ms (int n) = min (1000 * 2 ^ (min (n - 1) 6)) 60000"
    using backoff_loop_power [of "n - 1" 0] by (simp add: pin_backoff_ms_def i k_pin_backoff_first_ms_def k_pin_backoff_max_ms_def)
  moreover have "min (1000 * 2 ^ (min (n - 1) 6)) 60000 = min (1000 * 2 ^ (n - 1)) (60000 :: int)"
  proof (cases "n - 1 \<le> 6")
    case False
    then have "(2::int) ^ 6 \<le> 2 ^ (n - 1)" by (intro power_increasing) auto
    with False show ?thesis by (simp add: min_def)
  qed (simp add: min_absorb1)
  ultimately show ?thesis by simp
qed

text \<open>
  The state of the lock against the clock: no guess is possible before \<open>t\<close>, and \<open>n\<close> were wrong.
\<close>

definition priced :: "nat \<Rightarrow> int \<Rightarrow> app \<Rightarrow> bool" where
  "priced n t a \<longleftrightarrow> ap_wrong_attempts a = int n \<and> 0 < ui_now a \<and> (t \<le> ui_now a \<or> ap_backoff_until_ms a = t)"

lemma priced_guess: "priced n t a \<Longrightarrow> guess_at ev a \<Longrightarrow> t \<le> ui_now a"
  by (auto simp: priced_def guess_at_def split: ui_event.splits)

lemma priced_step:
  assumes "lock_inv d a" "\<not> is_fault_event ev" "\<not> opens_lock d ev a" "ui_now a \<le> ui_now (ui_step d ev a)" "priced n t a"
  shows "if guess_at ev a then priced (Suc n) (ui_now a + pin_backoff_ms (int (Suc n))) (ui_step d ev a)
    else priced n t (ui_step d ev a)"
proof (cases ev)
  case (EvKey e)
  let ?t = "touched e a"
  have s: "ap_screen ?t = PinScreen" using assms(1) by (simp add: lock_inv_def locked_def)
  have g: "guess_at (EvKey e) ?t = guess_at (EvKey e) a" and now: "ui_now ?t = ui_now a"
    by (simp_all add: guess_at_def ui_now_def)
  have no: "\<not> opens_lock d (EvKey e) ?t" using assms(3) EvKey by (simp add: opens_lock_def g split: option.splits)
  have k: "ui_step d ev a = shown d (key_pin d e ?t)" using s EvKey by (simp add: app_key_shown screen_key_def)
  have w: "ui_now (ui_step d ev a) = ui_now a"
    using key_pin_cases [OF s no] now by (simp add: k ui_now_def)
  show ?thesis
  proof (cases "guess_at ev a")
    case True
    then have "guess_at (EvKey e) ?t" using g EvKey by simp
    from key_pin_guess [OF this no] True w now assms(5) show ?thesis
      by (simp add: priced_def k add.commute)
  next
    case False
    then have "\<not> guess_at (EvKey e) ?t" using g EvKey by simp
    from key_pin_no_guess [OF s this, of d] False w now assms(5) show ?thesis
      by (auto simp: priced_def k)
  qed
next
  case EvTick
  have p: "pin_required a" using assms(3) EvTick by (simp add: opens_lock_def)
  have "ap_screen a = PinScreen" using assms(1) by (simp add: lock_inv_def locked_def)
  note T = tick_cases [OF this p, of d]
  have n: "ui_now (present d r b) = ui_now b" "ui_now (b\<lparr>ap_deferred_paint := x\<rparr>) = ui_now b"
    "ui_now (b\<lparr>ap_backoff_until_ms := y\<rparr>) = ui_now b" for r b x y by (simp_all add: ui_now_def)
  have "ui_now (ui_step d ev a) = ui_now a" unfolding EvTick using T by (auto simp: n)
  moreover have "ap_wrong_attempts (ui_step d ev a) = ap_wrong_attempts a \<and>
      (ap_backoff_until_ms (ui_step d ev a) = ap_backoff_until_ms a \<or>
       ap_backoff_until_ms a \<noteq> 0 \<and> ap_backoff_until_ms a \<le> ui_now a)" unfolding EvTick using T by auto
  ultimately show ?thesis using assms(5) by (auto simp: priced_def guess_at_def EvTick)
next
  case EvAutosave
  have "ui_now (autosave_draft a) = ui_now a" by (simp add: ui_now_def)
  then show ?thesis using assms(5) by (simp add: priced_def guess_at_def EvAutosave)
next
  case (EvWorld w)
  then show ?thesis using assms(4,5) by (auto simp: priced_def guess_at_def)
qed (use assms(2) in \<open>simp add: is_fault_event_def\<close>)

lemma guesses_run:
  assumes "lock_inv d a" "filter is_fault_event evs = []" "clock_forward d evs a" "priced n t a" "stays_shut d evs a"
  shows "guesses_spaced n t (guess_times d evs a)"
  using assms
proof (induction evs arbitrary: a n t)
  case (Cons ev evs)
  let ?b = "ui_step d ev a"
  have o: "\<not> opens_lock d ev a" "stays_shut d evs ?b" using Cons.prems(5) by simp_all
  have f: "\<not> is_fault_event ev" "filter is_fault_event evs = []" using Cons.prems(2) by (auto split: if_splits)
  have c: "ui_now a \<le> ui_now ?b" "clock_forward d evs ?b" using Cons.prems(3) by simp_all
  note inv = lock_step [OF Cons.prems(1) f(1) o(1)]
  note st = priced_step [OF Cons.prems(1) f(1) o(1) c(1) Cons.prems(4)]
  show ?case
  proof (cases "guess_at ev a")
    case True
    with st have "priced (Suc n) (ui_now a + pin_backoff_ms (int (Suc n))) ?b" by simp
    from Cons.IH [OF inv f(2) c(2) this o(2)] True priced_guess [OF Cons.prems(4) True] show ?thesis by simp
  next
    case False
    with st have "priced n t ?b" by simp
    from Cons.IH [OF inv f(2) c(2) this o(2)] False show ?thesis by simp
  qed
qed simp

definition backoff_sum :: "nat \<Rightarrow> nat \<Rightarrow> int" where
  "backoff_sum n k = (\<Sum>i<k. pin_backoff_ms (int (n + 1 + i)))"

lemma spaced_sum: "guesses_spaced n t gs \<Longrightarrow> gs \<noteq> [] \<Longrightarrow> backoff_sum n (length gs - 1) \<le> last gs - hd gs"
proof (induction gs arbitrary: n t)
  case (Cons g gs)
  show ?case
  proof (cases gs)
    case (Cons h hs)
    have "backoff_sum (Suc n) (length gs - 1) \<le> last gs - hd gs" using Cons.prems Cons.IH Cons by auto
    moreover have "g + pin_backoff_ms (int (Suc n)) \<le> hd gs" using Cons.prems Cons by simp
    moreover have "backoff_sum n (Suc k) = pin_backoff_ms (int (Suc n)) + backoff_sum (Suc n) k" for k
      by (simp add: backoff_sum_def sum.lessThan_Suc_shift del: sum.lessThan_Suc)
    ultimately show ?thesis using Cons by simp
  qed (simp add: backoff_sum_def)
qed simp

lemma backoff_sum_minutes: "63000 + 60000 * int m \<le> backoff_sum 0 (6 + m)"
proof (induction m)
  case 0
  have "backoff_sum 0 6 = (\<Sum>i\<leftarrow>[0..<6]. pin_backoff_ms (int (Suc i)))"
    by (simp add: backoff_sum_def sum_list_distinct_conv_sum_set atLeast0LessThan)
  also have "\<dots> = 63000" by code_simp
  finally show ?case by simp
next
  case (Suc m)
  have "pin_backoff_ms (int (0 + 1 + (6 + m))) = 60000"
  proof -
    have "(2::int) ^ 6 \<le> 2 ^ (6 + m)" by (intro power_increasing) auto
    then show ?thesis using pin_backoff_eq [of "7 + m"] by (simp add: add.commute)
  qed
  moreover have "backoff_sum 0 (Suc k) = backoff_sum 0 k + pin_backoff_ms (int (0 + 1 + k))" for k
    by (simp add: backoff_sum_def)
  then have "backoff_sum 0 (6 + Suc m) = backoff_sum 0 (6 + m) + pin_backoff_ms (int (0 + 1 + (6 + m)))"
    by (simp only: add_Suc_right)
  ultimately show ?case using Suc by simp
qed

subsection \<open>Properties\<close>

text \<open>
  C8: Only the PIN opens a locked device. From a start with a PIN set, over any keys, ticks, autosaves and changes
  of the world without a fault screen, the device is still locked and shows only its name, a prompt and
  one mark per digit typed, at most six, unless some event of the run was Enter with an entry that the PIN
  check accepted, after the backoff, or a tick that found the PIN cleared.\<close>

theorem only_the_pin_unlocks:
  assumes "pin_required (new_app w)" "filter is_fault_event evs = []"
  shows "(let a = ui_run d evs (app_start d initial (new_app w)) in locked a \<and> lock_view d a \<and> lock_entry a) \<or>
    (\<exists>pre ev post. evs = pre @ ev # post \<and> locked (ui_run d pre (app_start d initial (new_app w))) \<and>
       opens_lock d ev (ui_run d pre (app_start d initial (new_app w))))"
  using lock_run [OF start_locked [OF assms(1)] assms(2), of d initial] by (auto simp: lock_inv_def Let_def)

text \<open>
  C33: Guessing the PIN is priced and never locks out. In any run of a locked device that nothing opens, with a clock
  that runs forward, each comparison of an entry with the PIN comes at least the backoff after the one
  before: one second, doubling, at most a minute. So seven guesses take 63 seconds, and each one beyond the
  seventh a minute more.\<close>

theorem pin_guesses_cost_minutes:
  assumes "pin_required (new_app w)" "filter is_fault_event evs = []"
    "clock_forward d evs (app_start d initial (new_app w))" "0 < ui_now (new_app w)"
    "stays_shut d evs (app_start d initial (new_app w))" "7 \<le> length gs"
    "gs = guess_times d evs (app_start d initial (new_app w))"
  shows "guesses_spaced 0 0 gs \<and> 63000 + 60000 * int (length gs - 7) \<le> last gs - hd gs \<and>
    pin_backoff_ms (int (Suc k)) = min (1000 * 2 ^ k) 60000"
proof -
  let ?a = "app_start d initial (new_app w)"
  note inv = start_locked [OF assms(1), of d initial]
  have "pin_required ((new_app w)\<lparr>ap_last_key_ms := x, ap_last_save_ms := y\<rparr>)" for x y
    using assms(1) by (simp add: pin_required_def new_app_def)
  then have "priced 0 0 ?a" using assms(4)
    by (simp add: priced_def app_start_def Let_def ui_now_def) (simp add: new_app_def)
  from guesses_run [OF inv assms(2,3) this assms(5)] have sp: "guesses_spaced 0 0 gs" by (simp only: assms(7))
  obtain m where m: "length gs = 7 + m" using assms(6) le_Suc_ex by blast
  then have "gs \<noteq> []" "length gs - 1 = 6 + m" "length gs - 7 = m" by auto
  then have "63000 + 60000 * int (length gs - 7) \<le> last gs - hd gs"
    using spaced_sum [OF sp \<open>gs \<noteq> []\<close>] backoff_sum_minutes [of m] by simp
  moreover have "pin_backoff_ms (int (Suc k)) = min (1000 * 2 ^ k) 60000"
    using pin_backoff_eq [of "Suc k"] by (simp only: diff_Suc_1 zero_less_Suc)
  ultimately show ?thesis using sp by blast
qed

text \<open>
  C34: A fault screen opens a locked device without the PIN. On a device that is locked with a PIN set, showing any
  fault but the charge-me one and then pressing Enter leads to the inbox: the stored letters are listed
  with their subjects, and the PIN is still required.\<close>

theorem fault_screen_bypasses_pin:
  assumes "locked a" "pin_required a" "k = CantReachHome \<or> k = AskYourGuardians \<or> k = RoadBusy"
    "uw_letters (ap_world a) = Some s" "list_newest_first k_default_letters_keep s (uw_io (ap_world a)) = (l # ls, io)"
  shows "(let b = ui_run d [EvFault k g, EvKey \<lparr>ke_key = KeyEnter, ke_codepoint = 0\<rparr>] a in
    ap_screen b = InboxScreen \<and> pin_required b \<and> ap_letters b = l # ls \<and>
    map rw_secondary (vw_rows (ap_view b)) = map (\<lambda>l. l_subject (sl_letter l)) (l # ls))"
proof -
  let ?e = "\<lparr>ke_key = KeyEnter, ke_codepoint = 0\<rparr>"
  define f where "f = show_fault d k g a"
  have k: "k \<noteq> ChargeMe" using assms(3) by auto
  have f: "ap_screen f = FaultScreen" "ap_fault f = k" "uw_letters (ap_world f) = Some s" "uw_io (ap_world f) = uw_io (ap_world a)"
    using k assms(4) by (simp_all add: f_def show_fault_def Let_def go_def)
  have "pin_required f = pin_required a" by (rule pin_required_cong) (simp_all add: f_def show_fault_def Let_def)
  with assms(2) have r: "pin_required f" by simp
  define p where "p = screen_key d ?e (touched ?e f)"
  have p: "p = (FullPaint, go InboxScreen ((touched ?e f)\<lparr>ap_fault := NoFault, ap_diagnostic := []\<rparr>))"
    using f k by (simp add: p_def screen_key_def key_fault_def)
  have l: "ap_letters (snd p) = l # ls" "ap_screen (snd p) = InboxScreen"
    using f assms(5) by (simp_all add: p go_def reload_letters_def call_letters_def Let_def)
  have "pin_required (snd p) = pin_required f" by (rule pin_required_cong) (simp_all add: p)
  with r have q: "pin_required (snd p)" by simp
  have q': "pin_required (shown d p)" using q pin_required_cong [of "shown d p" "snd p"] by simp
  have b: "ui_run d [EvFault k g, EvKey ?e] a = shown d p" by (simp add: ui_run_def f_def p_def app_key_shown)
  have "map rw_secondary (vw_rows (ap_view (rebuild d (snd p)))) = map (\<lambda>l. l_subject (sl_letter l)) (l # ls)"
    using l by (simp add: rebuild_def build_screen_def build_inbox_def empty_view_def Let_def o_def)
  then show ?thesis using l q' by (simp add: b Let_def)
qed

subsection \<open>A locked device\<close>

definition mute_deps :: ui_deps where
  "mute_deps = \<lparr>ud_table = tiny_table, ud_panel = False, ud_painter = None, ud_text = None, ud_verify_pin = None\<rparr>"

definition lock_world :: "int \<Rightarrow> ui_world" where
  "lock_world t = \<lparr>uw_io = two_letters,
     uw_letters = Some \<lparr>ls_dir = ''/c/letters'', ls_index = [meta_of demo_letter True]\<rparr>, uw_outbox = None, uw_drafts = None,
     uw_settings = Some \<lparr>sg_path = ''/c/settings'', sg_settings = default_settings\<lparr>se_pin_enabled := True\<rparr>\<rparr>,
     uw_contacts = None, uw_health_log = None, uw_now_epoch = None, uw_clock_valid = None, uw_monotonic_ms = Some t,
     uw_about = None, uw_calls = []\<rparr>"

definition enter_key :: key_event where "enter_key = \<lparr>ke_key = KeyEnter, ke_codepoint = 0\<rparr>"

definition seven_guesses :: "ui_event list" where
  "seven_guesses = concat (map (\<lambda>t. [EvWorld (lock_world t), EvKey enter_key]) [1000, 2000, 4000, 8000, 16000, 32000, 64000])"

lemma lock_world_required: "pin_required (new_app (lock_world t))"
  by (simp add: pin_required_def new_app_def lock_world_def)

lemma only_the_pin_unlocks_witness:
  "let a = ui_run mute_deps [EvKey enter_key] (app_start mute_deps InboxScreen (new_app (lock_world 5))) in
    locked a \<and> lock_view mute_deps a \<and> lock_entry a"
proof -
  have no: "\<not> opens_lock mute_deps (EvKey e) b" for e b by (simp add: opens_lock_def mute_deps_def)
  have "filter is_fault_event [EvKey enter_key] = []" by (simp add: is_fault_event_def)
  from only_the_pin_unlocks [OF lock_world_required [of 5] this, of mute_deps InboxScreen] show ?thesis
    by (auto simp: Cons_eq_append_conv no)
qed

lemma pin_guesses_cost_minutes_witness:
  "guesses_spaced 0 0 (guess_times mute_deps seven_guesses (app_start mute_deps InboxScreen (new_app (lock_world 5))))"
proof -
  let ?a = "app_start mute_deps InboxScreen (new_app (lock_world 5))"
  have "filter is_fault_event seven_guesses = []" by (simp add: seven_guesses_def is_fault_event_def)
  moreover have "clock_forward mute_deps seven_guesses ?a" by code_simp
  moreover have "0 < ui_now (new_app (lock_world 5))" by (simp add: ui_now_def new_app_def lock_world_def or_else_def)
  moreover have "stays_shut mute_deps seven_guesses ?a" by code_simp
  moreover have "7 \<le> length (guess_times mute_deps seven_guesses ?a)" by code_simp
  ultimately show ?thesis
    using pin_guesses_cost_minutes [OF lock_world_required [of 5]] by blast
qed

lemma fault_screen_bypasses_pin_witness:
  "ap_screen (ui_run mute_deps [EvFault RoadBusy [], EvKey \<lparr>ke_key = KeyEnter, ke_codepoint = 0\<rparr>]
     (app_start mute_deps InboxScreen (new_app (lock_world 5)))) = InboxScreen"
proof -
  let ?a = "app_start mute_deps InboxScreen (new_app (lock_world 5))"
  have l: "locked ?a" using start_locked [OF lock_world_required] by (simp add: lock_inv_def)
  have p: "pin_required ?a" by code_simp
  have w: "uw_letters (ap_world ?a) = Some \<lparr>ls_dir = ''/c/letters'', ls_index = [meta_of demo_letter True]\<rparr>" by code_simp
  have r: "list_newest_first k_default_letters_keep \<lparr>ls_dir = ''/c/letters'', ls_index = [meta_of demo_letter True]\<rparr>
      (uw_io (ap_world ?a)) = ([\<lparr>sl_letter = demo_letter, sl_unread = True\<rparr>], uw_io (ap_world ?a))" by code_simp
  show ?thesis
    using fault_screen_bypasses_pin [OF l p _ w r, of RoadBusy mute_deps "[]"] by (simp add: Let_def)
qed

end
