(* ===== verification/Ui_Drafts.thy ===== *)
theory Ui_Drafts
  imports Ui_Lock Footprint
begin

text \<open>
  The child's words across the screens, the draft slot and the outbox of \<^verbatim>\<open>components/ui/ui.cpp\<close>: no operation of
  another store touches the slot, and every hand-over between slot and outbox leaves the text on the
  medium at every durable state.
\<close>

subsection \<open>Who writes the slot\<close>

definition slot_files :: "string \<Rightarrow> string set" where
  "slot_files base = named base k_draft_file"

definition other_files :: "string \<Rightarrow> string set" where
  "other_files base = in_dir base k_letters_dir \<union> in_dir base k_outbox_dir \<union> named base k_local_id_file \<union>
     named base k_settings_file \<union> named base k_overlay_file"

lemma draft_plain: "plain_name k_draft_file"
  by (simp add: plain_name_def k_draft_file_def k_temp_prefix_def slash_def)

lemma slot_apart:
  assumes "dir_ok base"
  shows "slot_files base \<inter> other_files base = {}"
proof -
  have n: "k_draft_file \<noteq> k_local_id_file" "k_draft_file \<noteq> k_settings_file" "k_draft_file \<noteq> k_overlay_file"
    by (simp_all add: k_draft_file_def k_local_id_file_def k_settings_file_def k_overlay_file_def)
  show ?thesis
    using in_dir_named_apart [OF assms plain_names(1) draft_plain] in_dir_named_apart [OF assms plain_names(2) draft_plain]
      named_apart [OF assms draft_plain plain_names(3) n(1)] named_apart [OF assms draft_plain plain_names(6) n(2)]
      named_apart [OF assms draft_plain plain_names(8) n(3)]
    unfolding slot_files_def other_files_def by blast
qed

lemma slot_in: "join base k_draft_file \<in> slot_files base"
  by (simp add: slot_files_def named_def)

lemma outbox_add_only:
  assumes "outbox_add contact subject body t s d = (r, s', e)" "ox_rooted base s" "ox_high_water s + 1 < 2 ^ 63"
  shows "only_in (in_dir base k_outbox_dir \<union> named base k_local_id_file) d e"
proof (cases "k_outbox_cap \<le> sendable_count s")
  case True
  with assms(1) show ?thesis by (simp add: outbox_add_def)
next
  case False
  let ?n = "ox_high_water s + 1" and ?s = "s\<lparr>ox_high_water := ox_high_water s + 1\<rparr>"
  let ?x = "new_entry (ox_high_water s + 1) contact subject body t"
  have nn: "to_u64 ?n = ?n" using assms(3) by simp
  have root: "dir_ok base" "ox_counter_path s = join base k_local_id_file" "ox_dir s = join base k_outbox_dir"
    using assms(2) by (simp_all add: ox_rooted_def)
  obtain o1 d1 where w1: "write_atomic (ox_counter_path s) (dec ?n @ [newline]) d = (o1, d1)" by fastforce
  obtain o2 d2 where w2: "write_atomic (ox_path ?s (oe_local_id ?x)) (encode_entry ?x) d1 = (o2, d2)" by fastforce
  have e: "e = (if o1 then d2 else d1)"
    using assms(1) False w1 w2 by (cases o1; cases o2) (simp_all add: outbox_add_def nn Let_def del: One_nat_def)
  have a: "only_in (named base k_local_id_file) d d1" using write_named [OF w1 [unfolded root(2)] root(1) plain_names(3)] .
  have "oe_local_id ?x = format_local_id ?n" by (simp add: new_entry_def)
  moreover have "?n < 10 ^ 20" using assms(3) by simp
  ultimately have safe: "name_is_safe (oe_local_id ?x)" using format_safe by metis
  have "write_atomic (join (join base k_outbox_dir) (oe_local_id ?x)) (encode_entry ?x) d1 = (o2, d2)"
    using w2 root(3) by (simp add: ox_path_def)
  from write_in_dir [OF this root(1) plain_names(2) safe] have b: "only_in (in_dir base k_outbox_dir) d1 d2" .
  show ?thesis
    using only_in_trans [OF only_in_mono [OF a Un_upper2] only_in_mono [OF b Un_upper1]] only_in_mono [OF a Un_upper2] e
    by auto
qed

lemma outbox_discard_only:
  assumes "outbox_discard i s d = (ok, s', e)" "ox_rooted base s" "\<forall>x \<in> set (ox_entries s). name_is_safe (oe_local_id x)"
  shows "only_in (in_dir base k_outbox_dir) d e"
proof (cases "ox_find s i")
  case None
  with assms(1) show ?thesis by (simp add: outbox_discard_def)
next
  case (Some x)
  then have i: "name_is_safe i" using assms(3) ox_find_id by blast
  obtain o1 d1 where r: "remove_file (ox_path s i) d = (o1, d1)" by fastforce
  have "e = d1" using assms(1) Some r by (cases o1) (simp_all add: outbox_discard_def ox_erase_def)
  moreover have "{ox_path s i} \<subseteq> in_dir base k_outbox_dir"
    using assms(2) safe_no_slash [OF i] by (auto simp: in_dir_def ox_path_def ox_rooted_def)
  ultimately show ?thesis using only_in_mono [OF remove_file_only [OF r]] by simp
qed

lemma mark_read_only:
  assumes "mark_read i s d = (ok, s', e)" "dir_ok base" "ls_dir s = join base k_letters_dir"
    "\<forall>m \<in> set (ls_index s). name_is_safe (m_id m)"
  shows "only_in (in_dir base k_letters_dir) d e"
proof (cases "find_meta s i")
  case None
  with assms(1) show ?thesis by (simp add: mark_read_def)
next
  case (Some m)
  then have i: "name_is_safe i" using assms(4) by (auto simp: find_meta_def find_Some_iff)
  show ?thesis
  proof (cases "m_unread m")
    case False
    with assms(1) Some show ?thesis by (simp add: mark_read_def)
  next
    case True
    obtain r d1 where l: "load_letter s i d = (r, d1)" by fastforce
    have a: "only_in (in_dir base k_letters_dir) d d1"
      using l by (auto simp: load_letter_def dest: read_all_only split: prod.splits option.splits)
    show ?thesis
    proof (cases r)
      case None
      with assms(1) Some True l a show ?thesis by (simp add: mark_read_def)
    next
      case (Some sl)
      obtain o2 d2 where w: "write_atomic (join (ls_dir s) i) (encode_letter (sl_letter sl) False) d1 = (o2, d2)" by fastforce
      have "e = d2" using assms(1) \<open>find_meta s i = Some m\<close> True l Some w by (cases o2) (simp_all add: mark_read_def)
      with only_in_trans [OF a write_in_dir [OF w [unfolded assms(3)] assms(2) plain_names(1) i]] show ?thesis by simp
    qed
  qed
qed

lemma set_overlay_only:
  assumes "set_overlay i ov s d = (ok, s', e)" "ay_overlay_path s = join base k_overlay_file" "dir_ok base"
  shows "only_in (named base k_overlay_file) d e"
proof (cases "i = []")
  case False
  obtain o1 d1 where w: "write_atomic (ay_overlay_path s) (encode_overlays (put_row i ov (ay_overlays s))) d = (o1, d1)" by fastforce
  have "e = d1" using assms(1) False w by (cases o1) (simp_all add: set_overlay_def ay_persist_def)
  with write_named [OF w [unfolded assms(2)] assms(3) plain_names(8)] show ?thesis by simp
qed (use assms(1) in \<open>simp add: set_overlay_def\<close>)

lemma draft_discard_only: "draft_discard s d = (ok, s', e) \<Longrightarrow> only_in {ds_path s} d e"
proof -
  assume a: "draft_discard s d = (ok, s', e)"
  obtain there d1 where x: "exists_file (ds_path s) d = (there, d1)" by fastforce
  then have d1: "files d1 = files d" "trail d1 = trail d"
    by (auto simp: exists_file_def dest!: pop_files split: prod.splits sysres.splits)
  obtain o2 d2 where r: "remove_file (ds_path s) d1 = (o2, d2)" by fastforce
  have "e = (if there then d2 else d1)" using a x r by (cases there; cases o2) (simp_all add: draft_discard_def)
  then show ?thesis using only_in_trans [OF only_in_state [OF d1] remove_file_only [OF r]] only_in_state [OF d1] by auto
qed

subsection \<open>Where the words are\<close>

type_synonym words = "string \<times> string \<times> string"

definition draft_words :: "draft \<Rightarrow> words" where
  "draft_words x = (dr_contact_id x, dr_subject x, dr_body x)"

definition entry_words :: "outbox_entry \<Rightarrow> words" where
  "entry_words e = (oe_contact_id e, oe_subject e, oe_body e)"

definition slot_words :: "string \<Rightarrow> fs \<Rightarrow> words option" where
  "slot_words path fs = map_option draft_words (draft_on path fs)"

definition in_outbox :: "string \<Rightarrow> fs \<Rightarrow> words \<Rightarrow> bool" where
  "in_outbox base fs w \<longleftrightarrow> (\<exists>i e. ox_on base fs i = Some e \<and> entry_words e = w)"

text \<open>A power cut now leaves the words in the slot or in an entry of the outbox.\<close>

definition kept_somewhere :: "string \<Rightarrow> words \<Rightarrow> fs \<Rightarrow> bool" where
  "kept_somewhere base w fs \<longleftrightarrow> (\<forall>keep. slot_words (join base k_draft_file) (crash keep fs) = Some w \<or> in_outbox base (crash keep fs) w)"

lemma slot_words_crash: "durable_file path fs \<Longrightarrow> slot_words path (crash keep fs) = slot_words path fs"
  by (simp add: slot_words_def draft_on_def slot_on_crash)

lemma slot_words_same: "lookup fs' path = lookup fs path \<Longrightarrow> slot_words path fs' = slot_words path fs \<and> durable_file path fs' = durable_file path fs"
  by (simp add: slot_words_def draft_on_def slot_on_def durable_file_def)

text \<open>Operations on other files leave the slot's words at every durable state.\<close>

lemma slot_untouched:
  assumes "only_in S d e" "path \<notin> S" "durable_file path (files d)"
  shows "through (\<lambda>fs. durable_file path fs \<and> (\<forall>keep. slot_words path (crash keep fs) = slot_words path (files d))) d e"
proof (rule only_in_through [OF assms(1)])
  fix fs
  assume "same_but S (files d) fs"
  then have "lookup fs path = lookup (files d) path" using assms(2) by (simp add: same_but_def)
  from slot_words_same [OF this] assms(3) show "durable_file path fs \<and> (\<forall>keep. slot_words path (crash keep fs) = slot_words path (files d))"
    by (simp add: slot_words_crash)
qed

lemma outbox_untouched:
  assumes "only_in (slot_files base) d e" "dir_ok base" "ox_durable base (files d)"
  shows "through (\<lambda>fs. ox_durable base fs \<and> (\<forall>keep. ox_on base (crash keep fs) = ox_on base (files d))) d e"
proof (rule only_in_through [OF assms(1)])
  fix fs
  assume sb: "same_but (slot_files base) (files d) fs"
  have "join base k_local_id_file \<in> other_files base" by (simp add: other_files_def named_def)
  then have c: "lookup fs (join base k_local_id_file) = lookup (files d) (join base k_local_id_file)"
    using sb slot_apart [OF assms(2)] by (auto simp: same_but_def)
  have l: "lookup fs (join (join base k_outbox_dir) i) = lookup (files d) (join (join base k_outbox_dir) i)" if "name_is_safe i" for i
  proof -
    have "join (join base k_outbox_dir) i \<in> other_files base"
      using safe_no_slash [OF that] by (auto simp: other_files_def in_dir_def)
    then show ?thesis using sb slot_apart [OF assms(2)] by (auto simp: same_but_def)
  qed
  have "ox_durable base fs" using assms(3) c l by (simp add: ox_durable_def durable_dir_def)
  moreover have "ox_on base fs = ox_on base (files d)"
    unfolding ox_on_def by (rule outbox_on_cong) (rule l)
  ultimately show "ox_durable base fs \<and> (\<forall>keep. ox_on base (crash keep fs) = ox_on base (files d))"
    by (simp add: ox_on_crash)
qed

lemma save_words:
  assumes "draft_save x s d = (ok, s', e)" "draft_ok x" "durable_file (ds_path s) (files d)"
  shows "through (\<lambda>fs. durable_file (ds_path s) fs \<and> (\<forall>keep. slot_words (ds_path s) (crash keep fs) \<in>
      {slot_words (ds_path s) (files d), map_option draft_words (usable x)})) d e"
    "ok \<Longrightarrow> slot_words (ds_path s) (crash keep (files e)) = map_option draft_words (usable x)"
    "ds_path s' = ds_path s" "only_in {ds_path s, tmp_of (ds_path s)} d e"
    "script d = [] \<Longrightarrow> ok \<and> script e = []" "ok \<Longrightarrow> ds_pending s' = (usable x \<noteq> None)"
proof -
  obtain o1 e1 where w: "write_atomic (ds_path s) (encode_draft x) d = (o1, e1)" by fastforce
  have r: "o1 = ok" "e1 = e" "s' = (if ok then s\<lparr>ds_pending := dr_body x \<noteq> [] \<or> dr_subject x \<noteq> []\<rparr> else s)"
    using assms(1) w by (cases o1; auto simp: draft_save_def)+
  note w = w [unfolded r(1,2)]
  show "through (\<lambda>fs. durable_file (ds_path s) fs \<and> (\<forall>keep. slot_words (ds_path s) (crash keep fs) \<in>
      {slot_words (ds_path s) (files d), map_option draft_words (usable x)})) d e"
  proof (rule through_mono [OF draft_file.save_through [OF w assms(2,3)]])
    fix fs
    assume a: "old_or_new decode_draft (ds_path s) (files d) (usable x) fs"
    then have "durable_file (ds_path s) fs" by (simp add: old_or_new_def)
    moreover have "slot_words (ds_path s) (crash keep fs) \<in> {slot_words (ds_path s) (files d), map_option draft_words (usable x)}" for keep
      using old_or_newD [OF a, of keep] by (auto simp: slot_words_def draft_on_def or_else_def)
    ultimately show "durable_file (ds_path s) fs \<and> (\<forall>keep. slot_words (ds_path s) (crash keep fs) \<in>
      {slot_words (ds_path s) (files d), map_option draft_words (usable x)})" by blast
  qed
  show "slot_words (ds_path s) (crash keep (files e)) = map_option draft_words (usable x)" if ok
    using draft_file.save_ok(1) [OF _ assms(2)] w that by (auto simp: slot_words_def draft_on_def or_else_def)
  show "ds_path s' = ds_path s" using r(3) by simp
  show "only_in {ds_path s, tmp_of (ds_path s)} d e" by (rule write_atomic_only [OF w])
  show "ok \<and> script e = []" if "script d = []" using write_atomic_no_faults [OF that, of "ds_path s" "encode_draft x"] w by auto
  show "ds_pending s' = (usable x \<noteq> None)" if ok using r(3) that by (simp add: usable_def)
qed


subsection \<open>The desk\<close>

text \<open>
  The draft slot and the outbox lie under one root of the medium, opened and settled; \<open>words_of\<close> is the
  letter being written.
\<close>

definition desk_ok :: "string \<Rightarrow> app \<Rightarrow> bool" where
  "desk_ok base a \<longleftrightarrow> (case (uw_outbox (ap_world a), uw_drafts (ap_world a)) of
     (Some ox, Some ds) \<Rightarrow> mem_inv base ox (files (uw_io (ap_world a))) \<and> ox_high_water ox + 1 < 2 ^ 63 \<and>
       ds_path ds = join base k_draft_file \<and> durable_file (join base k_draft_file) (files (uw_io (ap_world a))) \<and>
       is_i64 (ui_now_epoch a)
   | _ \<Rightarrow> False)"

definition words_of :: "app \<Rightarrow> words" where
  "words_of a = (ap_contact_id a, ap_subject a, ap_body a)"

definition app_io :: "app \<Rightarrow> io" where
  "app_io a = uw_io (ap_world a)"

lemma desk_okE:
  assumes "desk_ok base a"
  obtains ox ds where "uw_outbox (ap_world a) = Some ox" "uw_drafts (ap_world a) = Some ds"
    "mem_inv base ox (files (app_io a))" "ox_high_water ox + 1 < 2 ^ 63" "ds_path ds = join base k_draft_file"
    "durable_file (join base k_draft_file) (files (app_io a))" "is_i64 (ui_now_epoch a)" "dir_ok base" "ox_rooted base ox"
    "ox_durable base (files (app_io a))" "\<And>x. x \<in> set (ox_entries ox) \<Longrightarrow> name_is_safe (oe_local_id x)"
proof -
  from assms obtain ox ds where a: "uw_outbox (ap_world a) = Some ox" "uw_drafts (ap_world a) = Some ds"
    "mem_inv base ox (files (app_io a))" "ox_high_water ox + 1 < 2 ^ 63" "ds_path ds = join base k_draft_file"
    "durable_file (join base k_draft_file) (files (app_io a))" "is_i64 (ui_now_epoch a)"
    by (auto simp: desk_ok_def app_io_def split: option.splits)
  have "name_is_safe (oe_local_id x)" if "x \<in> set (ox_entries ox)" for x
  proof -
    have "oe_local_id x \<in> ids_below (ox_high_water ox)" using a(3) that by (auto simp: mem_inv_def)
    then show ?thesis by (rule ids_below_safe) (use a(4) in simp)
  qed
  with a that show ?thesis using mem_inv_dir [OF a(3)] by (auto simp: mem_inv_def fs_inv_def)
qed

text \<open>Saving the letter being written.\<close>

definition saved_or_before :: "string \<Rightarrow> words \<Rightarrow> fs \<Rightarrow> fs \<Rightarrow> bool" where
  "saved_or_before base w fs0 fs \<longleftrightarrow> (\<forall>keep.
     slot_words (join base k_draft_file) (crash keep fs) \<in> {slot_words (join base k_draft_file) fs0, Some w} \<or>
     in_outbox base (crash keep fs) w)"

lemma draft_of_ok: "is_i64 (ui_now_epoch a) \<Longrightarrow> draft_ok (draft_of c s b a)"
  by (simp add: draft_ok_def draft_of_def is_i64_def)

lemma draft_of_words: "b \<noteq> [] \<or> s \<noteq> [] \<Longrightarrow> map_option draft_words (usable (draft_of c s b a)) = Some (c, s, b)"
  by (auto simp: usable_def draft_of_def draft_words_def)

lemma autosave_words:
  assumes "desk_ok base a" "ap_draft_open a" "ap_body a \<noteq> [] \<or> ap_subject a \<noteq> []"
  shows "through (saved_or_before base (words_of a) (files (app_io a))) (app_io a) (app_io (autosave_draft a))"
    "script (app_io a) = [] \<Longrightarrow> slot_words (join base k_draft_file) (crash keep (files (app_io (autosave_draft a)))) = Some (words_of a)"
proof -
  obtain ox ds where k: "uw_drafts (ap_world a) = Some ds" "ds_path ds = join base k_draft_file"
    "durable_file (ds_path ds) (files (app_io a))" "is_i64 (ui_now_epoch a)"
    using desk_okE [OF assms(1)] by metis
  let ?x = "draft_of (ap_contact_id a) (ap_subject a) (ap_body a) a"
  obtain ok ds' e where s: "draft_save ?x ds (app_io a) = (ok, ds', e)" by (metis prod_cases3)
  have io: "app_io (autosave_draft a) = e"
    using s k(1) assms(2) by (simp add: autosave_draft_def call_drafts_def app_io_def Let_def)
  have w: "map_option draft_words (usable ?x) = Some (words_of a)"
    using draft_of_words [OF assms(3)] by (simp add: words_of_def)
  note S = save_words [OF s draft_of_ok [OF k(4)] k(3), unfolded w k(2)]
  show "through (saved_or_before base (words_of a) (files (app_io a))) (app_io a) (app_io (autosave_draft a))"
    unfolding io by (rule through_mono [OF S(1)]) (simp add: saved_or_before_def)
  show "slot_words (join base k_draft_file) (crash keep (files (app_io (autosave_draft a)))) = Some (words_of a)"
    if "script (app_io a) = []" unfolding io using S(2,5) that by blast
qed


subsection \<open>Sending\<close>

lemma send_refused:
  assumes "uw_outbox (ap_world a) = Some ox" "ap_body a = [] \<or> k_outbox_cap \<le> sendable_count ox"
  shows "app_io (send d a) = (if ap_body a = [] then app_io a else app_io (autosave_draft a))"
    "ap_draft_open (send d a) = ap_draft_open a" "words_of (send d a) = words_of a"
    "ap_screen (send d a) = (if ap_body a = [] then ap_screen a else OutboxScreen)"
  using assms by (auto simp: send_def app_io_def words_of_def go_def reload_outbox_def)

lemma send_added:
  assumes "uw_outbox (ap_world a) = Some ox" "uw_drafts (ap_world a) = Some ds"
    "ap_body a \<noteq> []" "sendable_count ox < k_outbox_cap"
    "outbox_add (ap_contact_id a) (ap_subject a) (ap_body a) (if ui_clock_valid a then ui_now_epoch a else 0) ox (app_io a) = (r, ox', e)"
    "draft_discard ds e = (ok, ds', f)"
  shows "app_io (send d a) = (if r = None then e else f)" "ap_draft_open (send d a) = (r = None \<and> ap_draft_open a)"
    "r = None \<Longrightarrow> words_of (send d a) = words_of a"
    "ap_screen (send d a) = (if r = None then ap_screen a else OutboxScreen)"
  using assms by (auto simp: send_def app_io_def words_of_def go_def reload_outbox_def call_outbox_def call_drafts_def
      close_compose_def Let_def)

lemma in_outbox_crash: "ox_durable base fs \<Longrightarrow> in_outbox base (crash keep fs) w = in_outbox base fs w"
  by (simp add: in_outbox_def ox_on_crash)

lemma send_words:
  assumes "desk_ok base a" "ap_draft_open a"
  shows "through (saved_or_before base (words_of a) (files (app_io a))) (app_io a) (app_io (send d a)) \<and>
    (if ap_draft_open (send d a) then words_of (send d a) = words_of a
     else \<forall>keep. in_outbox base (crash keep (files (app_io (send d a)))) (words_of a)) \<and>
    (script (app_io a) = [] \<longrightarrow> ap_screen (send d a) \<noteq> ap_screen a \<longrightarrow>
       (\<forall>keep. slot_words (join base k_draft_file) (crash keep (files (app_io (send d a)))) = Some (words_of a) \<or>
          in_outbox base (crash keep (files (app_io (send d a)))) (words_of a)))"
proof -
  let ?p = "join base k_draft_file" and ?fs0 = "files (app_io a)" and ?w = "words_of a" and ?b = "send d a"
  obtain ox ds where k: "uw_outbox (ap_world a) = Some ox" "uw_drafts (ap_world a) = Some ds"
    "mem_inv base ox ?fs0" "ox_high_water ox + 1 < 2 ^ 63" "ds_path ds = ?p" "durable_file ?p ?fs0"
    "is_i64 (ui_now_epoch a)" "dir_ok base" "ox_rooted base ox"
    using desk_okE [OF assms(1)] by metis
  have slot_same: "saved_or_before base ?w ?fs0 fs" if "durable_file ?p fs \<and> (\<forall>keep. slot_words ?p (crash keep fs) = slot_words ?p ?fs0)" for fs
    using that by (simp add: saved_or_before_def)
  consider "ap_body a = []" | "ap_body a \<noteq> []" "k_outbox_cap \<le> sendable_count ox" | "ap_body a \<noteq> []" "sendable_count ox < k_outbox_cap"
    by linarith
  then show ?thesis
  proof cases
    case 1
    with send_refused [OF k(1), of d] assms(2) slot_same [of ?fs0] k(6) show ?thesis
      by (simp add: through_refl slot_words_crash)
  next
    case 2
    with send_refused [OF k(1), of d] assms(2) autosave_words [OF assms] show ?thesis by simp
  next
    case 3
    let ?t = "if ui_clock_valid a then ui_now_epoch a else 0"
    obtain r ox' e where add: "outbox_add (ap_contact_id a) (ap_subject a) (ap_body a) ?t ox (app_io a) = (r, ox', e)"
      by (metis prod_cases3)
    obtain ok ds' f where dis: "draft_discard ds e = (ok, ds', f)" by (metis prod_cases3)
    note S = send_added [OF k(1,2) 3 add dis, of d]
    have t: "is_i64 ?t" using k(7) by (simp add: is_i64_def)
    note A = add_inv [OF add k(3,4) t]
    have out: "?p \<notin> in_dir base k_outbox_dir \<union> named base k_local_id_file"
      using slot_apart [OF k(8)] slot_in [of base] by (auto simp: other_files_def)
    have T1: "through (saved_or_before base ?w ?fs0) (app_io a) e"
      by (rule through_mono [OF slot_untouched [OF outbox_add_only [OF add k(9,4)] out k(6)]]) (rule slot_same)
    show ?thesis
    proof (cases r)
      case None
      with S assms(2) T1 show ?thesis by simp
    next
      case (Some i)
      let ?x = "new_entry (ox_high_water ox + 1) (ap_contact_id a) (ap_subject a) (ap_body a) ?t"
      have on: "ox_on base (files e) i = Some ?x" "entry_words ?x = ?w"
        using A Some by (simp_all add: entry_words_def new_entry_def words_of_def)
      have dur: "ox_durable base (files e)" using A by (auto simp: mem_inv_def fs_inv_def)
      have sub: "only_in (slot_files base) e f"
        using only_in_mono [OF draft_discard_only [OF dis]] slot_in [of base] k(5) by simp
      have T2: "through (\<lambda>fs. \<forall>keep. in_outbox base (crash keep fs) ?w) e f"
        by (rule through_mono [OF outbox_untouched [OF sub k(8) dur]]) (use on in \<open>auto simp: in_outbox_def\<close>)
      have T: "through (saved_or_before base ?w ?fs0) (app_io a) f"
        by (rule through_trans [OF T1 through_mono [OF T2]]) (simp add: saved_or_before_def)
      with S Some through_files [OF T2] show ?thesis by simp
    qed
  qed
qed


subsection \<open>Reopening a rejected letter\<close>

definition recompose_of :: "outbox_entry \<Rightarrow> pending" where
  "recompose_of q = \<lparr>pe_kind = Recompose, pe_contact_id = oe_contact_id q, pe_subject = oe_subject q, pe_body = oe_body q,
     pe_local_id = oe_local_id q\<rparr>"

lemma go_io: "s \<noteq> InboxScreen \<Longrightarrow> uw_io (ap_world (go s a)) = uw_io (ap_world a)"
  by (simp add: go_def Let_def)

lemma start_draft_io:
  assumes "uw_drafts (ap_world a) = Some ds" "uw_outbox (ap_world a) = Some ox"
    "draft_start (draft_of (oe_contact_id q) (oe_subject q) (oe_body q) a) ds (app_io a) = (out, ds', e)"
    "outbox_discard (oe_local_id q) ox e = (ok, ox', f)"
  shows "app_io (start_draft d (recompose_of q) a) = (if out = kStarted then f else e)"
    "out = kStarted \<Longrightarrow> words_of (start_draft d (recompose_of q) a) = entry_words q \<and> ap_draft_open (start_draft d (recompose_of q) a)"
    "out = kDraftPending \<Longrightarrow> ap_screen (start_draft d (recompose_of q) a) = ConflictScreen \<and>
       ap_pending (start_draft d (recompose_of q) a) = recompose_of q"
    "out \<noteq> kStarted \<Longrightarrow> words_of (start_draft d (recompose_of q) a) = words_of a"
  using assms by (cases out; simp add: start_draft_def recompose_of_def app_io_def words_of_def entry_words_def go_io
      call_drafts_def call_outbox_def open_compose_def Let_def)+

lemma recompose_words:
  assumes "desk_ok base a" "ox_on base (files (app_io a)) (oe_local_id q) = Some q" "oe_body q \<noteq> [] \<or> oe_subject q \<noteq> []"
  shows "through (kept_somewhere base (entry_words q)) (app_io a) (app_io (start_draft d (recompose_of q) a))"
    "(case uw_drafts (ap_world a) of None \<Rightarrow> False | Some ds \<Rightarrow> ds_pending ds) \<Longrightarrow>
      app_io (start_draft d (recompose_of q) a) = app_io a \<and> ap_screen (start_draft d (recompose_of q) a) = ConflictScreen \<and>
      words_of (start_draft d (recompose_of q) a) = words_of a"
    "script (app_io a) = [] \<Longrightarrow> (case uw_drafts (ap_world a) of None \<Rightarrow> False | Some ds \<Rightarrow> \<not> ds_pending ds) \<Longrightarrow>
      words_of (start_draft d (recompose_of q) a) = entry_words q \<and>
      (\<forall>keep. slot_words (join base k_draft_file) (crash keep (files (app_io (start_draft d (recompose_of q) a)))) = Some (entry_words q))"
proof -
  let ?p = "join base k_draft_file" and ?fs0 = "files (app_io a)" and ?w = "entry_words q"
  let ?x = "draft_of (oe_contact_id q) (oe_subject q) (oe_body q) a"
  obtain ox ds where k: "uw_outbox (ap_world a) = Some ox" "uw_drafts (ap_world a) = Some ds"
    "mem_inv base ox ?fs0" "ds_path ds = ?p" "durable_file ?p ?fs0" "is_i64 (ui_now_epoch a)" "dir_ok base" "ox_rooted base ox"
    "ox_durable base ?fs0" "\<And>x. x \<in> set (ox_entries ox) \<Longrightarrow> name_is_safe (oe_local_id x)"
    using desk_okE [OF assms(1)] by metis
  obtain out ds' e where st: "draft_start ?x ds (app_io a) = (out, ds', e)" by (metis prod_cases3)
  obtain ok ox' f where dis: "outbox_discard (oe_local_id q) ox e = (ok, ox', f)" by (metis prod_cases3)
  note S = start_draft_io [OF k(2,1) st dis, of d]
  have in0: "in_outbox base ?fs0 ?w" using assms(2) by (auto simp: in_outbox_def)
  have kept0: "kept_somewhere base ?w ?fs0" using in0 k(9) by (simp add: kept_somewhere_def in_outbox_crash)
  have words: "map_option draft_words (usable ?x) = Some ?w"
    using draft_of_words [OF assms(3)] by (simp add: entry_words_def)
  show "app_io (start_draft d (recompose_of q) a) = app_io a \<and> ap_screen (start_draft d (recompose_of q) a) = ConflictScreen \<and>
      words_of (start_draft d (recompose_of q) a) = words_of a"
    if "case uw_drafts (ap_world a) of None \<Rightarrow> False | Some ds \<Rightarrow> ds_pending ds"
    using that st S k(2) by (auto simp: draft_start_def)
  show "through (kept_somewhere base ?w) (app_io a) (app_io (start_draft d (recompose_of q) a))"
  proof (cases "ds_pending ds")
    case True
    then have "e = app_io a" "out = kDraftPending" using st by (simp_all add: draft_start_def)
    with S(1) kept0 show ?thesis by (simp add: through_refl)
  next
    case False
    obtain o1 d1 e1 where sv: "draft_save ?x ds (app_io a) = (o1, d1, e1)" by (metis prod_cases3)
    with st False have r: "e = e1" "out = (if o1 then kStarted else kWriteFailed)" by (auto simp: draft_start_def)
    note W = save_words [OF sv draft_of_ok [OF k(6)] k(5) [folded k(4)], unfolded words k(4)]
    have tmp: "tmp_of ?p = join base (k_temp_prefix @ k_draft_file)"
      using k(7) draft_plain by (simp add: tmp_of_join plain_name_def)
    have "only_in (slot_files base) (app_io a) e1"
      by (rule only_in_mono [OF W(4)]) (simp add: slot_files_def named_def tmp)
    from outbox_untouched [OF this k(7,9)]
    have T1: "through (kept_somewhere base ?w) (app_io a) e1"
      by (rule through_mono) (use assms(2) in \<open>auto simp: kept_somewhere_def in_outbox_def\<close>)
    have T2: "through (kept_somewhere base ?w) e1 f" if o1
    proof -
      have d: "only_in (in_dir base k_outbox_dir) e1 f"
        using outbox_discard_only [OF dis k(8)] k(10) r(1) by blast
      have "?p \<notin> in_dir base k_outbox_dir" using slot_apart [OF k(7)] slot_in [of base] by (auto simp: other_files_def)
      moreover have "durable_file ?p (files e1)" using through_files [OF W(1)] by simp
      ultimately have "through (\<lambda>fs. durable_file ?p fs \<and> (\<forall>keep. slot_words ?p (crash keep fs) = slot_words ?p (files e1))) e1 f"
        by (rule slot_untouched [OF d])
      then show ?thesis
      proof (rule through_mono)
        fix fs
        assume "durable_file ?p fs \<and> (\<forall>keep. slot_words ?p (crash keep fs) = slot_words ?p (files e1))"
        moreover have "slot_words ?p (crash (\<lambda>_. 0) (files e1)) = slot_words ?p (files e1)"
          by (rule slot_words_crash) fact
        ultimately show "kept_somewhere base ?w fs"
          using W(2) [OF that, of "\<lambda>_. 0"] by (simp add: kept_somewhere_def)
      qed
    qed
    show ?thesis using S(1) r T1 T2 through_trans by (cases o1) auto
  qed
  show "words_of (start_draft d (recompose_of q) a) = ?w \<and>
      (\<forall>keep. slot_words ?p (crash keep (files (app_io (start_draft d (recompose_of q) a)))) = Some ?w)"
    if n: "script (app_io a) = []" "case uw_drafts (ap_world a) of None \<Rightarrow> False | Some ds \<Rightarrow> \<not> ds_pending ds"
  proof -
    obtain o1 d1 e1 where sv: "draft_save ?x ds (app_io a) = (o1, d1, e1)" by (metis prod_cases3)
    note W = save_words [OF sv draft_of_ok [OF k(6)] k(5) [folded k(4)], unfolded words k(4)]
    have r: "e = e1" "out = kStarted" using st n k(2) sv W(5) [OF n(1)] by (auto simp: draft_start_def)
    have d: "only_in (in_dir base k_outbox_dir) e1 f" using outbox_discard_only [OF dis k(8)] k(10) r(1) by blast
    have out: "?p \<notin> in_dir base k_outbox_dir" using slot_apart [OF k(7)] slot_in [of base] by (auto simp: other_files_def)
    have dur: "durable_file ?p (files e1)" using through_files [OF W(1)] by simp
    have "slot_words ?p (crash keep (files f)) = Some ?w" for keep
      using through_files [OF slot_untouched [OF d out dur]] W(2) [of "\<lambda>_. 0"] W(5) [OF n(1)] slot_words_crash [OF dur, of "\<lambda>_. 0"] by simp
    with S r show ?thesis by simp
  qed
qed


subsection \<open>Keys\<close>

lemma desk_ok_cong:
  assumes "ap_world a = ap_world b"
  shows "desk_ok base a = desk_ok base b"
  by (simp only: desk_ok_def ui_now_epoch_def assms)

lemma touched_desk: "desk_ok base (touched e a) = desk_ok base a" "words_of (touched e a) = words_of a"
  "app_io (touched e a) = app_io a"
  by (simp_all add: words_of_def app_io_def desk_ok_cong [OF touched_frame(32)])

lemma shown_words: "words_of (shown d p) = words_of (snd p)" "app_io (shown d p) = app_io (snd p)"
  by (simp_all add: words_of_def app_io_def)

lemma type_char_quiet: "app_io (snd (type_char d cp a)) = app_io a" "ap_draft_open (snd (type_char d cp a)) = ap_draft_open a"
  "ap_screen (snd (type_char d cp a)) = ap_screen a"
  by (simp_all add: type_char_def set_field_text_def app_io_def Let_def)

text \<open>What one key on the writing screen does to the words, with the medium before and after.\<close>

definition words_survive :: "string \<Rightarrow> app \<Rightarrow> app \<Rightarrow> bool" where
  "words_survive base a b \<longleftrightarrow> through (saved_or_before base (words_of a) (files (app_io a))) (app_io a) (app_io b) \<and>
    (if ap_draft_open b then ap_screen b = WriteScreen \<or> words_of b = words_of a
     else \<forall>keep. in_outbox base (crash keep (files (app_io b))) (words_of a)) \<and>
    (if ap_screen b \<noteq> WriteScreen \<and> script (app_io a) = [] then kept_somewhere base (words_of a) (files (app_io b)) else True)"

lemma words_survive_same:
  assumes "desk_ok base a" "app_io b = app_io a" "ap_screen b = WriteScreen" "ap_draft_open b"
  shows "words_survive base a b"
proof -
  have "durable_file (join base k_draft_file) (files (app_io a))" using desk_okE [OF assms(1)] by metis
  then have "saved_or_before base (words_of a) (files (app_io a)) (files (app_io a))"
    by (simp add: saved_or_before_def slot_words_crash)
  with assms show ?thesis by (simp add: words_survive_def through_refl)
qed

lemma key_write_words:
  assumes "desk_ok base a" "ap_screen a = WriteScreen" "ap_draft_open a" "ap_body a \<noteq> [] \<or> ap_subject a \<noteq> []"
  shows "words_survive base a (snd (key_write d e a))"
proof -
  have quiet: ?thesis if "app_io (snd (key_write d e a)) = app_io a" "ap_screen (snd (key_write d e a)) = WriteScreen"
    "ap_draft_open (snd (key_write d e a))"
    using words_survive_same [OF assms(1) that] .
  show ?thesis
  proof (cases "ke_key e")
    case KeyEnter
    from send_words [OF assms(1,3), of d] KeyEnter assms(2,3) show ?thesis
      by (auto simp: words_survive_def key_write_def kept_somewhere_def)
  next
    case KeyBack
    let ?b = "go PickScreen (autosave_draft a)"
    have "app_io ?b = app_io (autosave_draft a)" "words_of ?b = words_of a" "ap_draft_open ?b"
      using assms(3) by (simp_all add: app_io_def words_of_def go_io)
    with autosave_words [OF assms(1,3,4)] KeyBack show ?thesis
      by (auto simp: words_survive_def key_write_def kept_somewhere_def)
  qed (rule quiet; use assms(2,3) in \<open>simp add: key_write_def type_char_quiet type_char_quiet [unfolded app_io_def]
      set_field_text_def app_io_def\<close>)+
qed

lemma words_survive_cong:
  "words_of a = words_of a' \<Longrightarrow> app_io a = app_io a' \<Longrightarrow> words_of b = words_of b' \<Longrightarrow> app_io b = app_io b' \<Longrightarrow>
   ap_screen b = ap_screen b' \<Longrightarrow> ap_draft_open b = ap_draft_open b' \<Longrightarrow> words_survive base a b = words_survive base a' b'"
  by (simp only: words_survive_def)

lemma rebuild_sel: "sel a = 0 \<Longrightarrow> sel (rebuild d a) = 0"
  by (auto simp: rebuild_def sel_def set_sel_def Let_def)

lemma shown_sel: "sel (snd p) = 0 \<Longrightarrow> sel (shown d p) = 0"
  using rebuild_sel [of "snd p" d]
  by (auto simp: shown_def present_def sel_def Let_def case_prod_unfold split: option.splits)

lemma go_sel: "s \<noteq> ap_screen a \<Longrightarrow> sel (go s a) = 0"
  by (simp add: go_def sel_def reload_outbox_def reload_contacts_def reload_letters_def call_letters_def Let_def
      case_prod_unfold split: option.splits)

lemma go_words [simp]: "words_of (go s a) = words_of a"
  by (simp add: words_of_def)

lemma list_loop_quiet: "script d = [] \<Longrightarrow> snd (list_loop s limit out ms d) = d"
  by (induction s limit out ms d rule: list_loop.induct) (auto simp: load_letter_def read_all_no_faults split: option.splits)

lemma go_quiet: "script (app_io a) = [] \<Longrightarrow> app_io (go s a) = app_io a"
  using list_loop_quiet [of "app_io a"]
  by (auto simp: go_def app_io_def reload_letters_def call_letters_def list_newest_first_def case_prod_unfold Let_def split: option.splits)


text \<open>What the desk and the words keep while the screens only move about.\<close>

definition moved :: "app \<Rightarrow> app \<Rightarrow> bool" where
  "moved a b \<longleftrightarrow> words_of b = words_of a \<and> app_io b = app_io a \<and> ap_draft_open b = ap_draft_open a \<and>
     uw_outbox (ap_world b) = uw_outbox (ap_world a) \<and> uw_drafts (ap_world b) = uw_drafts (ap_world a) \<and>
     uw_now_epoch (ap_world b) = uw_now_epoch (ap_world a)"

lemma moved_trans: "moved a b \<Longrightarrow> moved b c \<Longrightarrow> moved a c"
  by (simp add: moved_def)

lemma moved_shown: "moved (touched e a) (snd p) \<Longrightarrow> moved a (shown d p)"
  by (simp add: moved_def shown_words touched_desk)

lemma moved_go: "script (app_io a) = [] \<Longrightarrow> moved a (go s a)"
  by (simp add: moved_def go_quiet)

lemma moved_desk: "moved a b \<Longrightarrow> desk_ok base b = desk_ok base a"
  by (simp only: moved_def desk_ok_def ui_now_epoch_def app_io_def)

lemma key_tab:
  assumes "script (app_io a) = []" "screen_key d e (touched e a) = (FastPaint, tab 1 (touched e a))"
    "ap_screen a = InboxScreen \<and> s = PickScreen \<or> ap_screen a = PickScreen \<and> s = OutboxScreen"
  shows "moved a (app_key d e a)" "ap_screen (app_key d e a) = s" "sel (app_key d e a) = 0"
    "s = OutboxScreen \<Longrightarrow> ap_queued (app_key d e a) = (case uw_outbox (ap_world a) of None \<Rightarrow> [] | Some s \<Rightarrow> ox_all s)"
proof -
  let ?t = "touched e a"
  have "tab 1 ?t = go s ?t"
    using assms(3) by (auto simp: tab_def k_tabs_def k_tab_count_def upt_rec numeral_eq_Suc Let_def)
  then have b: "app_key d e a = shown d (FastPaint, go s ?t)" using assms(2) by (simp add: app_key_shown)
  show "moved a (app_key d e a)" unfolding b by (rule moved_shown [where e = e]) (use assms(1) in \<open>simp add: moved_go touched_desk\<close>)
  show "ap_screen (app_key d e a) = s" by (simp add: b)
  show "sel (app_key d e a) = 0" unfolding b by (rule shown_sel) (use assms(3) in \<open>auto simp: go_sel\<close>)
  show "ap_queued (app_key d e a) = (case uw_outbox (ap_world a) of None \<Rightarrow> [] | Some s \<Rightarrow> ox_all s)" if "s = OutboxScreen"
    using that by (simp add: b) (simp add: go_def reload_outbox_def)
qed

lemma reopen_key:
  assumes "desk_ok base a" "ap_screen a = OutboxScreen" "sel_index a < length (ap_queued a)" "q = ap_queued a ! sel_index a"
    "oe_rejected q" "ox_on base (files (app_io a)) (oe_local_id q) = Some q" "oe_body q \<noteq> [] \<or> oe_subject q \<noteq> []"
    "uw_drafts (ap_world a) = Some ds" "b = app_key d \<lparr>ke_key = KeyEnter, ke_codepoint = cp\<rparr> a"
  shows "through (kept_somewhere base (entry_words q)) (app_io a) (app_io b) \<and>
    (if ds_pending ds then app_io b = app_io a \<and> ap_screen b = ConflictScreen \<and> words_of b = words_of a
     else if script (app_io a) = [] then words_of b = entry_words q \<and>
       (\<forall>keep. slot_words (join base k_draft_file) (crash keep (files (app_io b))) = Some (entry_words q))
     else True)"
proof -
  let ?e = "\<lparr>ke_key = KeyEnter, ke_codepoint = cp\<rparr>"
  let ?t = "touched ?e a"
  have q: "ap_queued ?t = ap_queued a" "sel_index ?t = sel_index a" "ap_queued a \<noteq> []"
    using assms(3) by (auto simp: sel_index_def sel_def)
  have b: "b = shown d (FastPaint, start_draft d (recompose_of q) ?t)"
    using assms(2-5) q by (simp add: assms(9) app_key_shown screen_key_def key_outbox_def recompose_of_def Let_def)
  have t: "desk_ok base ?t" "ox_on base (files (app_io ?t)) (oe_local_id q) = Some q"
    using assms(1,6) by (simp_all add: touched_desk)
  from recompose_words [OF t assms(7), of d] assms(8) show ?thesis
    by (auto simp: b shown_words touched_desk)
qed

subsection \<open>A desk with one rejected letter\<close>

definition demo_entry :: outbox_entry where
  "demo_entry = \<lparr>oe_local_id = format_local_id 1, oe_contact_id = ''nina'', oe_subject = [], oe_body = ''hola'',
     oe_composed_at = 7, oe_rejected = True, oe_reject_status = kInvalid\<rparr>"

definition demo_box :: outbox where
  "demo_box = \<lparr>ox_dir = join ''/c'' k_outbox_dir, ox_counter_path = join ''/c'' k_local_id_file, ox_high_water = 1, ox_entries = [demo_entry]\<rparr>"

definition demo_medium :: fs where
  "demo_medium = [(join ''/c'' k_local_id_file, whole (dec 1 @ [newline])),
     (join (join ''/c'' k_outbox_dir) (format_local_id 1), whole (encode_entry demo_entry))]"

definition demo_world :: ui_world where
  "demo_world = (lock_world 5)\<lparr>uw_io := boot_io demo_medium [], uw_outbox := Some demo_box,
     uw_drafts := Some \<lparr>ds_path = join ''/c'' k_draft_file, ds_pending = False\<rparr>\<rparr>"

text \<open>Writing ''ay'' to Rosa, the rejected letter listed in the outbox and Nina in the picker.\<close>

definition demo_desk :: "screen \<Rightarrow> app" where
  "demo_desk s = (new_app demo_world)\<lparr>ap_screen := s, ap_unlocked := True, ap_draft_open := True, ap_contact_id := ''rosa'',
     ap_body := ''ay'', ap_queued := [demo_entry], ap_picker := [\<lparr>ct_id = ''nina'', ct_name = ''Nina'', ct_server_name = ''Nina'',
       ct_active = True, ct_pinned = False, ct_order = 0, ct_portrait = []\<rparr>]\<rparr>"

lemma demo_medium_ok: "mem_inv ''/c'' demo_box demo_medium" "ox_on ''/c'' demo_medium (format_local_id 1) = Some demo_entry"
  "durable_file (join ''/c'' k_draft_file) demo_medium"
proof -
  have dir: "dir_ok ''/c''" by (simp add: dir_ok_def slash_def)
  let ?o = "join ''/c'' k_outbox_dir" and ?n = "join ''/c'' k_local_id_file"
  have safe: "name_is_safe (format_local_id 1)" by (rule format_safe) simp
  note apart = counter_apart(1) [OF dir]
  have l: "lookup demo_medium ?n = Some (whole (dec 1 @ [newline]))"
    "lookup demo_medium (join ?o (format_local_id 1)) = Some (whole (encode_entry demo_entry))"
    using apart [OF safe_no_slash [OF safe]] by (simp_all add: demo_medium_def lookup_def)
  have e: "lookup demo_medium p \<noteq> None \<Longrightarrow> p = ?n \<or> p = join ?o (format_local_id 1)" for p
    by (auto simp: demo_medium_def lookup_def split: if_splits)
  have w: "lookup demo_medium p = Some f \<Longrightarrow> durable f = length (content f)" for p f
    by (auto simp: demo_medium_def lookup_def whole_def split: if_splits)
  show on: "ox_on ''/c'' demo_medium (format_local_id 1) = Some demo_entry"
    using l(2) safe decode_encode_entry [of demo_entry] format_safe [of 1]
    by (simp add: ox_on_def outbox_on_unfold whole_def demo_entry_def is_i64_def name_is_safe_def)
  have only: "i = format_local_id 1" if "ox_on ''/c'' demo_medium i \<noteq> None" for i
  proof -
    have i: "name_is_safe i" "lookup demo_medium (join ?o i) \<noteq> None"
      using that by (auto simp: ox_on_def outbox_on_unfold split: if_splits option.splits)
    then have "join ?o i = join ?o (format_local_id 1)" using e apart [OF safe_no_slash [OF i(1)]] by blast
    then show ?thesis
      using join_eq_iff [OF outbox_dir_ok [OF dir] outbox_dir_ok [OF dir] safe_no_slash [OF i(1)] safe_no_slash [OF safe]] by simp
  qed
  have c: "ox_counter ''/c'' demo_medium = 1" using counter_on_written [OF l(1)] by (simp add: ox_counter_def)
  have d: "dom (ox_on ''/c'' demo_medium) \<subseteq> ids_below 1" using only by (fastforce simp: ids_below_def)
  have "ox_durable ''/c'' demo_medium" using w by (auto simp: ox_durable_def durable_dir_def)
  moreover have "format_local_id 1 \<in> ids_below 1" by (simp add: ids_below_def)
  ultimately show "mem_inv ''/c'' demo_box demo_medium"
    using c d dir by (simp add: mem_inv_def fs_inv_def ox_rooted_def demo_box_def) (simp add: demo_entry_def)
  show "durable_file (join ''/c'' k_draft_file) demo_medium" using w by (simp add: durable_file_def)
qed

lemma demo_desk_ok: "desk_ok ''/c'' (demo_desk s)"
  using demo_medium_ok by (simp add: desk_ok_def demo_desk_def demo_world_def new_app_def lock_world_def boot_io_def demo_box_def
      ui_now_epoch_def is_i64_def or_else_def)

subsection \<open>Properties\<close>

text \<open>
  C3: Every key that leaves the writing screen has saved the letter first. Whatever key is pressed there and
  whatever the medium answers, at every durable state on the way the draft slot still holds what it held or
  exactly the words on the screen, or the outbox holds them; the letter is closed only when an entry of the
  outbox that survives a power cut has its words, and is kept in memory otherwise; and when no call fails, leaving
  the screen leaves the words on the medium.\<close>

theorem leaving_the_letter_keeps_words:
  assumes "desk_ok base a" "ap_screen a = WriteScreen" "ap_draft_open a" "ap_body a \<noteq> [] \<or> ap_subject a \<noteq> []"
  shows "words_survive base a (app_key d e a)"
proof -
  let ?t = "touched e a"
  have t: "desk_ok base ?t" "ap_screen ?t = WriteScreen" "ap_draft_open ?t" "ap_body ?t \<noteq> [] \<or> ap_subject ?t \<noteq> []"
    using assms by (simp_all add: touched_desk)
  have b: "app_key d e a = shown d (key_write d e ?t)" using t(2) by (simp add: app_key_shown screen_key_def)
  have "words_survive base a (app_key d e a) = words_survive base ?t (snd (key_write d e ?t))"
    unfolding b by (rule words_survive_cong) (simp_all add: touched_desk shown_words)
  with key_write_words [OF t, of d e] show ?thesis by simp
qed

text \<open>
  C9: Reopening a rejected letter never risks its text. Enter on a rejected entry of the outbox keeps its words
  on the medium, in the outbox or in the slot, at every durable state of the hand-over and whatever fails; a slot
  that holds another letter is left alone and the question is asked; and with an empty slot and no failing call the letter
  opens with its person, subject and text intact, saved in the slot.\<close>

theorem recompose_keeps_words:
  assumes "desk_ok base a" "ap_screen a = OutboxScreen" "sel_index a < length (ap_queued a)" "q = ap_queued a ! sel_index a"
    "oe_rejected q" "ox_on base (files (app_io a)) (oe_local_id q) = Some q" "oe_body q \<noteq> [] \<or> oe_subject q \<noteq> []"
    "uw_drafts (ap_world a) = Some ds" "b = app_key d \<lparr>ke_key = KeyEnter, ke_codepoint = cp\<rparr> a"
  shows "through (kept_somewhere base (entry_words q)) (app_io a) (app_io b) \<and>
    (if ds_pending ds then app_io b = app_io a \<and> ap_screen b = ConflictScreen \<and> words_of b = words_of a
     else if script (app_io a) = [] then words_of b = entry_words q \<and>
       (\<forall>keep. slot_words (join base k_draft_file) (crash keep (files (app_io b))) = Some (entry_words q))
     else True)"
  by (rule reopen_key [OF assms])


text \<open>
  Picking a person re-addresses the letter that is open. On the picker with a letter open for anybody, Enter on a
  person keeps the subject and the text, writes that person into the letter, saves it over the slot and
  goes back to writing, without a question: a letter begun for one person is now for another.\<close>

theorem picking_readdresses_the_letter:
  assumes "desk_ok base a" "ap_screen a = PickScreen" "ap_draft_open a" "ap_body a \<noteq> []" "script (app_io a) = []"
    "sel_index a < length (ap_picker a)" "b = app_key d \<lparr>ke_key = KeyEnter, ke_codepoint = cp\<rparr> a"
  shows "ap_screen b = WriteScreen \<and> words_of b = (ct_id (ap_picker a ! sel_index a), ap_subject a, ap_body a) \<and>
    slot_words (join base k_draft_file) (crash keep (files (app_io b))) = Some (words_of b)"
proof -
  let ?e = "\<lparr>ke_key = KeyEnter, ke_codepoint = cp\<rparr>"
  let ?t = "(touched ?e a)\<lparr>ap_contact_id := ct_id (ap_picker a ! sel_index a)\<rparr>"
  have q: "ap_picker (touched ?e a) = ap_picker a" "sel_index (touched ?e a) = sel_index a" "ap_picker a \<noteq> []"
    using assms(6) by (auto simp: sel_index_def sel_def)
  have b: "b = shown d (FastPaint, go WriteScreen (autosave_draft ?t))"
    using assms(2,3,6) q by (simp add: assms(7) app_key_shown screen_key_def key_pick_def Let_def)
  have "desk_ok base ?t = desk_ok base a" by (rule desk_ok_cong) simp
  with assms(1) have t: "desk_ok base ?t" by simp
  have "app_io ?t = app_io a" by (simp add: app_io_def)
  from autosave_words(2) [OF t, of keep] assms(3-5) this show ?thesis
    by (simp add: b shown_words) (simp add: words_of_def app_io_def go_io)
qed


text \<open>
  C35: A fault screen takes the child out of an unsaved letter. A fault shown over the writing screen leaves it
  without writing the slot; when the letter was opened for a person and not saved since, its text is in
  memory only, and dismissing the fault, moving to the outbox and pressing Enter on a rejected letter there replaces
  it in memory and in the slot, without the question.\<close>

theorem fault_screen_drops_the_letter:
  assumes "desk_ok base a" "ap_screen a = WriteScreen" "ap_draft_open a" "script (app_io a) = []" "k \<noteq> ChargeMe"
    "uw_drafts (ap_world a) = Some ds" "\<not> ds_pending ds" "uw_outbox (ap_world a) = Some ox" "ox_all ox = q # qs" "oe_rejected q"
    "ox_on base (files (app_io a)) (oe_local_id q) = Some q" "oe_body q \<noteq> [] \<or> oe_subject q \<noteq> []"
    "b = ui_run d (EvFault k g # map (\<lambda>k. EvKey \<lparr>ke_key = k, ke_codepoint = 0\<rparr>) [KeyEnter, KeyRight, KeyRight, KeyEnter]) a"
  shows "app_io (show_fault d k g a) = app_io a \<and> ap_screen (show_fault d k g a) = FaultScreen \<and>
    words_of (show_fault d k g a) = words_of a \<and> words_of b = entry_words q \<and>
    (\<forall>keep. slot_words (join base k_draft_file) (crash keep (files (app_io b))) = Some (entry_words q))"
proof -
  let ?e = "\<lambda>k. \<lparr>ke_key = k, ke_codepoint = 0\<rparr>"
  define f where "f = show_fault d k g a"
  define i where "i = app_key d (?e KeyEnter) f"
  define p where "p = app_key d (?e KeyRight) i"
  define o' where "o' = app_key d (?e KeyRight) p"
  have f: "moved a f" "ap_screen f = FaultScreen" "ap_fault f = k"
    using assms(4,5) by (simp_all add: f_def show_fault_def moved_def words_of_def app_io_def go_io Let_def)
  have sf: "script (app_io f) = []" using f(1) assms(4) by (simp add: moved_def)
  let ?g = "(touched (?e KeyEnter) f)\<lparr>ap_fault := NoFault, ap_diagnostic := []\<rparr>"
  have i: "i = shown d (FullPaint, go InboxScreen ?g)"
    using f assms(5) by (simp add: i_def app_key_shown screen_key_def key_fault_def)
  have g: "moved (touched (?e KeyEnter) f) ?g" by (simp add: moved_def words_of_def app_io_def)
  have mi: "moved f i" unfolding i
    by (rule moved_shown [where e = "?e KeyEnter"], simp, rule moved_trans [OF g], rule moved_go)
      (use sf in \<open>simp add: app_io_def\<close>)
  have si: "ap_screen i = InboxScreen" "script (app_io i) = []" using sf mi by (simp_all add: i moved_def)
  have sk: "screen_key d (?e KeyRight) (touched (?e KeyRight) x) = (FastPaint, tab 1 (touched (?e KeyRight) x))"
    if "ap_screen x = InboxScreen \<or> ap_screen x = PickScreen" for x
    using that by (auto simp: screen_key_def key_inbox_def key_pick_def)
  have "ap_screen i = InboxScreen \<and> PickScreen = PickScreen \<or> ap_screen i = PickScreen \<and> PickScreen = OutboxScreen"
    using si(1) by simp
  note P = key_tab [OF si(2) sk this, OF disjI1 [OF si(1)], folded p_def]
  have sp: "script (app_io p) = []" using P(1) si(2) by (simp add: moved_def)
  have "ap_screen p = InboxScreen \<and> OutboxScreen = PickScreen \<or> ap_screen p = PickScreen \<and> OutboxScreen = OutboxScreen"
    using P(2) by simp
  note O = key_tab [OF sp sk this, OF disjI2 [OF P(2)], folded o'_def]
  have m: "moved a o'" using moved_trans [OF moved_trans [OF f(1) mi] moved_trans [OF P(1) O(1)]] .
  have desk: "desk_ok base o'" using moved_desk [OF m] assms(1) by simp
  have qd: "ap_queued o' = q # qs" using O(4) moved_trans [OF moved_trans [OF f(1) mi] P(1)] assms(8,9) by (simp add: moved_def)
  have z: "sel_index o' = 0" using O(3) by (simp add: sel_index_def)
  have b: "b = app_key d (?e KeyEnter) o'"
    by (simp add: assms(13) ui_run_def f_def i_def p_def o'_def)
  have io: "app_io o' = app_io a" "uw_drafts (ap_world o') = Some ds" using m assms(6) by (simp_all add: moved_def)
  have at: "sel_index o' < length (ap_queued o')" "q = ap_queued o' ! sel_index o'" using z qd by simp_all
  have q: "ox_on base (files (app_io o')) (oe_local_id q) = Some q" using assms(11) io(1) by simp
  have so: "ap_screen o' = OutboxScreen" using O(2) by simp
  from reopen_key [OF desk so at assms(10) q assms(12) io(2) b] assms(4,7) io(1)
  have "words_of b = entry_words q \<and>
    (\<forall>keep. slot_words (join base k_draft_file) (crash keep (files (app_io b))) = Some (entry_words q))"
    by simp
  with f show ?thesis by (simp add: f_def moved_def)
qed


subsection \<open>Witnesses\<close>

lemma demo_desk_simps [simp]:
  "ap_screen (demo_desk s) = s" "ap_draft_open (demo_desk s)" "ap_body (demo_desk s) = ''ay''" "ap_subject (demo_desk s) = []"
  "ap_contact_id (demo_desk s) = ''rosa''" "app_io (demo_desk s) = boot_io demo_medium []" "sel_index (demo_desk s) = 0"
  "ap_queued (demo_desk s) = [demo_entry]" "length (ap_picker (demo_desk s)) = 1" "ct_id (ap_picker (demo_desk s) ! 0) = ''nina''"
  "uw_outbox (ap_world (demo_desk s)) = Some demo_box"
  "uw_drafts (ap_world (demo_desk s)) = Some \<lparr>ds_path = join ''/c'' k_draft_file, ds_pending = False\<rparr>"
  "words_of (demo_desk s) = (''rosa'', [], ''ay'')"
  by (simp_all add: demo_desk_def new_app_def app_io_def sel_index_def sel_def demo_world_def words_of_def)

lemma demo_entry_simps [simp]:
  "oe_rejected demo_entry" "oe_local_id demo_entry = format_local_id 1" "oe_body demo_entry = ''hola''" "oe_subject demo_entry = []"
  "entry_words demo_entry = (''nina'', [], ''hola'')"
  by (simp_all add: demo_entry_def entry_words_def)

lemma demo_boot [simp]: "script (boot_io demo_medium []) = []" "files (boot_io demo_medium []) = demo_medium"
  by (simp_all add: boot_io_def)

lemma leaving_the_letter_keeps_words_witness:
  "words_survive ''/c'' (demo_desk WriteScreen) (app_key mute_deps enter_key (demo_desk WriteScreen))"
  using leaving_the_letter_keeps_words [OF demo_desk_ok] by simp

lemma recompose_keeps_words_witness:
  "words_of (app_key mute_deps \<lparr>ke_key = KeyEnter, ke_codepoint = 0\<rparr> (demo_desk OutboxScreen)) = (''nina'', [], ''hola'')"
  using recompose_keeps_words [OF demo_desk_ok _ _ refl _ _ _ _ refl, of OutboxScreen _ mute_deps 0] demo_medium_ok(2) by simp

lemma picking_readdresses_the_letter_witness:
  "words_of (app_key mute_deps \<lparr>ke_key = KeyEnter, ke_codepoint = 0\<rparr> (demo_desk PickScreen)) = (''nina'', [], ''ay'')"
  using picking_readdresses_the_letter [OF demo_desk_ok _ _ _ _ _ refl, of PickScreen mute_deps 0] by simp

lemma fault_screen_drops_the_letter_witness:
  "words_of (ui_run mute_deps (EvFault RoadBusy [] # map (\<lambda>k. EvKey \<lparr>ke_key = k, ke_codepoint = 0\<rparr>)
     [KeyEnter, KeyRight, KeyRight, KeyEnter]) (demo_desk WriteScreen)) = (''nina'', [], ''hola'')"
proof -
  have "ox_all demo_box = [demo_entry]" by (simp add: ox_all_def ox_ordered_def demo_box_def)
  then show ?thesis
    using fault_screen_drops_the_letter [OF demo_desk_ok _ _ _ _ _ _ _ _ _ _ _ refl, of WriteScreen RoadBusy _ demo_box demo_entry "[]" mute_deps "[]"]
      demo_medium_ok(2) by simp
qed

end
