(* ===== verification/Ui_Paint.thy ===== *)
theory Ui_Paint
  imports Ui_Lock
begin

text \<open>
  What the screens of \<^verbatim>\<open>components/ui/ui.cpp\<close> put on the glass and take from the keyboard: every call of the painter
  stays on the panel and the selected row is among them, partial refreshes are bounded in any run, and typing respects
  the cap.
\<close>

subsection \<open>Refreshes\<close>

definition is_partial :: "ui_call \<Rightarrow> bool" where
  "is_partial c = (case c of Glass (PartialRefresh _ _) \<Rightarrow> True | _ \<Rightarrow> False)"

definition is_full :: "ui_call \<Rightarrow> bool" where
  "is_full c = (case c of Glass (FullRefresh _) \<Rightarrow> True | _ \<Rightarrow> False)"

text \<open>Partial refreshes since the last full one.\<close>

definition partials_since :: "ui_call list \<Rightarrow> int" where
  "partials_since cs = fold (\<lambda>c n. if is_full c then 0 else if is_partial c then n + 1 else n) cs 0"

lemma partials_since_append:
  "partials_since (xs @ [c]) = (if is_full c then 0 else if is_partial c then partials_since xs + 1 else partials_since xs)"
  by (simp add: partials_since_def)

lemma partials_since_draws: "partials_since (xs @ map Draw ys) = partials_since xs"
  by (induction ys rule: rev_induct)
    (simp_all add: partials_since_append is_full_def is_partial_def flip: append_assoc)

definition ghost_inv :: "app \<Rightarrow> bool" where
  "ghost_inv a \<longleftrightarrow> partials_since (uw_calls (ap_world a)) = ap_partials_since_full a \<and>
     list_all (\<lambda>cs. partials_since cs < k_partials_before_full_refresh) (prefixes (uw_calls (ap_world a)))"

lemma ghost_inv_cong:
  "uw_calls (ap_world a) = uw_calls (ap_world b) \<Longrightarrow> ap_partials_since_full a = ap_partials_since_full b \<Longrightarrow> ghost_inv a = ghost_inv b"
  by (simp add: ghost_inv_def)

lemma list_all_prefixes_snoc: "list_all P (prefixes (xs @ [c])) = (list_all P (prefixes xs) \<and> P (xs @ [c]))"
  by (auto simp: list_all_iff prefix_def append_eq_append_conv2 Cons_eq_append_conv)

lemma prefixes_draws:
  "list_all (\<lambda>cs. partials_since cs < n) (prefixes xs) \<Longrightarrow> list_all (\<lambda>cs. partials_since cs < n) (prefixes (xs @ map Draw ys))"
proof (induction ys rule: rev_induct)
  case (snoc y ys)
  then have "partials_since xs < n" by (auto simp: list_all_iff)
  with snoc show ?case
    using partials_since_draws [of xs "ys @ [y]"] by (simp add: list_all_prefixes_snoc flip: append_assoc)
qed simp

lemma present_ghost: "ghost_inv a \<Longrightarrow> ghost_inv (present d r a)"
proof -
  assume a: "ghost_inv a"
  show ?thesis
  proof (cases "ud_painter d = None \<or> \<not> ud_panel d")
    case True
    then have "uw_calls (ap_world (present d r a)) = uw_calls (ap_world a)"
      "ap_partials_since_full (present d r a) = ap_partials_since_full a"
      by (auto simp: present_def Let_def split: option.splits)
    with a show ?thesis using ghost_inv_cong by blast
  next
    case False
    then obtain p where p: "ud_painter d = Some p" "ud_panel d" by auto
    obtain r' n where c: "choose_refresh r (ap_partials_since_full a) = (r', n)" by fastforce
    let ?ds = "view_calls d (ui_metrics (rebuild d a)) (ap_view (rebuild d a))"
    obtain g where g: "uw_calls (ap_world (present d r a)) = uw_calls (ap_world a) @ map Draw ?ds @ [Glass g]"
      "ap_partials_since_full (present d r a) = n"
      "is_full (Glass g) = (r' = FullPaint)" "is_partial (Glass g) = (r' = PartialPaint)"
      using p c by (cases r') (auto simp: present_def Let_def is_full_def is_partial_def)
    have n: "n = (if r' = FullPaint then 0 else if r' = PartialPaint then ap_partials_since_full a + 1 else ap_partials_since_full a)"
      "n < k_partials_before_full_refresh"
      using a c by (auto simp: choose_refresh_def Let_def ghost_inv_def list_all_iff k_partials_before_full_refresh_def split: if_splits)
    have s: "partials_since (uw_calls (ap_world (present d r a))) = n"
      using a g n(1) partials_since_draws [of "uw_calls (ap_world a)" ?ds]
      by (simp add: ghost_inv_def partials_since_append flip: append_assoc)
    with a g n(2) prefixes_draws [of k_partials_before_full_refresh "uw_calls (ap_world a)" ?ds] show ?thesis
      by (simp add: ghost_inv_def list_all_prefixes_snoc flip: append_assoc)
  qed
qed


text \<open>No handler draws, and none touches the count.\<close>

definition undrawn :: "app \<Rightarrow> app \<Rightarrow> bool" where
  "undrawn a b \<longleftrightarrow> uw_calls (ap_world b) = uw_calls (ap_world a) \<and> ap_partials_since_full b = ap_partials_since_full a"

lemma undrawn_ghost: "undrawn a b \<Longrightarrow> ghost_inv a \<Longrightarrow> ghost_inv b"
  using ghost_inv_cong [of a b] by (simp add: undrawn_def)

lemma open_compose_undrawn [simp]:
  "uw_calls (ap_world (open_compose c s b a)) = uw_calls (ap_world a)"
  "ap_partials_since_full (open_compose c s b a) = ap_partials_since_full a"
  by (simp_all add: open_compose_def Let_def)

lemma start_draft_undrawn [simp]:
  "uw_calls (ap_world (start_draft d p a)) = uw_calls (ap_world a)"
  "ap_partials_since_full (start_draft d p a) = ap_partials_since_full a"
  by (auto simp: start_draft_def Let_def case_prod_unfold split: start_outcome.splits)

lemma send_undrawn [simp]:
  "uw_calls (ap_world (send d a)) = uw_calls (ap_world a)"
  "ap_partials_since_full (send d a) = ap_partials_since_full a"
  by (auto simp: send_def close_compose_def Let_def case_prod_unfold split: option.splits)

lemma pending_undrawn [simp]:
  "uw_calls (ap_world (keep_pending_draft a)) = uw_calls (ap_world a)"
  "ap_partials_since_full (keep_pending_draft a) = ap_partials_since_full a"
  "uw_calls (ap_world (drop_pending_draft d a)) = uw_calls (ap_world a)"
  "ap_partials_since_full (drop_pending_draft d a) = ap_partials_since_full a"
  by (auto simp: keep_pending_draft_def drop_pending_draft_def close_compose_def Let_def case_prod_unfold split: option.splits)

lemma tab_undrawn [simp]:
  "uw_calls (ap_world (tab n a)) = uw_calls (ap_world a)" "ap_partials_since_full (tab n a) = ap_partials_since_full a"
  by (simp_all add: tab_def Let_def)

lemma paginate_undrawn [simp]:
  "uw_calls (ap_world (paginate_open d a)) = uw_calls (ap_world a)"
  "ap_partials_since_full (paginate_open d a) = ap_partials_since_full a"
  by (simp_all add: paginate_open_def Let_def)

lemma settings_undrawn [simp]:
  "uw_calls (ap_world (cycle_font d a)) = uw_calls (ap_world a)"
  "ap_partials_since_full (cycle_font d a) = ap_partials_since_full a"
  "uw_calls (ap_world (cycle_frontlight a)) = uw_calls (ap_world a)"
  "ap_partials_since_full (cycle_frontlight a) = ap_partials_since_full a"
  by (simp_all add: cycle_font_def cycle_frontlight_def Let_def case_prod_unfold split: option.splits)

lemma contacts_undrawn [simp]:
  "uw_calls (ap_world (toggle_pinned a)) = uw_calls (ap_world a)"
  "ap_partials_since_full (toggle_pinned a) = ap_partials_since_full a"
  "uw_calls (ap_world (commit_nickname a)) = uw_calls (ap_world a)"
  "ap_partials_since_full (commit_nickname a) = ap_partials_since_full a"
  by (simp_all add: toggle_pinned_def commit_nickname_def Let_def case_prod_unfold)

lemma open_letter_undrawn: "undrawn a (snd (open_selected_letter d a))"
  by (simp add: undrawn_def open_selected_letter_def Let_def case_prod_unfold)

lemma handlers_undrawn:
  "undrawn a (snd (key_cover e a))" "undrawn a (snd (key_pin d e a))" "undrawn a (snd (key_inbox d e a))"
  "undrawn a (snd (key_read e a))" "undrawn a (snd (key_pick d e a))" "undrawn a (snd (key_write d e a))"
  "undrawn a (snd (key_outbox d e a))" "undrawn a (snd (key_conflict d e a))" "undrawn a (snd (key_settings d e a))"
  "undrawn a (snd (key_contacts d e a))" "undrawn a (snd (key_fault e a))" "undrawn a (snd (key_lines e a))"
  using open_letter_undrawn [of a d]
  by (cases "ke_key e"; simp add: undrawn_def key_cover_def key_pin_def key_inbox_def key_read_def key_pick_def key_write_def
      key_outbox_def key_conflict_def key_settings_def key_contacts_def key_nickname_edit_def key_fault_def key_lines_def
      type_char_def set_field_text_def Let_def)+

lemma screen_key_undrawn: "undrawn a (snd (screen_key d e a))"
  by (cases "ap_screen a") (simp_all add: screen_key_def handlers_undrawn)

lemma shown_ghost: "ghost_inv (snd p) \<Longrightarrow> ghost_inv (shown d p)"
  using present_ghost [of "snd p" d "fst p"] ghost_inv_cong [of "rebuild d (snd p)" "snd p"]
  by (auto simp: shown_def case_prod_unfold)

lemma present_undrawn_ghost: "undrawn a b \<Longrightarrow> ghost_inv a \<Longrightarrow> ghost_inv (present d r b)"
  by (rule present_ghost) (rule undrawn_ghost)

lemma tick_ghost:
  assumes "ghost_inv a"
  shows "ghost_inv (app_tick d a)"
proof -
  define b where "b = (if ap_draft_open a \<and> k_draft_autosave_interval_ms \<le> ui_now a - ap_last_save_ms a then autosave_draft a else a)"
  have eq: "app_tick d a = (if ap_screen a = PinScreen \<and> \<not> pin_required a
      then present d FullPaint (open_after_unlock (a\<lparr>ap_unlocked := True\<rparr>))
      else if ap_deferred_paint b \<and> k_compose_idle_refresh_ms \<le> ui_now a - ap_last_edit_ms b
      then present d PartialPaint (b\<lparr>ap_deferred_paint := False\<rparr>)
      else if ap_screen b = PinScreen \<and> ap_backoff_until_ms b \<noteq> 0 \<and> ap_backoff_until_ms b \<le> ui_now a
      then present d FastPaint (b\<lparr>ap_backoff_until_ms := 0\<rparr>) else b)"
    unfolding app_tick_def Let_def b_def by (rule refl)
  have u: "undrawn a (open_after_unlock (a\<lparr>ap_unlocked := True\<rparr>))" "undrawn a b" "undrawn a (b\<lparr>ap_deferred_paint := False\<rparr>)"
    "undrawn a (b\<lparr>ap_backoff_until_ms := 0\<rparr>)"
    by (simp_all add: undrawn_def b_def)
  show ?thesis unfolding eq using present_undrawn_ghost [OF u(1) assms] present_undrawn_ghost [OF u(3) assms]
      present_undrawn_ghost [OF u(4) assms] undrawn_ghost [OF u(2) assms] by presburger
qed

lemma ghost_step: "ghost_inv a \<Longrightarrow> ghost_inv (ui_step d ev a)"
proof (cases ev)
  case (EvKey e)
  assume a: "ghost_inv a"
  have "undrawn a (touched e a)" by (simp add: undrawn_def)
  with undrawn_ghost [OF screen_key_undrawn] undrawn_ghost a shown_ghost EvKey show ?thesis
    by (simp add: app_key_shown)
next
  case (EvFault k g)
  assume a: "ghost_inv a"
  define b where "b = (if k = ChargeMe then a\<lparr>ap_fault := k, ap_diagnostic := g, ap_charge_me := True\<rparr>
      else a\<lparr>ap_fault := k, ap_diagnostic := g\<rparr>)"
  have "undrawn a (go FaultScreen b)" by (simp add: undrawn_def b_def)
  from present_undrawn_ghost [OF this a] EvFault show ?thesis by (simp add: show_fault_def Let_def b_def)
next
  case EvTick
  assume "ghost_inv a"
  with EvTick tick_ghost show ?thesis by simp
next
  case EvAutosave
  assume a: "ghost_inv a"
  have "undrawn a (autosave_draft a)" by (simp add: undrawn_def)
  from undrawn_ghost [OF this a] EvAutosave show ?thesis by simp
next
  case (EvWorld w)
  assume a: "ghost_inv a"
  have "undrawn a (ui_step d ev a)" by (simp add: EvWorld undrawn_def)
  from undrawn_ghost [OF this a] show ?thesis .
qed

lemma ghost_run: "ghost_inv a \<Longrightarrow> ghost_inv (ui_run d evs a)"
  by (induction evs arbitrary: a) (simp_all add: ui_run_def ghost_step)

lemma ghost_start: "ghost_inv a \<Longrightarrow> ghost_inv (app_start d s a)"
proof -
  assume a: "ghost_inv a"
  define b where "b = a\<lparr>ap_last_key_ms := ui_now a, ap_last_save_ms := ui_now a\<rparr>"
  have eq: "app_start d s a = (if pin_required b then present d FullPaint (go PinScreen b)
     else if s = CoverScreen then present d FullPaint (go CoverScreen b)
     else present d FullPaint (if fst (offer_pending_draft b) then snd (offer_pending_draft b) else go s (snd (offer_pending_draft b))))"
    by (simp add: app_start_def b_def Let_def case_prod_unfold)
  have u: "undrawn a (go PinScreen b)" "undrawn a (go CoverScreen b)"
    "undrawn a (if fst (offer_pending_draft b) then snd (offer_pending_draft b) else go s (snd (offer_pending_draft b)))"
    by (simp_all add: undrawn_def b_def)
  show ?thesis unfolding eq using present_undrawn_ghost [OF u(1) a] present_undrawn_ghost [OF u(2) a]
      present_undrawn_ghost [OF u(3) a] by presburger
qed


subsection \<open>Rows on the panel\<close>

text \<open>The rows a call touches lie in the window.\<close>

definition on_rows :: "int \<Rightarrow> int \<Rightarrow> paint_call \<Rightarrow> bool" where
  "on_rows lo hi c = (case c of Clear _ _ \<Rightarrow> True | DrawText r _ _ \<Rightarrow> lo \<le> r \<and> r < hi | DrawGlyph r _ _ \<Rightarrow> lo \<le> r \<and> r < hi)"

lemma on_rows_simps [simp]:
  "on_rows lo hi (Clear w h)" "on_rows lo hi (DrawText r c t) = (lo \<le> r \<and> r < hi)" "on_rows lo hi (DrawGlyph r c g) = (lo \<le> r \<and> r < hi)"
  by (simp_all add: on_rows_def)

lemma on_rows_mono: "on_rows lo hi c \<Longrightarrow> lo' \<le> lo \<Longrightarrow> hi \<le> hi' \<Longrightarrow> on_rows lo' hi' c"
  by (auto simp: on_rows_def split: paint_call.splits)

lemma paint_lines_rows:
  "paint_lines bound ls r = (calls, r') \<Longrightarrow> list_all (on_rows r bound) calls \<and> r \<le> r' \<and> (r \<le> bound \<longrightarrow> r' = min bound (r + int (length ls)))"
proof (induction bound ls r arbitrary: calls r' rule: paint_lines.induct)
  case (2 bound l ls r)
  show ?case
  proof (cases "bound \<le> r")
    case True
    with 2 show ?thesis by auto
  next
    case False
    obtain cs q where q: "paint_lines bound ls (r + 1) = (cs, q)" by fastforce
    with 2(2) False have e: "calls = DrawText r 0 l # cs" "r' = q" by simp_all
    have "list_all (on_rows r bound) cs"
      using 2(1) [OF False q] by (auto simp: list_all_iff intro: on_rows_mono)
    with 2(1) [OF False q] e False show ?thesis by (auto simp: add.assoc)
  qed
qed auto

lemma paint_row_rows: "r < bound \<Longrightarrow> list_all (on_rows r bound) (paint_row d cols selected item r)"
  by (simp add: paint_row_def)

definition selections :: "paint_call list \<Rightarrow> paint_call list" where
  "selections cs = filter (\<lambda>c. case c of DrawGlyph _ c g \<Rightarrow> c = 0 \<and> g = GlyphSelected | _ \<Rightarrow> False) cs"

lemma selections_append [simp]: "selections (xs @ ys) = selections xs @ selections ys"
  by (simp add: selections_def)

lemma selections_row: "selections (paint_row d cols selected item r) = (if selected then [DrawGlyph r 0 GlyphSelected] else [])"
  by (simp add: selections_def paint_row_def)

lemma selections_lines: "paint_lines bound ls r = (calls, r') \<Longrightarrow> selections calls = []"
  by (induction bound ls r arbitrary: calls r' rule: paint_lines.induct)
    (auto simp: selections_def split: if_splits prod.splits)

lemma paint_rows_rows:
  "paint_rows d cols bound selected i items r = (calls, r') \<Longrightarrow> list_all (on_rows r bound) calls \<and> r \<le> r' \<and>
    selections calls = (if i \<le> selected \<and> selected < i + int (length items) \<and> r + (selected - i) < bound
      then [DrawGlyph (r + (selected - i)) 0 GlyphSelected] else [])"
proof (induction d cols bound selected i items r arbitrary: calls r' rule: paint_rows.induct)
  case (2 d cols bound selected i item items r)
  show ?case
  proof (cases "bound \<le> r")
    case True
    with 2 show ?thesis by (auto simp: selections_def)
  next
    case False
    obtain cs q where q: "paint_rows d cols bound selected (i + 1) items (r + 1) = (cs, q)" by fastforce
    with 2(2) False have e: "calls = paint_row d cols (i = selected) item r @ cs" "r' = q" by simp_all
    note IH = 2(1) [OF False q]
    have "list_all (on_rows r bound) cs" using IH by (auto simp: list_all_iff intro: on_rows_mono)
    with IH e False paint_row_rows [of r bound d cols "i = selected" item] show ?thesis
      by (auto simp: selections_row)
  qed
qed (auto simp: selections_def)


lemma view_calls_rows:
  assumes "0 \<le> vw_selected v"
  shows "list_all (on_rows 0 (metrics_lines_per_page m)) (view_calls d m v)"
    "vw_selected v < int (length (vw_rows v)) \<Longrightarrow> 1 + int (length (vw_message v)) < metrics_lines_per_page m - 1 \<Longrightarrow>
      \<exists>r. 0 \<le> r \<and> r < metrics_lines_per_page m - 1 \<and> selections (view_calls d m v) = [DrawGlyph r 0 GlyphSelected]"
    "vw_rows v = [] \<Longrightarrow> selections (view_calls d m v) = []"
proof -
  let ?n = "metrics_lines_per_page m" and ?cols = "metrics_chars_per_line m"
  define p where "p = (if vw_title v \<noteq> [] \<and> 0 < ?n then ([DrawText 0 0 (ellipsize (ud_table d) (vw_title v) (nat ?cols))], 1 :: int) else ([], 0))"
  obtain title r0 where t: "p = (title, r0)" by fastforce
  obtain message r1 where ms: "paint_lines ?n (vw_message v) r0 = (message, r1)" by fastforce
  define first where "first = list_rows_from v ?n r1"
  obtain rows r2 where rs: "paint_rows d ?cols (?n - 1) (vw_selected v) first (drop (nat first) (vw_rows v)) r1 = (rows, r2)" by fastforce
  obtain ls r3 where l: "paint_lines (?n - 1) (vw_lines v) r2 = (ls, r3)" by fastforce
  have eq: "view_calls d m v = Clear (me_panel_w_px m) (me_panel_h_px m) # title @ message @ rows @ ls @ paint_footer d v (?n - 1)"
    using t ms rs l by (simp add: view_calls_def Let_def p_def first_def)
  have t': "0 \<le> r0" "r0 \<le> 1" "list_all (on_rows 0 ?n) title" "selections title = []"
    using t by (auto simp: p_def selections_def split: if_splits)
  have widen: "list_all (on_rows 0 ?n) cs" if "list_all (on_rows r b) cs" "0 \<le> r" "b \<le> ?n" for cs r b
    using that by (auto simp: list_all_iff intro: on_rows_mono)
  note M = paint_lines_rows [OF ms] and R = paint_rows_rows [OF rs] and L = paint_lines_rows [OF l]
  have f: "list_all (on_rows 0 ?n) (paint_footer d v (?n - 1))" "selections (paint_footer d v (?n - 1)) = []"
    by (simp_all add: paint_footer_def selections_def)
  have "list_all (on_rows 0 ?n) message" "list_all (on_rows 0 ?n) rows" "list_all (on_rows 0 ?n) ls"
    using M R L t' by (auto intro: widen)
  with t' f show "list_all (on_rows 0 ?n) (view_calls d m v)" by (simp add: eq)
  have sel: "selections (view_calls d m v) = selections rows"
    using t' f selections_lines [OF ms] selections_lines [OF l] by (simp add: eq) (simp add: selections_def)
  show "\<exists>r. 0 \<le> r \<and> r < ?n - 1 \<and> selections (view_calls d m v) = [DrawGlyph r 0 GlyphSelected]"
    if "vw_selected v < int (length (vw_rows v))" "1 + int (length (vw_message v)) < ?n - 1"
  proof -
    have r1: "0 \<le> r1" "r1 < ?n - 1" using M t' that(2) by auto
    have fst: "0 \<le> first" "first \<le> vw_selected v" "r1 + (vw_selected v - first) < ?n - 1"
      using assms r1 by (auto simp: first_def list_rows_from_def Let_def)
    have "int (length (drop (nat first) (vw_rows v))) = int (length (vw_rows v)) - first"
      using fst that(1) by (simp add: of_nat_diff)
    with R fst that(1) r1 sel show ?thesis by auto
  qed
  show "selections (view_calls d m v) = []" if "vw_rows v = []"
  proof -
    have "drop (nat first) (vw_rows v) = []" using that by simp
    with rs sel show ?thesis by (auto simp: selections_def)
  qed
qed


subsection \<open>Selections\<close>

text \<open>A selection is never negative.\<close>

definition nonneg :: "(screen \<Rightarrow> int) \<Rightarrow> bool" where
  "nonneg f \<longleftrightarrow> (\<forall>s. 0 \<le> f s)"

lemma nonneg_sel [simp]: "nonneg (ap_sel a) \<Longrightarrow> 0 \<le> sel a"
  by (simp add: nonneg_def sel_def)

lemma nonneg_upd: "nonneg f \<Longrightarrow> 0 \<le> n \<Longrightarrow> nonneg (f(s := n))"
  by (simp add: nonneg_def)

lemma reload_sel [simp]: "ap_sel (reload_letters a) = ap_sel a" "ap_sel (reload_outbox a) = ap_sel a"
  "ap_sel (reload_contacts a) = ap_sel a"
  by (simp_all add: reload_letters_def reload_outbox_def reload_contacts_def Let_def case_prod_unfold split: option.splits)

lemma nonneg_moves [simp]:
  "nonneg (ap_sel a) \<Longrightarrow> nonneg (ap_sel (go s a))"
  "nonneg (ap_sel a) \<Longrightarrow> nonneg (ap_sel (move_sel delta n a))"
  "nonneg (ap_sel a) \<Longrightarrow> nonneg (ap_sel (tab delta a))"
  "nonneg (ap_sel a) \<Longrightarrow> nonneg (ap_sel (rebuild d a))"
proof -
  have go: "nonneg (ap_sel b) \<Longrightarrow> nonneg (ap_sel (go s b))" for s b by (simp add: go_def Let_def nonneg_upd)
  show "nonneg (ap_sel a) \<Longrightarrow> nonneg (ap_sel (go s a))" by (rule go)
  show "nonneg (ap_sel a) \<Longrightarrow> nonneg (ap_sel (tab delta a))" by (simp add: tab_def Let_def go)
  show "nonneg (ap_sel a) \<Longrightarrow> nonneg (ap_sel (move_sel delta n a))" by (simp add: move_sel_def set_sel_def Let_def nonneg_upd)
  show "nonneg (ap_sel a) \<Longrightarrow> nonneg (ap_sel (rebuild d a))" by (simp add: rebuild_def set_sel_def Let_def nonneg_upd)
qed

lemma nonneg_ops [simp]:
  "nonneg (ap_sel a) \<Longrightarrow> nonneg (ap_sel (open_compose c s b a))"
  "nonneg (ap_sel a) \<Longrightarrow> nonneg (ap_sel (close_compose a))"
  "nonneg (ap_sel a) \<Longrightarrow> nonneg (ap_sel (open_after_unlock a))"
  "nonneg (ap_sel a) \<Longrightarrow> nonneg (ap_sel (snd (offer_pending_draft a)))"
  "nonneg (ap_sel a) \<Longrightarrow> nonneg (ap_sel (paginate_open d a))"
  by (auto simp: open_compose_def close_compose_def open_after_unlock_def offer_pending_draft_def paginate_open_def Let_def
      case_prod_unfold split: option.splits)

lemma nonneg_drafts [simp]:
  "nonneg (ap_sel a) \<Longrightarrow> nonneg (ap_sel (start_draft d p a))"
  "nonneg (ap_sel a) \<Longrightarrow> nonneg (ap_sel (keep_pending_draft a))"
  "nonneg (ap_sel a) \<Longrightarrow> nonneg (ap_sel (send d a))"
  by (auto simp: start_draft_def keep_pending_draft_def send_def Let_def case_prod_unfold split: option.splits start_outcome.splits)

lemma nonneg_more [simp]:
  "nonneg (ap_sel a) \<Longrightarrow> nonneg (ap_sel (drop_pending_draft d a))"
  "nonneg (ap_sel a) \<Longrightarrow> nonneg (ap_sel (cycle_font d a))"
  "nonneg (ap_sel a) \<Longrightarrow> nonneg (ap_sel (cycle_frontlight a))"
  "nonneg (ap_sel a) \<Longrightarrow> nonneg (ap_sel (toggle_pinned a))"
  "nonneg (ap_sel a) \<Longrightarrow> nonneg (ap_sel (commit_nickname a))"
  "nonneg (ap_sel a) \<Longrightarrow> nonneg (ap_sel (snd (open_selected_letter d a)))"
  by (auto simp: drop_pending_draft_def cycle_font_def cycle_frontlight_def toggle_pinned_def commit_nickname_def
      open_selected_letter_def paginate_open_def Let_def case_prod_unfold split: option.splits)

lemma handlers_nonneg:
  assumes "nonneg (ap_sel a)"
  shows "nonneg (ap_sel (snd (key_cover e a)))" "nonneg (ap_sel (snd (key_pin d e a)))" "nonneg (ap_sel (snd (key_inbox d e a)))"
  "nonneg (ap_sel (snd (key_read e a)))" "nonneg (ap_sel (snd (key_pick d e a)))" "nonneg (ap_sel (snd (key_write d e a)))"
  "nonneg (ap_sel (snd (key_outbox d e a)))" "nonneg (ap_sel (snd (key_conflict d e a)))" "nonneg (ap_sel (snd (key_settings d e a)))"
  "nonneg (ap_sel (snd (key_contacts d e a)))" "nonneg (ap_sel (snd (key_fault e a)))" "nonneg (ap_sel (snd (key_lines e a)))"
  using assms
  by (cases "ke_key e"; simp add: key_cover_def key_pin_def key_inbox_def key_read_def key_pick_def key_write_def
      key_outbox_def key_conflict_def key_settings_def key_contacts_def key_nickname_edit_def key_fault_def key_lines_def
      type_char_def set_field_text_def Let_def)+

lemma nonneg_step: "nonneg (ap_sel a) \<Longrightarrow> nonneg (ap_sel (ui_step d ev a))"
proof (cases ev)
  case (EvKey e)
  assume "nonneg (ap_sel a)"
  then have "nonneg (ap_sel (snd (screen_key d e (touched e a))))"
    by (cases "ap_screen a") (simp_all add: screen_key_def handlers_nonneg)
  with EvKey show ?thesis by (simp add: app_key_shown)
qed (simp_all add: app_tick_def show_fault_def Let_def)

lemma nonneg_run: "nonneg (ap_sel a) \<Longrightarrow> nonneg (ap_sel (ui_run d evs a))"
  by (induction evs arbitrary: a) (simp_all add: ui_run_def nonneg_step)

lemma nonneg_start: "nonneg (ap_sel a) \<Longrightarrow> nonneg (ap_sel (app_start d s a))"
  by (simp add: app_start_def Let_def case_prod_unfold)

subsection \<open>Properties\<close>

text \<open>
  C36: Ghosting is bounded. In any run of a session from its start, whatever the keys, ticks, faults and
  changes of the world, at every point of the calls made of the panel fewer than eight partial
  refreshes have gone by since the last full one.\<close>

theorem ghosting_is_bounded:
  "list_all (\<lambda>calls. partials_since calls < k_partials_before_full_refresh)
     (prefixes (uw_calls (ap_world (ui_run d evs (app_start d s (new_app (w\<lparr>uw_calls := []\<rparr>)))))))"
proof -
  have "ghost_inv (new_app (w\<lparr>uw_calls := []\<rparr>))"
    by (simp add: ghost_inv_def new_app_def partials_since_def k_partials_before_full_refresh_def)
  from ghost_run [OF ghost_start [OF this]] show ?thesis by (simp add: ghost_inv_def)
qed



text \<open>
  C38: Typing respects the cap. On the writing screen a character typed at the cap of its field, or above it, leaves
  the text alone and says that it is too long; below the cap the text gets exactly the character's UTF-8 and its
  count grows by at most one, so it never passes the cap. The other field and the screen stay. A combining mark, which
  would add no cluster, is refused at the cap as well: the roll-back after the append never runs.\<close>

theorem typing_respects_the_cap:
  assumes "table_ok (ud_table d)" "scalar (int cp)" "ap_screen a = WriteScreen"
    "b = app_key d \<lparr>ke_key = KeyChar, ke_codepoint = cp\<rparr> a"
  shows "(if field_cap a \<le> count_graphemes (ud_table d) (field_text a)
      then field_text b = field_text a \<and> ap_message b = ui_text d str_compose_too_long
      else field_text b = field_text a @ utf8proc_encode_char (int cp) \<and> ap_message b = [] \<and>
        count_graphemes (ud_table d) (field_text b) \<in> {count_graphemes (ud_table d) (field_text a),
          count_graphemes (ud_table d) (field_text a) + 1} \<and>
        count_graphemes (ud_table d) (field_text b) \<le> field_cap a) \<and>
    (if ap_field a = 0 then ap_subject b = ap_subject a else ap_body b = ap_body a) \<and> ap_screen b = WriteScreen"
proof -
  let ?e = "\<lparr>ke_key = KeyChar, ke_codepoint = cp\<rparr>"
  let ?t = "touched ?e a"
  let ?pt = "ud_table d"
  have t: "field_text ?t = field_text a" "field_cap ?t = field_cap a" "ap_message ?t = []"
    by (simp_all add: field_text_def field_cap_def touched_def Let_def)
  have b: "b = shown d (type_char d cp ?t)"
    using assms(3) by (simp add: assms(4) app_key_shown screen_key_def key_write_def)
  note c = count_append [OF assms(1,2), of "field_text a"]
  have f: "field_text (set_field_text x y) = x" "ap_field (set_field_text x y) = ap_field y" for x y
    by (simp_all add: field_text_def set_field_text_def)
  have ft: "field_text b = field_text (snd (type_char d cp ?t))" by (simp add: b field_text_def)
  show ?thesis
  proof (cases "field_cap a \<le> count_graphemes ?pt (field_text a)")
    case True
    then have "type_char d cp ?t = (FastPaint, ?t\<lparr>ap_message := ui_text d str_compose_too_long\<rparr>)"
      using t by (simp add: type_char_def)
    with True ft assms(3) show ?thesis by (simp add: b) (simp add: field_text_def)
  next
    case False
    have n: "\<not> field_cap a < count_graphemes ?pt (append_codepoint (field_text a) cp)" using False c by auto
    let ?u = "set_field_text (append_codepoint (field_text a) cp) ?t"
    have "snd (type_char d cp ?t) = ?u\<lparr>ap_last_edit_ms := ui_now ?u, ap_deferred_paint := (cp \<noteq> 32 \<and> cp \<noteq> 10)\<rparr>"
      using False n t f(1) by (simp add: type_char_def Let_def)
    then have "field_text b = append_codepoint (field_text a) cp" "ap_message b = []"
      "if ap_field a = 0 then ap_subject b = ap_subject a else ap_body b = ap_body a" "ap_screen b = WriteScreen"
      using assms(3) t(3) by (simp_all add: b field_text_def set_field_text_def)
    with False n c append_codepoint_encode show ?thesis by auto
  qed
qed


subsection \<open>Witnesses\<close>


definition writing_la :: app where
  "writing_la = (new_app (lock_world 5))\<lparr>ap_screen := WriteScreen, ap_body := ''la''\<rparr>"

lemma typing_respects_the_cap_witness:
  "field_text (app_key mute_deps \<lparr>ke_key = KeyChar, ke_codepoint = 115\<rparr> writing_la) = ''las''"
proof -
  have d: "table_ok (ud_table mute_deps)" "scalar (int 115)" by (simp_all add: mute_deps_def tiny_table_ok scalar_def)
  have s: "ap_screen writing_la = WriteScreen" by (simp add: writing_la_def)
  have c: "field_cap writing_la = 500" "count_graphemes (ud_table mute_deps) ''la'' = 2"
    "field_text writing_la = ''la''" "utf8proc_encode_char (int 115) = ''s''" by code_simp+
  note T = typing_respects_the_cap [OF d s refl, unfolded c, THEN conjunct1]
  have "\<not> (500 :: nat) \<le> 2" by simp
  from T [unfolded if_not_P [OF this]] show ?thesis by simp
qed

end
