(* ===== verification/Bench.thy ===== *)
theory Bench
  imports Sync_Cut Frame
begin

text \<open>
  The control channel of development builds, \<^verbatim>\<open>main/bench_control.cpp\<close>: commands arrive as frames with a JSON object,
  each is answered by one event frame. The bytes handed to the link are kept in order; cJSON is the parameter \<open>parse\<close>
  of the session. A verb ends with the new state, with a restart of the board, with a null store dereferenced or with an
  undefined conversion; the restart that \<^verbatim>\<open>sync\<close> can arm between two steps (\<^verbatim>\<open>cut_at\<close>) is that of \<open>Sync_Cut\<close>.
\<close>

subsection \<open>JSON out\<close>

definition quot :: char where "quot = CHR 0x22"
definition bslash :: char where "bslash = CHR 0x5C"

definition hex_digit :: "nat \<Rightarrow> char" where
  "hex_digit n = (if n < 10 then char_of (48 + n) else char_of (87 + n))"

definition hex4 :: "nat \<Rightarrow> string" where
  "hex4 n = map (\<lambda>i. hex_digit (n div 16 ^ i mod 16)) [3, 2, 1, 0]"

definition json_char :: "char \<Rightarrow> string" where
  "json_char c = (if c = quot then [bslash, quot]
     else if c = bslash then [bslash, bslash]
     else if c = CHR 0x0A then [bslash, CHR ''n'']
     else if c = CHR 0x0D then [bslash, CHR ''r'']
     else if c = CHR 0x09 then [bslash, CHR ''t'']
     else if (of_char c :: nat) < 0x20 then bslash # CHR ''u'' # hex4 (of_char c)
     else [c])"

definition append_json_string :: "string \<Rightarrow> string \<Rightarrow> string" where
  "append_json_string out v = out @ [quot] @ concat (map json_char v) @ [quot]"

definition event_new :: "int \<Rightarrow> string \<Rightarrow> string" where
  "event_new i name = append_json_string (append_json_string ''{'' ''id'' @ '':'' @ dec_int i @ '','' @ [quot] @ ''ev'' @ [quot] @ '':'') name"

datatype event_field = EvInt string int | EvBool string bool | EvStr string string | EvRaw string string

definition event_key :: "string \<Rightarrow> string \<Rightarrow> string" where
  "event_key buf key = append_json_string (buf @ '','') key @ '':''"

definition event_put :: "string \<Rightarrow> event_field \<Rightarrow> string" where
  "event_put buf f = (case f of
       EvInt key v \<Rightarrow> event_key buf key @ dec_int v
     | EvBool key v \<Rightarrow> event_key buf key @ (if v then ''true'' else ''false'')
     | EvStr key v \<Rightarrow> append_json_string (event_key buf key) v
     | EvRaw key json \<Rightarrow> event_key buf key @ json)"

definition event_json :: "int \<Rightarrow> string \<Rightarrow> event_field list \<Rightarrow> string" where
  "event_json i name fs = foldl event_put (event_new i name) fs @ ''}''"

subsection \<open>State\<close>

record ('v, 'n) bench =
  be_session :: "'v session"
  be_net :: 'n
  be_sent :: string

datatype 'a bench_result = Answered 'a | Restarted | NullStore | UndefinedCast

record boot_summary =
  bo_boot_count :: int
  bo_wake_reason :: string
  bo_synced :: bool
  bo_fault :: string
  bo_letters_stored :: int
  bo_acks_applied :: int

definition emit :: "string \<Rightarrow> ('v, 'n) bench \<Rightarrow> ('v, 'n) bench" where
  "emit json b = (let (ok, framed) = frame_encode k_type_event json [] in if \<not> ok then b else b\<lparr>be_sent := be_sent b @ framed\<rparr>)"

definition emit_error :: "int \<Rightarrow> string \<Rightarrow> ('v, 'n) bench \<Rightarrow> ('v, 'n) bench" where
  "emit_error i why b = emit (event_json i ''error'' [EvStr ''why'' why]) b"

subsection \<open>JSON in\<close>

definition bench_field :: "json \<Rightarrow> string \<Rightarrow> string option" where
  "bench_field j key = (case get_item j key of Some (JStr s) \<Rightarrow> Some s | _ \<Rightarrow> None)"

text \<open>\<open>None\<close> is a number outside the range of \<^verbatim>\<open>long long\<close>.\<close>

definition field_number :: "json \<Rightarrow> string \<Rightarrow> int \<Rightarrow> int option" where
  "field_number j key fallback = (case get_item j key of
       Some (JNum _ q) \<Rightarrow> if is_i64 (trunc_rat q) then Some (trunc_rat q) else None
     | _ \<Rightarrow> Some fallback)"

definition lower :: "char \<Rightarrow> char" where
  "lower c = (if 65 \<le> (of_char c :: nat) \<and> (of_char c :: nat) \<le> 90 then char_of ((of_char c :: nat) + 32) else c)"

text \<open>\<^verbatim>\<open>cJSON_HasObjectItem\<close> compares names without regard to case.\<close>

definition has_object_item :: "json \<Rightarrow> string \<Rightarrow> bool" where
  "has_object_item j key = (case j of JObj kvs \<Rightarrow> list_ex (\<lambda>kv. map lower (fst kv) = map lower key) kvs | _ \<Rightarrow> False)"

definition ack_status_name :: "ack_status \<Rightarrow> string" where
  "ack_status_name s = (case s of kSent \<Rightarrow> ''sent'' | kRejectedInactive \<Rightarrow> ''rejected_inactive''
     | kRejectedUnknownContact \<Rightarrow> ''rejected_unknown_contact'' | kInvalid \<Rightarrow> ''invalid''
     | kRejectedUndeliverable \<Rightarrow> ''rejected_undeliverable'' | kUnknown \<Rightarrow> ''unknown'')"

definition trigger_named :: "string \<Rightarrow> trigger" where
  "trigger_named name = (if name = ''user'' then kUserKey else if name = ''doorbell'' then kPututu
     else if name = ''outbound'' then kOutboundQueued else kScheduled)"

text \<open>\<^verbatim>\<open>std::size_t\<close> of the device has 32 bits.\<close>

definition to_size :: "int \<Rightarrow> nat" where
  "to_size v = nat (v mod 2 ^ 32)"

definition k_max_letters_listed :: nat where "k_max_letters_listed = 64"

definition json_bool :: "bool \<Rightarrow> string" where
  "json_bool v = (if v then ''true'' else ''false'')"

text \<open>The elements of an array, separated by commas.\<close>

definition json_array :: "string list \<Rightarrow> string" where
  "json_array items = ''['' @ concat (map (\<lambda>i. (if 0 < i then '','' else []) @ items ! i) [0..<length items]) @ '']''"

subsection \<open>Commands\<close>

definition provisioned :: "'v session \<Rightarrow> bool" where
  "provisioned s \<longleftrightarrow> se_device_token s \<noteq> []"

definition cmd_hello :: "boot_summary \<Rightarrow> int \<Rightarrow> ('v, 'n) bench \<Rightarrow> ('v, 'n) bench" where
  "cmd_hello boot i b = emit (event_json i ''hello'' [EvStr ''variant'' ''dev'', EvInt ''boot'' (bo_boot_count boot),
     EvStr ''wake'' (bo_wake_reason boot), EvBool ''provisioned'' (provisioned (be_session b)),
     EvBool ''boot_synced'' (bo_synced boot), EvStr ''boot_fault'' (bo_fault boot),
     EvInt ''boot_stored'' (bo_letters_stored boot), EvInt ''boot_acks'' (bo_acks_applied boot)]) b"

definition put_io :: "io \<Rightarrow> stores \<Rightarrow> ('v, 'n) bench \<Rightarrow> ('v, 'n) bench" where
  "put_io d st b = b\<lparr>be_session := (be_session b)\<lparr>se_io := d, se_stores := Some st\<rparr>\<rparr>"

definition cmd_state :: "int \<Rightarrow> stores \<Rightarrow> ('v, 'n) bench \<Rightarrow> ('v, 'n) bench" where
  "cmd_state i st b = (let (x, d) = st_snapshot (so_state st) (se_io (be_session b)); b = put_io d st b
     in emit (event_json i ''state'' [EvInt ''letters'' (int (ls_count (so_letters st))),
       EvInt ''unread'' (int (unread_count (so_letters st))), EvInt ''outbox'' (int (length (ox_all (so_outbox st)))),
       EvInt ''sendable'' (int (sendable_count (so_outbox st))), EvInt ''contacts'' (int (length (merged (so_contacts st)))),
       EvInt ''ayllu_version'' (ay_version (so_contacts st)),
       EvInt ''local_id_high_water'' (int (ss_local_id_high_water x)), EvBool ''has_cursor'' (ss_cursor x \<noteq> []),
       EvBool ''clock_valid'' (ck_valid (se_clock (be_session b))), EvBool ''provisioned'' (provisioned (be_session b))]) b)"

definition letter_item :: "stored_letter \<Rightarrow> string" where
  "letter_item l = append_json_string (''{'' @ [quot] @ ''id'' @ [quot] @ '':'') (l_id (sl_letter l)) @ '','' @ [quot] @ ''unread'' @ [quot] @ '':'' @
     json_bool (sl_unread l) @ ''}''"

definition cmd_letters :: "int \<Rightarrow> json \<Rightarrow> stores \<Rightarrow> ('v, 'n) bench \<Rightarrow> ('v, 'n) bench bench_result" where
  "cmd_letters i j st b = (case field_number j ''limit'' (int k_max_letters_listed) of None \<Rightarrow> UndefinedCast
     | Some v \<Rightarrow> let limit = to_size v;
           limit = (if limit = 0 \<or> k_max_letters_listed < limit then k_max_letters_listed else limit);
           (ls, d) = list_newest_first limit (so_letters st) (se_io (be_session b))
       in Answered (emit (event_json i ''letters'' [EvRaw ''entries'' (json_array (map letter_item ls)),
            EvInt ''total'' (int (ls_count (so_letters st)))]) (put_io d st b)))"

definition letter_event :: "int \<Rightarrow> bool \<Rightarrow> int \<Rightarrow> int \<Rightarrow> stored_letter \<Rightarrow> string" where
  "letter_event i have_body crc len stored = (let body = l_body (sl_letter stored);
     matches = (have_body \<and> length body = to_size len \<and> crc32 body = of_int crc)
     in event_json i ''letter'' ([EvBool ''present'' True, EvBool ''unread'' (sl_unread stored),
          EvStr ''contact_id'' (l_contact_id (sl_letter stored)), EvInt ''body_len'' (int (length body)),
          EvBool ''trimmed'' (l_trimmed (sl_letter stored)), EvBool ''truncated'' (l_truncated (sl_letter stored))] @
        (if have_body then [EvBool ''body_matches'' matches] else [])))"

definition cmd_letter :: "int \<Rightarrow> json \<Rightarrow> stores \<Rightarrow> ('v, 'n) bench \<Rightarrow> ('v, 'n) bench bench_result" where
  "cmd_letter i j st b = (case bench_field j ''letter_id'' of None \<Rightarrow> Answered (emit_error i ''missing_field'' b)
     | Some letter_id \<Rightarrow> let (got, d) = ls_get letter_id (so_letters st) (se_io (be_session b)); b = put_io d st b
       in case got of None \<Rightarrow> Answered (emit (event_json i ''letter'' [EvBool ''present'' False]) b)
          | Some stored \<Rightarrow> (case (field_number j ''body_crc32'' 0, field_number j ''body_len'' (-1)) of
                (Some crc, Some len) \<Rightarrow> Answered (emit (letter_event i (has_object_item j ''body_crc32'') crc len stored) b)
              | _ \<Rightarrow> UndefinedCast))"

definition outbox_item :: "outbox_entry \<Rightarrow> string" where
  "outbox_item e = append_json_string (append_json_string (append_json_string (''{'' @ [quot] @ ''local_id'' @ [quot] @ '':'') (oe_local_id e) @
       '','' @ [quot] @ ''contact_id'' @ [quot] @ '':'') (oe_contact_id e) @
     '','' @ [quot] @ ''rejected'' @ [quot] @ '':'' @ json_bool (oe_rejected e) @
     '','' @ [quot] @ ''status'' @ [quot] @ '':'') (ack_status_name (oe_reject_status e)) @
     '','' @ [quot] @ ''body_len'' @ [quot] @ '':'' @ dec_int (int (length (oe_body e))) @ ''}''"

definition cmd_outbox :: "int \<Rightarrow> stores \<Rightarrow> ('v, 'n) bench \<Rightarrow> ('v, 'n) bench" where
  "cmd_outbox i st b = emit (event_json i ''outbox'' [EvRaw ''entries'' (json_array (map outbox_item (ox_all (so_outbox st)))),
     EvInt ''sendable'' (int (sendable_count (so_outbox st)))]) b"

definition cmd_compose :: "int \<Rightarrow> json \<Rightarrow> stores \<Rightarrow> ('v, 'n) bench \<Rightarrow> ('v, 'n) bench" where
  "cmd_compose i j st b = (case (bench_field j ''contact_id'', bench_field j ''body'') of
       (Some contact_id, Some body) \<Rightarrow>
         let subject = or_else (bench_field j ''subject'') [];
             s = be_session b;
             composed_at = (if ck_valid (se_clock s) then now_epoch (se_clock s) else 0);
             (local_id, ox, d) = outbox_add contact_id subject body composed_at (so_outbox st) (se_io s);
             b = put_io d (st\<lparr>so_outbox := ox\<rparr>) b
         in (case local_id of None \<Rightarrow> emit_error i ''outbox_full_or_write_failed'' b
            | Some l \<Rightarrow> emit (event_json i ''composed'' [EvStr ''local_id'' l]) b)
     | _ \<Rightarrow> emit_error i ''missing_field'' b)"

definition report_event :: "int \<Rightarrow> sync_report \<Rightarrow> string" where
  "report_event i r = (let out = re_outcome r in event_json i ''synced'' [EvBool ''attempted'' (re_attempted r),
     EvStr ''fault'' (fault_name (oc_fault out)), EvInt ''stored'' (int (oc_letters_stored out)),
     EvInt ''deduped'' (int (oc_letters_deduped out)), EvInt ''acks'' (int (oc_acks_applied out)),
     EvInt ''rounds'' (int (oc_rounds out)), EvBool ''more'' (oc_more out), EvBool ''incomplete'' (oc_apply_incomplete out),
     EvBool ''ayllu_updated'' (oc_ayllu_updated out), EvBool ''config_updated'' (oc_config_updated out),
     EvInt ''backoff_ms'' (re_backoff_ms r)])"

definition cmd_sync ::
  "'v vendor_api \<Rightarrow> (string \<Rightarrow> json option) \<Rightarrow> (json \<Rightarrow> string) \<Rightarrow> 'n network \<Rightarrow> int \<Rightarrow> json \<Rightarrow> ('v, 'n) bench \<Rightarrow>
   ('v, 'n) bench bench_result" where
  "cmd_sync api parse print net i j b =
     (let trigger = trigger_named (or_else (bench_field j ''trigger'') [])
      in case field_number j ''cut_at'' 0 of None \<Rightarrow> UndefinedCast
      | Some v \<Rightarrow> (case run_sync_cut (to_i32 v) api parse print net trigger (be_session b) (be_net b) of
          None \<Rightarrow> UndefinedCast
        | Some (Inl _) \<Rightarrow> Restarted
        | Some (Inr (r, s, n)) \<Rightarrow> Answered (emit (report_event i r) (b\<lparr>be_session := s, be_net := n\<rparr>))))"

subsection \<open>Dispatch\<close>

definition ok_or_error :: "int \<Rightarrow> bool \<Rightarrow> ('v, 'n) bench \<Rightarrow> ('v, 'n) bench" where
  "ok_or_error i ok b = (if \<not> ok then emit_error i ''store_error'' b else emit (event_json i ''ok'' []) b)"

text \<open>A verb that reaches for a store of a session whose stores are closed dereferences null.\<close>

definition with_stores :: "('v, 'n) bench \<Rightarrow> (stores \<Rightarrow> ('v, 'n) bench bench_result) \<Rightarrow> ('v, 'n) bench bench_result" where
  "with_stores b f = (case se_stores (be_session b) of None \<Rightarrow> NullStore | Some st \<Rightarrow> f st)"

definition bench_verb ::
  "'v vendor_api \<Rightarrow> (string \<Rightarrow> json option) \<Rightarrow> (json \<Rightarrow> string) \<Rightarrow> 'n network \<Rightarrow> boot_summary \<Rightarrow> int \<Rightarrow> string \<Rightarrow> json \<Rightarrow>
   ('v, 'n) bench \<Rightarrow> ('v, 'n) bench bench_result" where
  "bench_verb api parse print net boot i cmd j b = (
     if cmd = ''hello'' then Answered (cmd_hello boot i b)
     else if cmd = ''state'' then with_stores b (\<lambda>st. Answered (cmd_state i st b))
     else if cmd = ''letters'' then with_stores b (\<lambda>st. cmd_letters i j st b)
     else if cmd = ''letter'' then (if bench_field j ''letter_id'' = None then Answered (emit_error i ''missing_field'' b)
       else with_stores b (\<lambda>st. cmd_letter i j st b))
     else if cmd = ''outbox'' then with_stores b (\<lambda>st. Answered (cmd_outbox i st b))
     else if cmd = ''compose'' then (if bench_field j ''contact_id'' = None \<or> bench_field j ''body'' = None
       then Answered (emit_error i ''missing_field'' b) else with_stores b (\<lambda>st. Answered (cmd_compose i j st b)))
     else if cmd = ''sync'' then cmd_sync api parse print net i j b
     else if cmd = ''mark_read'' then (case bench_field j ''letter_id'' of None \<Rightarrow> Answered (emit_error i ''missing_field'' b)
       | Some letter_id \<Rightarrow> with_stores b (\<lambda>st. let (ok, ls, d) = mark_read letter_id (so_letters st) (se_io (be_session b))
           in Answered (ok_or_error i ok (put_io d (st\<lparr>so_letters := ls\<rparr>) b))))
     else if cmd = ''clear_cursor'' then with_stores b (\<lambda>st. let (ok, x, d) = set_cursor [] (so_state st) (se_io (be_session b))
           in Answered (ok_or_error i ok (put_io d (st\<lparr>so_state := x\<rparr>) b)))
     else if cmd = ''provision'' then (case bench_field j ''token'' of None \<Rightarrow> Answered (emit_error i ''missing_field'' b)
       | Some tok \<Rightarrow> let (ok, s) = set_device_token api True tok (be_session b) in Answered (ok_or_error i ok (b\<lparr>be_session := s\<rparr>)))
     else if cmd = ''factory_reset'' then (let (ok, s) = session_reformat api True (be_session b)
       in Answered (ok_or_error i ok (b\<lparr>be_session := s\<rparr>)))
     else if cmd = ''reboot'' then Restarted
     else Answered (emit_error i ''unknown_command'' b))"

definition bench_dispatch ::
  "'v vendor_api \<Rightarrow> (string \<Rightarrow> json option) \<Rightarrow> (json \<Rightarrow> string) \<Rightarrow> 'n network \<Rightarrow> boot_summary \<Rightarrow> string \<Rightarrow>
   ('v, 'n) bench \<Rightarrow> ('v, 'n) bench bench_result" where
  "bench_dispatch api parse print net boot payload b = (case parse payload of None \<Rightarrow> Answered (emit_error 0 ''bad_json'' b)
     | Some j \<Rightarrow> (case field_number j ''id'' 0 of None \<Rightarrow> UndefinedCast
       | Some v \<Rightarrow> let i = to_i32 v in case bench_field j ''cmd'' of None \<Rightarrow> Answered (emit_error i ''missing_field'' b)
         | Some cmd \<Rightarrow> bench_verb api parse print net boot i cmd j b))"

subsection \<open>The loop\<close>

fun bind_bench :: "'a bench_result \<Rightarrow> ('a \<Rightarrow> 'a bench_result) \<Rightarrow> 'a bench_result" where
  "bind_bench (Answered b) f = f b"
| "bind_bench Restarted f = Restarted"
| "bind_bench NullStore f = NullStore"
| "bind_bench UndefinedCast f = UndefinedCast"

text \<open>The frames of one read, in order; what is not a command is passed over.\<close>

definition serve_frame :: "(string \<Rightarrow> 'a \<Rightarrow> 'a bench_result) \<Rightarrow> frame_type \<times> string \<Rightarrow> 'a bench_result \<Rightarrow> 'a bench_result" where
  "serve_frame dispatch f r = (if fst f \<noteq> k_type_command then r else bind_bench r (dispatch (snd f)))"

definition serve_read :: "(string \<Rightarrow> 'a \<Rightarrow> 'a bench_result) \<Rightarrow> string \<Rightarrow> decoder \<times> 'a bench_result \<Rightarrow> decoder \<times> 'a bench_result" where
  "serve_read dispatch chunk x = (case x of (dd, r) \<Rightarrow>
     let (frames, dd) = decoder_drain (if 0 < length chunk then decoder_append chunk dd else dd)
     in (dd, fold (serve_frame dispatch) frames r))"

text \<open>\<^verbatim>\<open>Serve\<close> over the chunks the link hands it; without a link it idles for good.\<close>

definition bench_serve ::
  "'v vendor_api \<Rightarrow> (string \<Rightarrow> json option) \<Rightarrow> (json \<Rightarrow> string) \<Rightarrow> 'n network \<Rightarrow> boot_summary \<Rightarrow> string list \<Rightarrow>
   ('v, 'n) bench \<Rightarrow> ('v, 'n) bench bench_result" where
  "bench_serve api parse print net boot chunks b = (if \<not> se_link (be_session b) then Answered b
     else snd (fold (serve_read (bench_dispatch api parse print net boot)) chunks (new_decoder, Answered (cmd_hello boot 0 b))))"

end
