(* ===== verification/Bench_Facts.thy ===== *)
theory Bench_Facts
  imports Bench
begin

text \<open>
  What the control channel of \<^verbatim>\<open>main/bench_control.cpp\<close> promises the bench: one event per command with the command's
  id, in the order of the commands however the bytes are cut; strings a JSON reader reads back; and no event that depends on
  a word of a letter.
\<close>

subsection \<open>Reading JSON strings back\<close>

text \<open>A reader of JSON strings after RFC 8259, from behind the opening quote: the string and what follows it.\<close>

definition hex_val :: "char \<Rightarrow> nat option" where
  "hex_val c = (let n = of_char c :: nat in if 48 \<le> n \<and> n \<le> 57 then Some (n - 48)
     else if 97 \<le> n \<and> n \<le> 102 then Some (n - 87) else if 65 \<le> n \<and> n \<le> 70 then Some (n - 55) else None)"

definition simple_escape :: "char \<Rightarrow> char option" where
  "simple_escape c = (if c = quot \<or> c = bslash \<or> c = CHR ''/'' then Some c else if c = CHR ''b'' then Some (CHR 0x08)
     else if c = CHR ''f'' then Some (CHR 0x0C) else if c = CHR ''n'' then Some (CHR 0x0A)
     else if c = CHR ''r'' then Some (CHR 0x0D) else if c = CHR ''t'' then Some (CHR 0x09) else None)"

text \<open>One character of the string, written plainly or escaped; code points above 127 are not needed here.\<close>

definition read_char :: "string \<Rightarrow> (char \<times> string) option" where
  "read_char cs = (case cs of [] \<Rightarrow> None
     | c # r \<Rightarrow> if c \<noteq> bslash then (if of_char c < (0x20 :: nat) then None else Some (c, r))
       else (case r of [] \<Rightarrow> None
         | e # r \<Rightarrow> if e \<noteq> CHR ''u'' then map_option (\<lambda>x. (x, r)) (simple_escape e)
           else (case r of h3 # h2 # h1 # h0 # r \<Rightarrow>
               (case (hex_val h3, hex_val h2, hex_val h1, hex_val h0) of
                  (Some a, Some b, Some c, Some d) \<Rightarrow>
                    (let v = ((a * 16 + b) * 16 + c) * 16 + d in if v < 128 then Some (char_of v, r) else None)
                | _ \<Rightarrow> None)
             | _ \<Rightarrow> None)))"

lemma read_char_shorter: "read_char cs = Some (c, r) \<Longrightarrow> length r < length cs"
  by (auto simp: read_char_def Let_def split: list.splits if_splits option.splits)

function read_body :: "string \<Rightarrow> (string \<times> string) option" where
  "read_body cs = (case cs of [] \<Rightarrow> None
     | c # r \<Rightarrow> if c = quot then Some ([], r)
       else (case read_char cs of None \<Rightarrow> None
         | Some (x, r) \<Rightarrow> map_option (\<lambda>(v, r). (x # v, r)) (read_body r)))"
  by pat_completeness auto
termination
  by (relation "measure length") (auto dest: read_char_shorter)

declare read_body.simps [simp del]

lemma hex_digit_val: "n < 16 \<Longrightarrow> hex_val (hex_digit n) = Some n"
proof -
  assume "n < 16"
  then have "n \<in> {0, 1, 2, 3, 4, 5, 6, 7, 8, 9, 10, 11, 12, 13, 14, 15}"
    unfolding insert_iff empty_iff by presburger
  then show ?thesis by (elim insertE) (simp_all add: hex_val_def hex_digit_def)
qed

lemma read_json_char: "read_char (json_char c @ r) = Some (c, r)" "json_char c \<noteq> []" "hd (json_char c) \<noteq> quot"
proof -
  have q: "quot \<noteq> bslash" "CHR 0x0A \<noteq> bslash" by (simp_all add: quot_def bslash_def)
  consider "c = quot" | "c = bslash" | "c = CHR 0x0A" | "c = CHR 0x0D" | "c = CHR 0x09"
    | "c \<notin> {quot, bslash, CHR 0x0A, CHR 0x0D, CHR 0x09}" "of_char c < (0x20 :: nat)"
    | "c \<notin> {quot, bslash, CHR 0x0A, CHR 0x0D, CHR 0x09}" "\<not> of_char c < (0x20 :: nat)" by blast
  then show "read_char (json_char c @ r) = Some (c, r)"
  proof cases
    case 6
    let ?n = "of_char c :: nat"
    have j: "json_char c = bslash # CHR ''u'' # hex4 ?n" using 6 by (simp add: json_char_def)
    have d: "?n div 4096 mod 16 = 0" "?n div 256 mod 16 = 0" "?n div 16 mod 16 = ?n div 16" "?n div 16 < 16" "?n mod 16 < 16"
      using 6(2) by auto
    have "?n div 16 * 16 + ?n mod 16 = ?n" by (rule div_mult_mod_eq)
    with d 6(2) show ?thesis by (simp add: j read_char_def hex4_def hex_digit_val Let_def)
  qed (simp_all add: json_char_def read_char_def simple_escape_def quot_def bslash_def)
  show "json_char c \<noteq> []" "hd (json_char c) \<noteq> quot" by (simp_all add: json_char_def quot_def bslash_def)
qed

lemma read_body_json: "read_body (concat (map json_char v) @ quot # r) = Some (v, r)"
proof (induction v)
  case Nil
  show ?case by (subst read_body.simps) simp
next
  case (Cons c v)
  obtain x xs where j: "json_char c = x # xs" "x \<noteq> quot" using read_json_char(2,3) [of c] by (cases "json_char c") auto
  have "read_char (x # xs @ concat (map json_char v) @ quot # r) = Some (c, concat (map json_char v) @ quot # r)"
    using read_json_char(1) [of c "concat (map json_char v) @ quot # r"] by (simp add: j)
  with Cons j show ?case by (subst read_body.simps) simp
qed


lemma read_json_string: "read_body (drop (length out + 1) (append_json_string out v @ r)) = Some (v, r)"
  using read_body_json [of v r] by (simp add: append_json_string_def)

subsection \<open>Events\<close>

definition event_bytes :: "string \<Rightarrow> string" where
  "event_bytes json = (if length json \<le> k_max_payload_bytes then frame_bytes (k_type_event, json) else [])"

lemma emit_frame [simp]:
  "be_sent (emit json b) = be_sent b @ event_bytes json" "be_session (emit json b) = be_session b" "be_net (emit json b) = be_net b"
  by (simp_all add: emit_def frame_encode_eq frame_ok_def event_bytes_def Let_def)

lemma put_io_sent [simp]: "be_sent (put_io d st b) = be_sent b" "be_net (put_io d st b) = be_net b"
  by (simp_all add: put_io_def)

text \<open>The answer \<open>r\<close> adds exactly one event with the id \<open>i\<close> to what was sent.\<close>

definition one_event :: "int \<Rightarrow> ('v, 'n) bench \<Rightarrow> ('v, 'n) bench \<Rightarrow> bool" where
  "one_event i b b' \<longleftrightarrow> (\<exists>name fs. be_sent b' = be_sent b @ event_bytes (event_json i name fs))"

lemma one_event_emit [intro!]: "be_sent c = be_sent b \<Longrightarrow> one_event i b (emit (event_json i name fs) c)"
  by (auto simp: one_event_def)

lemma one_event_error [intro!]: "be_sent c = be_sent b \<Longrightarrow> one_event i b (emit_error i why c)"
  unfolding emit_error_def by (rule one_event_emit)

lemma one_event_ok [intro!]: "be_sent c = be_sent b \<Longrightarrow> one_event i b (ok_or_error i ok c)"
  by (auto simp: ok_or_error_def)

definition answered_well :: "int \<Rightarrow> string \<Rightarrow> ('v, 'n) bench \<Rightarrow> ('v, 'n) bench bench_result \<Rightarrow> bool" where
  "answered_well i cmd b r = (case r of
       Answered b' \<Rightarrow> one_event i b b'
     | Restarted \<Rightarrow> cmd \<in> {''reboot'', ''sync''}
     | NullStore \<Rightarrow> se_stores (be_session b) = None
     | UndefinedCast \<Rightarrow> cmd \<in> {''letters'', ''letter'', ''sync''})"

lemma answered_wellI [intro!]: "one_event i b b' \<Longrightarrow> answered_well i cmd b (Answered b')"
  by (simp add: answered_well_def)

lemma with_stores_well [intro!]:
  "(\<And>st. se_stores (be_session b) = Some st \<Longrightarrow> answered_well i cmd b (f st)) \<Longrightarrow> answered_well i cmd b (with_stores b f)"
  by (cases "se_stores (be_session b)") (simp_all add: with_stores_def answered_well_def)

lemma commands_well:
  "answered_well i cmd b (Answered (cmd_hello boot i b))"
  "answered_well i cmd b (Answered (cmd_state i st b))"
  "answered_well i ''letters'' b (cmd_letters i j st b)"
  "answered_well i ''letter'' b (cmd_letter i j st b)"
  "answered_well i cmd b (Answered (cmd_outbox i st b))"
  "answered_well i cmd b (Answered (cmd_compose i j st b))"
  "answered_well i ''sync'' b (cmd_sync api parse print net i j b)"
proof -
  show "answered_well i cmd b (Answered (cmd_hello boot i b))" by (auto simp: cmd_hello_def)
  show "answered_well i cmd b (Answered (cmd_state i st b))"
    by (auto simp: cmd_state_def Let_def case_prod_unfold)
  show "answered_well i ''letters'' b (cmd_letters i j st b)"
    by (cases "field_number j ''limit'' (int k_max_letters_listed)")
      (auto simp: cmd_letters_def Let_def case_prod_unfold answered_well_def)
  show "answered_well i ''letter'' b (cmd_letter i j st b)"
  proof (cases "bench_field j ''letter_id''")
    case None
    then show ?thesis by (auto simp: cmd_letter_def)
  next
    case (Some l)
    obtain got d where g: "ls_get l (so_letters st) (se_io (be_session b)) = (got, d)" by fastforce
    show ?thesis
    proof (cases got)
      case None
      with Some g show ?thesis by (auto simp: cmd_letter_def)
    next
      case (Some stored)
      have "one_event i b (emit (letter_event i h c n stored) (put_io d st b))" for h c n
        unfolding letter_event_def Let_def by (rule one_event_emit) simp
      with Some \<open>bench_field j ''letter_id'' = Some l\<close> g show ?thesis
        by (auto simp: cmd_letter_def answered_well_def split: option.splits)
    qed
  qed
  show "answered_well i cmd b (Answered (cmd_outbox i st b))" by (auto simp: cmd_outbox_def)
  show "answered_well i cmd b (Answered (cmd_compose i j st b))"
    by (rule answered_wellI) (auto simp: cmd_compose_def Let_def case_prod_unfold split: option.splits)
  show "answered_well i ''sync'' b (cmd_sync api parse print net i j b)"
  proof -
    have "one_event i b (emit (report_event i r) (b\<lparr>be_session := s, be_net := n\<rparr>))" for r s n
      unfolding report_event_def Let_def by (rule one_event_emit) simp
    then show ?thesis by (auto simp: cmd_sync_def answered_well_def Let_def split: option.splits sum.splits)
  qed
qed

lemma verb_well: "answered_well i cmd b (bench_verb api parse print net boot i cmd j b)"
  unfolding bench_verb_def
  by (intro if_split [where P = "answered_well i cmd b", THEN iffD2] conjI impI)
    (auto simp: commands_well case_prod_unfold Let_def answered_well_def [of i "''reboot''"]
      intro!: with_stores_well commands_well split: option.splits)

subsection \<open>Sessions that look alike\<close>

text \<open>
  What the bench may learn of a letter: its id, its person's id, the flags, the length of the text, and its CRC by
  comparing; of an entry of the outbox its ids, its state and the length of the text. Two sessions that agree in this, and in
  the counts and flags of the state, look alike.
\<close>

definition letter_shape :: "stored_letter \<Rightarrow> (string \<times> string) \<times> (bool \<times> bool \<times> bool) \<times> nat \<times> 32 word" where
  "letter_shape l = ((l_id (sl_letter l), l_contact_id (sl_letter l)),
     (sl_unread l, l_trimmed (sl_letter l), l_truncated (sl_letter l)), length (l_body (sl_letter l)), crc32 (l_body (sl_letter l)))"

definition entry_shape :: "outbox_entry \<Rightarrow> (string \<times> string) \<times> bool \<times> ack_status \<times> nat" where
  "entry_shape e = ((oe_local_id e, oe_contact_id e), oe_rejected e, oe_reject_status e, length (oe_body e))"

definition stores_alike :: "stores \<Rightarrow> io \<Rightarrow> stores \<Rightarrow> io \<Rightarrow> bool" where
  "stores_alike st d st' d' \<longleftrightarrow>
     ls_count (so_letters st) = ls_count (so_letters st') \<and> unread_count (so_letters st) = unread_count (so_letters st') \<and>
     (\<forall>limit. map letter_shape (fst (list_newest_first limit (so_letters st) d)) =
        map letter_shape (fst (list_newest_first limit (so_letters st') d'))) \<and>
     (\<forall>i. map_option letter_shape (fst (ls_get i (so_letters st) d)) = map_option letter_shape (fst (ls_get i (so_letters st') d'))) \<and>
     map entry_shape (ox_all (so_outbox st)) = map entry_shape (ox_all (so_outbox st')) \<and>
     length (merged (so_contacts st)) = length (merged (so_contacts st')) \<and> ay_version (so_contacts st) = ay_version (so_contacts st') \<and>
     ss_local_id_high_water (fst (st_snapshot (so_state st) d)) = ss_local_id_high_water (fst (st_snapshot (so_state st') d')) \<and>
     (ss_cursor (fst (st_snapshot (so_state st) d)) = [] \<longleftrightarrow> ss_cursor (fst (st_snapshot (so_state st') d')) = [])"

definition looks_alike :: "('v, 'n) bench \<Rightarrow> ('v, 'n) bench \<Rightarrow> bool" where
  "looks_alike b b' \<longleftrightarrow> be_sent b = be_sent b' \<and> provisioned (be_session b) = provisioned (be_session b') \<and>
     ck_valid (se_clock (be_session b)) = ck_valid (se_clock (be_session b')) \<and>
     (case (se_stores (be_session b), se_stores (be_session b')) of
        (None, None) \<Rightarrow> True
      | (Some st, Some st') \<Rightarrow> stores_alike st (se_io (be_session b)) st' (se_io (be_session b'))
      | _ \<Rightarrow> False)"

fun sent_of :: "('v, 'n) bench bench_result \<Rightarrow> string bench_result" where
  "sent_of (Answered b) = Answered (be_sent b)"
| "sent_of Restarted = Restarted"
| "sent_of NullStore = NullStore"
| "sent_of UndefinedCast = UndefinedCast"

lemma map_through:
  assumes "\<And>x y. f x = f y \<Longrightarrow> g x = g y"
  shows "map f xs = map f ys \<Longrightarrow> map g xs = map g ys"
  by (induction xs ys rule: list_induct2') (auto intro: assms)

lemma letter_shapeD:
  assumes "letter_shape l = letter_shape l'"
  shows "l_id (sl_letter l) = l_id (sl_letter l')" "l_contact_id (sl_letter l) = l_contact_id (sl_letter l')"
    "sl_unread l = sl_unread l'" "l_trimmed (sl_letter l) = l_trimmed (sl_letter l')"
    "l_truncated (sl_letter l) = l_truncated (sl_letter l')" "length (l_body (sl_letter l)) = length (l_body (sl_letter l'))"
    "crc32 (l_body (sl_letter l)) = crc32 (l_body (sl_letter l'))"
  using assms unfolding letter_shape_def prod.inject by blast+

lemma entry_shapeD:
  assumes "entry_shape e = entry_shape e'"
  shows "oe_local_id e = oe_local_id e'" "oe_contact_id e = oe_contact_id e'" "oe_rejected e = oe_rejected e'"
    "oe_reject_status e = oe_reject_status e'" "length (oe_body e) = length (oe_body e')"
  using assms unfolding entry_shape_def prod.inject by blast+

lemma items_alike:
  "map letter_shape ls = map letter_shape ls' \<Longrightarrow> map letter_item ls = map letter_item ls'"
  "map entry_shape es = map entry_shape es' \<Longrightarrow> map outbox_item es = map outbox_item es'"
  "letter_shape l = letter_shape l' \<Longrightarrow> letter_event i h c n l = letter_event i h c n l'"
proof -
  show "map letter_shape ls = map letter_shape ls' \<Longrightarrow> map letter_item ls = map letter_item ls'"
  proof (rule map_through)
    fix x y
    assume "letter_shape x = letter_shape y"
    then show "letter_item x = letter_item y" unfolding letter_item_def by (simp only: letter_shapeD [of x y])
  qed
  show "map entry_shape es = map entry_shape es' \<Longrightarrow> map outbox_item es = map outbox_item es'"
  proof (rule map_through)
    fix x y
    assume "entry_shape x = entry_shape y"
    then show "outbox_item x = outbox_item y" unfolding outbox_item_def by (simp only: entry_shapeD [of x y])
  qed
  show "letter_shape l = letter_shape l' \<Longrightarrow> letter_event i h c n l = letter_event i h c n l'"
    by (simp only: letter_event_def Let_def letter_shapeD [of l l'])
qed

lemma sendable_all: "sendable_count s = length (filter (\<lambda>e. \<not> oe_rejected e) (ox_all s))"
proof -
  have "mset (ox_all s) = mset (ox_entries s)" by (simp add: ox_all_def ox_ordered_def)
  then have "mset (filter (\<lambda>e. \<not> oe_rejected e) (ox_all s)) = mset (filter (\<lambda>e. \<not> oe_rejected e) (ox_entries s))" by simp
  then have "length (filter (\<lambda>e. \<not> oe_rejected e) (ox_all s)) = length (filter (\<lambda>e. \<not> oe_rejected e) (ox_entries s))"
    by (rule mset_eq_length)
  then show ?thesis by (simp add: sendable_count_def)
qed

lemma entries_alike:
  assumes "map entry_shape es = map entry_shape es'"
  shows "length es = length es'" "length (filter (\<lambda>e. \<not> oe_rejected e) es) = length (filter (\<lambda>e. \<not> oe_rejected e) es')"
  using assms by (induction es es' rule: list_induct2') (auto simp: entry_shape_def)

lemma verbs_alike:
  assumes "looks_alike b b'" "cmd \<in> {''hello'', ''state'', ''letters'', ''letter'', ''outbox''}"
  shows "sent_of (bench_verb api parse print net boot i cmd j b) = sent_of (bench_verb api parse print net boot i cmd j b')"
proof -
  have s: "be_sent b = be_sent b'" "provisioned (be_session b) = provisioned (be_session b')"
    "ck_valid (se_clock (be_session b)) = ck_valid (se_clock (be_session b'))" using assms(1) by (simp_all add: looks_alike_def)
  have p: "provisioned (be_session (put_io d st b)) = provisioned (be_session b)"
    "ck_valid (se_clock (be_session (put_io d st b))) = ck_valid (se_clock (be_session b))" for d st and b :: "('v, 'n) bench"
    by (simp_all add: put_io_def provisioned_def)
  have hello: "cmd = ''hello'' \<Longrightarrow> ?thesis" using s by (simp add: bench_verb_def cmd_hello_def)
  have miss: "sent_of (Answered (emit_error i w b)) = sent_of (Answered (emit_error i w b'))" for w
    using s by (simp add: emit_error_def)
  show ?thesis
  proof (cases "se_stores (be_session b)")
    case None
    then have n: "se_stores (be_session b') = None" using assms(1) by (auto simp: looks_alike_def split: option.splits)
    consider "cmd = ''hello''" | "cmd = ''state''" | "cmd = ''letters''" | "cmd = ''letter''" | "cmd = ''outbox''"
      using assms(2) by blast
    then show ?thesis
    proof cases
      case 4
      with miss show ?thesis by (simp add: bench_verb_def with_stores_def n None del: sent_of.simps)
    next
      case 1
      then show ?thesis by (rule hello)
    qed (simp_all add: bench_verb_def with_stores_def n None)
  next
    case (Some st)
    then obtain st' where st': "se_stores (be_session b') = Some st'"
      "stores_alike st (se_io (be_session b)) st' (se_io (be_session b'))"
      using assms(1) by (auto simp: looks_alike_def split: option.splits)
    let ?d = "se_io (be_session b)" and ?d' = "se_io (be_session b')"
    have es: "map entry_shape (ox_all (so_outbox st)) = map entry_shape (ox_all (so_outbox st'))"
      using st'(2) by (simp add: stores_alike_def)
    have snd: "sendable_count (so_outbox st) = sendable_count (so_outbox st')" "length (ox_all (so_outbox st)) = length (ox_all (so_outbox st'))"
      using entries_alike [OF es] by (simp_all add: sendable_all)
    have state: "sent_of (Answered (cmd_state i st b)) = sent_of (Answered (cmd_state i st' b'))"
      using st'(2) s snd by (simp add: cmd_state_def p case_prod_unfold Let_def stores_alike_def)
    have letters: "sent_of (cmd_letters i j st b) = sent_of (cmd_letters i j st' b')"
    proof (cases "field_number j ''limit'' (int k_max_letters_listed)")
      case (Some v)
      have "map letter_item (fst (list_newest_first n (so_letters st) ?d)) = map letter_item (fst (list_newest_first n (so_letters st') ?d'))" for n
        using st'(2) by (intro items_alike(1)) (simp add: stores_alike_def)
      moreover have "ls_count (so_letters st) = ls_count (so_letters st')" using st'(2) by (simp only: stores_alike_def)
      ultimately show ?thesis using Some s(1) by (simp add: cmd_letters_def case_prod_unfold Let_def)
    qed (simp add: cmd_letters_def)
    have letter: "sent_of (cmd_letter i j st b) = sent_of (cmd_letter i j st' b')"
    proof (cases "bench_field j ''letter_id''")
      case None
      then show ?thesis using miss by (simp add: cmd_letter_def)
    next
      case (Some l)
      have g: "map_option letter_shape (fst (ls_get l (so_letters st) ?d)) = map_option letter_shape (fst (ls_get l (so_letters st') ?d'))"
        using st'(2) by (simp add: stores_alike_def)
      show ?thesis
      proof (cases "fst (ls_get l (so_letters st) ?d)")
        case None
        with g have "fst (ls_get l (so_letters st') ?d') = None" by simp
        with None Some s(1) show ?thesis by (simp add: cmd_letter_def case_prod_unfold Let_def)
      next
        case (Some x)
        with g obtain y where y: "fst (ls_get l (so_letters st') ?d') = Some y" "letter_shape x = letter_shape y"
          by (cases "fst (ls_get l (so_letters st') ?d')") auto
        with Some \<open>bench_field j ''letter_id'' = Some l\<close> s(1) items_alike(3) [OF y(2)] show ?thesis
          by (simp add: cmd_letter_def case_prod_unfold Let_def split: option.splits)
      qed
    qed
    have outbox: "sent_of (Answered (cmd_outbox i st b)) = sent_of (Answered (cmd_outbox i st' b'))"
      using items_alike(2) [OF es] s snd by (simp add: cmd_outbox_def)
    note opened = with_stores_def Some st'(1) option.case
    consider "cmd = ''hello''" | "cmd = ''state''" | "cmd = ''letters''" | "cmd = ''letter''" | "cmd = ''outbox''"
      using assms(2) by blast
    then show ?thesis
    proof cases
      case 1
      then show ?thesis by (rule hello)
    next
      case 2
      with state show ?thesis by (simp add: bench_verb_def opened del: sent_of.simps)
    next
      case 3
      with letters show ?thesis by (simp add: bench_verb_def opened del: sent_of.simps)
    next
      case 4
      with letter miss show ?thesis by (simp add: bench_verb_def opened del: sent_of.simps)
    next
      case 5
      with outbox show ?thesis by (simp add: bench_verb_def opened del: sent_of.simps)
    qed
  qed
qed


subsection \<open>The loop\<close>

text \<open>Commands one after the other, as the bench means them.\<close>

definition obey :: "(string \<Rightarrow> 'a \<Rightarrow> 'a bench_result) \<Rightarrow> string list \<Rightarrow> 'a bench_result \<Rightarrow> 'a bench_result" where
  "obey dispatch payloads r = fold (\<lambda>p r. bind_bench r (dispatch p)) payloads r"

lemma serve_frames:
  "fold (serve_frame dispatch) fs r = obey dispatch (map snd (filter (\<lambda>f. fst f = k_type_command) fs)) r"
  by (induction fs arbitrary: r) (simp_all add: obey_def serve_frame_def)

lemma serve_reads:
  assumes "list_all (\<lambda>c. c \<noteq> []) chunks"
  shows "receive_chunks chunks d = (fs, d') \<Longrightarrow>
    fold (serve_read dispatch) chunks (d, r) = (d', obey dispatch (map snd (filter (\<lambda>f. fst f = k_type_command) fs)) r)"
  using assms
proof (induction chunks arbitrary: d r fs)
  case Nil
  then show ?case by (simp add: obey_def)
next
  case (Cons c cs)
  obtain fs1 d1 where f: "decoder_drain (decoder_append c d) = (fs1, d1)" by fastforce
  obtain fs2 where g: "receive_chunks cs d1 = (fs2, d')" and e: "fs = fs1 @ fs2"
    using Cons.prems(1) f by (auto split: prod.splits)
  have "serve_read dispatch c (d, r) = (d1, fold (serve_frame dispatch) fs1 r)"
    using Cons.prems(2) f by (cases c) (simp_all add: serve_read_def)
  with Cons.IH [OF g] Cons.prems(2) e show ?case by (simp add: serve_frames obey_def)
qed

lemma receive_frames:
  assumes "list_all (\<lambda>f. length (snd f) \<le> k_max_payload_bytes) fs" "concat chunks = concat (map frame_bytes fs)"
  shows "receive_chunks chunks new_decoder = (fs, new_decoder)"
proof -
  have ok: "\<forall>f \<in> set fs. frame_ok f" using assms(1) by (simp add: frame_ok_def list_all_iff)
  have "de_buf new_decoder @ concat chunks = concat (map frame_bytes fs)" using assms(2) by (simp add: new_decoder_def)
  moreover have "partial_frame (de_buf new_decoder) fs"
    by (cases fs) (auto simp: partial_frame_def new_decoder_def length_frame)
  ultimately have "receive_chunks chunks new_decoder = (fs, new_decoder\<lparr>de_buf := []\<rparr>)"
    by (rule receive_stream [OF ok])
  then show ?thesis by (simp add: new_decoder_def)
qed

text \<open>The id an answer carries: the command's, or zero where none can be read.\<close>

definition command_id :: "(string \<Rightarrow> json option) \<Rightarrow> string \<Rightarrow> int" where
  "command_id parse payload = (case parse payload of None \<Rightarrow> 0
     | Some j \<Rightarrow> (case field_number j ''id'' 0 of None \<Rightarrow> 0 | Some v \<Rightarrow> to_i32 v))"

lemma dispatch_answers:
  assumes "bench_dispatch api parse print net boot payload b = Answered b'"
  shows "one_event (command_id parse payload) b b'"
proof -
  have e: "one_event i b (emit_error i why b)" for i why by blast
  show ?thesis
  proof (cases "parse payload")
    case None
    with assms e show ?thesis by (auto simp: bench_dispatch_def command_id_def)
  next
    case (Some j)
    show ?thesis
    proof (cases "field_number j ''id'' 0")
      case None
      with assms Some show ?thesis by (simp add: bench_dispatch_def)
    next
      case (Some v)
      show ?thesis
      proof (cases "bench_field j ''cmd''")
        case None
        with assms Some e \<open>parse payload = Some j\<close> show ?thesis by (auto simp: bench_dispatch_def command_id_def)
      next
        case (Some cmd)
        with assms \<open>parse payload = Some j\<close> \<open>field_number j ''id'' 0 = Some v\<close>
        have "bench_verb api parse print net boot (to_i32 v) cmd j b = Answered b'" by (simp add: bench_dispatch_def)
        with verb_well [of "to_i32 v" cmd b api parse print net boot j] \<open>parse payload = Some j\<close> \<open>field_number j ''id'' 0 = Some v\<close>
        show ?thesis by (simp add: answered_well_def command_id_def)
      qed
    qed
  qed
qed

lemma obey_stopped [simp]: "obey f ps Restarted = Restarted" "obey f ps NullStore = NullStore" "obey f ps UndefinedCast = UndefinedCast"
  by (induction ps) (simp_all add: obey_def)

lemma obey_Cons: "obey f (p # ps) r = obey f ps (bind_bench r (f p))"
  by (simp add: obey_def)

lemma obey_events:
  "obey (bench_dispatch api parse print net boot) payloads (Answered b) = Answered b' \<Longrightarrow>
    \<exists>answers. list_all2 (\<lambda>p json. \<exists>name fs. json = event_json (command_id parse p) name fs) payloads answers \<and>
      be_sent b' = be_sent b @ concat (map event_bytes answers)"
proof (induction payloads arbitrary: b)
  case Nil
  then show ?case by (simp add: obey_def)
next
  case (Cons p ps)
  let ?r = "bench_dispatch api parse print net boot p b"
  from Cons.prems have o: "obey (bench_dispatch api parse print net boot) ps ?r = Answered b'" by (simp add: obey_Cons)
  then obtain c where c: "?r = Answered c" by (cases ?r) simp_all
  from dispatch_answers [OF c] obtain name fs where
    e: "be_sent c = be_sent b @ event_bytes (event_json (command_id parse p) name fs)" by (auto simp: one_event_def)
  from Cons.IH [OF o [unfolded c]] obtain answers where
    "list_all2 (\<lambda>p json. \<exists>name fs. json = event_json (command_id parse p) name fs) ps answers"
    "be_sent b' = be_sent c @ concat (map event_bytes answers)" by blast
  with e show ?case by (intro exI [of _ "event_json (command_id parse p) name fs # answers"]) auto
qed

subsection \<open>Properties\<close>


text \<open>
  C39: Nothing the child wrote or was sent leaves the device over the channel. Two sessions that look alike, that is,
  agree in ids, flags, counts, lengths and checksums of texts but in no subject, name or text, answer each of the
  reading commands with the same bytes, whatever its parameters; and a string in an event is read back exactly by a JSON
  reader, so none can break out of its field.\<close>

theorem events_tell_no_words:
  assumes "looks_alike b b'" "cmd \<in> {''hello'', ''state'', ''letters'', ''letter'', ''outbox''}"
  shows "sent_of (bench_verb api parse print net boot i cmd j b) = sent_of (bench_verb api parse print net boot i cmd j b') \<and>
    read_body (drop (length out + 1) (append_json_string out v @ r)) = Some (v, r)"
  using verbs_alike [OF assms] read_json_string by blast

text \<open>
  A factory reset whose format fails answers with an error and leaves the stores closed; the next command that
  asks for one of them dereferences null.
\<close>

lemma failed_reset_then_null:
  assumes "se_fs_mounted (be_session b)" "ve_littlefs_format api (se_io (be_session b)) = (False, d)"
  shows "obey (\<lambda>cmd. bench_verb api parse print net boot i cmd j) [''factory_reset'', ''state''] (Answered b) = NullStore"
  using assms
  by (simp add: obey_def bench_verb_def session_reformat_def close_stores_def ok_or_error_def emit_error_def with_stores_def Let_def)


subsection \<open>Witnesses\<close>

definition bench_boot :: boot_summary where
  "bench_boot = \<lparr>bo_boot_count = 1, bo_wake_reason = ''power_on'', bo_synced = False, bo_fault = ''none'', bo_letters_stored = 0, bo_acks_applied = 0\<rparr>"

definition bench_on :: "string session \<Rightarrow> (string, unit) bench" where
  "bench_on s = \<lparr>be_session = s, be_net = (), be_sent = []\<rparr>"

definition bench_ready :: "(string, unit) bench" where
  "bench_ready = bench_on ((booted True)\<lparr>se_link := True\<rparr>)"

definition one_command :: string where
  "one_command = frame_bytes (k_type_command, ''{'')"


definition one_in_outbox :: "string \<Rightarrow> outbox" where
  "one_in_outbox body = \<lparr>ox_dir = [], ox_counter_path = [], ox_high_water = 1, ox_entries = [\<lparr>oe_local_id = ''1'', oe_contact_id = ''nina'',
     oe_subject = [], oe_body = body, oe_composed_at = 0, oe_rejected = False, oe_reject_status = kUnknown\<rparr>]\<rparr>"

definition bench_box :: "string \<Rightarrow> (string, unit) bench" where
  "bench_box body = bench_on ((booted True)\<lparr>se_stores := Some ((the (se_stores (booted True)))\<lparr>so_outbox := one_in_outbox body\<rparr>)\<rparr>)"

lemma boxes_alike: "looks_alike (bench_box ''hola'') (bench_box ''chau'')"
proof -
  have o: "ox_all (one_in_outbox body) = ox_entries (one_in_outbox body)" for body
    by (simp add: one_in_outbox_def ox_all_def ox_ordered_def)
  have "map entry_shape (ox_entries (one_in_outbox ''hola'')) = map entry_shape (ox_entries (one_in_outbox ''chau''))"
    by (simp add: one_in_outbox_def entry_shape_def)
  moreover have "looks_alike (bench_on (s\<lparr>se_stores := Some (st\<lparr>so_outbox := b\<rparr>)\<rparr>)) (bench_on (s\<lparr>se_stores := Some (st\<lparr>so_outbox := b'\<rparr>)\<rparr>))"
    if "map entry_shape (ox_all b) = map entry_shape (ox_all b')" for b b' st and s :: "string session"
    using that by (simp add: looks_alike_def stores_alike_def bench_on_def provisioned_def)
  ultimately show ?thesis unfolding bench_box_def by (simp only: o)
qed

lemma events_tell_no_words_witness:
  "sent_of (bench_verb one_string_vendor (\<lambda>_. None) (\<lambda>_. []) unauthorised bench_boot 7 ''outbox'' JNull (bench_box ''hola'')) =
    sent_of (bench_verb one_string_vendor (\<lambda>_. None) (\<lambda>_. []) unauthorised bench_boot 7 ''outbox'' JNull (bench_box ''chau''))"
proof -
  have "''outbox'' \<in> {''hello'', ''state'', ''letters'', ''letter'', ''outbox''}" by (simp only: insert_iff simp_thms)
  from events_tell_no_words [OF boxes_alike this, THEN conjunct1] show ?thesis .
qed

end
