(* ===== verification/Spec2Isabelle.thy ===== *)
theory Spec2Isabelle
  imports Prelude Fsutil Wire Letter_Store Outbox Seen_Ring State_Store Draft Settings Ayllu
    Footprint Syncengine Sync_Order Sync_Run Kipu Hmac_Sha256 Pututu Battery
    Frame Usbbridge Usbcdc_Link Wake Input Keebdeck Panel Session Sync_Recovery Sync_Cut Sync_Replay App_Main
    Layout_Lines Strings Text_Util Cover Ui_Drafts Ui_Paint Bench_Facts
begin

text \<open>
  A model of the firmware of chaski, a pocket letter device (\<^verbatim>\<open>src/firmware/chaski\<close>, C++ and C), and the theorems that
  make it correct: the letters a child receives and writes survive power cuts and failing calls, the protocol with the
  server never loses or repeats one, only a genuine doorbell wakes the radio, and a locked device shows nothing.

  \<^bold>\<open>The program and its model.\<close> Every theory models one part, in the order the code has its operations, with records
  for its structs, datatypes for its enums and one definition per operation; its first block names its source.

  \<^item> \<^verbatim>\<open>components/store/fsutil.cpp\<close>: \<open>Prelude\<close>, \<open>Fsutil\<close>. The file system is a list of named files, each with its
    content and the length of the prefix that is on the medium; every POSIX call takes its answer from a script, so any
    failure at any call is covered, and the \<open>trail\<close> keeps every file system a call passed. \<open>crash keep fs\<close> is what a
    power cut leaves of \<open>fs\<close>, with any part of what was not synced; \<open>through P d e\<close> says that every state of the run
    from \<open>d\<close> to \<open>e\<close> satisfies \<open>P\<close>. \<open>WriteAtomic\<close> and the record format are proved against these once, and the locale
    \<open>atomic_replace\<close> (interpreted on \<open>write_atomic\<close>) hands the contract to the stores.
  \<^item> \<^verbatim>\<open>components/store\<close>: \<open>Record_Dir\<close> and \<open>Record_File\<close> (the two contracts, one record per file and one value in one
    file, the second a locale interpreted on state, draft, settings and the two files of contacts), \<open>Letter_Store\<close>, \<open>Outbox\<close>, \<open>Seen_Ring\<close>,
    \<open>State_Store\<close>, \<open>Draft\<close>, \<open>Settings\<close>; \<^verbatim>\<open>components/ayllu\<close>: \<open>Ayllu\<close>. \<open>Footprint\<close> shows which files each operation may
    change and that they are apart, so the invariants of one store survive the operations of the others.
  \<^item> \<^verbatim>\<open>components/wire\<close>, \<^verbatim>\<open>components/kipu\<close>: \<open>Wire\<close>, \<open>Kipu\<close>. Requests and responses as JSON trees, health blocks.
  \<^item> \<^verbatim>\<open>components/syncengine\<close>: \<open>Syncengine\<close> (building a request, applying a response step by step, rounds and backoff),
    \<open>Sync_Order\<close> (the order of the steps against power cuts), \<open>Sync_Run\<close> (termination and what a failed exchange
    leaves). The network is a function with a state of its own.
  \<^item> \<^verbatim>\<open>components/transport\<close>: \<open>Frame\<close>, \<open>Usbbridge\<close>, \<open>Usbcdc_Link\<close>. CRC, framing with resynchronisation, one exchange
    with its deadline over a serial link.
  \<^item> \<^verbatim>\<open>components/pututu\<close>: \<open>Hmac_Sha256\<close>, \<open>Pututu\<close>; \<^verbatim>\<open>components/power\<close>: \<open>Battery\<close>; \<^verbatim>\<open>components/panel\<close>: \<open>Panel\<close>;
    \<^verbatim>\<open>components/input\<close>: \<open>Input\<close>, \<open>Keebdeck\<close>.
  \<^item> \<^verbatim>\<open>components/utf8proc\<close> (the functions the layout calls), \<^verbatim>\<open>components/layout\<close>: \<open>Utf8proc\<close>, \<open>Layout\<close>,
    \<open>Layout_Lines\<close>. Machine integers of the C code are words; the Unicode tables are a parameter of which only
    \<open>table_ok\<close>, the range of their classes, is used.
  \<^item> \<^verbatim>\<open>components/ui\<close>: \<open>Text_Util\<close>, \<open>Cover\<close>, \<open>Ui_State\<close> (the state of \<^verbatim>\<open>AppImpl\<close>), \<open>Ui_Keys\<close> (what each key does on each
    screen, drafts and sending), \<open>Ui_View\<close> (views and painting), \<open>Ui\<close> (start, key, tick, fault, and runs of them). \<open>Ui_Facts\<close>
    has what each operation leaves alone, as simplification rules; \<open>Ui_Lock\<close>, \<open>Ui_Drafts\<close> and \<open>Ui_Paint\<close> the theorems.
  \<^item> \<^verbatim>\<open>main\<close>: \<open>Strings\<close>, \<open>Wake\<close> (what a wake does), \<open>Session\<close> (the composition root), \<open>Sync_Recovery\<close> (a sync on
    whatever a power cut left), \<open>Sync_Cut\<close> (the restart that can be armed inside one), \<open>Sync_Replay\<close> (a
    response delivered twice), \<open>App_Main\<close> (from reset to sleep), \<open>Bench\<close> (the control channel of development builds).

  \<^bold>\<open>How the parts meet.\<close> The stores share one file system, so a handler that calls two of them threads one \<open>io\<close>; \<open>Session\<close>
  opens them, \<open>Syncengine\<close> and the screens call them, and \<open>App_Main\<close> runs \<open>Wake\<close>'s plan with the jobs of the board
  (\<open>wake_run\<close> is stated over any jobs and refined there). \<open>Ui\<close> calls the same store operations that a sync changes in
  between (\<open>EvWorld\<close>).

  \<^bold>\<open>What is shown.\<close> Power cuts: every store is atomic, ids are never reused, the cursor moves last, seen ids have their
  letters, the child's words are in the slot or in the outbox at every durable state of sending and reopening, and the next
  sync the server answers completes on whatever files are left; a response delivered twice changes nothing the second
  time. Codecs: records,
  frames, requests, UTF-8 and the device token round-trip. Reference definitions: SHA-256 and HMAC against the
  standards' constructions, the stateful grapheme breaker against the rules of UAX #29 over the whole prefix. State
  machines: the doorbell verifier under replay and power loss, the battery latch, the provisioning halt, the PIN lock over
  any run of events, the dispatcher under masking. Bounds and termination: drain rounds, backoff, health blocks,
  exchange deadlines, partial refreshes, rows of the panel, the length of a letter.

  \<^bold>\<open>Bounds and fuel.\<close> The loops of the code are structural recursions or functions with a measure; the drain loop of a sync
  is bounded by the code's own cap (\<open>drain_cap\<close>), the wait for an answer by its deadline on a clock that passes it.
  Results are \<open>None\<close> where the code's behaviour is undefined (the conversion of a number out of range).

  \<^bold>\<open>Not modelled.\<close> Third-party code and drivers are parameters: cJSON, NVS, littlefs, the serial driver, the painter, the panel
  and battery drivers, the keyboard bus. The Unicode tables of \<^verbatim>\<open>utf8proc_data.c\<close> are generated data, and the rest of
  \<^verbatim>\<open>utf8proc.c\<close> (normalisation, case mapping) is vendored code nothing here calls. Directories are implicit in path
  names. \<^verbatim>\<open>modem.h\<close> is an interface without an implementation. Log lines and the sleep call have no effect in the model. The
  clocks of the screens answer the same throughout one event. The Go server under
  \<^verbatim>\<open>src/internal\<close> is another program; only its wire types are used.
\<close>

end
